(* ===== verification/Prelude.thy ===== *)
theory Prelude
  imports Complex_Main "HOL-Library.Product_Lexorder" "HOL-Library.List_Lexorder" "HOL-Library.Char_ord"
    "HOL-Library.Multiset"
begin

text \<open>
  Shared vocabulary of the development: actions that pass a state and may raise, the rows
  of a database table under a guarded update, dictionaries as association lists in
  insertion order, Python's text as lists of code points, and the proof collections the
  component theories use.
\<close>

named_theorems obeys_intros \<open>rules that follow an action along the code's control flow\<close>

section \<open>Actions: state passing with exceptions\<close>

text \<open>
  An action takes the state and returns an exception (\<open>Inl\<close>) or a value (\<open>Inr\<close>), and the
  state it leaves: an exception does not undo what was written before it.
\<close>

type_synonym ('s, 'e, 'a) action = "'s \<Rightarrow> ('e + 'a) \<times> 's"

definition returnA :: "'a \<Rightarrow> ('s, 'e, 'a) action" where
  "returnA x = (\<lambda>s. (Inr x, s))"

definition raiseA :: "'e \<Rightarrow> ('s, 'e, 'a) action" where
  "raiseA e = (\<lambda>s. (Inl e, s))"

definition bindA :: "('s, 'e, 'a) action \<Rightarrow> ('a \<Rightarrow> ('s, 'e, 'b) action) \<Rightarrow> ('s, 'e, 'b) action" where
  "bindA m f = (\<lambda>s. case m s of (Inl e, t) \<Rightarrow> (Inl e, t) | (Inr x, t) \<Rightarrow> f x t)"

definition thenA :: "('s, 'e, 'a) action \<Rightarrow> ('s, 'e, 'b) action \<Rightarrow> ('s, 'e, 'b) action" where
  "thenA m k = bindA m (\<lambda>_. k)"

text \<open>\<open>tryA m ok handler\<close>: a \<open>try\<close> with an \<open>else\<close> branch; the handler sees the exception.\<close>

definition tryA ::
  "('s, 'e, 'a) action \<Rightarrow> ('a \<Rightarrow> ('s, 'e, 'b) action) \<Rightarrow> ('e \<Rightarrow> ('s, 'e, 'b) action) \<Rightarrow> ('s, 'e, 'b) action"
  where
  "tryA m ok handler = (\<lambda>s. case m s of (Inl e, t) \<Rightarrow> handler e t | (Inr x, t) \<Rightarrow> ok x t)"

text \<open>A loop over a list that carries local variables and stops at the first exception.\<close>

fun foldA :: "('x \<Rightarrow> 'a \<Rightarrow> ('s, 'e, 'a) action) \<Rightarrow> 'x list \<Rightarrow> 'a \<Rightarrow> ('s, 'e, 'a) action" where
  "foldA f [] a = returnA a"
| "foldA f (x # xs) a = bindA (f x a) (foldA f xs)"

lemmas action_defs = returnA_def raiseA_def bindA_def thenA_def tryA_def

lemma bindA_returnA [simp]: "bindA (returnA x) f = f x"
  by (simp add: action_defs)

lemma bindA_raiseA [simp]: "bindA (raiseA e) f = raiseA e"
  by (simp add: action_defs)

lemma bindA_assoc: "bindA (bindA m f) g = bindA m (\<lambda>x. bindA (f x) g)"
  by (auto simp: bindA_def fun_eq_iff split: prod.splits sum.splits)

lemma bindA_Inr: "bindA m f s = (Inr y, t) \<longleftrightarrow> (\<exists>x u. m s = (Inr x, u) \<and> f x u = (Inr y, t))"
  by (auto simp: bindA_def split: prod.splits sum.splits)

lemma bindA_Inl:
  "bindA m f s = (Inl e, t) \<longleftrightarrow> m s = (Inl e, t) \<or> (\<exists>x u. m s = (Inr x, u) \<and> f x u = (Inl e, t))"
  by (auto simp: bindA_def split: prod.splits sum.splits)

lemma thenA_Inr: "thenA m k s = (Inr y, t) \<longleftrightarrow> (\<exists>x u. m s = (Inr x, u) \<and> k u = (Inr y, t))"
  by (simp add: thenA_def bindA_Inr)

lemma thenA_Inl:
  "thenA m k s = (Inl e, t) \<longleftrightarrow> m s = (Inl e, t) \<or> (\<exists>x u. m s = (Inr x, u) \<and> k u = (Inl e, t))"
  by (simp add: thenA_def bindA_Inl)

lemmas action_results = bindA_Inr bindA_Inl thenA_Inr thenA_Inl

lemma returnA_eq [simp]: "returnA x s = (r, t) \<longleftrightarrow> r = Inr x \<and> t = s"
  by (auto simp: returnA_def)

lemma raiseA_eq [simp]: "raiseA e s = (r, t) \<longleftrightarrow> r = Inl e \<and> t = s"
  by (auto simp: raiseA_def)

subsection \<open>What an action may do to the state\<close>

text \<open>
  \<open>obeys R m\<close>: whatever \<open>m\<close> returns or raises, the state it leaves is related by \<open>R\<close> to
  the one it started in. With a reflexive, transitive \<open>R\<close> it follows the control flow.
\<close>

definition obeys :: "('s \<Rightarrow> 's \<Rightarrow> bool) \<Rightarrow> ('s, 'e, 'a) action \<Rightarrow> bool" where
  "obeys R m \<longleftrightarrow> (\<forall>s. R s (snd (m s)))"

lemma obeysD: "obeys R m \<Longrightarrow> R s (snd (m s))"
  by (simp add: obeys_def)

lemma obeysI: "(\<And>s. R s (snd (m s))) \<Longrightarrow> obeys R m"
  by (simp add: obeys_def)

locale state_order =
  fixes R :: "'s \<Rightarrow> 's \<Rightarrow> bool"
  assumes R_refl: "R s s"
    and R_trans: "R s t \<Longrightarrow> R t u \<Longrightarrow> R s u"
begin

lemma obeys_return: "obeys R (returnA x)"
  by (simp add: obeys_def returnA_def R_refl)

lemma obeys_raise: "obeys R (raiseA e)"
  by (simp add: obeys_def raiseA_def R_refl)

text \<open>Only the values the first action can return matter to the second.\<close>

lemma obeys_bind_result:
  assumes "obeys R m" and "\<And>x s t. m s = (Inr x, t) \<Longrightarrow> obeys R (f x)"
  shows "obeys R (bindA m f)"
proof (rule obeysI)
  fix s
  obtain r t where m: "m s = (r, t)" by fastforce
  have "R s t" using obeysD [OF assms(1), of s] m by simp
  then show "R s (snd (bindA m f s))"
    using m assms(2) [of s _ t] by (cases r) (auto simp: bindA_def intro: R_trans obeysD)
qed

lemma obeys_bind: "obeys R m \<Longrightarrow> (\<And>x. obeys R (f x)) \<Longrightarrow> obeys R (bindA m f)"
  by (rule obeys_bind_result)

lemma obeys_then: "obeys R m \<Longrightarrow> obeys R k \<Longrightarrow> obeys R (thenA m k)"
  unfolding thenA_def by (rule obeys_bind)

lemma obeys_try:
  assumes "obeys R m" and "\<And>x. obeys R (ok x)" and "\<And>e. obeys R (handler e)"
  shows "obeys R (tryA m ok handler)"
proof (rule obeysI)
  fix s
  obtain r t where m: "m s = (r, t)" by fastforce
  have "R s t" using obeysD [OF assms(1), of s] m by simp
  moreover have "R t (snd (ok x t))" "R t (snd (handler e t))" for x e
    using assms(2,3) by (simp_all add: obeysD)
  ultimately show "R s (snd (tryA m ok handler s))"
    using m by (cases r) (auto simp: tryA_def intro: R_trans)
qed

lemma obeys_fold:
  assumes "\<And>x a. obeys R (f x a)"
  shows "obeys R (foldA f xs a)"
  by (induction xs arbitrary: a) (simp_all add: obeys_return obeys_bind assms)

lemma obeys_if: "obeys R m \<Longrightarrow> obeys R k \<Longrightarrow> obeys R (if b then m else k)"
  by simp

lemma obeys_option:
  "obeys R m \<Longrightarrow> (\<And>x. obeys R (f x)) \<Longrightarrow> obeys R (case v of None \<Rightarrow> m | Some x \<Rightarrow> f x)"
  by (cases v) simp_all

lemmas obeys_flow = obeys_return obeys_raise obeys_bind obeys_then obeys_try
  obeys_fold obeys_if obeys_option

end

section \<open>Rows of a table\<close>

text \<open>
  \<open>UPDATE \<dots> SET \<dots> WHERE p\<close> over the rows of a table, and the ids its \<open>RETURNING\<close> gives,
  in the rows' order. \<open>row_by\<close> is \<open>session.get\<close>: the row with a primary key.
\<close>

definition update_rows :: "('r \<Rightarrow> bool) \<Rightarrow> ('r \<Rightarrow> 'r) \<Rightarrow> 'r list \<Rightarrow> 'r list" where
  "update_rows p f rows = map (\<lambda>r. if p r then f r else r) rows"

definition row_by :: "('r \<Rightarrow> nat) \<Rightarrow> nat \<Rightarrow> 'r list \<Rightarrow> 'r option" where
  "row_by key i rows = find (\<lambda>r. key r = i) rows"

lemma update_rows_simps [simp]:
  "update_rows p f [] = []"
  "update_rows p f (r # rs) = (if p r then f r else r) # update_rows p f rs"
  "update_rows p f (xs @ ys) = update_rows p f xs @ update_rows p f ys"
  "length (update_rows p f xs) = length xs"
  by (simp_all add: update_rows_def)

lemma set_update_rows: "set (update_rows p f rows) = (\<lambda>r. if p r then f r else r) ` set rows"
  by (simp add: update_rows_def)

lemma update_rows_keeps: "r \<in> set rows \<Longrightarrow> \<not> p r \<Longrightarrow> r \<in> set (update_rows p f rows)"
  by (force simp: set_update_rows)

lemma map_update_rows: "(\<And>r. p r \<Longrightarrow> key (f r) = key r) \<Longrightarrow> map key (update_rows p f rows) = map key rows"
  by (simp add: update_rows_def)

lemma key_set_update_rows: "(\<And>r. key (f r) = key r) \<Longrightarrow> key ` set (update_rows p f rows) = key ` set rows"
  by (induction rows) auto

lemma all_update_rows:
  "(\<And>r. Q (f r) = Q r) \<Longrightarrow> (\<forall>r \<in> set (update_rows p f rows). Q r) = (\<forall>r \<in> set rows. Q r)"
  by (induction rows) auto

lemma update_rows_none: "\<forall>r \<in> set rows. \<not> p r \<Longrightarrow> update_rows p f rows = rows"
  by (induction rows) auto

lemma row_by_Some: "row_by key i rows = Some r \<Longrightarrow> r \<in> set rows \<and> key r = i"
  by (auto simp: row_by_def find_Some_iff)

lemma row_by_None: "row_by key i rows = None \<longleftrightarrow> i \<notin> key ` set rows"
  by (auto simp: row_by_def find_None_iff)

lemma row_by_in: "distinct (map key rows) \<Longrightarrow> r \<in> set rows \<Longrightarrow> row_by key (key r) rows = Some r"
  by (induction rows) (auto simp: row_by_def)

lemma find_append:
  "find P (xs @ ys) = (case find P xs of None \<Rightarrow> find P ys | Some x \<Rightarrow> Some x)"
  by (induction xs) auto

lemma find_update_rows:
  "(\<And>r. P (if q r then f r else r) = P r) \<Longrightarrow>
   find P (update_rows q f rows) = map_option (\<lambda>r. if q r then f r else r) (find P rows)"
  by (induction rows) auto

lemma distinct_map_eq: "distinct (map key rows) \<Longrightarrow> r \<in> set rows \<Longrightarrow> r' \<in> set rows \<Longrightarrow> key r = key r' \<Longrightarrow> r = r'"
  by (metis distinct_map inj_onD)

lemma find_None: "find P xs = None \<longleftrightarrow> (\<forall>x \<in> set xs. \<not> P x)"
  by (auto simp: find_None_iff)

lemma find_first: "find P xs = Some x \<Longrightarrow> x \<in> set xs \<and> P x"
  by (auto simp: find_Some_iff)

lemma row_by_update:
  "(\<And>r. p r \<Longrightarrow> key (f r) = key r) \<Longrightarrow>
   row_by key i (update_rows p f rows) = map_option (\<lambda>r. if p r then f r else r) (row_by key i rows)"
  by (induction rows) (auto simp: row_by_def)

section \<open>Dictionaries and sets in insertion order\<close>

text \<open>
  A Python \<open>dict\<close> keeps the order its keys were first set in: an association list with
  distinct keys. \<open>dict_set d k v\<close> is \<open>d[k] = v\<close>; \<open>dict_get\<close> is \<open>d.get(k)\<close>.
\<close>

type_synonym ('k, 'v) dict = "('k \<times> 'v) list"

fun dict_set :: "'k \<Rightarrow> 'v \<Rightarrow> ('k, 'v) dict \<Rightarrow> ('k, 'v) dict" where
  "dict_set k v [] = [(k, v)]"
| "dict_set k v ((k', v') # d) = (if k' = k then (k, v) # d else (k', v') # dict_set k v d)"

definition dict_get :: "('k, 'v) dict \<Rightarrow> 'k \<Rightarrow> 'v option" where
  "dict_get d k = map_of d k"

definition dict_keys :: "('k, 'v) dict \<Rightarrow> 'k list" where
  "dict_keys d = map fst d"

lemma dict_get_set: "dict_get (dict_set k v d) k' = (if k' = k then Some v else dict_get d k')"
  by (induction d) (auto simp: dict_get_def)

lemma dict_keys_set:
  "dict_keys (dict_set k v d) = (if k \<in> set (dict_keys d) then dict_keys d else dict_keys d @ [k])"
  by (induction d) (force simp: dict_keys_def)+

lemma set_dict_set: "set (dict_set k v m) \<subseteq> insert (k, v) (set m)"
  by (induction m) (auto split: if_splits)

lemma distinct_dict_set: "distinct (dict_keys d) \<Longrightarrow> distinct (dict_keys (dict_set k v d))"
  by (simp add: dict_keys_set)

lemma dict_get_None: "dict_get d k = None \<longleftrightarrow> k \<notin> set (dict_keys d)"
  by (simp add: dict_get_def dict_keys_def map_of_eq_None_iff)

text \<open>\<open>unique xs\<close> is \<open>list(dict.fromkeys(xs))\<close>: each value once, where it first stood.\<close>

fun unique :: "'a list \<Rightarrow> 'a list" where
  "unique [] = []"
| "unique (x # xs) = x # filter (\<lambda>y. y \<noteq> x) (unique xs)"

lemma set_unique [simp]: "set (unique xs) = set xs"
  by (induction xs) auto

lemma distinct_unique [simp]: "distinct (unique xs)"
  by (induction xs) auto

lemma unique_Nil_iff [simp]: "unique xs = [] \<longleftrightarrow> xs = []"
  by (cases xs) auto

lemma unique_distinct: "distinct xs \<Longrightarrow> unique xs = xs"
proof (induction xs)
  case (Cons x xs)
  then have "filter (\<lambda>y. y \<noteq> x) xs = xs" by (auto intro: filter_True)
  with Cons show ?case by simp
qed simp

lemma in_map_filter: "y \<in> set (List.map_filter f xs) \<longleftrightarrow> (\<exists>x \<in> set xs. f x = Some y)"
  by (induction xs) (auto simp: List.map_filter_simps split: option.splits)

section \<open>JSON\<close>

text \<open>The values of a JSONB column.\<close>

datatype json =
    JNull
  | JBool bool
  | JInt int
  | JText string
  | JList "json list"
  | JObject "(string \<times> json) list"

section \<open>Numbers in messages\<close>

text \<open>\<open>str(n)\<close> of a natural number.\<close>

fun digits_of :: "nat \<Rightarrow> string" where
  "digits_of n = (if n < 10 then [char_of (48 + n)]
     else digits_of (n div 10) @ [char_of (48 + n mod 10)])"

declare digits_of.simps [simp del]

section \<open>Text as code points\<close>

text \<open>
  The texts the program compares are Russian. A Python \<open>str\<close> is a list of Unicode code
  points; \<open>ascii\<close> writes an ASCII constant, \<open>ru\<close> a lower-case Russian one, one letter of
  the transliteration per letter (\<open>Z\<close> zhe, \<open>h\<close> ha, \<open>c\<close> tse, \<open>C\<close> che, \<open>S\<close> sha, \<open>W\<close> shcha,
  \<open>Y\<close> hard sign, \<open>y\<close> yery, \<open>q\<close> soft sign, \<open>E\<close> e, \<open>U\<close> yu, \<open>A\<close> ya, \<open>Q\<close> yo; any other
  character stands for itself).
\<close>

type_synonym ustr = "int list"

definition ascii :: "string \<Rightarrow> ustr" where
  "ascii s = map of_char s"

definition ru_letters :: "string" where
  "ru_letters = ''abvgdeZzijklmnoprstufhcCSWYyqEUA''"

fun ru_index :: "char \<Rightarrow> string \<Rightarrow> int \<Rightarrow> int option" where
  "ru_index c [] i = None"
| "ru_index c (x # xs) i = (if x = c then Some i else ru_index c xs (i + 1))"

definition ru_char :: "char \<Rightarrow> int" where
  "ru_char c = (if c = CHR ''Q'' then 1105
     else case ru_index c ru_letters 1072 of Some n \<Rightarrow> n | None \<Rightarrow> of_char c)"

definition ru :: "string \<Rightarrow> ustr" where
  "ru s = map ru_char s"

text \<open>White space as \<open>str.split()\<close> and \<open>str.strip()\<close> see it.\<close>

definition is_space :: "int \<Rightarrow> bool" where
  "is_space c \<longleftrightarrow> (9 \<le> c \<and> c \<le> 13) \<or> (28 \<le> c \<and> c \<le> 32) \<or> c = 133 \<or> c = 160 \<or> c = 5760 \<or>
     (8192 \<le> c \<and> c \<le> 8202) \<or> c = 8232 \<or> c = 8233 \<or> c = 8239 \<or> c = 8287 \<or> c = 12288"

definition strip :: "ustr \<Rightarrow> ustr" where
  "strip t = rev (dropWhile is_space (rev (dropWhile is_space t)))"

text \<open>The same for the ASCII strings of settings and headers.\<close>

definition strip_string :: "string \<Rightarrow> string" where
  "strip_string t = rev (dropWhile (\<lambda>c. is_space (of_char c)) (rev (dropWhile (\<lambda>c. is_space (of_char c)) t)))"

text \<open>\<open>str.split()\<close>: the maximal runs of other characters, none of them empty.\<close>

fun words_acc :: "ustr \<Rightarrow> ustr \<Rightarrow> ustr list" where
  "words_acc [] acc = (if acc = [] then [] else [rev acc])"
| "words_acc (c # cs) acc =
     (if is_space c then (if acc = [] then words_acc cs [] else rev acc # words_acc cs [])
      else words_acc cs (c # acc))"

definition words :: "ustr \<Rightarrow> ustr list" where
  "words t = words_acc t []"

text \<open>\<open>sep.join(parts)\<close>.\<close>

fun join_text :: "'a list \<Rightarrow> 'a list list \<Rightarrow> 'a list" where
  "join_text sep [] = []"
| "join_text sep [w] = w"
| "join_text sep (w # ws) = w @ sep @ join_text sep ws"

text \<open>\<open>str.split(sep)\<close> by one code point: empty parts included.\<close>

fun split_at :: "int \<Rightarrow> ustr \<Rightarrow> ustr list" where
  "split_at sep [] = [[]]"
| "split_at sep (c # cs) = (if c = sep then [] # split_at sep cs
     else case split_at sep cs of p # ps \<Rightarrow> (c # p) # ps | [] \<Rightarrow> [[c]])"

abbreviation space :: ustr where
  "space \<equiv> [32]"

definition ends_with :: "ustr \<Rightarrow> ustr \<Rightarrow> bool" where
  "ends_with t suffix \<longleftrightarrow> length suffix \<le> length t \<and> drop (length t - length suffix) t = suffix"

definition starts_with :: "ustr \<Rightarrow> ustr \<Rightarrow> bool" where
  "starts_with t prefix \<longleftrightarrow> take (length prefix) t = prefix"

lemma words_acc_nonempty: "w \<in> set (words_acc cs acc) \<Longrightarrow> w \<noteq> []"
  by (induction cs acc rule: words_acc.induct) (auto split: if_splits)

lemma words_nonempty: "w \<in> set (words t) \<Longrightarrow> w \<noteq> []"
  unfolding words_def by (rule words_acc_nonempty)

lemma words_acc_no_space:
  "list_all (\<lambda>c. \<not> is_space c) acc \<Longrightarrow> list_all (list_all (\<lambda>c. \<not> is_space c)) (words_acc cs acc)"
  by (induction cs acc rule: words_acc.induct) simp_all

lemma words_no_space: "w \<in> set (words t) \<Longrightarrow> c \<in> set w \<Longrightarrow> \<not> is_space c"
  using words_acc_no_space [of "[]" t] by (simp add: words_def list_all_iff)

text \<open>The Unicode character database Python's \<open>str\<close> methods consult: a table, passed in.\<close>

record unicode =
  lower_text :: "ustr \<Rightarrow> ustr"
  nfkc :: "ustr \<Rightarrow> ustr"
  is_alpha :: "int \<Rightarrow> bool"
  is_decimal :: "int \<Rightarrow> bool"
  is_alnum :: "int \<Rightarrow> bool"

text \<open>Its rows for basic Latin and the Russian alphabet, where the examples lie.\<close>

definition lower_ru_char :: "int \<Rightarrow> int" where
  "lower_ru_char c = (if (65 \<le> c \<and> c \<le> 90) \<or> (1040 \<le> c \<and> c \<le> 1071) then c + 32
     else if c = 1025 then 1105 else c)"

definition alpha_ru_char :: "int \<Rightarrow> bool" where
  "alpha_ru_char c \<longleftrightarrow> (65 \<le> c \<and> c \<le> 90) \<or> (97 \<le> c \<and> c \<le> 122) \<or> (1040 \<le> c \<and> c \<le> 1103)
     \<or> c = 1025 \<or> c = 1105"

definition russian :: unicode where
  "russian = \<lparr>lower_text = map lower_ru_char, nfkc = (\<lambda>t. t), is_alpha = alpha_ru_char,
     is_decimal = (\<lambda>c. 48 \<le> c \<and> c \<le> 57),
     is_alnum = (\<lambda>c. alpha_ru_char c \<or> (48 \<le> c \<and> c \<le> 57))\<rparr>"

end
