(* ===== verification/Fenced_Runs.thy ===== *)
theory Fenced_Runs
  imports Prelude
begin

text \<open>
  The discipline the two run tables of the orchestrator share (\<open>monitoring_runs\<close> and
  \<open>operator_operation_runs\<close>): a row is live or it is finished, a finished row is never
  written again, and at most one row per slot (a scope, an operation) is live. The laws are
  those of one committed transaction; what follows from them over any interleaving of the
  processes' transactions is proved once.
\<close>

locale fenced_runs =
  fixes rows :: "'db \<Rightarrow> 'r list"
    and key :: "'r \<Rightarrow> nat"
    and slot :: "'r \<Rightarrow> 'k"
    and live :: "'r \<Rightarrow> bool"
    and next_key :: "'db \<Rightarrow> nat"
    and transaction :: "'db \<Rightarrow> 'db \<Rightarrow> bool"
  assumes rows_step: "distinct (map key (rows d)) \<Longrightarrow> transaction d d' \<Longrightarrow>
      \<exists>change new. rows d' = map change (rows d) @ new \<and> length new \<le> 1 \<and>
        (\<forall>r \<in> set (rows d). key (change r) = key r \<and> slot (change r) = slot r \<and>
           (\<not> live r \<longrightarrow> change r = r)) \<and>
        (\<forall>n \<in> set new. key n = next_key d \<and> next_key d < next_key d' \<and>
           (\<forall>r \<in> set (rows d). live (change r) \<longrightarrow> slot r \<noteq> slot n))"
    and next_key_step: "transaction d d' \<Longrightarrow> next_key d \<le> next_key d'"
begin

definition sound :: "'db \<Rightarrow> bool" where
  "sound d \<longleftrightarrow> sorted_wrt (<) (map key (rows d)) \<and> (\<forall>r \<in> set (rows d). key r < next_key d) \<and>
     (\<forall>r \<in> set (rows d). \<forall>r' \<in> set (rows d). live r \<and> live r' \<and> slot r = slot r' \<longrightarrow> r = r')"

lemma sound_distinct: "sound d \<Longrightarrow> distinct (map key (rows d))"
  by (simp add: sound_def strict_sorted_iff)

lemma sound_key: "sound d \<Longrightarrow> r \<in> set (rows d) \<Longrightarrow> r' \<in> set (rows d) \<Longrightarrow> key r = key r' \<Longrightarrow> r = r'"
  using sound_distinct distinct_map_eq by metis

lemma sound_step:
  assumes "sound d" and "transaction d d'"
  shows "sound d'"
proof -
  obtain change new where rows: "rows d' = map change (rows d) @ new" and one: "length new \<le> 1"
    and kept: "\<And>r. r \<in> set (rows d) \<Longrightarrow> key (change r) = key r \<and> slot (change r) = slot r \<and> (\<not> live r \<longrightarrow> change r = r)"
    and new: "\<And>n. n \<in> set new \<Longrightarrow> key n = next_key d \<and> next_key d < next_key d' \<and>
      (\<forall>r \<in> set (rows d). live (change r) \<longrightarrow> slot r \<noteq> slot n)"
    using rows_step [OF sound_distinct [OF assms(1)] assms(2)] by blast
  have keys: "map key (map change (rows d)) = map key (rows d)" using kept by simp
  have live_before: "live r" if "r \<in> set (rows d)" "live (change r)" for r
    using kept that by metis
  have fresh: "\<forall>r \<in> set (rows d). key r < next_key d" using assms(1) by (simp add: sound_def)
  show ?thesis unfolding sound_def
  proof (intro conjI ballI impI)
    show "sorted_wrt (<) (map key (rows d'))"
    proof (cases new)
      case Nil
      then show ?thesis using assms(1) rows keys by (simp add: sound_def del: map_map)
    next
      case (Cons n ns)
      then have "new = [n]" "key n = next_key d" using one new by auto
      then show ?thesis
        using assms(1) rows keys fresh by (simp add: sound_def sorted_wrt_append del: map_map)
    qed
    show "key r < next_key d'" if "r \<in> set (rows d')" for r
      using that rows fresh kept new next_key_step [OF assms(2)] by (fastforce intro: less_le_trans)
    fix r r' assume r: "r \<in> set (rows d')" "r' \<in> set (rows d')" "live r \<and> live r' \<and> slot r = slot r'"
    have same: "n = n'" if "n \<in> set new" "n' \<in> set new" for n n'
      using that one by (cases new) auto
    have old: "q = q'" if "q \<in> set (rows d)" "q' \<in> set (rows d)" "live (change q)" "live (change q')"
        "slot q = slot q'" for q q'
      using assms(1) that live_before by (simp add: sound_def)
    show "r = r'"
      using r rows same old kept new by (auto; metis)
  qed
qed

lemma sound_steps: "transaction\<^sup>*\<^sup>* d d' \<Longrightarrow> sound d \<Longrightarrow> sound d'"
  by (induction rule: rtranclp_induct) (auto intro: sound_step)

text \<open>A finished row stays as it is, whatever any process does next.\<close>

lemma frozen_step:
  assumes "sound d" and "transaction d d'" and "r \<in> set (rows d)" and "\<not> live r"
  shows "r \<in> set (rows d')"
proof -
  obtain change new where rows: "rows d' = map change (rows d) @ new" and "change r = r"
    using rows_step [OF sound_distinct [OF assms(1)] assms(2)] assms(3,4) by blast
  then have "r \<in> set (map change (rows d))" using assms(3) by (metis image_eqI list.set_map)
  with rows show ?thesis by simp
qed

lemma frozen_steps:
  "transaction\<^sup>*\<^sup>* d d' \<Longrightarrow> sound d \<Longrightarrow> r \<in> set (rows d) \<Longrightarrow> \<not> live r \<Longrightarrow> r \<in> set (rows d')"
  by (induction rule: rtranclp_induct) (auto intro: frozen_step sound_steps)

text \<open>No row is lost, and a row keeps its slot.\<close>

lemma kept_steps:
  assumes "transaction\<^sup>*\<^sup>* d d'" and "sound d" and "r \<in> set (rows d)"
  shows "\<exists>r' \<in> set (rows d'). key r' = key r \<and> slot r' = slot r"
  using assms
proof (induction rule: rtranclp_induct)
  case (step d1 d2)
  then obtain r1 where r1: "r1 \<in> set (rows d1)" "key r1 = key r" "slot r1 = slot r" by blast
  obtain change new where rows: "rows d2 = map change (rows d1) @ new"
    and change: "key (change r1) = key r1 \<and> slot (change r1) = slot r1"
    using rows_step [OF sound_distinct [OF sound_steps [OF step(1,4)]] step(2)] r1(1) by blast
  have "change r1 \<in> set (rows d2)" using rows r1(1) by simp
  then show ?case using change r1(2,3) by metis
qed auto

text \<open>So a process that finds its row finished knows it finished for good.\<close>

lemma finished_for_good:
  assumes "sound d" and "transaction\<^sup>*\<^sup>* d d'" and "r \<in> set (rows d)" and "\<not> live r"
    and "r' \<in> set (rows d')" and "key r' = key r"
  shows "r' = r"
  using sound_key [OF sound_steps [OF assms(2,1)] assms(5) frozen_steps [OF assms(2,1,3,4)] assms(6)] .

end

end
