(* ===== verification/Errors.thy ===== *)
theory Errors
  imports Prelude
begin

text \<open>
  The exceptions the modelled code raises, catches and tells apart
  (\<open>monitor_core/errors.py\<close>, \<open>orchestrator/models.py\<close>, and the httpx, SQLAlchemy and
  built-in ones they name), with the \<open>isinstance\<close> tests the code makes of them.
\<close>

section \<open>The exception classes\<close>

text \<open>
  What httpx raises for a request. \<open>OtherTransportError\<close> stands for the subclasses of
  \<open>httpx.TransportError\<close> the code does not name (a proxy's, an unsupported protocol's).
\<close>

datatype http_failure =
    HTTPStatusError int "string option"
  | TimeoutException
  | NetworkError
  | RemoteProtocolError
  | OtherTransportError

text \<open>
  \<open>DatabaseError operational invalidated message original\<close> is SQLAlchemy's \<open>DBAPIError\<close>
  with its \<open>connection_invalidated\<close> flag, its text with the SQL parameters and the text of
  the driver's own error (\<open>orig\<close>). \<open>Interrupt\<close> is an exception that is no \<open>Exception\<close>:
  \<open>KeyboardInterrupt\<close>, \<open>SystemExit\<close>, a cancellation.
\<close>

datatype exn =
    IngestionError string
  | FetchError string
  | TransientFetchError string "rat option"
  | PermanentFetchError string
  | ParseError string
  | NoTextError string
  | PersistenceError string
  | DiscoveryError string
  | TransientDiscoveryError string
  | PermanentDiscoveryError string
  | ListingPageNotFoundError string
  | MonitoringAlreadyRunningError string "nat option"
  | MonitoringRunAbortedError nat
  | ExtractionFailedError string
  | Http http_failure
  | DatabaseError bool bool string "string option"
  | ConnectionError string
  | TimeoutError string
  | ValueError string
  | LookupError string
  | OtherException string string
  | Interrupt string

section \<open>isinstance\<close>

fun is_fetch_error :: "exn \<Rightarrow> bool" where
  "is_fetch_error (FetchError _) = True"
| "is_fetch_error (TransientFetchError _ _) = True"
| "is_fetch_error (PermanentFetchError _) = True"
| "is_fetch_error _ = False"

fun is_parse_error :: "exn \<Rightarrow> bool" where
  "is_parse_error (ParseError _) = True"
| "is_parse_error (NoTextError _) = True"
| "is_parse_error _ = False"

fun is_persistence_error :: "exn \<Rightarrow> bool" where
  "is_persistence_error (PersistenceError _) = True"
| "is_persistence_error _ = False"

definition is_ingestion_error :: "exn \<Rightarrow> bool" where
  "is_ingestion_error e \<longleftrightarrow> is_fetch_error e \<or> is_parse_error e \<or> is_persistence_error e
     \<or> (case e of IngestionError _ \<Rightarrow> True | _ \<Rightarrow> False)"

fun is_transient_fetch_error :: "exn \<Rightarrow> bool" where
  "is_transient_fetch_error (TransientFetchError _ _) = True"
| "is_transient_fetch_error _ = False"

fun is_permanent_discovery_error :: "exn \<Rightarrow> bool" where
  "is_permanent_discovery_error (PermanentDiscoveryError _) = True"
| "is_permanent_discovery_error (ListingPageNotFoundError _) = True"
| "is_permanent_discovery_error _ = False"

definition is_discovery_error :: "exn \<Rightarrow> bool" where
  "is_discovery_error e \<longleftrightarrow> is_permanent_discovery_error e
     \<or> (case e of DiscoveryError _ \<Rightarrow> True | TransientDiscoveryError _ \<Rightarrow> True | _ \<Rightarrow> False)"

text \<open>Whether \<open>except Exception\<close> catches it.\<close>

fun is_exception :: "exn \<Rightarrow> bool" where
  "is_exception (Interrupt _) = False"
| "is_exception _ = True"

fun is_transport_error :: "exn \<Rightarrow> bool" where
  "is_transport_error (Http (HTTPStatusError _ _)) = False"
| "is_transport_error (Http _) = True"
| "is_transport_error _ = False"

fun is_sqlalchemy_error :: "exn \<Rightarrow> bool" where
  "is_sqlalchemy_error (DatabaseError _ _ _ _) = True"
| "is_sqlalchemy_error _ = False"

lemma ingestion_error_is_exception: "is_ingestion_error e \<Longrightarrow> is_exception e"
  by (cases e) (auto simp: is_ingestion_error_def)

section \<open>Telling failures apart\<close>

text \<open>\<open>orchestrator/models.py: FailureKind, classify_failure\<close>.\<close>

datatype failure_kind = RETRYABLE | NON_RETRYABLE

fun classify_failure :: "exn \<Rightarrow> failure_kind" where
  "classify_failure (TransientFetchError _ _) = RETRYABLE"
| "classify_failure (TransientDiscoveryError _) = RETRYABLE"
| "classify_failure (PersistenceError _) = RETRYABLE"
| "classify_failure (ConnectionError _) = RETRYABLE"
| "classify_failure (TimeoutError _) = RETRYABLE"
| "classify_failure (Http h) = (if is_transport_error (Http h) then RETRYABLE else NON_RETRYABLE)"
| "classify_failure (DatabaseError operational invalidated _ _) =
     (if operational then RETRYABLE else if invalidated then RETRYABLE else NON_RETRYABLE)"
| "classify_failure _ = NON_RETRYABLE"

text \<open>\<open>monitor_core/retry.py: transient_http_error\<close>.\<close>

definition transient_status :: int where
  "transient_status = 429"

definition server_error :: int where
  "server_error = 500"

fun transient_http_error :: "exn \<Rightarrow> bool" where
  "transient_http_error (Http (HTTPStatusError status _)) =
     (status = transient_status \<or> status \<ge> server_error)"
| "transient_http_error (Http TimeoutException) = True"
| "transient_http_error (Http NetworkError) = True"
| "transient_http_error (Http RemoteProtocolError) = True"
| "transient_http_error _ = False"

section \<open>Their text\<close>

text \<open>\<open>type(error).__name__\<close> and \<open>str(error)\<close>.\<close>

fun error_type :: "exn \<Rightarrow> string" where
  "error_type (IngestionError _) = ''IngestionError''"
| "error_type (FetchError _) = ''FetchError''"
| "error_type (TransientFetchError _ _) = ''TransientFetchError''"
| "error_type (PermanentFetchError _) = ''PermanentFetchError''"
| "error_type (ParseError _) = ''ParseError''"
| "error_type (NoTextError _) = ''NoTextError''"
| "error_type (PersistenceError _) = ''PersistenceError''"
| "error_type (DiscoveryError _) = ''DiscoveryError''"
| "error_type (TransientDiscoveryError _) = ''TransientDiscoveryError''"
| "error_type (PermanentDiscoveryError _) = ''PermanentDiscoveryError''"
| "error_type (ListingPageNotFoundError _) = ''ListingPageNotFoundError''"
| "error_type (MonitoringAlreadyRunningError _ _) = ''MonitoringAlreadyRunningError''"
| "error_type (MonitoringRunAbortedError _) = ''MonitoringRunAbortedError''"
| "error_type (ExtractionFailedError _) = ''ExtractionFailedError''"
| "error_type (Http (HTTPStatusError _ _)) = ''HTTPStatusError''"
| "error_type (Http TimeoutException) = ''TimeoutException''"
| "error_type (Http NetworkError) = ''NetworkError''"
| "error_type (Http RemoteProtocolError) = ''RemoteProtocolError''"
| "error_type (Http OtherTransportError) = ''TransportError''"
| "error_type (DatabaseError operational _ _ _) =
     (if operational then ''OperationalError'' else ''DBAPIError'')"
| "error_type (ConnectionError _) = ''ConnectionError''"
| "error_type (TimeoutError _) = ''TimeoutError''"
| "error_type (ValueError _) = ''ValueError''"
| "error_type (LookupError _) = ''LookupError''"
| "error_type (OtherException name _) = name"
| "error_type (Interrupt name) = name"

definition run_text :: "nat option \<Rightarrow> string" where
  "run_text i = (case i of None \<Rightarrow> ''None'' | Some n \<Rightarrow> digits_of n)"

fun error_message :: "exn \<Rightarrow> string" where
  "error_message (IngestionError m) = m"
| "error_message (FetchError m) = m"
| "error_message (TransientFetchError m _) = m"
| "error_message (PermanentFetchError m) = m"
| "error_message (ParseError m) = m"
| "error_message (NoTextError m) = m"
| "error_message (PersistenceError m) = m"
| "error_message (DiscoveryError m) = m"
| "error_message (TransientDiscoveryError m) = m"
| "error_message (PermanentDiscoveryError m) = m"
| "error_message (ListingPageNotFoundError m) = m"
| "error_message (MonitoringAlreadyRunningError scope i) =
     ''Monitoring '' @ scope @ '' is already running (run '' @ run_text i @ '')''"
| "error_message (MonitoringRunAbortedError i) =
     ''Monitoring run '' @ digits_of i @ '' is no longer running; stopping its worker''"
| "error_message (ExtractionFailedError m) = m"
| "error_message (Http _) = []"
| "error_message (DatabaseError _ _ m _) = m"
| "error_message (ConnectionError m) = m"
| "error_message (TimeoutError m) = m"
| "error_message (ValueError m) = m"
| "error_message (LookupError m) = m"
| "error_message (OtherException _ m) = m"
| "error_message (Interrupt _) = []"

end
