(* ===== verification/Transactions.thy ===== *)
theory Transactions
  imports Errors "HOL-Library.Sublist"
begin

text \<open>
  One process among others on a shared database: between any two of its transactions the
  other processes commit what they like, and a transaction may fail with nothing written.
\<close>

text \<open>One transaction: an exception rolls it back.\<close>

type_synonym ('d, 'a) txn = "'d \<Rightarrow> (exn + 'a) \<times> 'd"

text \<open>A transaction that only reads.\<close>

definition reading :: "('d \<Rightarrow> 'a) \<Rightarrow> ('d, 'a) txn" where
  "reading f d = (Inr (f d), d)"

text \<open>
  The database, and the script of what happens around this process's transactions: what
  others commit before each and the failure the database answers it with, if any.
\<close>

record ('d, 'c) world =
  db :: 'd
  script :: "('c list \<times> exn option) list"

definition transact ::
  "('c \<Rightarrow> 'd \<Rightarrow> 'd) \<Rightarrow> ('d, 'a) txn \<Rightarrow> (('d, 'c, 'z) world_scheme, exn, 'a) action" where
  "transact perform operation w =
     (case script w of
        [] \<Rightarrow> (case operation (db w) of (r, d) \<Rightarrow> (r, w\<lparr>db := d\<rparr>))
      | (others, fault) # later \<Rightarrow>
          (let d = fold perform others (db w) in
           case fault of
             Some e \<Rightarrow> (Inl e, w\<lparr>db := d, script := later\<rparr>)
           | None \<Rightarrow> (case operation d of (r, d') \<Rightarrow> (r, w\<lparr>db := d', script := later\<rparr>))))"

lemma transact_quiet:
  "script w = [] \<Longrightarrow> transact perform operation w =
     (case operation (db w) of (r, d) \<Rightarrow> (r, w\<lparr>db := d\<rparr>))"
  by (simp add: transact_def)

lemma transact_script: "script w = [] \<Longrightarrow> script (snd (transact perform operation w)) = []"
  by (simp add: transact_def split: prod.split)

text \<open>
  Every transaction of the process, like those of the others, is a step of \<open>commits\<close>, and the
  script is used from its front.
\<close>

definition follows :: "('d \<Rightarrow> 'd \<Rightarrow> bool) \<Rightarrow> ('d, 'c, 'z) world_scheme \<Rightarrow> ('d, 'c, 'z) world_scheme \<Rightarrow> bool" where
  "follows commits w w' \<longleftrightarrow> commits\<^sup>*\<^sup>* (db w) (db w') \<and> suffix (script w') (script w)"

lemma state_order_follows: "state_order (follows commits)"
  by unfold_locales (auto simp: follows_def)

lemma followsD:
  "follows commits w w' \<Longrightarrow> commits\<^sup>*\<^sup>* (db w) (db w')"
  "follows commits w w' \<Longrightarrow> suffix (script w') (script w)"
  by (simp_all add: follows_def)

lemma others_commit: "(\<And>c d. commits d (perform c d)) \<Longrightarrow> commits\<^sup>*\<^sup>* d (fold perform cs d)"
  by (induction cs arbitrary: d) (auto intro: converse_rtranclp_into_rtranclp)

text \<open>What a transaction comes to: a failure, or its operation on what the others left.\<close>

lemma transact_cases:
  assumes "transact perform operation w = (r, w')"
  obtains (failed) others e where "r = Inl e" "db w' = fold perform others (db w)"
      "script w = (others, Some e) # script w'"
    | (committed) others where "operation (fold perform others (db w)) = (r, db w')"
      "script w = (others, None) # script w' \<or> script w = [] \<and> script w' = [] \<and> others = []"
proof (cases "script w")
  case Nil
  with assms show ?thesis
    by (intro committed [of "[]"]) (auto simp: transact_def split: prod.splits)
next
  case (Cons entry later)
  obtain others fault where entry: "entry = (others, fault)" by fastforce
  show ?thesis
  proof (cases fault)
    case None
    with assms Cons entry show ?thesis
      by (intro committed [of others]) (auto simp: transact_def Let_def split: prod.splits)
  next
    case (Some e)
    with assms Cons entry show ?thesis
      by (intro failed [of e others]) (auto simp: transact_def Let_def)
  qed
qed

lemma obeys_transact:
  assumes "\<And>c d. commits d (perform c d)" and "\<And>d. commits\<^sup>*\<^sup>* d (snd (operation d))"
  shows "obeys (follows commits) (transact perform operation)"
proof (rule obeysI)
  fix w
  obtain r w' where t: "transact perform operation w = (r, w')" by fastforce
  have "follows commits w w'"
    using t
  proof (cases rule: transact_cases)
    case (failed others e)
    then show ?thesis using others_commit [where commits = commits and perform = perform and d = "db w" and cs = others, OF assms(1)] by (auto simp: follows_def suffix_def)
  next
    case (committed others)
    have "commits\<^sup>*\<^sup>* (db w) (db w')"
      using others_commit [where commits = commits and perform = perform and d = "db w" and cs = others, OF assms(1)] assms(2) [of "fold perform others (db w)"] committed(1)
      by (simp add: rtranclp_trans)
    then show ?thesis using committed(2) by (auto simp: follows_def suffix_def)
  qed
  then show "follows commits w (snd (transact perform operation w))" by (simp add: t)
qed

text \<open>A script in which the database fails nothing.\<close>

definition faultless :: "('d, 'c, 'z) world_scheme \<Rightarrow> bool" where
  "faultless w \<longleftrightarrow> (\<forall>(others, fault) \<in> set (script w). fault = None)"

lemma faultless_follows: "follows commits w w' \<Longrightarrow> faultless w \<Longrightarrow> faultless w'"
  by (auto simp: follows_def faultless_def suffix_def)

end
