(* ===== verification/Monitoring_Runs.thy ===== *)
theory Monitoring_Runs
  imports Fenced_Runs Transactions
begin

text \<open>
  The orchestrator's run table and its operations (\<open>orchestrator/repository.py\<close>,
  \<open>models.py\<close>, \<open>storage/models.py\<close>): each operation is one short transaction on the
  database; other processes commit theirs between any two of them. Times are microseconds
  of the database clock.
\<close>

section \<open>The rows\<close>

datatype run_status = RUNNING | COMPLETED | COMPLETED_WITH_ERRORS | FAILED | ABORTED

datatype run_trigger = SCHEDULE | MANUAL | BACKFILL | DERIVED

datatype stage = DISCOVERY | INGESTION | EXTRACTION | RESOLUTION | AI_ENTITY_REVIEW
  | CLASSIFICATION | RF_MATCHING | SEMANTIC_INDEXING | FINDINGS

fun stage_value :: "stage \<Rightarrow> string" where
  "stage_value DISCOVERY = ''discovery''"
| "stage_value INGESTION = ''ingestion''"
| "stage_value EXTRACTION = ''extraction''"
| "stage_value RESOLUTION = ''resolution''"
| "stage_value AI_ENTITY_REVIEW = ''ai_entity_review''"
| "stage_value CLASSIFICATION = ''classification''"
| "stage_value RF_MATCHING = ''rf_matching''"
| "stage_value SEMANTIC_INDEXING = ''semantic_indexing''"
| "stage_value FINDINGS = ''findings''"

fun failure_kind_value :: "failure_kind \<Rightarrow> string" where
  "failure_kind_value RETRYABLE = ''retryable''"
| "failure_kind_value NON_RETRYABLE = ''non_retryable''"

definition source_scope :: "string \<Rightarrow> string" where
  "source_scope source = ''source:'' @ source"

definition derived_scope :: string where
  "derived_scope = ''derived''"

definition run_counters :: "string list" where
  "run_counters = [''documents_discovered'', ''documents_ingested'', ''documents_skipped'',
     ''documents_failed'', ''articles_extracted'', ''events_created'', ''persons_created'',
     ''persons_linked'', ''person_reviews_created'', ''classifications_created'',
     ''rf_matches_created'', ''semantic_entities_indexed'', ''findings_created'']"

record monitoring_run =
  run_id :: nat
  run_scope :: string
  run_source :: "string option"
  run_trigger :: run_trigger
  run_status :: run_status
  run_parameters :: "(string, json) dict"
  run_started_at :: int
  run_heartbeat_at :: int
  run_finished_at :: "int option"
  run_counts :: "(string, int) dict"
  run_error_count :: nat
  run_rf_snapshot :: "nat option"
  run_stage_metrics :: "(string, json) dict"
  run_error_message :: "string option"

record run_item =
  item_id :: nat
  item_run_id :: nat
  item_stage :: stage
  item_entity_type :: string
  item_entity_id :: "nat option"
  item_external_ref :: "string option"
  item_status :: string
  item_failure_kind :: failure_kind
  item_error_type :: string
  item_error_message :: string
  item_created_at :: int

record source_state =
  state_source :: string
  last_successful_run_id :: "nat option"
  last_successful_run_at :: "int option"
  last_discovered_at :: "int option"
  last_discovered_count :: int
  last_external_marker :: "string option"
  state_updated_at :: int

text \<open>The tables, the sequences of their keys and the database clock (\<open>now()\<close>).\<close>

record monitoring_db =
  runs :: "monitoring_run list"
  run_items :: "run_item list"
  source_states :: "source_state list"
  next_run :: nat
  next_item :: nat
  clock :: int

section \<open>Messages\<close>

definition max_error_message_chars :: nat where
  "max_error_message_chars = 2000"

text \<open>A statement error is told by its driver's text: the SQL parameters stay out of the log.\<close>

definition safe_message :: "exn \<Rightarrow> string" where
  "safe_message e = take max_error_message_chars
     (case e of DatabaseError _ _ _ (Some original) \<Rightarrow> original | _ \<Rightarrow> error_message e)"

definition error_text :: "exn \<Rightarrow> string" where
  "error_text e = take max_error_message_chars (error_type e @ '': '' @ safe_message e)"

section \<open>The transactions\<close>

text \<open>
  One transaction each: an exception rolls it back, so an operation that raises leaves the
  database as it was.
\<close>

definition minute :: int where
  "minute = 60000000"

definition stale_message :: "int \<Rightarrow> string" where
  "stale_message stale_after = ''stale: no heartbeat for '' @ digits_of (nat (stale_after div minute))
     @ '' minutes, process presumed dead''"

definition stale :: "int \<Rightarrow> monitoring_db \<Rightarrow> monitoring_run \<Rightarrow> bool" where
  "stale stale_after d r \<longleftrightarrow> run_status r = RUNNING \<and> run_heartbeat_at r < clock d - stale_after"

definition abort_stale_runs :: "int \<Rightarrow> (monitoring_db, nat list) txn" where
  "abort_stale_runs stale_after d =
     (Inr (map run_id (filter (stale stale_after d) (runs d))),
      d\<lparr>runs := update_rows (stale stale_after d)
          (\<lambda>r. r\<lparr>run_status := ABORTED, run_finished_at := Some (clock d),
                 run_error_message := Some (stale_message stale_after)\<rparr>) (runs d)\<rparr>)"

text \<open>
  The insert of \<open>start_run\<close>: \<open>None\<close> when \<open>uq_monitoring_runs_running_scope\<close> refuses it (the
  \<open>IntegrityError\<close>); the key drawn from the sequence is gone all the same.
\<close>

definition scope_running :: "string \<Rightarrow> monitoring_run \<Rightarrow> bool" where
  "scope_running scope r \<longleftrightarrow> run_scope r = scope \<and> run_status r = RUNNING"

definition new_run ::
  "nat \<Rightarrow> string \<Rightarrow> string option \<Rightarrow> run_trigger \<Rightarrow> (string, json) dict \<Rightarrow> int \<Rightarrow> monitoring_run" where
  "new_run i scope source trigger parameters moment =
     \<lparr>run_id = i, run_scope = scope, run_source = source, run_trigger = trigger,
      run_status = RUNNING, run_parameters = parameters, run_started_at = moment,
      run_heartbeat_at = moment, run_finished_at = None,
      run_counts = map (\<lambda>name. (name, 0)) run_counters, run_error_count = 0,
      run_rf_snapshot = None, run_stage_metrics = [], run_error_message = None\<rparr>"

lemma new_run_fields [simp]:
  "run_id (new_run i scope source trigger parameters moment) = i"
  "run_scope (new_run i scope source trigger parameters moment) = scope"
  "run_source (new_run i scope source trigger parameters moment) = source"
  "run_trigger (new_run i scope source trigger parameters moment) = trigger"
  "run_status (new_run i scope source trigger parameters moment) = RUNNING"
  "run_heartbeat_at (new_run i scope source trigger parameters moment) = moment"
  "run_finished_at (new_run i scope source trigger parameters moment) = None"
  "run_error_count (new_run i scope source trigger parameters moment) = 0"
  "run_counts (new_run i scope source trigger parameters moment) = map (\<lambda>name. (name, 0)) run_counters"
  "run_stage_metrics (new_run i scope source trigger parameters moment) = []"
  by (simp_all add: new_run_def)

definition insert_run ::
  "string \<Rightarrow> string option \<Rightarrow> run_trigger \<Rightarrow> (string, json) dict \<Rightarrow> (monitoring_db, nat option) txn" where
  "insert_run scope source trigger parameters d =
     (let i = next_run d; d' = d\<lparr>next_run := Suc i\<rparr> in
      if \<exists>r \<in> set (runs d). scope_running scope r then (Inr None, d')
      else (Inr (Some i), d'\<lparr>runs := runs d @
        [new_run i scope source trigger parameters (clock d)]\<rparr>))"

definition running_run_of :: "string \<Rightarrow> (monitoring_db, nat option) txn" where
  "running_run_of scope d = (Inr (map_option run_id (find (scope_running scope) (runs d))), d)"

text \<open>\<open>_update_running\<close>: the fence every write of a worker passes.\<close>

definition running_row :: "nat \<Rightarrow> monitoring_run \<Rightarrow> bool" where
  "running_row i r \<longleftrightarrow> run_id r = i \<and> run_status r = RUNNING"

definition update_running :: "nat \<Rightarrow> (monitoring_run \<Rightarrow> monitoring_run) \<Rightarrow> (monitoring_db, unit) txn" where
  "update_running i f d =
     (if \<exists>r \<in> set (runs d). running_row i r
      then (Inr (), d\<lparr>runs := update_rows (running_row i) f (runs d)\<rparr>)
      else (Inl (MonitoringRunAbortedError i), d))"

definition heartbeat :: "nat \<Rightarrow> (monitoring_db, unit) txn" where
  "heartbeat i d = update_running i (\<lambda>r. r\<lparr>run_heartbeat_at := clock d\<rparr>) d"

text \<open>\<open>str()\<close> of a list of plain names.\<close>

definition name_list :: "string list \<Rightarrow> string" where
  "name_list names = ''['' @ join_text '', '' (map (\<lambda>name. CHR 0x27 # name @ [CHR 0x27]) names) @ '']''"

definition added :: "(string, int) dict \<Rightarrow> string \<times> int \<Rightarrow> string \<times> int" where
  "added amounts = (\<lambda>(name, n). (name, n + (case dict_get amounts name of None \<Rightarrow> 0 | Some a \<Rightarrow> a)))"

definition add_counters :: "nat \<Rightarrow> (string, int) dict \<Rightarrow> (monitoring_db, unit) txn" where
  "add_counters i amounts d =
     (if \<not> set (dict_keys amounts) \<subseteq> set run_counters
      then (Inl (ValueError (''Unknown monitoring counters: '' @
          name_list (sort (filter (\<lambda>name. name \<notin> set run_counters) (dict_keys amounts))))), d)
      else update_running i
        (\<lambda>r. r\<lparr>run_counts := map (added amounts) (run_counts r), run_heartbeat_at := clock d\<rparr>) d)"

definition set_stage_metrics :: "nat \<Rightarrow> stage \<Rightarrow> (string \<times> json) list \<Rightarrow> (monitoring_db, unit) txn" where
  "set_stage_metrics i st metrics d =
     update_running i
       (\<lambda>r. r\<lparr>run_stage_metrics := dict_set (stage_value st) (JObject metrics) (run_stage_metrics r),
              run_heartbeat_at := clock d\<rparr>) d"

definition set_rf_snapshot :: "nat \<Rightarrow> nat option \<Rightarrow> (monitoring_db, unit) txn" where
  "set_rf_snapshot i snapshot d =
     update_running i (\<lambda>r. r\<lparr>run_rf_snapshot := snapshot, run_heartbeat_at := clock d\<rparr>) d"

definition record_failure ::
  "nat \<Rightarrow> stage \<Rightarrow> string \<Rightarrow> exn \<Rightarrow> nat option \<Rightarrow> string option \<Rightarrow> (monitoring_db, failure_kind) txn" where
  "record_failure i st entity_type e entity external_ref d =
     (case update_running i
         (\<lambda>r. r\<lparr>run_error_count := Suc (run_error_count r), run_heartbeat_at := clock d\<rparr>) d of
        (Inl e', d') \<Rightarrow> (Inl e', d')
      | (Inr _, d') \<Rightarrow>
          (Inr (classify_failure e), d'\<lparr>run_items := run_items d' @
             [\<lparr>item_id = next_item d', item_run_id = i, item_stage = st,
               item_entity_type = entity_type, item_entity_id = entity,
               item_external_ref = external_ref, item_status = ''failed'',
               item_failure_kind = classify_failure e, item_error_type = error_type e,
               item_error_message = safe_message e, item_created_at = clock d\<rparr>],
             next_item := Suc (next_item d')\<rparr>))"

text \<open>The terminal status and what is written with it.\<close>

definition outcome_status :: "exn option \<Rightarrow> monitoring_run \<Rightarrow> run_status" where
  "outcome_status e r = (case e of Some _ \<Rightarrow> FAILED
     | None \<Rightarrow> if run_error_count r \<noteq> 0 then COMPLETED_WITH_ERRORS else COMPLETED)"

definition closed_run :: "exn option \<Rightarrow> int \<Rightarrow> monitoring_run \<Rightarrow> monitoring_run" where
  "closed_run e moment r = r\<lparr>run_status := outcome_status e r,
     run_error_message := (case e of Some x \<Rightarrow> Some (error_text x) | None \<Rightarrow> run_error_message r),
     run_stage_metrics := (case e of
         Some x \<Rightarrow> dict_set ''run''
           (JObject [(''failure_kind'', JText (failure_kind_value (classify_failure x))),
                     (''error_type'', JText (error_type x))]) (run_stage_metrics r)
       | None \<Rightarrow> run_stage_metrics r),
     run_finished_at := Some moment, run_heartbeat_at := moment\<rparr>"

definition finish_run :: "nat \<Rightarrow> exn option \<Rightarrow> (monitoring_db, run_status) txn" where
  "finish_run i e d =
     (case row_by run_id i (runs d) of
        None \<Rightarrow> (Inl (LookupError (''Monitoring run '' @ digits_of i @ '' not found'')), d)
      | Some r \<Rightarrow>
          if run_status r \<noteq> RUNNING then (Inr (run_status r), d)
          else (Inr (outcome_status e r),
                d\<lparr>runs := update_rows (\<lambda>q. run_id q = i) (\<lambda>q. closed_run e (clock d) q) (runs d)\<rparr>))"

text \<open>An upsert: \<open>last_external_marker\<close> is not among what a conflict updates.\<close>

definition checkpointed :: "nat \<Rightarrow> int \<Rightarrow> int \<Rightarrow> source_state \<Rightarrow> source_state" where
  "checkpointed i found moment s = s\<lparr>last_successful_run_id := Some i,
     last_successful_run_at := Some moment, last_discovered_at := Some moment,
     last_discovered_count := found, state_updated_at := moment\<rparr>"

definition update_checkpoint :: "string \<Rightarrow> nat \<Rightarrow> int \<Rightarrow> (monitoring_db, unit) txn" where
  "update_checkpoint source i found d =
     (Inr (), d\<lparr>source_states :=
        (if \<exists>s \<in> set (source_states d). state_source s = source
         then update_rows (\<lambda>s. state_source s = source) (checkpointed i found (clock d)) (source_states d)
         else source_states d @
           [checkpointed i found (clock d)
              \<lparr>state_source = source, last_successful_run_id = None, last_successful_run_at = None,
               last_discovered_at = None, last_discovered_count = 0, last_external_marker = None,
               state_updated_at = 0\<rparr>])\<rparr>)"

section \<open>The readings\<close>

definition source_run_active :: "monitoring_db \<Rightarrow> bool" where
  "source_run_active d \<longleftrightarrow> filter (\<lambda>r. run_source r \<noteq> None \<and> run_status r = RUNNING) (runs d) \<noteq> []"

definition source_run_finished_within :: "int \<Rightarrow> monitoring_db \<Rightarrow> bool" where
  "source_run_finished_within period d \<longleftrightarrow>
     filter (\<lambda>r. run_source r \<noteq> None \<and> run_status r \<in> {COMPLETED, COMPLETED_WITH_ERRORS} \<and>
       (case run_finished_at r of None \<Rightarrow> False | Some t \<Rightarrow> t \<ge> clock d - period)) (runs d) \<noteq> []"

text \<open>\<open>order_by(id.desc())\<close>.\<close>

definition newest_first :: "monitoring_run list \<Rightarrow> monitoring_run list" where
  "newest_first rs = rev (sort_key run_id rs)"

definition discovered :: "monitoring_run \<Rightarrow> bool" where
  "discovered r \<longleftrightarrow> stage_value DISCOVERY \<in> set (dict_keys (run_stage_metrics r))"

definition previous_load_completed :: "string \<Rightarrow> nat \<Rightarrow> monitoring_db \<Rightarrow> bool" where
  "previous_load_completed source before d =
     (case newest_first (filter (\<lambda>r. run_source r = Some source \<and> run_id r < before \<and> discovered r) (runs d)) of
        [] \<Rightarrow> False
      | r # _ \<Rightarrow> run_status r \<in> {COMPLETED, COMPLETED_WITH_ERRORS})"

text \<open>What a reader is shown of a run: its columns and how long it took.\<close>

record run_view =
  view_run :: monitoring_run
  duration :: "int option"

definition view_run_of :: "monitoring_run \<Rightarrow> run_view" where
  "view_run_of r = \<lparr>view_run = r, duration = map_option (\<lambda>t. t - run_started_at r) (run_finished_at r)\<rparr>"

definition get_run :: "nat \<Rightarrow> monitoring_db \<Rightarrow> run_view option" where
  "get_run i d = map_option view_run_of (row_by run_id i (runs d))"

definition get_run_details :: "nat \<Rightarrow> monitoring_db \<Rightarrow> (run_view \<times> run_item list) option" where
  "get_run_details i d = (case row_by run_id i (runs d) of
     None \<Rightarrow> None
   | Some r \<Rightarrow> Some (view_run_of r, sort_key item_id (filter (\<lambda>x. item_run_id x = i) (run_items d))))"

definition list_runs ::
  "nat \<Rightarrow> nat \<Rightarrow> string option \<Rightarrow> run_status option \<Rightarrow> monitoring_db \<Rightarrow> run_view list" where
  "list_runs limit offset source status d =
     map view_run_of (take limit (drop offset (newest_first
       (filter (\<lambda>r. (source = None \<or> run_source r = source) \<and>
                    (case status of None \<Rightarrow> True | Some s \<Rightarrow> run_status r = s)) (runs d)))))"

definition list_runs_started_between ::
  "int \<Rightarrow> int option \<Rightarrow> run_trigger \<Rightarrow> monitoring_db \<Rightarrow> run_view list" where
  "list_runs_started_between started finished trigger d =
     map view_run_of (sort_key run_id (filter (\<lambda>r. run_trigger r = trigger \<and> run_started_at r \<ge> started \<and>
       (case finished of None \<Rightarrow> True | Some t \<Rightarrow> run_started_at r \<le> t)) (runs d)))"

definition stale_monitoring_runs :: "int \<Rightarrow> monitoring_db \<Rightarrow> nat" where
  "stale_monitoring_runs stale_after d = length (filter (stale stale_after d) (runs d))"

definition sources_running_at :: "string list \<Rightarrow> int \<Rightarrow> monitoring_db \<Rightarrow> string list" where
  "sources_running_at names moment d =
     (if names = [] then []
      else unique (concat (map (\<lambda>r. case run_source r of None \<Rightarrow> [] | Some name \<Rightarrow>
        if name \<in> set names \<and> run_started_at r < moment \<and>
           (case run_finished_at r of None \<Rightarrow> True | Some t \<Rightarrow> t > moment)
        then [name] else []) (runs d))))"

section \<open>Every transaction any process commits\<close>

datatype command =
    Tick nat
  | AbortStale int
  | InsertRun string "string option" run_trigger "(string, json) dict"
  | Heartbeat nat
  | AddCounters nat "(string, int) dict"
  | SetStageMetrics nat stage "(string \<times> json) list"
  | SetRfSnapshot nat "nat option"
  | RecordFailure nat stage string exn "nat option" "string option"
  | FinishRun nat "exn option"
  | UpdateCheckpoint string nat int

fun perform :: "command \<Rightarrow> monitoring_db \<Rightarrow> monitoring_db" where
  "perform (Tick n) d = d\<lparr>clock := clock d + int n\<rparr>"
| "perform (AbortStale stale_after) d = snd (abort_stale_runs stale_after d)"
| "perform (InsertRun scope source trigger parameters) d = snd (insert_run scope source trigger parameters d)"
| "perform (Heartbeat i) d = snd (heartbeat i d)"
| "perform (AddCounters i amounts) d = snd (add_counters i amounts d)"
| "perform (SetStageMetrics i st metrics) d = snd (set_stage_metrics i st metrics d)"
| "perform (SetRfSnapshot i snapshot) d = snd (set_rf_snapshot i snapshot d)"
| "perform (RecordFailure i st kind e entity ref) d = snd (record_failure i st kind e entity ref d)"
| "perform (FinishRun i e) d = snd (finish_run i e d)"
| "perform (UpdateCheckpoint source i found) d = snd (update_checkpoint source i found d)"

inductive commits :: "monitoring_db \<Rightarrow> monitoring_db \<Rightarrow> bool" where
  commit: "commits d (perform c d)"

inductive_cases commitsE: "commits d d'"

definition empty_db :: monitoring_db where
  "empty_db = \<lparr>runs = [], run_items = [], source_states = [], next_run = 1, next_item = 1, clock = 0\<rparr>"

lemma update_running_effect:
  assumes "update_running i f d = (result, d')"
  shows "runs d' = update_rows (running_row i) f (runs d)"
    and "run_items d' = run_items d" "source_states d' = source_states d"
    and "next_run d' = next_run d" "next_item d' = next_item d" "clock d' = clock d"
    and "result = (if \<exists>r \<in> set (runs d). running_row i r then Inr () else Inl (MonitoringRunAbortedError i))"
    and "\<not> (\<exists>r \<in> set (runs d). running_row i r) \<Longrightarrow> d' = d"
  using assms by (auto simp: update_running_def update_rows_none split: if_splits)

text \<open>What a command does to the rows: a change of live ones, and at most one new row.\<close>

fun row_change :: "command \<Rightarrow> monitoring_db \<Rightarrow> (monitoring_run \<Rightarrow> bool) \<times> (monitoring_run \<Rightarrow> monitoring_run)" where
  "row_change (AbortStale stale_after) d = (stale stale_after d,
     \<lambda>r. r\<lparr>run_status := ABORTED, run_finished_at := Some (clock d),
           run_error_message := Some (stale_message stale_after)\<rparr>)"
| "row_change (Heartbeat i) d = (running_row i, \<lambda>r. r\<lparr>run_heartbeat_at := clock d\<rparr>)"
| "row_change (AddCounters i amounts) d =
     (\<lambda>r. running_row i r \<and> set (dict_keys amounts) \<subseteq> set run_counters,
      \<lambda>r. r\<lparr>run_counts := map (added amounts) (run_counts r), run_heartbeat_at := clock d\<rparr>)"
| "row_change (SetStageMetrics i st metrics) d = (running_row i,
     \<lambda>r. r\<lparr>run_stage_metrics := dict_set (stage_value st) (JObject metrics) (run_stage_metrics r),
           run_heartbeat_at := clock d\<rparr>)"
| "row_change (SetRfSnapshot i snapshot) d =
     (running_row i, \<lambda>r. r\<lparr>run_rf_snapshot := snapshot, run_heartbeat_at := clock d\<rparr>)"
| "row_change (RecordFailure i st kind e entity ref) d =
     (running_row i, \<lambda>r. r\<lparr>run_error_count := Suc (run_error_count r), run_heartbeat_at := clock d\<rparr>)"
| "row_change (FinishRun i e) d = (running_row i, closed_run e (clock d))"
| "row_change _ d = (\<lambda>_. False, id)"

definition new_rows :: "command \<Rightarrow> monitoring_db \<Rightarrow> monitoring_run list" where
  "new_rows c d = (case c of
     InsertRun scope source trigger parameters \<Rightarrow>
       if \<exists>r \<in> set (runs d). scope_running scope r then []
       else [new_run (next_run d) scope source trigger parameters (clock d)]
   | _ \<Rightarrow> [])"

lemma update_rows_cong:
  "(\<And>r. r \<in> set rows \<Longrightarrow> p r = q r) \<Longrightarrow> (\<And>r. r \<in> set rows \<Longrightarrow> q r \<Longrightarrow> f r = g r) \<Longrightarrow>
   update_rows p f rows = update_rows q g rows"
  by (simp add: update_rows_def)

lemma finish_run_rows:
  assumes "distinct (map run_id (runs d))"
  shows "runs (snd (finish_run i e d)) = update_rows (running_row i) (closed_run e (clock d)) (runs d)"
proof (cases "row_by run_id i (runs d)")
  case None
  then have "update_rows (running_row i) (closed_run e (clock d)) (runs d) = runs d"
    by (intro update_rows_none) (auto simp: row_by_None running_row_def)
  with None show ?thesis by (simp add: finish_run_def)
next
  case (Some r)
  then have r: "r \<in> set (runs d)" "run_id r = i" using row_by_Some by fastforce+
  then have only: "q = r" if "q \<in> set (runs d)" "run_id q = i" for q
    using assms that by (auto intro: distinct_map_eq)
  show ?thesis
  proof (cases "run_status r = RUNNING")
    case True
    with only have "update_rows (\<lambda>q. run_id q = i) (\<lambda>q. closed_run e (clock d) q) (runs d)
        = update_rows (running_row i) (closed_run e (clock d)) (runs d)"
      by (intro update_rows_cong) (auto simp: running_row_def)
    then show ?thesis using True Some by (simp add: finish_run_def)
  next
    case False
    with only have "update_rows (running_row i) (closed_run e (clock d)) (runs d) = runs d"
      by (intro update_rows_none) (auto simp: running_row_def)
    then show ?thesis using False Some by (simp add: finish_run_def)
  qed
qed

lemma perform_rows:
  assumes "distinct (map run_id (runs d))"
  shows "runs (perform c d) =
    update_rows (fst (row_change c d)) (snd (row_change c d)) (runs d) @ new_rows c d"
proof -
  note effect = update_running_effect(1) [OF surjective_pairing]
  have none: "update_rows (\<lambda>_. False) f rs = rs" for f :: "monitoring_run \<Rightarrow> monitoring_run" and rs
    by (rule update_rows_none) simp
  show ?thesis
    using assms
    by (cases c) (auto simp: none new_rows_def abort_stale_runs_def insert_run_def Let_def heartbeat_def
      effect add_counters_def set_stage_metrics_def set_rf_snapshot_def record_failure_def
      finish_run_rows update_checkpoint_def split: prod.split sum.split
      dest: update_running_effect(1))
qed

lemma row_change_facts:
  assumes "fst (row_change c d) r"
  shows "run_status r = RUNNING" "run_id (snd (row_change c d) r) = run_id r"
    "run_scope (snd (row_change c d) r) = run_scope r"
  using assms by (cases c; auto simp: stale_def running_row_def closed_run_def)+

lemma perform_next_run:
  "next_run (perform c d) = (case c of InsertRun _ _ _ _ \<Rightarrow> Suc (next_run d) | _ \<Rightarrow> next_run d)"
  by (cases c) (auto simp: abort_stale_runs_def insert_run_def Let_def heartbeat_def
    update_running_effect(4) [OF surjective_pairing] add_counters_def set_stage_metrics_def
    set_rf_snapshot_def record_failure_def finish_run_def update_checkpoint_def
    split: prod.split sum.split option.split dest: update_running_effect(4))

interpretation monitoring: fenced_runs runs run_id run_scope "\<lambda>r. run_status r = RUNNING" next_run commits
proof
  fix d d' assume distinct: "distinct (map run_id (runs d))" and "commits d d'"
  then obtain c where d': "d' = perform c d" by (auto elim: commitsE)
  let ?change = "\<lambda>r. if fst (row_change c d) r then snd (row_change c d) r else r"
  note seq = perform_next_run [of c d, folded d']
  have new: "n \<in> set (new_rows c d) \<Longrightarrow> run_id n = next_run d \<and> next_run d < next_run d' \<and>
      (\<forall>r \<in> set (runs d). run_status (?change r) = RUNNING \<longrightarrow> run_scope r \<noteq> run_scope n)" for n
    using seq by (cases c) (auto simp: new_rows_def scope_running_def split: if_splits)
  have "length (new_rows c d) \<le> 1" by (cases c) (auto simp: new_rows_def)
  then show "\<exists>change new. runs d' = map change (runs d) @ new \<and> length new \<le> 1 \<and>
        (\<forall>r \<in> set (runs d). run_id (change r) = run_id r \<and> run_scope (change r) = run_scope r \<and>
           (run_status r \<noteq> RUNNING \<longrightarrow> change r = r)) \<and>
        (\<forall>n \<in> set new. run_id n = next_run d \<and> next_run d < next_run d' \<and>
           (\<forall>r \<in> set (runs d). run_status (change r) = RUNNING \<longrightarrow> run_scope r \<noteq> run_scope n))"
    using perform_rows [OF distinct, of c] new row_change_facts
    by (intro exI [of _ ?change] exI [of _ "new_rows c d"]) (auto simp: d' update_rows_def)
next
  fix d d' assume "commits d d'"
  then show "next_run d \<le> next_run d'"
    by (elim commitsE) (auto simp: perform_next_run split: command.split)
qed

section \<open>What the run table promises\<close>

text \<open>A row agrees with its status, and its errors are the items recorded for it.\<close>

definition run_ok :: "monitoring_run \<Rightarrow> bool" where
  "run_ok r \<longleftrightarrow> (run_finished_at r = None \<longleftrightarrow> run_status r = RUNNING) \<and>
     (run_status r = COMPLETED \<longrightarrow> run_error_count r = 0) \<and>
     (run_status r = COMPLETED_WITH_ERRORS \<longrightarrow> run_error_count r \<noteq> 0) \<and>
     (run_status r \<in> {FAILED, ABORTED} \<longrightarrow> run_error_message r \<noteq> None) \<and>
     map fst (run_counts r) = run_counters"

definition items_of :: "nat \<Rightarrow> run_item list \<Rightarrow> run_item list" where
  "items_of i items = filter (\<lambda>x. item_run_id x = i) items"

definition db_ok :: "monitoring_db \<Rightarrow> bool" where
  "db_ok d \<longleftrightarrow> monitoring.sound d \<and> (\<forall>r \<in> set (runs d). run_ok r) \<and>
     (\<forall>r \<in> set (runs d). length (items_of (run_id r) (run_items d)) = run_error_count r) \<and>
     (\<forall>x \<in> set (run_items d). item_run_id x \<in> run_id ` set (runs d)) \<and>
     distinct (map state_source (source_states d))"

lemma run_counters_nonempty: "map fst (map (\<lambda>name. (name, 0::int)) run_counters) = run_counters"
  by (simp add: comp_def)

lemma row_change_ok:
  assumes "fst (row_change c d) r" and "run_ok r"
  shows "run_ok (snd (row_change c d) r)"
  using assms
  by (cases c) (auto simp: run_ok_def stale_def running_row_def closed_run_def outcome_status_def added_def
    comp_def case_prod_beta split: option.splits)

lemma new_rows_ok: "n \<in> set (new_rows c d) \<Longrightarrow> run_ok n \<and> run_error_count n = 0 \<and> run_id n = next_run d"
  by (cases c) (auto simp: new_rows_def run_ok_def comp_def split: if_splits)

definition failing :: "command \<Rightarrow> monitoring_db \<Rightarrow> nat option" where
  "failing c d = (case c of RecordFailure i _ _ _ _ _ \<Rightarrow>
     if \<exists>r \<in> set (runs d). running_row i r then Some i else None | _ \<Rightarrow> None)"

lemma perform_items:
  "case failing c d of
     None \<Rightarrow> run_items (perform c d) = run_items d
   | Some i \<Rightarrow> \<exists>x. run_items (perform c d) = run_items d @ [x] \<and> item_run_id x = i"
proof (cases c)
  case (RecordFailure i st kind e entity ref)
  let ?f = "\<lambda>r. r\<lparr>run_error_count := Suc (run_error_count r), run_heartbeat_at := clock d\<rparr>"
  obtain result d1 where u: "update_running i ?f d = (result, d1)" by fastforce
  show ?thesis
    using update_running_effect [OF u] RecordFailure
    by (auto simp: failing_def record_failure_def u)
qed (simp_all add: failing_def abort_stale_runs_def insert_run_def Let_def heartbeat_def
    update_running_effect(2) [OF surjective_pairing] add_counters_def set_stage_metrics_def
    set_rf_snapshot_def finish_run_def update_checkpoint_def split: option.split)

lemma row_change_errors:
  assumes "fst (row_change c d) r" "r \<in> set (runs d)"
  shows "run_error_count (snd (row_change c d) r) =
    (if failing c d = Some (run_id r) then Suc (run_error_count r) else run_error_count r)"
  using assms by (cases c) (auto simp: failing_def running_row_def closed_run_def)

lemma unchanged_errors:
  assumes "\<not> fst (row_change c d) r" "r \<in> set (runs d)" "monitoring.sound d"
  shows "failing c d \<noteq> Some (run_id r)"
proof
  assume "failing c d = Some (run_id r)"
  then obtain st kind e entity ref q where "c = RecordFailure (run_id r) st kind e entity ref"
      "q \<in> set (runs d)" "running_row (run_id r) q"
    by (cases c) (auto simp: failing_def split: if_splits)
  moreover from this have "q = r"
    using assms(2,3) monitoring.sound_key by (auto simp: running_row_def)
  ultimately show False using assms(1) by simp
qed

lemma perform_states:
  assumes "distinct (map state_source (source_states d))"
  shows "distinct (map state_source (source_states (perform c d)))"
proof (cases c)
  case (UpdateCheckpoint source i found)
  have "map state_source (update_rows p (checkpointed i found t) ss) = map state_source ss" for p t ss
    by (rule map_update_rows) (simp add: checkpointed_def)
  then show ?thesis
    using assms UpdateCheckpoint by (auto simp: update_checkpoint_def checkpointed_def)
qed (use assms in \<open>auto simp: abort_stale_runs_def insert_run_def Let_def heartbeat_def
    update_running_effect(3) [OF surjective_pairing] add_counters_def set_stage_metrics_def
    set_rf_snapshot_def record_failure_def finish_run_def
    split: option.split prod.split sum.split dest: update_running_effect(3)\<close>)

lemma db_ok_perform:
  assumes "db_ok d"
  shows "db_ok (perform c d)"
proof -
  let ?change = "\<lambda>r. if fst (row_change c d) r then snd (row_change c d) r else r"
  have sound: "monitoring.sound d" and sound': "monitoring.sound (perform c d)"
    using assms monitoring.sound_step commit by (auto simp: db_ok_def)
  have rows: "runs (perform c d) = map ?change (runs d) @ new_rows c d"
    using perform_rows [OF monitoring.sound_distinct [OF sound], of c] by (simp add: update_rows_def)
  have items: "items_of i (run_items (perform c d)) =
      items_of i (run_items d) @ (if failing c d = Some i then [last (run_items (perform c d))] else [])" for i
    using perform_items [of c d] by (auto simp: items_of_def split: option.splits)
  have count: "length (items_of (run_id r) (run_items (perform c d))) = run_error_count (?change r)"
    if "r \<in> set (runs d)" for r
    using that assms row_change_errors [of c d r] unchanged_errors [of c d r] sound
    by (auto simp: items db_ok_def)
  have fresh: "items_of (next_run d) (run_items d) = []"
    using assms sound by (force simp: db_ok_def items_of_def monitoring.sound_def filter_empty_conv)
  have not_failing: "failing c d = None" if "new_rows c d \<noteq> []"
    using that by (cases c) (auto simp: new_rows_def failing_def)
  show ?thesis unfolding db_ok_def
  proof (intro conjI ballI)
    show "monitoring.sound (perform c d)" by (rule sound')
    show "run_ok r" if "r \<in> set (runs (perform c d))" for r
      using that assms row_change_ok new_rows_ok by (auto simp: rows db_ok_def)
    show "length (items_of (run_id r) (run_items (perform c d))) = run_error_count r"
      if "r \<in> set (runs (perform c d))" for r
    proof -
      consider (old) q where "q \<in> set (runs d)" "r = ?change q" | (new) "r \<in> set (new_rows c d)"
        using \<open>r \<in> set (runs (perform c d))\<close> by (auto simp: rows)
      then show ?thesis
      proof cases
        case (old q)
        then show ?thesis using count [of q] row_change_facts(2) [of c d q] by auto
      next
        case new
        then have "failing c d = None" using not_failing by fastforce
        then show ?thesis using new_rows_ok [OF new] fresh by (simp add: items)
      qed
    qed
    show "item_run_id x \<in> run_id ` set (runs (perform c d))" if "x \<in> set (run_items (perform c d))" for x
    proof -
      have ids: "run_id ` set (runs d) \<subseteq> run_id ` set (runs (perform c d))"
      proof
        fix i assume "i \<in> run_id ` set (runs d)"
        then obtain r where "r \<in> set (runs d)" "i = run_id r" by blast
        then have "?change r \<in> set (runs (perform c d))" "run_id (?change r) = i"
          using row_change_facts(2) [of c d r] by (auto simp: rows)
        then show "i \<in> run_id ` set (runs (perform c d))" by blast
      qed
      have "item_run_id x \<in> run_id ` set (runs d)"
      proof (cases "failing c d")
        case None
        then show ?thesis using that assms perform_items [of c d] by (auto simp: db_ok_def)
      next
        case (Some i)
        moreover from this have "i \<in> run_id ` set (runs d)"
          by (cases c) (auto simp: failing_def running_row_def split: if_splits)
        ultimately show ?thesis using that assms perform_items [of c d] by (auto simp: db_ok_def)
      qed
      with ids show ?thesis by blast
    qed
    show "distinct (map state_source (source_states (perform c d)))"
      using assms by (intro perform_states) (simp add: db_ok_def)
  qed
qed

lemma db_ok_empty: "db_ok empty_db"
  by (simp add: db_ok_def empty_db_def monitoring.sound_def)

lemma db_ok_reachable: "commits\<^sup>*\<^sup>* empty_db d \<Longrightarrow> db_ok d"
  by (induction rule: rtranclp_induct) (auto intro: db_ok_empty db_ok_perform elim!: commitsE)

lemma commits_fold: "commits\<^sup>*\<^sup>* d (fold perform cs d)"
  by (induction cs arbitrary: d) (auto intro: converse_rtranclp_into_rtranclp commit)

section \<open>Transactions among other processes\<close>

text \<open>Starting a run, among the other processes' transactions.\<close>

type_synonym 'z monitoring_world = "(monitoring_db, command, 'z) world_scheme"

definition start_run ::
  "string \<Rightarrow> string option \<Rightarrow> run_trigger \<Rightarrow> (string, json) dict \<Rightarrow> int
   \<Rightarrow> ('z monitoring_world, exn, nat) action" where
  "start_run scope source trigger parameters stale_after =
     thenA (transact perform (abort_stale_runs stale_after))
       (bindA (transact perform (insert_run scope source trigger parameters)) (\<lambda>inserted.
          case inserted of
            Some i \<Rightarrow> returnA i
          | None \<Rightarrow> bindA (transact perform (running_run_of scope))
              (\<lambda>running. raiseA (MonitoringAlreadyRunningError scope running))))"

definition holds_scope :: "string \<Rightarrow> int \<Rightarrow> monitoring_db \<Rightarrow> monitoring_run \<Rightarrow> bool" where
  "holds_scope scope stale_after d r \<longleftrightarrow> scope_running scope r \<and> clock d - stale_after \<le> run_heartbeat_at r"

lemma find_after_abort:
  "find (scope_running scope) (runs (snd (abort_stale_runs stale_after d))) =
   find (holds_scope scope stale_after d) (runs d)"
proof -
  have "find (scope_running scope) (update_rows (stale stale_after d) (\<lambda>r. r\<lparr>run_status := ABORTED,
      run_finished_at := t, run_error_message := m\<rparr>) rs) = find (holds_scope scope stale_after d) rs" for rs t m
    by (induction rs) (auto simp: scope_running_def holds_scope_def stale_def)
  then show ?thesis by (simp add: abort_stale_runs_def)
qed

lemma insert_run_refused:
  "find (scope_running scope) (runs d) = Some r \<Longrightarrow>
   insert_run scope source trigger parameters d = (Inr None, d\<lparr>next_run := Suc (next_run d)\<rparr>)"
  by (auto simp: insert_run_def Let_def dest: find_first)

lemma insert_run_taken:
  "find (scope_running scope) (runs d) = None \<Longrightarrow>
   insert_run scope source trigger parameters d =
     (Inr (Some (next_run d)), perform (InsertRun scope source trigger parameters) d)"
  by (auto simp: insert_run_def Let_def find_None)

text \<open>
  Starting a run on a database nobody else is writing to: the runs without a heartbeat
  for \<open>stale_after\<close> are aborted, and then the run starts under a new key with every counter
  at zero, unless a live run holds its scope: then that run's id is told and nothing more
  changes. So a process that died never blocks its scope for longer than \<open>stale_after\<close>.
\<close>

theorem start_run_takes_free_scope:
  assumes "commits\<^sup>*\<^sup>* empty_db (db w)" and "script w = []"
  shows "case find (holds_scope scope stale_after (db w)) (runs (db w)) of
      Some r \<Rightarrow> fst (start_run scope source trigger parameters stale_after w) =
          Inl (MonitoringAlreadyRunningError scope (Some (run_id r))) \<and>
        runs (db (snd (start_run scope source trigger parameters stale_after w))) =
          runs (snd (abort_stale_runs stale_after (db w)))
    | None \<Rightarrow> \<exists>r. fst (start_run scope source trigger parameters stale_after w) = Inr (run_id r) \<and>
        run_status r = RUNNING \<and> run_scope r = scope \<and> run_source r = source \<and> run_trigger r = trigger \<and>
        run_heartbeat_at r = clock (db w) \<and> run_id r \<notin> run_id ` set (runs (db w)) \<and>
        run_error_count r = 0 \<and> (\<forall>(name, n) \<in> set (run_counts r). n = 0) \<and>
        runs (db (snd (start_run scope source trigger parameters stale_after w))) =
          runs (snd (abort_stale_runs stale_after (db w))) @ [r]"
proof (cases "find (holds_scope scope stale_after (db w)) (runs (db w))")
  case (Some r)
  then have found: "find (scope_running scope) (runs (snd (abort_stale_runs stale_after (db w)))) = Some r"
    by (simp add: find_after_abort)
  show ?thesis
    using assms(2) Some found insert_run_refused [OF found]
    by (simp add: start_run_def transact_def action_defs running_run_of_def abort_stale_runs_def)
next
  case None
  let ?d = "snd (abort_stale_runs stale_after (db w))"
  have free: "find (scope_running scope) (runs ?d) = None" using None by (simp add: find_after_abort)
  have "monitoring.sound (db w)" using db_ok_reachable [OF assms(1)] by (simp add: db_ok_def)
  then have fresh: "next_run (db w) \<notin> run_id ` set (runs (db w))" by (auto simp: monitoring.sound_def)
  have same: "next_run ?d = next_run (db w)" "clock ?d = clock (db w)"
    by (simp_all add: abort_stale_runs_def)
  have start: "start_run scope source trigger parameters stale_after w = (Inr (next_run (db w)),
      w\<lparr>db := ?d\<lparr>next_run := Suc (next_run (db w)),
         runs := runs ?d @ [new_run (next_run (db w)) scope source trigger parameters (clock (db w))]\<rparr>\<rparr>)"
    using assms(2) free by (simp add: start_run_def transact_def action_defs insert_run_def find_None
      abort_stale_runs_def Let_def)
  show ?thesis
    unfolding None option.case
    using fresh by (intro exI [of _ "new_run (next_run (db w)) scope source trigger parameters (clock (db w))"])
      (simp add: start)
qed

definition running_alpha :: command where
  "running_alpha = InsertRun ''source:a'' (Some ''a'') SCHEDULE []"

theorem start_run_takes_free_scope_witness:
  "fst (start_run ''source:a'' (Some ''a'') MANUAL [] 60
      \<lparr>db = fold perform [running_alpha, Tick 5] empty_db, script = []\<rparr>) =
    Inl (MonitoringAlreadyRunningError ''source:a'' (Some 1)) \<and>
   fst (start_run ''source:a'' (Some ''a'') MANUAL [] 60
      \<lparr>db = fold perform [running_alpha, Tick 61] empty_db, script = []\<rparr>) = Inr 2"
proof -
  let ?w = "\<lambda>n. \<lparr>db = fold perform [running_alpha, Tick n] empty_db, script = []\<rparr>"
  have r: "commits\<^sup>*\<^sup>* empty_db (db (?w n))" for n
    using commits_fold [of empty_db "[running_alpha, Tick n]"] by simp
  show ?thesis
    using start_run_takes_free_scope [where w = "?w 5", OF r, where scope = "''source:a''" and stale_after = 60
        and source = "Some ''a''" and trigger = MANUAL and parameters = "[]"]
      start_run_takes_free_scope [where w = "?w 61", OF r, where scope = "''source:a''" and stale_after = 60
        and source = "Some ''a''" and trigger = MANUAL and parameters = "[]"]
    by (simp add: running_alpha_def insert_run_def empty_db_def Let_def holds_scope_def scope_running_def)
      (simp add: start_run_def transact_def action_defs abort_stale_runs_def insert_run_def Let_def
        scope_running_def stale_def)
qed

lemma sound_reachable: "commits\<^sup>*\<^sup>* empty_db d \<Longrightarrow> monitoring.sound d"
  using db_ok_reachable by (simp add: db_ok_def)

text \<open>
  C23. Whatever the processes commit and in whatever order, two runs of one scope are never
  both running, and a run's id is never given twice.
\<close>

theorem one_running_run_per_scope:
  assumes "commits\<^sup>*\<^sup>* empty_db d"
  shows "distinct (map run_id (runs d)) \<and>
    (\<forall>r \<in> set (runs d). \<forall>r' \<in> set (runs d). run_status r = RUNNING \<and> run_status r' = RUNNING \<and>
       run_scope r = run_scope r' \<longrightarrow> r = r')"
  using monitoring.sound_distinct sound_reachable [OF assms] by (simp add: monitoring.sound_def)

theorem one_running_run_per_scope_witness:
  "commits\<^sup>*\<^sup>* empty_db (fold perform [running_alpha, running_alpha, FinishRun 1 None, running_alpha] empty_db) \<and>
   distinct (map run_id (runs (fold perform [running_alpha, running_alpha, FinishRun 1 None, running_alpha] empty_db)))"
  using one_running_run_per_scope [OF commits_fold] commits_fold by blast

lemma update_running_refused:
  assumes "\<not> (\<exists>r \<in> set (runs d). running_row i r)"
  shows "update_running i f d = (Inl (MonitoringRunAbortedError i), d)"
  using assms by (simp add: update_running_def)

text \<open>
  C19. The fence. Once a run has ended, whoever ended it and whatever happens after, its row
  never changes again: every write its worker still tries is refused with
  \<open>MonitoringRunAbortedError\<close> and changes nothing, not even the error counter or the failed
  items, and ending it again only tells how it ended.
\<close>

theorem ended_run_is_fenced:
  assumes "commits\<^sup>*\<^sup>* empty_db d" and "r \<in> set (runs d)" and "run_status r \<noteq> RUNNING"
    and "commits\<^sup>*\<^sup>* d d'"
  shows "r \<in> set (runs d') \<and> (\<forall>q \<in> set (runs d'). run_id q = run_id r \<longrightarrow> q = r) \<and>
    heartbeat (run_id r) d' = (Inl (MonitoringRunAbortedError (run_id r)), d') \<and>
    set_stage_metrics (run_id r) st metrics d' = (Inl (MonitoringRunAbortedError (run_id r)), d') \<and>
    set_rf_snapshot (run_id r) snapshot d' = (Inl (MonitoringRunAbortedError (run_id r)), d') \<and>
    record_failure (run_id r) st kind e entity ref d' = (Inl (MonitoringRunAbortedError (run_id r)), d') \<and>
    (set (dict_keys amounts) \<subseteq> set run_counters \<longrightarrow>
      add_counters (run_id r) amounts d' = (Inl (MonitoringRunAbortedError (run_id r)), d')) \<and>
    finish_run (run_id r) outcome d' = (Inr (run_status r), d')"
proof -
  note sound = sound_reachable [OF assms(1)]
  have kept: "r \<in> set (runs d')" using monitoring.frozen_steps [OF assms(4) sound assms(2,3)] .
  have only: "q = r" if "q \<in> set (runs d')" "run_id q = run_id r" for q
    using monitoring.finished_for_good [OF sound assms(4,2,3) that] .
  have "\<not> (\<exists>q \<in> set (runs d'). running_row (run_id r) q)"
    using only assms(3) by (auto simp: running_row_def)
  note refused = update_running_refused [OF this]
  have "row_by run_id (run_id r) (runs d') = Some r"
    using monitoring.sound_distinct [OF monitoring.sound_steps [OF assms(4) sound]] kept by (rule row_by_in)
  then show ?thesis
    using kept only assms(3)
    by (auto simp: heartbeat_def set_stage_metrics_def set_rf_snapshot_def record_failure_def
      add_counters_def finish_run_def refused)
qed

definition ended_alpha :: monitoring_run where
  "ended_alpha = closed_run None 0 (new_run 1 ''source:a'' (Some ''a'') SCHEDULE [] 0)"

theorem ended_run_is_fenced_witness:
  "heartbeat 1 (fold perform [Tick 9, running_alpha] (fold perform [running_alpha, FinishRun 1 None] empty_db)) =
     (Inl (MonitoringRunAbortedError 1),
      fold perform [Tick 9, running_alpha] (fold perform [running_alpha, FinishRun 1 None] empty_db))"
proof -
  have r: "ended_alpha \<in> set (runs (fold perform [running_alpha, FinishRun 1 None] empty_db))"
    by (simp add: running_alpha_def insert_run_def empty_db_def Let_def finish_run_def row_by_def
      ended_alpha_def outcome_status_def)
  have ended: "run_status ended_alpha \<noteq> RUNNING" "run_id ended_alpha = 1"
    by (simp_all add: ended_alpha_def closed_run_def outcome_status_def)
  show ?thesis
    using ended_run_is_fenced [OF commits_fold r ended(1) commits_fold [of _ "[Tick 9, running_alpha]"], where st = DISCOVERY and metrics = "[]"
        and snapshot = None and kind = "[]" and e = "ValueError []" and entity = None and ref = None
        and amounts = "[]" and outcome = None]
    ended(2) by simp
qed

text \<open>
  A run's error counter is the number of failed items recorded for it, and its status
  tells the truth about them: completed without errors exactly when there are none; a run
  has an end time exactly when it is no longer running, and a failed or aborted one says why.
\<close>

theorem run_status_tells_its_errors:
  assumes "commits\<^sup>*\<^sup>* empty_db d" and "r \<in> set (runs d)"
  shows "run_error_count r = length (filter (\<lambda>x. item_run_id x = run_id r) (run_items d)) \<and>
    (run_finished_at r = None \<longleftrightarrow> run_status r = RUNNING) \<and>
    (run_status r = COMPLETED \<longrightarrow> run_error_count r = 0) \<and>
    (run_status r = COMPLETED_WITH_ERRORS \<longrightarrow> run_error_count r \<noteq> 0) \<and>
    (run_status r \<in> {FAILED, ABORTED} \<longrightarrow> run_error_message r \<noteq> None)"
  using db_ok_reachable [OF assms(1)] assms(2) by (simp add: db_ok_def run_ok_def items_of_def)

theorem run_status_tells_its_errors_witness:
  "ended_alpha \<in> set (runs (fold perform [running_alpha, FinishRun 1 None] empty_db)) \<and>
   run_error_count ended_alpha =
     length (filter (\<lambda>x. item_run_id x = run_id ended_alpha) (run_items (fold perform [running_alpha, FinishRun 1 None] empty_db)))"
proof -
  have r: "ended_alpha \<in> set (runs (fold perform [running_alpha, FinishRun 1 None] empty_db))"
    by (simp add: running_alpha_def insert_run_def empty_db_def Let_def finish_run_def row_by_def
      ended_alpha_def outcome_status_def)
  then show ?thesis using run_status_tells_its_errors [OF commits_fold r] by blast
qed

text \<open>How much time a list of commands lets pass, and whether none of them may end run \<open>i\<close>.\<close>

fun elapsed :: "command list \<Rightarrow> nat" where
  "elapsed [] = 0"
| "elapsed (Tick n # cs) = n + elapsed cs"
| "elapsed (c # cs) = elapsed cs"

fun spares :: "int \<Rightarrow> nat \<Rightarrow> command \<Rightarrow> bool" where
  "spares timeout i (AbortStale stale_after) = (timeout \<le> stale_after)"
| "spares timeout i (FinishRun j e) = (j \<noteq> i)"
| "spares timeout i c = True"

lemma perform_clock: "clock (perform c d) = clock d + int (elapsed [c])"
  by (cases c) (auto simp: abort_stale_runs_def insert_run_def Let_def heartbeat_def
    update_running_effect(6) [OF surjective_pairing] add_counters_def set_stage_metrics_def
    set_rf_snapshot_def record_failure_def finish_run_def update_checkpoint_def
    split: prod.split sum.split option.split dest: update_running_effect(6))

lemma elapsed_Cons: "elapsed (c # cs) = elapsed [c] + elapsed cs"
  by (cases c) simp_all

lemma still_running_step:
  assumes "monitoring.sound d" and "r \<in> set (runs d)" and "running_row i r"
    and "moment \<le> run_heartbeat_at r" and "clock d \<le> moment + timeout" and "moment \<le> clock d"
    and "spares timeout i c"
  shows "\<exists>r' \<in> set (runs (perform c d)). running_row i r' \<and> moment \<le> run_heartbeat_at r'"
proof -
  let ?r = "if fst (row_change c d) r then snd (row_change c d) r else r"
  have "?r \<in> set (runs (perform c d))"
    using perform_rows [OF monitoring.sound_distinct [OF assms(1)], of c] assms(2)
    by (auto simp: update_rows_def)
  moreover have "running_row i ?r \<and> moment \<le> run_heartbeat_at ?r"
    using assms(3-7) by (cases c) (auto simp: running_row_def stale_def)
  ultimately show ?thesis by blast
qed

lemma still_running:
  assumes "monitoring.sound d" and "r \<in> set (runs d)" and "running_row i r"
    and "moment \<le> run_heartbeat_at r" and "clock d + int (elapsed cs) \<le> moment + timeout"
    and "moment \<le> clock d" and "\<forall>c \<in> set cs. spares timeout i c"
  shows "\<exists>r' \<in> set (runs (fold perform cs d)). running_row i r'"
  using assms
proof (induction cs arbitrary: d r)
  case (Cons c cs)
  have passed: "clock (perform c d) + int (elapsed cs) \<le> moment + timeout" "moment \<le> clock (perform c d)"
    using Cons.prems(5,6) by (simp_all add: perform_clock elapsed_Cons [of c cs])
  have now: "clock d \<le> moment + timeout" using Cons.prems(5) by simp
  obtain r' where "r' \<in> set (runs (perform c d))" "running_row i r'" "moment \<le> run_heartbeat_at r'"
    using still_running_step [OF Cons.prems(1-4) now Cons.prems(6), of c] Cons.prems(7) by auto
  then show ?case
    using Cons.IH [of "perform c d" r'] passed Cons.prems(1,7) monitoring.sound_step commit by auto
qed auto

text \<open>
  A process that is alive keeps its run: after a heartbeat the run stays running as long
  as the time that passes is within the timeout the others use, whatever else they commit
  (other runs starting, failing, ending, checkpoints), unless somebody ends this very run.
\<close>

theorem heartbeat_keeps_the_run:
  assumes "commits\<^sup>*\<^sup>* empty_db d" and "heartbeat i d = (Inr (), d1)"
    and "int (elapsed cs) \<le> timeout" and "\<forall>c \<in> set cs. spares timeout i c"
  shows "\<exists>r \<in> set (runs (fold perform cs d1)). run_id r = i \<and> run_status r = RUNNING"
proof -
  let ?beat = "\<lambda>r. r\<lparr>run_heartbeat_at := clock d\<rparr>"
  have u: "update_running i ?beat d = (Inr (), d1)" using assms(2) by (simp add: heartbeat_def)
  obtain r where r: "r \<in> set (runs d)" "running_row i r"
    using update_running_effect(7) [OF u] by (auto split: if_splits)
  have "?beat r \<in> set (runs d1)"
    using r update_running_effect(1) [OF u] by (auto simp: set_update_rows image_iff)
  moreover have "monitoring.sound d1"
    using monitoring.sound_step [OF sound_reachable [OF assms(1)] commit [of d "Heartbeat i"]] assms(2)
    by simp
  moreover have "clock d1 = clock d" by (rule update_running_effect(6) [OF u])
  ultimately show ?thesis
    using still_running [of d1 "?beat r" i "clock d" cs timeout] r(2) assms(3,4)
    by (auto simp: running_row_def)
qed

theorem heartbeat_keeps_the_run_witness:
  "\<exists>r \<in> set (runs (fold perform [Tick 60, AbortStale 60, running_alpha]
      (snd (heartbeat 1 (fold perform [running_alpha, Tick 100] empty_db))))).
     run_id r = 1 \<and> run_status r = RUNNING"
  by (rule heartbeat_keeps_the_run [where timeout = 60 and d = "fold perform [running_alpha, Tick 100] empty_db", OF commits_fold])
    (simp_all add: running_alpha_def insert_run_def empty_db_def Let_def heartbeat_def update_running_def
      running_row_def)

text \<open>The checkpoint of one source, as a reader of the table sees it.\<close>

definition state_of :: "monitoring_db \<Rightarrow> string \<Rightarrow> source_state option" where
  "state_of d source = find (\<lambda>s. state_source s = source) (source_states d)"

lemma checkpoint_states:
  "state_of (snd (update_checkpoint source i found d)) other =
     (if other = source
      then Some (checkpointed i found (clock d)
        \<lparr>state_source = source, last_successful_run_id = None, last_successful_run_at = None,
         last_discovered_at = None, last_discovered_count = 0,
         last_external_marker = (case state_of d source of None \<Rightarrow> None | Some s \<Rightarrow> last_external_marker s),
         state_updated_at = 0\<rparr>)
      else state_of d other)"
proof -
  have same: "state_source (checkpointed i found t s) = state_source s" for s t
    by (simp add: checkpointed_def)
  have upd: "find (\<lambda>s. state_source s = other) (update_rows (\<lambda>s. state_source s = source) (checkpointed i found t) ss)
      = map_option (\<lambda>s. if state_source s = source then checkpointed i found t s else s)
          (find (\<lambda>s. state_source s = other) ss)" for t ss
    by (rule find_update_rows) (simp add: same)
  show ?thesis
  proof (cases "state_of d source")
    case None
    then have "\<not> (\<exists>s \<in> set (source_states d). state_source s = source)"
      by (auto simp: state_of_def find_None)
    then show ?thesis
      using None by (cases "find (\<lambda>s. state_source s = other) (source_states d)")
        (auto simp: state_of_def update_checkpoint_def find_append checkpointed_def)
  next
    case (Some s)
    then have s: "s \<in> set (source_states d)" "state_source s = source"
      by (auto simp: state_of_def dest: find_first)
    then have "\<exists>s \<in> set (source_states d). state_source s = source" by blast
    then have states: "source_states (snd (update_checkpoint source i found d)) =
        update_rows (\<lambda>s. state_source s = source) (checkpointed i found (clock d)) (source_states d)"
      by (simp add: update_checkpoint_def)
    have other: "map_option (\<lambda>s. if state_source s = source then checkpointed i found t s else s)
          (find (\<lambda>s. state_source s = other) ss) = find (\<lambda>s. state_source s = other) ss"
      if "other \<noteq> source" for t ss
      using that by (cases "find (\<lambda>s. state_source s = other) ss") (auto dest: find_first)
    show ?thesis
      using s Some by (auto simp: state_of_def states upd other checkpointed_def)
  qed
qed

text \<open>
  A checkpoint is written for its own source alone, creates the source's row or updates
  it, and never touches the upstream marker a source may have.
\<close>

theorem checkpoint_moves_one_source:
  "state_of (snd (update_checkpoint source i found d)) other =
     (if other = source
      then Some (checkpointed i found (clock d)
        \<lparr>state_source = source, last_successful_run_id = None, last_successful_run_at = None,
         last_discovered_at = None, last_discovered_count = 0,
         last_external_marker = (case state_of d source of None \<Rightarrow> None | Some s \<Rightarrow> last_external_marker s),
         state_updated_at = 0\<rparr>)
      else state_of d other)"
  by (rule checkpoint_states)

text \<open>The last row of a table in key order is the one with the greatest key.\<close>

lemma newest_first_head:
  assumes "sorted_wrt (<) (map run_id rs)"
  shows "newest_first rs = rev rs"
    and "newest_first rs = r # rest \<Longrightarrow> r \<in> set rs \<and> (\<forall>q \<in> set rs. run_id q \<le> run_id r)"
proof -
  have "sorted (map run_id rs)" using assms by (simp add: strict_sorted_iff)
  then have "sort_key run_id rs = rs" by (rule sort_key_id_if_sorted)
  then show rev: "newest_first rs = rev rs" by (simp add: newest_first_def)
  assume "newest_first rs = r # rest"
  then have rs: "rs = rev rest @ [r]" using rev by (metis rev_rev_ident rev.simps(2))
  show "r \<in> set rs \<and> (\<forall>q \<in> set rs. run_id q \<le> run_id r)"
    using assms by (auto simp: rs sorted_wrt_append)
qed

lemma sorted_wrt_map_filter: "sorted_wrt (<) (map f xs) \<Longrightarrow> sorted_wrt (<) (map f (filter P xs))"
  by (induction xs) auto

text \<open>
  Whether a source's last load got through is told by one run: the greatest id among
  the source's earlier runs that discovered. A run stopped halfway, or none, says no.
\<close>

theorem previous_load_is_the_latest:
  assumes "commits\<^sup>*\<^sup>* empty_db d"
  shows "previous_load_completed source before d \<longleftrightarrow>
    (\<exists>r \<in> set (runs d). run_source r = Some source \<and> run_id r < before \<and> discovered r \<and>
       (\<forall>q \<in> set (runs d). run_source q = Some source \<and> run_id q < before \<and> discovered q \<longrightarrow> run_id q \<le> run_id r) \<and>
       (run_status r = COMPLETED \<or> run_status r = COMPLETED_WITH_ERRORS))"
proof -
  let ?rs = "filter (\<lambda>r. run_source r = Some source \<and> run_id r < before \<and> discovered r) (runs d)"
  have sound: "monitoring.sound d" by (rule sound_reachable [OF assms])
  then have sorted: "sorted_wrt (<) (map run_id ?rs)"
    by (intro sorted_wrt_map_filter) (simp add: monitoring.sound_def)
  show ?thesis
  proof (cases "newest_first ?rs")
    case Nil
    then have "?rs = []" using newest_first_head(1) [OF sorted] by simp
    then show ?thesis using Nil by (auto simp: previous_load_completed_def filter_empty_conv)
  next
    case (Cons r rest)
    note top = newest_first_head(2) [OF sorted Cons]
    have only: "q = r" if "q \<in> set ?rs" "\<forall>q' \<in> set ?rs. run_id q' \<le> run_id q" for q
      using that top monitoring.sound_key [OF sound, of q r] by (auto intro: le_antisym)
    show ?thesis
      using Cons top only by (auto simp: previous_load_completed_def)
  qed
qed

theorem previous_load_is_the_latest_witness:
  "previous_load_completed ''a'' 9 (fold perform [running_alpha, SetStageMetrics 1 DISCOVERY [], FinishRun 1 None] empty_db)"
  unfolding previous_load_is_the_latest [OF commits_fold]
  by (simp add: running_alpha_def insert_run_def empty_db_def Let_def finish_run_def row_by_def
      set_stage_metrics_def update_running_def running_row_def discovered_def closed_run_def
      outcome_status_def dict_keys_def new_run_def)

end
