(* ===== verification/Source_Health.thy ===== *)
theory Source_Health
  imports Monitoring_Runs
begin

text \<open>
  The sources whose site may have changed its layout, told from their own runs
  (\<open>orchestrator/source_health.py\<close>). The two SQL statements are read as the list functions
  they compute over the run table; the warning's text is left out.
\<close>

definition parse_failures_min :: nat where "parse_failures_min = 3"
definition silent_runs :: nat where "silent_runs = 3"
definition hour :: int where "hour = 60 * minute"
definition silent_min :: int where "silent_min = 24 * hour"
definition history :: int where "history = 30 * 24 * hour"

datatype signal = PARSE | SILENT

record layout_suspect =
  suspect_source :: string
  suspect_signal :: signal
  suspect_run :: nat
  suspect_since :: int
  suspect_count :: int
  suspect_total :: int

text \<open>The finished runs of the window, newest first; of every source or of one.\<close>

definition in_window :: "string option \<Rightarrow> int \<Rightarrow> monitoring_run \<Rightarrow> bool" where
  "in_window source since r \<longleftrightarrow> run_source r \<noteq> None \<and> run_finished_at r \<noteq> None \<and>
     run_status r \<in> {COMPLETED, COMPLETED_WITH_ERRORS} \<and> run_started_at r \<ge> since \<and>
     (source = None \<or> run_source r = source)"

definition recent_runs :: "string option \<Rightarrow> int \<Rightarrow> monitoring_db \<Rightarrow> monitoring_run list" where
  "recent_runs source since d =
     rev (sort_key (\<lambda>r. (run_started_at r, run_id r)) (filter (in_window source since) (runs d)))"

text \<open>The sources that have such runs, in order.\<close>

definition recent_sources :: "monitoring_run list \<Rightarrow> string list" where
  "recent_sources rs = sort (remdups (map (\<lambda>r. the (run_source r)) rs))"

definition history_of :: "string \<Rightarrow> monitoring_run list \<Rightarrow> monitoring_run list" where
  "history_of name rs = filter (\<lambda>r. run_source r = Some name) rs"

definition count_of :: "string \<Rightarrow> monitoring_run \<Rightarrow> int" where
  "count_of name r = (case dict_get (run_counts r) name of None \<Rightarrow> 0 | Some n \<Rightarrow> n)"

definition parse_failed :: "nat \<Rightarrow> monitoring_db \<Rightarrow> nat" where
  "parse_failed i d = length (filter (\<lambda>x. item_run_id x = i \<and> item_status x = ''failed'' \<and>
     item_error_type x = ''ParseError'') (run_items d))"

text \<open>The first signal: the latest run's articles do not parse.\<close>

definition parse_suspect :: "monitoring_db \<Rightarrow> string \<Rightarrow> monitoring_run list \<Rightarrow> layout_suspect option" where
  "parse_suspect d name rs = (case history_of name rs of
     [] \<Rightarrow> None
   | r # _ \<Rightarrow>
       (let failed = parse_failed (run_id r) d;
            fetched = count_of ''documents_ingested'' r + count_of ''documents_failed'' r
        in if failed \<ge> parse_failures_min \<and> 2 * int failed \<ge> fetched
           then Some \<lparr>suspect_source = name, suspect_signal = PARSE, suspect_run = run_id r,
             suspect_since = run_started_at r, suspect_count = int failed, suspect_total = fetched\<rparr>
           else None))"

text \<open>The second: the latest runs found nothing, though earlier ones did.\<close>

definition silent_suspect :: "int \<Rightarrow> string \<Rightarrow> monitoring_run list \<Rightarrow> layout_suspect option" where
  "silent_suspect moment name rs =
     (let past = history_of name rs;
          streak = takeWhile (\<lambda>r. count_of ''documents_discovered'' r = 0) past
      in if \<not> length streak < length past \<or> length streak < silent_runs then None
         else let first = last streak
         in if moment - run_started_at first < silent_min then None
            else Some \<lparr>suspect_source = name, suspect_signal = SILENT, suspect_run = run_id first,
               suspect_since = run_started_at first, suspect_count = int (length streak),
               suspect_total = int (length past)\<rparr>)"

definition layout_suspects :: "string option \<Rightarrow> monitoring_db \<Rightarrow> layout_suspect list" where
  "layout_suspects source d =
     (let rs = recent_runs source (clock d - history) d in
      concat (map (\<lambda>name. map the (filter (\<lambda>x. x \<noteq> None)
         [parse_suspect d name rs, silent_suspect (clock d) name rs])) (recent_sources rs)))"

lemma takeWhile_split:
  assumes "length (takeWhile P xs) < length xs"
  shows "\<exists>x rest. xs = takeWhile P xs @ x # rest \<and> \<not> P x"
proof -
  have "dropWhile P xs \<noteq> []"
    using assms by (metis append_Nil2 less_irrefl takeWhile_dropWhile_id)
  then obtain x rest where "dropWhile P xs = x # rest" by (meson neq_Nil_conv)
  then show ?thesis by (metis dropWhile_eq_Cons_conv)
qed

text \<open>
  A source is called silent exactly when its latest finished runs of the window, three or
  more, found nothing, an earlier one found something, and the first silent one began at
  least a day ago. The run named is that first silent one, the count the silent runs.
\<close>

theorem silent_source_found_before:
  "silent_suspect moment name rs = Some s \<longleftrightarrow>
    (\<exists>streak r older. history_of name rs = streak @ r # older \<and>
       list_all (\<lambda>q. count_of ''documents_discovered'' q = 0) streak \<and>
       count_of ''documents_discovered'' r \<noteq> 0 \<and> silent_runs \<le> length streak \<and>
       silent_min \<le> moment - run_started_at (last streak) \<and>
       s = \<lparr>suspect_source = name, suspect_signal = SILENT, suspect_run = run_id (last streak),
         suspect_since = run_started_at (last streak), suspect_count = int (length streak),
         suspect_total = int (length (history_of name rs))\<rparr>)"
    (is "?left \<longleftrightarrow> (\<exists>streak r older. ?right streak r older)")
proof
  let ?zero = "\<lambda>q. count_of ''documents_discovered'' q = 0"
  let ?past = "history_of name rs"
  assume l: ?left
  then have parts: "length (takeWhile ?zero ?past) < length ?past"
    "silent_runs \<le> length (takeWhile ?zero ?past)"
    "silent_min \<le> moment - run_started_at (last (takeWhile ?zero ?past))"
    "s = \<lparr>suspect_source = name, suspect_signal = SILENT, suspect_run = run_id (last (takeWhile ?zero ?past)),
       suspect_since = run_started_at (last (takeWhile ?zero ?past)),
       suspect_count = int (length (takeWhile ?zero ?past)), suspect_total = int (length ?past)\<rparr>"
    by (auto simp: silent_suspect_def Let_def split: if_split_asm)
  obtain r older where "?past = takeWhile ?zero ?past @ r # older" "\<not> ?zero r"
    using takeWhile_split [OF parts(1)] by blast
  moreover have "list_all ?zero (takeWhile ?zero ?past)" by (auto simp: list_all_iff dest: set_takeWhileD)
  ultimately have "?right (takeWhile ?zero ?past) r older"
    using parts(2-4) by (intro conjI)
  then show "\<exists>streak r older. ?right streak r older" by blast
next
  let ?zero = "\<lambda>q. count_of ''documents_discovered'' q = 0"
  assume "\<exists>streak r older. ?right streak r older"
  then obtain streak r older where r: "?right streak r older" by blast
  then have "takeWhile ?zero (history_of name rs) = streak"
    by (simp add: list_all_iff takeWhile_append2)
  then show ?left using r by (simp add: silent_suspect_def Let_def)
qed

end
