(* ===== verification/Discovery.thy ===== *)
theory Discovery
  imports Errors
begin

text \<open>
  Finding what a source published: the retried fetch of one listing page and the paging
  over a listing (\<open>ingestion/sources/discovery_pagination.py\<close>). The HTTP client, the wait,
  the listing parser and the lookup of what is stored are parameters.
\<close>

section \<open>References and HTTP answers\<close>

text \<open>\<open>monitor_core/model/source.py: SourceReference\<close>.\<close>

record source_reference =
  ref_external_id :: string
  ref_url :: string

text \<open>What the code reads of an httpx response; \<open>raise_for_status\<close> accepts 2xx only.\<close>

record http_response =
  status_code :: int
  response_url :: string
  content_type_header :: "string option"
  retry_after_header :: "string option"
  response_content :: string

definition raise_for_status :: "http_response \<Rightarrow> ('s, exn, http_response) action" where
  "raise_for_status r = (if 200 \<le> status_code r \<and> status_code r \<le> 299 then returnA r
     else raiseA (Http (HTTPStatusError (status_code r) (retry_after_header r))))"

definition http_get :: "(string \<Rightarrow> ('s, exn, http_response) action) \<Rightarrow> string
    \<Rightarrow> ('s, exn, http_response) action" where
  "http_get client url = bindA (client url) raise_for_status"

section \<open>One listing page: fetch_listing_page_with_retry\<close>

definition unreachable :: exn where
  "unreachable = OtherException ''AssertionError'' ''unreachable''"

definition listing_status_error :: "int \<Rightarrow> bool \<Rightarrow> exn option" where
  "listing_status_error status last_attempt =
     (let retryable = (status = 429 \<or> status \<ge> 500) in
      if status = 404 then Some (ListingPageNotFoundError (''Failed to discover articles: HTTP '' @ digits_of (nat status)))
      else if \<not> retryable then Some (PermanentDiscoveryError (''Failed to discover articles: HTTP '' @ digits_of (nat status)))
      else if last_attempt then Some (TransientDiscoveryError (''Temporary discovery failure: HTTP '' @ digits_of (nat status)))
      else None)"

text \<open>\<open>None\<close>: the failure is one to wait after and repeat.\<close>

definition listing_failure :: "exn \<Rightarrow> bool \<Rightarrow> exn option" where
  "listing_failure e last_attempt =
     (case e of
        Http (HTTPStatusError status _) \<Rightarrow> listing_status_error status last_attempt
      | Http _ \<Rightarrow> (if last_attempt then Some (TransientDiscoveryError ''Temporary discovery failure'')
                   else None)
      | _ \<Rightarrow> Some e)"

function listing_attempts ::
  "(string \<Rightarrow> ('s, exn, http_response) action) \<Rightarrow> string \<Rightarrow> nat \<Rightarrow> rat
   \<Rightarrow> (rat \<Rightarrow> ('s, exn, unit) action) \<Rightarrow> nat \<Rightarrow> ('s, exn, string) action" where
  "listing_attempts client url max_attempts base_delay sleep attempt =
     (if attempt < max_attempts
      then tryA (http_get client url)
        (\<lambda>response. returnA (response_content response))
        (\<lambda>e. case listing_failure e (attempt = max_attempts - 1) of
           Some e' \<Rightarrow> raiseA e'
         | None \<Rightarrow> bindA (sleep (base_delay * 2 ^ attempt))
             (\<lambda>_. listing_attempts client url max_attempts base_delay sleep (Suc attempt)))
      else raiseA unreachable)"
  by pat_completeness auto
termination
  by (relation "measure (\<lambda>(_, _, max_attempts, _, _, attempt). max_attempts - attempt)") auto

declare listing_attempts.simps [simp del]

definition fetch_listing_page_with_retry ::
  "(string \<Rightarrow> ('s, exn, http_response) action) \<Rightarrow> string \<Rightarrow> nat \<Rightarrow> rat
   \<Rightarrow> (rat \<Rightarrow> ('s, exn, unit) action) \<Rightarrow> ('s, exn, string) action" where
  "fetch_listing_page_with_retry client url max_attempts base_delay sleep =
     listing_attempts client url max_attempts base_delay sleep 0"

section \<open>The pages of a listing: discover_paginated_references\<close>

text \<open>
  The inner \<open>for\<close>: the references not seen yet are added, up to \<open>limit\<close> in all. It returns
  the references so far, the ids seen and the ids this page added.
\<close>

fun add_references ::
  "nat \<Rightarrow> source_reference list \<Rightarrow> string list \<Rightarrow> string list \<Rightarrow> source_reference list
   \<Rightarrow> source_reference list \<times> string list \<times> string list" where
  "add_references limit refs seen added [] = (refs, seen, added)"
| "add_references limit refs seen added (r # rs) =
     (if ref_external_id r \<in> set seen then add_references limit refs seen added rs
      else let refs' = refs @ [r]; seen' = ref_external_id r # seen;
               added' = added @ [ref_external_id r]
           in if length refs' = limit then (refs', seen', added')
              else add_references limit refs' seen' added' rs)"

lemma add_references_length:
  "add_references limit refs seen added rs = (refs', seen', added') \<Longrightarrow>
   length refs' + length added = length refs + length added'"
  by (induction limit refs seen added rs rule: add_references.induct)
     (auto simp: Let_def split: if_splits)

lemma add_references_grows:
  assumes "(refs', seen', added) = add_references limit refs seen [] rs" and "added \<noteq> []"
  shows "length refs < length refs'"
proof -
  have "length refs' + length ([] :: string list) = length refs + length added"
    by (rule add_references_length [OF assms(1) [symmetric]])
  with assms(2) show ?thesis by (cases added) auto
qed

text \<open>
  The \<open>while\<close> loop. It ends: a page that adds nothing breaks it, and every other page brings
  the number of references closer to \<open>limit\<close>.
\<close>

definition reached_known ::
  "(string list \<Rightarrow> ('s, exn, string list) action) option \<Rightarrow> string list \<Rightarrow> ('s, exn, bool) action" where
  "reached_known known added = (case known of
     None \<Rightarrow> returnA False
   | Some lookup \<Rightarrow> bindA (lookup added) (\<lambda>stored. returnA (set added \<subseteq> set stored)))"

function discover_loop ::
  "nat \<Rightarrow> (nat \<Rightarrow> string) \<Rightarrow> (string \<Rightarrow> ('s, exn, string) action)
   \<Rightarrow> (string \<Rightarrow> exn + source_reference list)
   \<Rightarrow> (string list \<Rightarrow> ('s, exn, string list) action) option
   \<Rightarrow> source_reference list \<Rightarrow> string list \<Rightarrow> nat \<Rightarrow> ('s, exn, source_reference list) action" where
  "discover_loop limit listing_url fetch_page parse_page known refs seen page s =
     (if \<not> length refs < limit then (Inr refs, s)
      else (case fetch_page (listing_url page) s of
         (Inl e, t) \<Rightarrow>
           (case e of
              ListingPageNotFoundError m \<Rightarrow> if page = 0 then (Inl e, t) else (Inr refs, t)
            | _ \<Rightarrow> (Inl e, t))
       | (Inr content, t) \<Rightarrow>
          (case parse_page content of
             Inl e \<Rightarrow> (Inl e, t)
           | Inr page_refs \<Rightarrow>
              if page_refs = [] then (Inr refs, t)
              else (case add_references limit refs seen [] page_refs of (refs', seen', added) \<Rightarrow>
                 if added = [] then (Inr refs', t)
                 else (case reached_known known added t of
                     (Inl e, u) \<Rightarrow> (Inl e, u)
                   | (Inr stop, u) \<Rightarrow>
                       if stop then (Inr refs', u)
                       else discover_loop limit listing_url fetch_page parse_page known
                              refs' seen' (Suc page) u)))))"
  by pat_completeness auto
termination
  by (relation "measure (\<lambda>(limit, _, _, _, _, refs, _). limit - length refs)")
    (auto dest!: add_references_grows intro: diff_less_mono2)

declare discover_loop.simps [simp del]

definition discover_paginated_references ::
  "int \<Rightarrow> (nat \<Rightarrow> string) \<Rightarrow> (string \<Rightarrow> ('s, exn, string) action)
   \<Rightarrow> (string \<Rightarrow> exn + source_reference list)
   \<Rightarrow> (string list \<Rightarrow> ('s, exn, string list) action) option \<Rightarrow> ('s, exn, source_reference list) action" where
  "discover_paginated_references limit listing_url fetch_page parse_page known =
     (if limit < 1 then raiseA (ValueError ''limit must be greater than zero'')
      else discover_loop (nat limit) listing_url fetch_page parse_page known [] [] 0)"

section \<open>What the listing fetch promises\<close>

text \<open>
  The answer of one listing request, told apart as the code does: a page, a failure to
  raise at once, or one to wait after. Only HTTP failures are repeated.
\<close>

lemma listing_failure_cases:
  "listing_failure e final = None \<Longrightarrow>
     \<not> final \<and> (is_transport_error e \<or> (\<exists>status h. e = Http (HTTPStatusError status h) \<and>
        (status = 429 \<or> status \<ge> 500)))"
  by (cases e rule: exn.exhaust)
     (auto simp: listing_failure_def listing_status_error_def Let_def split: if_splits http_failure.splits)

lemma listing_failure_raised:
  "listing_failure e final = Some e' \<Longrightarrow> is_discovery_error e' \<or> (e' = e \<and> (\<forall>h. e \<noteq> Http h))"
  by (cases e rule: exn.exhaust)
     (auto simp: listing_failure_def listing_status_error_def is_discovery_error_def Let_def
       split: if_splits http_failure.splits)

lemma listing_attempts_discovery_error:
  assumes "attempt < max_attempts"
    and "\<And>d s. fst (sleep d s) = Inr ()"
    and "listing_attempts client url max_attempts base_delay sleep attempt s = (Inl e, t)"
  shows "is_discovery_error e \<or> (\<exists>s. fst (client url s) = Inl e \<and> (\<forall>h. e \<noteq> Http h))"
  using assms
proof (induction "max_attempts - attempt" arbitrary: attempt s)
  case 0
  then show ?case by simp
next
  case (Suc n)
  obtain e0 t0 where get: "http_get client url s = (Inl e0, t0)"
    using Suc.prems(1,3)
    by (subst (asm) listing_attempts.simps)
      (cases "http_get client url s", case_tac a, auto simp: tryA_def returnA_def)
  have raw: "(\<exists>h. e0 = Http h) \<or> fst (client url s) = Inl e0"
    using get by (auto simp: http_get_def bindA_def raise_for_status_def raiseA_def returnA_def
        split: prod.splits sum.splits if_splits)
  show ?case
  proof (cases "listing_failure e0 (attempt = max_attempts - 1)")
    case (Some e')
    have "e = e'"
      using Suc.prems(1,3) get Some
      by (subst (asm) listing_attempts.simps) (auto simp: tryA_def raiseA_def)
    with listing_failure_raised [OF Some] raw show ?thesis by auto
  next
    case None
    then have last: "attempt \<noteq> max_attempts - 1" using listing_failure_cases by blast
    obtain u where u: "sleep (base_delay * 2 ^ attempt) t0 = (Inr (), u)"
      using Suc.prems(2) by (metis prod.collapse)
    have "listing_attempts client url max_attempts base_delay sleep (Suc attempt) u = (Inl e, t)"
      using Suc.prems(1,3) get None u
      by (subst (asm) listing_attempts.simps) (auto simp: tryA_def bindA_def)
    moreover have "n = max_attempts - Suc attempt" "Suc attempt < max_attempts"
      using Suc.hyps(2) Suc.prems(1) last by auto
    ultimately show ?thesis using Suc.hyps(1) [of "Suc attempt" u] Suc.prems(2) by blast
  qed
qed

text \<open>
  A listing page that cannot be read fails as a discovery error: whatever the site
  answers, with at least one attempt allowed no HTTP failure and no \<open>AssertionError\<close>
  leaves \<open>fetch_listing_page_with_retry\<close>; the line marked unreachable is.
\<close>

theorem listing_page_errors:
  assumes "1 \<le> max_attempts" and "\<And>d s. fst (sleep d s) = Inr ()"
    and "\<And>s e. fst (client url s) = Inl e \<Longrightarrow> \<exists>h. e = Http h"
    and "fetch_listing_page_with_retry client url max_attempts base_delay sleep s = (Inl e, t)"
  shows "is_discovery_error e"
proof -
  have "is_discovery_error e \<or> (\<exists>s. fst (client url s) = Inl e \<and> (\<forall>h. e \<noteq> Http h))"
    using assms(1,2,4) by (intro listing_attempts_discovery_error [of 0 max_attempts])
      (auto simp: fetch_listing_page_with_retry_def)
  then show ?thesis using assms(3) by blast
qed

theorem listing_page_errors_witness:
  "is_discovery_error (TransientDiscoveryError ''Temporary discovery failure'')"
proof (rule listing_page_errors [where max_attempts = 2 and sleep = "\<lambda>d s. (Inr (), s + 1)"
      and client = "\<lambda>url s. (Inl (Http TimeoutException), s)" and s = "0 :: nat" and t = 1
      and url = "''u''" and base_delay = "1 / 2"])
  show "fetch_listing_page_with_retry (\<lambda>url s. (Inl (Http TimeoutException), s)) ''u'' 2 (1 / 2)
      (\<lambda>d s. (Inr (), s + 1)) (0::nat)
    = (Inl (TransientDiscoveryError ''Temporary discovery failure''), 1)"
    by (simp add: fetch_listing_page_with_retry_def listing_attempts.simps action_defs http_get_def
        listing_failure_def)
qed auto

section \<open>What the paging promises\<close>

text \<open>The first reference of each id, in the listing's order.\<close>

fun first_of_each :: "source_reference list \<Rightarrow> source_reference list" where
  "first_of_each [] = []"
| "first_of_each (r # rs) =
     r # filter (\<lambda>x. ref_external_id x \<noteq> ref_external_id r) (first_of_each rs)"

lemma image_filter_out:
  "ref_external_id ` {x \<in> S. ref_external_id x \<noteq> a} = ref_external_id ` S - {a}"
  by auto

lemma first_of_each_ids [simp]: "ref_external_id ` set (first_of_each rs) = ref_external_id ` set rs"
  by (induction rs) (simp_all add: image_filter_out)

lemma first_of_each_subset: "set (first_of_each rs) \<subseteq> set rs"
  by (induction rs) auto

lemma first_of_each_distinct: "distinct (map ref_external_id (first_of_each rs))"
  by (induction rs) (auto simp: distinct_map inj_on_def)

lemma first_of_each_append:
  "first_of_each (xs @ ys) = first_of_each xs @
     filter (\<lambda>y. ref_external_id y \<notin> ref_external_id ` set xs) (first_of_each ys)"
  by (induction xs) (auto intro!: filter_cong)

lemma add_references_spec:
  assumes "length refs < limit" and "set seen = ref_external_id ` set refs"
  shows "\<exists>seen'. add_references limit refs seen added rs =
     (take limit (refs @ filter (\<lambda>r. ref_external_id r \<notin> set seen) (first_of_each rs)), seen',
      added @ map ref_external_id (take (limit - length refs)
        (filter (\<lambda>r. ref_external_id r \<notin> set seen) (first_of_each rs)))) \<and>
     set seen' = ref_external_id `
       set (take limit (refs @ filter (\<lambda>r. ref_external_id r \<notin> set seen) (first_of_each rs)))"
  using assms
proof (induction rs arbitrary: refs seen added)
  case Nil
  then show ?case by simp
next
  case (Cons r rs)
  show ?case
  proof (cases "ref_external_id r \<in> set seen")
    case True
    have "filter (\<lambda>x. ref_external_id x \<notin> set seen)
        (filter (\<lambda>x. ref_external_id x \<noteq> ref_external_id r) (first_of_each rs))
      = filter (\<lambda>x. ref_external_id x \<notin> set seen) (first_of_each rs)"
      using True by (auto simp: filter_filter intro!: filter_cong)
    with True Cons show ?thesis by simp
  next
    case new: False
    let ?refs = "refs @ [r]" and ?seen = "ref_external_id r # seen"
    have rest: "filter (\<lambda>x. ref_external_id x \<notin> set seen)
        (filter (\<lambda>x. ref_external_id x \<noteq> ref_external_id r) (first_of_each rs))
      = filter (\<lambda>x. ref_external_id x \<notin> set ?seen) (first_of_each rs)"
      by (auto simp: filter_filter intro!: filter_cong)
    show ?thesis
    proof (cases "Suc (length refs) = limit")
      case True
      then have one: "limit - length refs = 1" by simp
      have "set ?seen = ref_external_id ` set (take limit (?refs @ zs))" for zs
        using Cons.prems(1,2) by (simp add: one)
      with new True one rest show ?thesis by (simp add: Let_def)
    next
      case False
      then have "length ?refs < limit" and "set ?seen = ref_external_id ` set ?refs"
        using Cons.prems by auto
      moreover have "limit - length refs = Suc (limit - Suc (length refs))"
        using Cons.prems(1) by simp
      ultimately show ?thesis
        using Cons.IH [of ?refs ?seen "added @ [ref_external_id r]"] new False rest
        by (simp add: Let_def)
    qed
  qed
qed

text \<open>A scripted site: its listing pages in order, then HTTP 404.\<close>

definition scripted_listing :: "string \<Rightarrow> (string list, exn, string) action" where
  "scripted_listing url s = (case s of
     [] \<Rightarrow> (Inl (ListingPageNotFoundError []), [])
   | c # cs \<Rightarrow> (Inr c, cs))"

definition listed :: "(string \<Rightarrow> source_reference list) \<Rightarrow> string list \<Rightarrow> source_reference list" where
  "listed parse pages = first_of_each (concat (map parse pages))"

definition nothing_new :: "(string \<Rightarrow> source_reference list) \<Rightarrow> string list \<Rightarrow> string \<Rightarrow> bool" where
  "nothing_new parse before page \<longleftrightarrow>
     ref_external_id ` set (parse page) \<subseteq> ref_external_id ` set (listed parse before)"

lemma listed_snoc:
  "listed parse (ps @ [c]) = listed parse ps @
     filter (\<lambda>y. ref_external_id y \<notin> ref_external_id ` set (listed parse ps)) (first_of_each (parse c))"
  by (simp add: listed_def first_of_each_append)

lemma discover_loop_full:
  "limit \<le> length refs \<Longrightarrow> discover_loop limit url f p known refs seen page s = (Inr refs, s)"
  by (subst discover_loop.simps) simp

lemma discover_loop_spec:
  assumes "refs = listed parse before" and "length refs < limit"
    and "set seen = ref_external_id ` set refs" and "page = length before"
    and "before \<noteq> [] \<or> rest \<noteq> []"
  shows "\<exists>n t. n \<le> length rest \<and>
     discover_loop limit url scripted_listing (\<lambda>c. Inr (parse c)) None refs seen page rest
       = (Inr (take limit (listed parse (before @ take n rest))), t) \<and>
     (limit \<le> length (listed parse (before @ take n rest)) \<or> n = length rest \<or>
        nothing_new parse (before @ take n rest) (rest ! n))"
  using assms
proof (induction rest arbitrary: refs seen page before)
  case Nil
  then have "discover_loop limit url scripted_listing (\<lambda>c. Inr (parse c)) None refs seen page []
      = (Inr refs, [])"
    by (subst discover_loop.simps) (auto simp: scripted_listing_def)
  with Nil show ?case by auto
next
  case (Cons c rest)
  let ?new = "filter (\<lambda>r. ref_external_id r \<notin> set seen) (first_of_each (parse c))"
  obtain seen' where add: "add_references limit refs seen [] (parse c) =
      (take limit (refs @ ?new), seen', map ref_external_id (take (limit - length refs) ?new))"
    and seen': "set seen' = ref_external_id ` set (take limit (refs @ ?new))"
    using add_references_spec [OF Cons.prems(2,3), of "[]" "parse c"] by auto
  have snoc: "listed parse (before @ [c]) = refs @ ?new"
    by (simp add: listed_snoc Cons.prems(1,3))
  show ?case
  proof (cases "?new = []")
    case True
    have "add_references limit refs seen [] (parse c) = (refs, seen', [])"
      using add Cons.prems(2) unfolding True by simp
    then have "discover_loop limit url scripted_listing (\<lambda>c. Inr (parse c)) None refs seen page (c # rest)
        = (Inr refs, rest)"
      using Cons.prems(2)
      by (subst discover_loop.simps) (simp add: scripted_listing_def)
    moreover have "nothing_new parse before c"
    proof -
      have "ref_external_id ` set (parse c) = ref_external_id ` set (first_of_each (parse c))" by simp
      then have "ref_external_id ` set (parse c) \<subseteq> set seen"
        using True unfolding filter_empty_conv by (metis image_subsetI)
      then show ?thesis by (simp add: nothing_new_def Cons.prems(1,3) flip: Cons.prems(1))
    qed
    ultimately show ?thesis
      using Cons.prems(1,2) by (intro exI [of _ 0]) auto
  next
    case False
    have some: "take (limit - length refs) ?new \<noteq> []" using False Cons.prems(2) by auto
    have step: "discover_loop limit url scripted_listing (\<lambda>c. Inr (parse c)) None refs seen page (c # rest)
        = discover_loop limit url scripted_listing (\<lambda>c. Inr (parse c)) None
            (take limit (refs @ ?new)) seen' (Suc page) rest"
      using Cons.prems(2) add some False
      by (subst discover_loop.simps [of _ _ _ _ _ refs])
         (auto simp: scripted_listing_def reached_known_def returnA_def)
    show ?thesis
    proof (cases "limit \<le> length (refs @ ?new)")
      case True
      then have "discover_loop limit url scripted_listing (\<lambda>c. Inr (parse c)) None
            (take limit (refs @ ?new)) seen' (Suc page) rest = (Inr (take limit (refs @ ?new)), rest)"
        by (intro discover_loop_full) simp
      with step True snoc show ?thesis by (intro exI [of _ 1] exI [of _ rest]) simp
    next
      case room: False
      then have all: "take limit (refs @ ?new) = refs @ ?new" by simp
      obtain n t where n: "n \<le> length rest"
        "discover_loop limit url scripted_listing (\<lambda>c. Inr (parse c)) None
           (refs @ ?new) seen' (Suc page) rest
         = (Inr (take limit (listed parse ((before @ [c]) @ take n rest))), t)"
        "limit \<le> length (listed parse ((before @ [c]) @ take n rest)) \<or> n = length rest \<or>
           nothing_new parse ((before @ [c]) @ take n rest) (rest ! n)"
        using Cons.IH [of "refs @ ?new" "before @ [c]" seen' "Suc page"] snoc room seen' all
          Cons.prems(4) by auto
      with step all show ?thesis by (intro exI [of _ "Suc n"] exI [of _ t]) auto
    qed
  qed
qed

text \<open>
  Without a stop at what is stored, discovery returns the listing itself: the first
  \<open>limit\<close> distinct references of its pages, newest first and each id once, reading pages
  until the limit is reached, the archive ends, or a page brings nothing new. It always
  ends, whatever the pages hold.
\<close>

theorem discover_returns_listing:
  assumes "1 \<le> limit" and "pages \<noteq> []"
  shows "\<exists>n \<le> length pages. \<exists>t.
     discover_paginated_references limit url scripted_listing (\<lambda>c. Inr (parse c)) None pages
       = (Inr (take (nat limit) (listed parse (take n pages))), t) \<and>
     (nat limit \<le> length (listed parse (take n pages)) \<or> n = length pages \<or>
        nothing_new parse (take n pages) (pages ! n))"
  using discover_loop_spec [of "[]" parse "[]" "nat limit" "[]" 0 pages url] assms
  by (auto simp: discover_paginated_references_def listed_def)

theorem discover_returns_listing_witness:
  "\<exists>n \<le> length [''ab'', ''bc'']. \<exists>t.
     discover_paginated_references 2 digits_of scripted_listing
       (\<lambda>c. Inr (map (\<lambda>x. \<lparr>ref_external_id = [x], ref_url = []\<rparr>) c)) None [''ab'', ''bc'']
     = (Inr (take (nat 2) (listed (map (\<lambda>x. \<lparr>ref_external_id = [x], ref_url = []\<rparr>))
          (take n [''ab'', ''bc'']))), t) \<and>
     (nat 2 \<le> length (listed (map (\<lambda>x. \<lparr>ref_external_id = [x], ref_url = []\<rparr>))
          (take n [''ab'', ''bc''])) \<or> n = length [''ab'', ''bc''] \<or>
      nothing_new (map (\<lambda>x. \<lparr>ref_external_id = [x], ref_url = []\<rparr>))
          (take n [''ab'', ''bc'']) ([''ab'', ''bc''] ! n))"
  by (rule discover_returns_listing) simp_all

end
