(* ===== verification/Retry.thy ===== *)
theory Retry
  imports Errors
begin

text \<open>
  Calling again after a failure: \<open>monitor_core/retry.py\<close> (\<open>retry\<close>, \<open>retry_async\<close>) and
  \<open>monitor_core/ingestion/retry.py\<close> (\<open>RetryingDocumentFetcher\<close>). Delays are exact
  rationals for the code's floats; what the operation, the wait and the callback do is a
  parameter, an action over any state.
\<close>

section \<open>retry and retry_async\<close>

text \<open>
  The \<open>while True\<close> loop after \<open>failures\<close> failed calls. An exception of the wait itself
  leaves the loop (it is raised inside the \<open>except\<close> block).
\<close>

function retry_loop ::
  "('s, exn, 'a) action \<Rightarrow> int \<Rightarrow> (exn \<Rightarrow> bool) \<Rightarrow> (int \<Rightarrow> rat) \<Rightarrow> (rat \<Rightarrow> ('s, exn, unit) action)
   \<Rightarrow> int \<Rightarrow> ('s, exn, 'a) action" where
  "retry_loop operation attempts should_retry delay_seconds sleep failures s =
     (case operation s of
        (Inr x, t) \<Rightarrow> (Inr x, t)
      | (Inl e, t) \<Rightarrow>
          if \<not> is_exception e then (Inl e, t)
          else if failures + 1 \<ge> attempts \<or> \<not> should_retry e then (Inl e, t)
          else (case sleep (delay_seconds (failures + 1)) t of
                  (Inl e', u) \<Rightarrow> (Inl e', u)
                | (Inr _, u) \<Rightarrow>
                    retry_loop operation attempts should_retry delay_seconds sleep (failures + 1) u))"
  by pat_completeness auto
termination
  by (relation "measure (\<lambda>(_, attempts, _, _, _, failures, _). nat (attempts - failures))") auto

declare retry_loop.simps [simp del]

definition attempts_error :: exn where
  "attempts_error = ValueError ''attempts must be at least 1''"

definition retry ::
  "('s, exn, 'a) action \<Rightarrow> int \<Rightarrow> (exn \<Rightarrow> bool) \<Rightarrow> (int \<Rightarrow> rat) \<Rightarrow> (rat \<Rightarrow> ('s, exn, unit) action)
   \<Rightarrow> ('s, exn, 'a) action" where
  "retry operation attempts should_retry delay_seconds sleep =
     (if attempts < 1 then raiseA attempts_error
      else retry_loop operation attempts should_retry delay_seconds sleep 0)"

text \<open>
  The awaited one: the same statements with \<open>await\<close>, each of which completes before the
  next statement runs.
\<close>

definition retry_async ::
  "('s, exn, 'a) action \<Rightarrow> int \<Rightarrow> (exn \<Rightarrow> bool) \<Rightarrow> (int \<Rightarrow> rat) \<Rightarrow> (rat \<Rightarrow> ('s, exn, unit) action)
   \<Rightarrow> ('s, exn, 'a) action" where
  "retry_async operation attempts should_retry delay_seconds sleep =
     (if attempts < 1 then raiseA attempts_error
      else retry_loop operation attempts should_retry delay_seconds sleep 0)"

section \<open>RetryingDocumentFetcher\<close>

record retry_config =
  max_attempts :: int
  base_delay_seconds :: rat
  max_delay_seconds :: rat
  jitter_ratio :: rat

definition retrying_fetcher :: "int \<Rightarrow> rat \<Rightarrow> rat \<Rightarrow> rat \<Rightarrow> exn + retry_config" where
  "retrying_fetcher attempts base_delay max_delay jitter =
     (if attempts < 1 then Inl (ValueError ''max_attempts must be greater than zero'')
      else if base_delay < 0 then Inl (ValueError ''base_delay_seconds must not be negative'')
      else if max_delay \<le> 0 then Inl (ValueError ''max_delay_seconds must be greater than zero'')
      else if \<not> (0 \<le> jitter \<and> jitter \<le> 1)
        then Inl (ValueError ''jitter_ratio must be between zero and one'')
      else Inr \<lparr>max_attempts = attempts, base_delay_seconds = base_delay,
                max_delay_seconds = max_delay, jitter_ratio = jitter\<rparr>)"

definition valid_retry_config :: "retry_config \<Rightarrow> bool" where
  "valid_retry_config c \<longleftrightarrow> 1 \<le> max_attempts c \<and> 0 \<le> base_delay_seconds c \<and>
     0 < max_delay_seconds c \<and> 0 \<le> jitter_ratio c \<and> jitter_ratio c \<le> 1"

text \<open>
  The backoff before the call after \<open>failures\<close> failures, drawn by \<open>uniform\<close> when jitter is
  on, and the wait: the longer of it and the site's \<open>Retry-After\<close>, capped.
\<close>

definition backoff_base :: "retry_config \<Rightarrow> nat \<Rightarrow> rat" where
  "backoff_base c failures = min (max_delay_seconds c) (base_delay_seconds c * 2 ^ (failures - 1))"

definition backoff_seconds ::
  "retry_config \<Rightarrow> (rat \<Rightarrow> rat \<Rightarrow> 's \<Rightarrow> rat \<times> 's) \<Rightarrow> nat \<Rightarrow> 's \<Rightarrow> rat \<times> 's" where
  "backoff_seconds c uniform failures s =
     (let backoff = backoff_base c failures in
      if jitter_ratio c \<noteq> 0
      then uniform (backoff * (1 - jitter_ratio c)) (backoff * (1 + jitter_ratio c)) s
      else (backoff, s))"

definition retry_wait :: "retry_config \<Rightarrow> rat \<Rightarrow> rat option \<Rightarrow> rat" where
  "retry_wait c backoff retry_after =
     max backoff (min (case retry_after of None \<Rightarrow> 0 | Some r \<Rightarrow> r) (max_delay_seconds c))"

function retrying_fetch_loop ::
  "retry_config \<Rightarrow> (rat \<Rightarrow> rat \<Rightarrow> 's \<Rightarrow> rat \<times> 's) \<Rightarrow> ('s, exn, unit) action option
   \<Rightarrow> (rat \<Rightarrow> ('s, exn, unit) action) \<Rightarrow> ('s, exn, 'd) action \<Rightarrow> nat \<Rightarrow> ('s, exn, 'd) action" where
  "retrying_fetch_loop c uniform on_retry sleep fetch failures s =
     (case fetch s of
        (Inr x, t) \<Rightarrow> (Inr x, t)
      | (Inl e, t) \<Rightarrow>
         (case e of
            TransientFetchError m retry_after \<Rightarrow>
             (if int (Suc failures) \<ge> max_attempts c then (Inl e, t)
              else (case (case on_retry of None \<Rightarrow> returnA () | Some callback \<Rightarrow> callback) t of
                 (Inl e', u) \<Rightarrow> (Inl e', u)
               | (Inr _, u) \<Rightarrow>
                  (case backoff_seconds c uniform (Suc failures) u of (backoff, v) \<Rightarrow>
                    (case sleep (retry_wait c backoff retry_after) v of
                       (Inl e', w) \<Rightarrow> (Inl e', w)
                     | (Inr _, w) \<Rightarrow>
                         retrying_fetch_loop c uniform on_retry sleep fetch (Suc failures) w))))
          | _ \<Rightarrow> (Inl e, t)))"
  by pat_completeness auto
termination
  by (relation "measure (\<lambda>(c, _, _, _, _, failures, _). nat (max_attempts c - int failures))") auto

declare retrying_fetch_loop.simps [simp del]

definition retrying_fetch ::
  "retry_config \<Rightarrow> (rat \<Rightarrow> rat \<Rightarrow> 's \<Rightarrow> rat \<times> 's) \<Rightarrow> ('r \<Rightarrow> ('s, exn, unit) action) option
   \<Rightarrow> (rat \<Rightarrow> ('s, exn, unit) action) \<Rightarrow> ('r \<Rightarrow> ('s, exn, 'd) action) \<Rightarrow> 'r \<Rightarrow> ('s, exn, 'd) action" where
  "retrying_fetch c uniform on_retry sleep fetch reference =
     retrying_fetch_loop c uniform (map_option (\<lambda>callback. callback reference) on_retry) sleep
       (fetch reference) 0"

section \<open>What retry promises\<close>

text \<open>
  A scripted environment: each call takes the next outcome of the script and each wait is
  written down, so a theorem can say which calls were made and what was waited.
\<close>

definition scripted :: "((exn + 'a) list \<times> rat list, exn, 'a) action" where
  "scripted s = (case fst s of
     [] \<Rightarrow> (Inl (OtherException ''StopIteration'' []), s)
   | r # rs \<Rightarrow> (r, (rs, snd s)))"

definition log_wait :: "rat \<Rightarrow> ((exn + 'a) list \<times> rat list, exn, unit) action" where
  "log_wait d s = (Inr (), (fst s, snd s @ [d]))"

definition retryable :: "(exn \<Rightarrow> bool) \<Rightarrow> exn + 'a \<Rightarrow> bool" where
  "retryable should_retry r = (case r of Inl e \<Rightarrow> is_exception e \<and> should_retry e | Inr _ \<Rightarrow> False)"

lemma scripted_Cons [simp]: "scripted (r # rs, ws) = (r, (rs, ws))"
  by (simp add: scripted_def)

lemma retry_loop_final:
  assumes "\<not> retryable sr r \<or> f + 1 \<ge> n"
  shows "retry_loop scripted n sr d log_wait f (r # rs, ws) = (r, (rs, ws))"
  using assms by (subst retry_loop.simps) (auto simp: retryable_def split: sum.splits)

lemma retry_loop_again:
  assumes "retryable sr r" and "f + 1 < n"
  shows "retry_loop scripted n sr d log_wait f (r # rs, ws)
       = retry_loop scripted n sr d log_wait (f + 1) (rs, ws @ [d (f + 1)])"
  using assms by (subst retry_loop.simps) (auto simp: retryable_def log_wait_def split: sum.splits)

lemma retry_loop_scripted:
  assumes "f < n" and "nat (n - f) \<le> length outs"
  shows "\<exists>k. k < nat (n - f) \<and>
     retry_loop scripted n sr d log_wait f (outs, ws)
       = (outs ! k, (drop (Suc k) outs, ws @ map d [f + 1..f + int k])) \<and>
     (\<forall>j < k. retryable sr (outs ! j)) \<and>
     (k = nat (n - f) - 1 \<or> \<not> retryable sr (outs ! k))"
  using assms
proof (induction "nat (n - f)" arbitrary: f outs ws)
  case 0
  then show ?case by simp
next
  case (Suc m)
  then obtain r rs where outs: "outs = r # rs" by (cases outs) auto
  show ?case
  proof (cases "retryable sr r \<and> f + 1 < n")
    case False
    then have "retry_loop scripted n sr d log_wait f (outs, ws) = (r, (rs, ws))"
      unfolding outs by (intro retry_loop_final) auto
    then show ?thesis
      using False Suc.prems by (intro exI [of _ 0]) (auto simp: outs)
  next
    case True
    have "m = nat (n - (f + 1))" using Suc.hyps(2) by simp
    moreover have "nat (n - (f + 1)) \<le> length rs" using Suc.prems(2) by (simp add: outs)
    ultimately obtain k where k: "k < nat (n - (f + 1))"
      "retry_loop scripted n sr d log_wait (f + 1) (rs, ws @ [d (f + 1)])
         = (rs ! k, (drop (Suc k) rs, (ws @ [d (f + 1)]) @ map d [f + 1 + 1..f + 1 + int k]))"
      "\<forall>j < k. retryable sr (rs ! j)" "k = nat (n - (f + 1)) - 1 \<or> \<not> retryable sr (rs ! k)"
      using Suc.hyps(1) [of "f + 1" rs "ws @ [d (f + 1)]"] True by auto
    have up: "[f + 1..f + int (Suc k)] = (f + 1) # [f + 1 + 1..f + 1 + int k]"
      by (subst upto.simps) (simp add: algebra_simps)
    have "retry_loop scripted n sr d log_wait f (outs, ws)
        = (outs ! Suc k, (drop (Suc (Suc k)) outs, ws @ map d [f + 1..f + int (Suc k)]))"
      unfolding outs up using k(2) True by (simp add: retry_loop_again)
    moreover have "\<forall>j < Suc k. retryable sr (outs ! j)"
      using k(3) True by (auto simp: outs less_Suc_eq_0_disj)
    ultimately show ?thesis
      using k(1,4) by (intro exI [of _ "Suc k"]) (auto simp: outs)
  qed
qed

text \<open>
  \<open>retry\<close> calls the operation once, and again only after a failure that is an
  \<open>Exception\<close> accepted by \<open>should_retry\<close>, at most \<open>attempts\<close> times in all. What it returns
  or raises is the outcome of the last call made, unchanged; before the j-th repetition it
  waited exactly \<open>delay_seconds(j)\<close>, in that order, and nothing else.
\<close>

theorem retry_calls:
  assumes "1 \<le> attempts" and "nat attempts \<le> length outs"
  shows "\<exists>k < nat attempts.
     retry scripted attempts sr d log_wait (outs, [])
       = (outs ! k, (drop (Suc k) outs, map d [1..int k])) \<and>
     (\<forall>j < k. retryable sr (outs ! j)) \<and>
     (k = nat attempts - 1 \<or> \<not> retryable sr (outs ! k))"
  using retry_loop_scripted [of 0 attempts outs sr d "[]"] assms by (auto simp: retry_def)

theorem retry_calls_witness:
  "\<exists>k < nat 3.
     retry scripted 3 transient_http_error (\<lambda>n. of_int n) log_wait
       ([Inl (Http TimeoutException), Inr (7::nat), Inr 8], [])
       = ([Inl (Http TimeoutException), Inr 7, Inr 8] ! k,
          (drop (Suc k) [Inl (Http TimeoutException), Inr 7, Inr 8], map (\<lambda>n. of_int n) [1..int k])) \<and>
     (\<forall>j < k. retryable transient_http_error ([Inl (Http TimeoutException), Inr (7::nat), Inr 8] ! j)) \<and>
     (k = nat 3 - 1 \<or>
        \<not> retryable transient_http_error ([Inl (Http TimeoutException), Inr (7::nat), Inr 8] ! k))"
  by (rule retry_calls) simp_all

section \<open>What RetryingDocumentFetcher promises\<close>

lemma retrying_fetcher_valid: "retrying_fetcher a b m j = Inr c \<Longrightarrow> valid_retry_config c"
  by (auto simp: retrying_fetcher_def valid_retry_config_def split: if_splits)

lemma backoff_base_bounds:
  assumes "valid_retry_config c"
  shows "0 \<le> backoff_base c n" and "backoff_base c n \<le> max_delay_seconds c"
  using assms by (auto simp: backoff_base_def valid_retry_config_def)

lemma backoff_seconds_bounds:
  assumes c: "valid_retry_config c"
    and u: "\<And>a b s. a \<le> b \<Longrightarrow> a \<le> fst (uniform a b s) \<and> fst (uniform a b s) \<le> b"
  shows "0 \<le> fst (backoff_seconds c uniform n s) \<and>
    fst (backoff_seconds c uniform n s) \<le> max_delay_seconds c * (1 + jitter_ratio c)"
proof -
  let ?b = "backoff_base c n" and ?j = "jitter_ratio c"
  have b: "0 \<le> ?b" "?b \<le> max_delay_seconds c" using backoff_base_bounds [OF c] by auto
  have j: "0 \<le> ?j" "?j \<le> 1" using c by (auto simp: valid_retry_config_def)
  have low: "0 \<le> ?b * (1 - ?j)" using b j by simp
  have mid: "?b * (1 - ?j) \<le> ?b * (1 + ?j)" using b j by (intro mult_left_mono) auto
  have high: "?b * (1 + ?j) \<le> max_delay_seconds c * (1 + ?j)"
    using b j by (intro mult_right_mono) auto
  have plain: "?b \<le> max_delay_seconds c * (1 + ?j)"
    using b j by (simp add: distrib_left add_increasing2)
  show ?thesis
    using u [OF mid, of s] low high plain b by (auto simp: backoff_seconds_def Let_def)
qed

text \<open>
  C38. Whatever the number of failures and whatever the site's \<open>Retry-After\<close> asks for, the
  wait before the next fetch is never negative, never shorter than the \<open>Retry-After\<close> up to
  the ceiling \<open>max_delay_seconds\<close>, and never longer than the ceiling plus the jitter's
  share of it; without jitter the ceiling itself is the bound. (\<open>random.uniform(a, b)\<close>
  returns a number between \<open>a\<close> and \<open>b\<close>.)
\<close>

theorem retrying_fetch_wait_bounds:
  assumes "retrying_fetcher attempts base_delay max_delay jitter = Inr c"
    and "\<And>a b s. a \<le> b \<Longrightarrow> a \<le> fst (uniform a b s) \<and> fst (uniform a b s) \<le> b"
  shows "let w = retry_wait c (fst (backoff_seconds c uniform n s)) retry_after
    in 0 \<le> w \<and> w \<le> max_delay * (1 + jitter)
    \<and> (\<forall>r. retry_after = Some r \<longrightarrow> min r max_delay \<le> w)
    \<and> (jitter = 0 \<longrightarrow> w \<le> max_delay)"
proof -
  have c: "valid_retry_config c" using assms(1) by (rule retrying_fetcher_valid)
  have f: "max_delay_seconds c = max_delay" "jitter_ratio c = jitter"
    using assms(1) by (auto simp: retrying_fetcher_def split: if_splits)
  have j: "0 < max_delay" "0 \<le> jitter" using c f by (auto simp: valid_retry_config_def)
  then have "max_delay \<le> max_delay * (1 + jitter)" by (simp add: distrib_left)
  then show ?thesis
    using backoff_seconds_bounds [where uniform = uniform and n = n and s = s, OF c assms(2)] f j
    by (auto simp: Let_def retry_wait_def min_le_iff_disj le_max_iff_disj split: option.splits)
qed

theorem retrying_fetch_wait_bounds_witness:
  "retrying_fetcher 3 (1/2) 30 (3/10) = Inr
     \<lparr>max_attempts = 3, base_delay_seconds = 1/2, max_delay_seconds = 30, jitter_ratio = 3/10\<rparr> \<and>
   (let w = retry_wait
       \<lparr>max_attempts = 3, base_delay_seconds = 1/2, max_delay_seconds = 30, jitter_ratio = 3/10\<rparr>
       (fst (backoff_seconds
         \<lparr>max_attempts = 3, base_delay_seconds = 1/2, max_delay_seconds = 30, jitter_ratio = 3/10\<rparr>
         (\<lambda>a b s. ((a + b) / 2, s)) 2 ())) (Some 3600)
    in 0 \<le> w \<and> w \<le> 30 * (1 + 3/10) \<and> (\<forall>r. Some 3600 = Some r \<longrightarrow> min r 30 \<le> w)
       \<and> ((3/10 :: rat) = 0 \<longrightarrow> w \<le> 30))"
proof -
  have i: "retrying_fetcher 3 (1/2) 30 (3/10) = Inr
     \<lparr>max_attempts = 3, base_delay_seconds = 1/2, max_delay_seconds = 30, jitter_ratio = 3/10\<rparr>"
    by (simp add: retrying_fetcher_def)
  show ?thesis
    by (rule conjI [OF i retrying_fetch_wait_bounds [OF i]]) auto
qed

end
