(* ===== verification/Ingestion.thy ===== *)
theory Ingestion
  imports Discovery Retry "HOL-Library.Sublist"
begin

text \<open>
  Reading and storing one document: the website fetch (\<open>sources/website_adapter.py\<close>), the
  fetch-parse-save pipeline and the run over a source's references (\<open>monitor_core\<close>), the
  PostgreSQL persistence (\<open>sources/sqlalchemy_persistence.py\<close>, \<open>stored.py\<close>) and the
  ingestion module's service (\<open>ingestion/service.py\<close>).
\<close>

section \<open>Documents\<close>

text \<open>A \<open>datetime\<close>: its calendar day (an ordinal) and the microseconds since midnight.\<close>

record datetime =
  dt_date :: int
  dt_micros :: int

record raw_document =
  raw_external_id :: string
  raw_url :: string
  raw_fetched_at :: int
  raw_content_type :: string
  raw_content :: string

record parsed_article =
  article_external_id :: string
  article_url :: string
  article_title :: ustr
  article_published_at :: "datetime option"
  article_text :: ustr

record fetched_article =
  fetched_raw :: raw_document
  fetched_parsed :: parsed_article

section \<open>The website fetch\<close>

text \<open>
  \<open>concurrency.py: parse_retry_after\<close>: seconds, or a date; what cannot be read is no answer.
  \<open>float_of\<close> and \<open>date_of\<close> are the runtime's \<open>float()\<close> and \<open>parsedate_to_datetime\<close> (as
  seconds since the epoch, a date without a zone read as UTC).
\<close>

definition parse_retry_after ::
  "(string \<Rightarrow> rat option) \<Rightarrow> (string \<Rightarrow> rat option) \<Rightarrow> rat \<Rightarrow> string option \<Rightarrow> rat option" where
  "parse_retry_after float_of date_of now value =
     (let raw = strip_string (case value of None \<Rightarrow> [] | Some v \<Rightarrow> v) in
      if raw = [] then None
      else case float_of raw of
        Some seconds \<Rightarrow> Some (max 0 seconds)
      | None \<Rightarrow> (case date_of raw of
            None \<Rightarrow> None
          | Some moment \<Rightarrow> Some (max 0 (moment - now))))"

definition website_status_error :: "(string option \<Rightarrow> rat option) \<Rightarrow> string \<Rightarrow> int \<Rightarrow> string option \<Rightarrow> exn" where
  "website_status_error retry_after url status header =
     (if status = 429 \<or> status \<ge> 500
      then TransientFetchError (''Temporary failure fetching '' @ url @ '': HTTP '' @ digits_of (nat status))
             (retry_after header)
      else PermanentFetchError (''Failed to fetch '' @ url @ '': HTTP '' @ digits_of (nat status)))"

definition website_fetch ::
  "(string \<Rightarrow> ('s, exn, http_response) action) \<Rightarrow> (string option \<Rightarrow> rat option) \<Rightarrow> ('s \<Rightarrow> int)
   \<Rightarrow> source_reference \<Rightarrow> ('s, exn, raw_document) action" where
  "website_fetch client retry_after now reference =
     tryA (http_get client (ref_url reference))
       (\<lambda>response s. (Inr \<lparr>raw_external_id = ref_external_id reference, raw_url = response_url response,
            raw_fetched_at = now s,
            raw_content_type = (case content_type_header response of None \<Rightarrow> [] | Some h \<Rightarrow> h),
            raw_content = response_content response\<rparr>, s))
       (\<lambda>e. case e of
          Http (HTTPStatusError status header) \<Rightarrow>
            raiseA (website_status_error retry_after (ref_url reference) status header)
        | Http _ \<Rightarrow> raiseA (TransientFetchError (''Temporary failure fetching '' @ ref_url reference) None)
        | _ \<Rightarrow> raiseA e)"

section \<open>The pipeline of one reference\<close>

definition pipeline_read ::
  "(source_reference \<Rightarrow> ('s, exn, raw_document) action) \<Rightarrow> (raw_document \<Rightarrow> exn + parsed_article)
   \<Rightarrow> source_reference \<Rightarrow> ('s, exn, fetched_article) action" where
  "pipeline_read fetch parse reference =
     bindA (fetch reference) (\<lambda>raw. case parse raw of
         Inl e \<Rightarrow> raiseA e
       | Inr article \<Rightarrow> returnA \<lparr>fetched_raw = raw, fetched_parsed = article\<rparr>)"

definition pipeline_save ::
  "(raw_document \<Rightarrow> parsed_article \<Rightarrow> ('s, exn, 'p) action) \<Rightarrow> fetched_article
   \<Rightarrow> ('s, exn, parsed_article \<times> 'p) action" where
  "pipeline_save save fetched =
     bindA (save (fetched_raw fetched) (fetched_parsed fetched))
       (\<lambda>result. returnA (fetched_parsed fetched, result))"

definition pipeline_run ::
  "(source_reference \<Rightarrow> ('s, exn, raw_document) action) \<Rightarrow> (raw_document \<Rightarrow> exn + parsed_article)
   \<Rightarrow> (raw_document \<Rightarrow> parsed_article \<Rightarrow> ('s, exn, 'p) action)
   \<Rightarrow> source_reference \<Rightarrow> ('s, exn, parsed_article \<times> 'p) action" where
  "pipeline_run fetch parse save reference =
     bindA (pipeline_read fetch parse reference) (pipeline_save save)"

text \<open>\<open>SourceIngestion.run\<close> of \<open>monitor_core\<close>: an \<open>IngestionError\<close> of one reference is kept
  and the loop goes on; anything else leaves it.\<close>

fun ingest_references ::
  "('ref \<Rightarrow> ('s, exn, 'p) action) \<Rightarrow> 'ref list \<Rightarrow> 'p list \<Rightarrow> ('ref \<times> exn) list
   \<Rightarrow> ('s, exn, 'p list \<times> ('ref \<times> exn) list) action" where
  "ingest_references run [] results failures = returnA (results, failures)"
| "ingest_references run (reference # references) results failures =
     tryA (run reference)
       (\<lambda>result. ingest_references run references (results @ [result]) failures)
       (\<lambda>e. if is_ingestion_error e
            then ingest_references run references results (failures @ [(reference, e)])
            else raiseA e)"

definition source_ingestion_run ::
  "(int \<Rightarrow> ('s, exn, 'ref list) action) \<Rightarrow> ('ref \<Rightarrow> ('s, exn, 'p) action) \<Rightarrow> int
   \<Rightarrow> ('s, exn, 'p list \<times> ('ref \<times> exn) list) action" where
  "source_ingestion_run discover run limit =
     bindA (discover limit) (\<lambda>references. ingest_references run references [] [])"

section \<open>Persistence\<close>

text \<open>
  The three tables of \<open>ingestion/storage/models.py\<close> a save writes, with the counters of
  their primary keys.
\<close>

record source_row =
  src_id :: nat
  src_name :: string
  src_base_url :: string

record document_row =
  doc_id :: nat
  doc_source_id :: nat
  doc_external_id :: string
  doc_canonical_url :: string
  doc_fetched_at :: int
  doc_content_type :: string
  doc_raw_content :: string

record article_row =
  art_id :: nat
  art_document_id :: nat
  art_title :: ustr
  art_published_at :: "datetime option"
  art_text :: ustr

record store =
  sources :: "source_row list"
  documents :: "document_row list"
  articles :: "article_row list"
  next_source_id :: nat
  next_document_id :: nat
  next_article_id :: nat

text \<open>The three lookups of a save: each \<open>session.scalar(select ... where ...)\<close>.\<close>

definition source_of :: "store \<Rightarrow> string \<Rightarrow> source_row option" where
  "source_of st base_url = find (\<lambda>r. src_base_url r = base_url) (sources st)"

definition document_of :: "store \<Rightarrow> nat \<Rightarrow> string \<Rightarrow> document_row option" where
  "document_of st source_id external_id =
     find (\<lambda>r. doc_source_id r = source_id \<and> doc_external_id r = external_id) (documents st)"

definition article_of :: "store \<Rightarrow> nat \<Rightarrow> article_row option" where
  "article_of st document_id = find (\<lambda>r. art_document_id r = document_id) (articles st)"

definition get_or_create_source :: "string \<Rightarrow> string \<Rightarrow> store \<Rightarrow> source_row \<times> store" where
  "get_or_create_source name base_url st =
     (case source_of st base_url of
        Some r \<Rightarrow> (r, st)
      | None \<Rightarrow>
          let r = \<lparr>src_id = next_source_id st, src_name = name, src_base_url = base_url\<rparr>
          in (r, st\<lparr>sources := sources st @ [r], next_source_id := Suc (next_source_id st)\<rparr>))"

definition fill_document :: "raw_document \<Rightarrow> document_row \<Rightarrow> document_row" where
  "fill_document raw r = r\<lparr>doc_canonical_url := raw_url raw, doc_fetched_at := raw_fetched_at raw,
     doc_content_type := raw_content_type raw, doc_raw_content := raw_content raw\<rparr>"

definition get_or_create_document :: "source_row \<Rightarrow> raw_document \<Rightarrow> store \<Rightarrow> document_row \<times> store" where
  "get_or_create_document source raw st =
     (case document_of st (src_id source) (raw_external_id raw) of
        Some r \<Rightarrow> (fill_document raw r,
          st\<lparr>documents := update_rows (\<lambda>d. doc_id d = doc_id r) (fill_document raw) (documents st)\<rparr>)
      | None \<Rightarrow>
          let r = \<lparr>doc_id = next_document_id st, doc_source_id = src_id source,
                   doc_external_id = raw_external_id raw, doc_canonical_url = raw_url raw,
                   doc_fetched_at = raw_fetched_at raw, doc_content_type = raw_content_type raw,
                   doc_raw_content = raw_content raw\<rparr>
          in (r, st\<lparr>documents := documents st @ [r], next_document_id := Suc (next_document_id st)\<rparr>))"

definition fill_article :: "parsed_article \<Rightarrow> article_row \<Rightarrow> article_row" where
  "fill_article article r = r\<lparr>art_title := article_title article,
     art_published_at := article_published_at article, art_text := article_text article\<rparr>"

definition get_or_create_parsed_article ::
  "document_row \<Rightarrow> parsed_article \<Rightarrow> store \<Rightarrow> article_row \<times> store" where
  "get_or_create_parsed_article document article st =
     (case article_of st (doc_id document) of
        Some r \<Rightarrow> (fill_article article r,
          st\<lparr>articles := update_rows (\<lambda>a. art_id a = art_id r) (fill_article article) (articles st)\<rparr>)
      | None \<Rightarrow>
          let r = \<lparr>art_id = next_article_id st, art_document_id = doc_id document,
                   art_title = article_title article, art_published_at = article_published_at article,
                   art_text = article_text article\<rparr>
          in (r, st\<lparr>articles := articles st @ [r], next_article_id := Suc (next_article_id st)\<rparr>))"

text \<open>
  The transaction of a save and the ids it returns. \<open>failure\<close> is what the database raised,
  if it did: the transaction is then rolled back.
\<close>

definition save_rows :: "string \<Rightarrow> string \<Rightarrow> raw_document \<Rightarrow> parsed_article \<Rightarrow> store \<Rightarrow> (nat \<times> nat) \<times> store" where
  "save_rows name base_url raw article st =
     (case get_or_create_source name base_url st of (source, st1) \<Rightarrow>
      case get_or_create_document source raw st1 of (document, st2) \<Rightarrow>
      case get_or_create_parsed_article document article st2 of (parsed, st3) \<Rightarrow>
        ((doc_id document, art_id parsed), st3))"

definition persistence_save ::
  "string \<Rightarrow> string \<Rightarrow> exn option \<Rightarrow> raw_document \<Rightarrow> parsed_article \<Rightarrow> (store, exn, nat \<times> nat) action" where
  "persistence_save name base_url failure raw article st =
     (case failure of
        Some e \<Rightarrow> (if is_sqlalchemy_error e
                   then (Inl (PersistenceError (''Failed to persist '' @ raw_external_id raw)), st)
                   else (Inl e, st))
      | None \<Rightarrow> (case save_rows name base_url raw article st of (ids, st') \<Rightarrow> (Inr ids, st')))"

text \<open>\<open>stored.py: known_external_ids\<close>.\<close>

definition known_external_ids :: "string \<Rightarrow> string list \<Rightarrow> store \<Rightarrow> string list" where
  "known_external_ids base_url external_ids st =
     (if external_ids = [] then []
      else unique [doc_external_id d. d \<leftarrow> documents st, r \<leftarrow> sources st,
             doc_source_id d = src_id r \<and> src_base_url r = base_url
             \<and> doc_external_id d \<in> set external_ids])"

section \<open>The ingestion service\<close>

datatype skip_reason = NO_TEXT | UNKNOWN_PUBLISHED_DATE | OUT_OF_PUBLISHED_RANGE

record read_document =
  skipped :: "skip_reason option"
  read_published_at :: "datetime option"
  read_fetched :: "fetched_article option"

definition published_skip :: "int option \<Rightarrow> int option \<Rightarrow> parsed_article \<Rightarrow> skip_reason option" where
  "published_skip published_from published_to article =
     (if published_from = None \<and> published_to = None then None
      else case article_published_at article of
        None \<Rightarrow> Some UNKNOWN_PUBLISHED_DATE
      | Some moment \<Rightarrow>
          let published_on = dt_date moment in
          if (case published_from of None \<Rightarrow> True | Some d \<Rightarrow> published_on \<ge> d) \<and>
             (case published_to of None \<Rightarrow> True | Some d \<Rightarrow> published_on \<le> d)
          then None else Some OUT_OF_PUBLISHED_RANGE)"

definition service_read ::
  "('ref \<Rightarrow> ('s, exn, fetched_article) action) \<Rightarrow> int option \<Rightarrow> int option \<Rightarrow> 'ref
   \<Rightarrow> ('s, exn, read_document) action" where
  "service_read read published_from published_to reference =
     tryA (read reference)
       (\<lambda>fetched.
          let article = fetched_parsed fetched;
              skip = published_skip published_from published_to article
          in returnA (if skip \<noteq> None
             then \<lparr>skipped = skip, read_published_at = article_published_at article, read_fetched = None\<rparr>
             else \<lparr>skipped = None, read_published_at = article_published_at article,
                   read_fetched = Some fetched\<rparr>))
       (\<lambda>e. case e of
          NoTextError _ \<Rightarrow> returnA \<lparr>skipped = Some NO_TEXT, read_published_at = None, read_fetched = None\<rparr>
        | _ \<Rightarrow> raiseA e)"

definition service_store ::
  "(fetched_article \<Rightarrow> ('s, exn, parsed_article \<times> (nat \<times> nat)) action) \<Rightarrow> read_document
   \<Rightarrow> ('s, exn, nat) action" where
  "service_store save document =
     (case read_fetched document of
        None \<Rightarrow> raiseA (ValueError ''A skipped document is not stored'')
      | Some fetched \<Rightarrow> bindA (save fetched) (\<lambda>result. returnA (snd (snd result))))"

text \<open>
  \<open>read_many\<close>: a window of at most \<open>2 * workers\<close> started reads ahead of the consumer. The
  trace says when each read is started, yielded or cancelled; \<open>outcome\<close> is what each read
  comes to, and \<open>demand\<close> is how many results the consumer takes before it closes the
  generator. A read ended by no \<open>Exception\<close> (a cancellation) is raised.
\<close>

datatype 'ref read_event =
    Started 'ref
  | Yielded 'ref "exn + read_document"
  | Raised 'ref exn
  | Cancelled 'ref

fun read_window ::
  "('ref \<Rightarrow> exn + read_document) \<Rightarrow> nat \<Rightarrow> 'ref list \<Rightarrow> 'ref list \<Rightarrow> 'ref read_event list" where
  "read_window outcome 0 window upcoming = map Cancelled window"
| "read_window outcome (Suc demand) [] upcoming = []"
| "read_window outcome (Suc demand) (reference # window) upcoming =
     (case outcome reference of
        Inl e \<Rightarrow>
          if is_exception e
          then (case upcoming of
              [] \<Rightarrow> Yielded reference (Inl e) # read_window outcome demand window []
            | following # rest \<Rightarrow> Started following # Yielded reference (Inl e)
                # read_window outcome demand (window @ [following]) rest)
          else Raised reference e # map Cancelled window
      | Inr document \<Rightarrow>
          (case upcoming of
              [] \<Rightarrow> Yielded reference (Inr document) # read_window outcome demand window []
            | following # rest \<Rightarrow> Started following # Yielded reference (Inr document)
                # read_window outcome demand (window @ [following]) rest))"

definition read_many ::
  "('ref \<Rightarrow> exn + read_document) \<Rightarrow> 'ref list \<Rightarrow> int \<Rightarrow> nat \<Rightarrow> exn + 'ref read_event list" where
  "read_many outcome references workers demand =
     (if demand = 0 then Inr []
      else if workers < 1 then Inl (ValueError ''workers must be greater than zero'')
      else let ahead = 2 * nat workers in
        Inr (map Started (take ahead references)
             @ read_window outcome demand (take ahead references) (drop ahead references)))"

section \<open>Which pages are asked how often\<close>

text \<open>A site that always answers \<open>r\<close> and counts the requests it gets.\<close>

definition counting_site :: "http_response \<Rightarrow> string \<Rightarrow> (nat, exn, http_response) action" where
  "counting_site r url n = (Inr r, Suc n)"

definition no_sleep :: "rat \<Rightarrow> ('s, exn, unit) action" where
  "no_sleep d = returnA ()"

definition throttled :: "http_response \<Rightarrow> bool" where
  "throttled r \<longleftrightarrow> status_code r = 429 \<or> status_code r \<ge> 500"

definition accepted :: "http_response \<Rightarrow> bool" where
  "accepted r \<longleftrightarrow> 200 \<le> status_code r \<and> status_code r \<le> 299"

lemma website_fetch_refused:
  assumes "\<not> accepted r"
  shows "website_fetch (counting_site r) retry_after now reference n =
    (Inl (website_status_error retry_after (ref_url reference) (status_code r) (retry_after_header r)), Suc n)"
  using assms
  by (auto simp: website_fetch_def tryA_def http_get_def bindA_def counting_site_def
      raise_for_status_def raiseA_def accepted_def)

lemma website_fetch_accepted:
  "accepted r \<Longrightarrow> \<exists>d. website_fetch (counting_site r) retry_after now reference n = (Inr d, Suc n)"
  by (auto simp: website_fetch_def tryA_def http_get_def bindA_def counting_site_def
      raise_for_status_def returnA_def accepted_def)

lemma backoff_pure: "backoff_seconds c (\<lambda>a b s. (u a b, s)) k s = (fst (backoff_seconds c (\<lambda>a b s. (u a b, s)) k s), s)"
  by (simp add: backoff_seconds_def Let_def)

lemma retrying_loop_throttled:
  assumes "throttled r" and "int failures < max_attempts c"
  shows "snd (retrying_fetch_loop c (\<lambda>a b s. (u a b, s)) None no_sleep
      (website_fetch (counting_site r) retry_after now reference) failures n)
    = n + nat (max_attempts c - int failures)"
  using assms(2)
proof (induction "nat (max_attempts c - int failures)" arbitrary: failures n)
  case 0
  then show ?case by simp
next
  case (Suc k)
  obtain m a where answer: "website_fetch (counting_site r) retry_after now reference n =
      (Inl (TransientFetchError m a), Suc n)"
    using assms(1) website_fetch_refused [of r retry_after now reference n]
    by (force simp: throttled_def accepted_def website_status_error_def)
  show ?case
  proof (cases "int (Suc failures) \<ge> max_attempts c")
    case True
    with Suc.prems answer show ?thesis by (subst retrying_fetch_loop.simps) simp
  next
    case False
    obtain b where b: "backoff_seconds c (\<lambda>a b s. (u a b, s)) (Suc failures) (Suc n) = (b, Suc n)"
      using that [OF backoff_pure] .
    have "retrying_fetch_loop c (\<lambda>a b s. (u a b, s)) None no_sleep
        (website_fetch (counting_site r) retry_after now reference) failures n
      = retrying_fetch_loop c (\<lambda>a b s. (u a b, s)) None no_sleep
        (website_fetch (counting_site r) retry_after now reference) (Suc failures) (Suc n)"
      using False answer b
      by (subst retrying_fetch_loop.simps) (simp add: no_sleep_def returnA_def)
    moreover have "k = nat (max_attempts c - int (Suc failures))" using Suc.hyps(2) by simp
    ultimately show ?thesis using Suc.hyps(1) [of "Suc failures" "Suc n"] False by simp
  qed
qed

lemma retrying_loop_once:
  assumes "\<not> throttled r"
  shows "snd (retrying_fetch_loop c uniform callback sleep
      (website_fetch (counting_site r) retry_after now reference) failures n) = Suc n"
proof (cases "accepted r")
  case True
  obtain d where "website_fetch (counting_site r) retry_after now reference n = (Inr d, Suc n)"
    using website_fetch_accepted [OF True] by blast
  then show ?thesis by (subst retrying_fetch_loop.simps) simp
next
  case False
  with assms website_fetch_refused [OF False] show ?thesis
    by (subst retrying_fetch_loop.simps) (simp add: website_status_error_def throttled_def)
qed

text \<open>
  A site that throttles or fails (HTTP 429, 5xx) is asked exactly \<open>max_attempts\<close> times
  for a page and no more; any other answer, a page or a refusal (403, 404), is asked for
  exactly once: a refusal is never evaded by asking again.
\<close>

theorem refusal_is_asked_once:
  assumes "retrying_fetcher attempts base_delay max_delay jitter = Inr c"
  shows "snd (retrying_fetch c (\<lambda>a b s. (u a b, s)) None no_sleep
      (website_fetch (counting_site r) retry_after now) reference 0)
    = (if throttled r then nat attempts else 1)"
proof -
  have c: "max_attempts c = attempts" "1 \<le> attempts"
    using assms by (auto simp: retrying_fetcher_def split: if_splits)
  show ?thesis
    using retrying_loop_throttled [of r 0 c u retry_after now reference 0] c
    by (auto simp: retrying_fetch_def retrying_loop_once)
qed

definition page_403 :: http_response where
  "page_403 = \<lparr>status_code = 403, response_url = ''u'', content_type_header = None,
     retry_after_header = None, response_content = []\<rparr>"

theorem refusal_is_asked_once_witness:
  "snd (retrying_fetch \<lparr>max_attempts = 3, base_delay_seconds = 1 / 2, max_delay_seconds = 30,
       jitter_ratio = 0\<rparr> (\<lambda>a b s. (a, s)) None no_sleep
      (website_fetch (counting_site page_403) (\<lambda>_. None) (\<lambda>_. 0))
      \<lparr>ref_external_id = ''7'', ref_url = ''u''\<rparr> 0)
    = (if throttled page_403 then nat 3 else 1)"
  by (rule refusal_is_asked_once [where base_delay = "1 / 2" and max_delay = 30 and jitter = 0])
    (simp add: retrying_fetcher_def)

section \<open>What the run over references promises\<close>

lemma ingest_references_total:
  assumes "\<And>r s e. r \<in> set refs \<Longrightarrow> fst (run r s) = Inl e \<Longrightarrow> is_ingestion_error e"
  shows "\<exists>results' failures' t. ingest_references run refs results failures s
      = (Inr (results @ results', failures @ failures'), t) \<and>
     length results' + length failures' = length refs \<and>
     subseq (map fst failures') refs \<and>
     (\<forall>(r, e) \<in> set failures'. is_ingestion_error e)"
  using assms
proof (induction refs arbitrary: results failures s)
  case Nil
  then show ?case by (simp add: returnA_def)
next
  case (Cons r refs)
  have rest: "\<And>q s e. q \<in> set refs \<Longrightarrow> fst (run q s) = Inl e \<Longrightarrow> is_ingestion_error e"
    using Cons.prems by auto
  obtain o' t where run: "run r s = (o', t)" by fastforce
  show ?case
  proof (cases o')
    case (Inl e)
    then have "is_ingestion_error e" using Cons.prems [of r s e] run by simp
    then show ?thesis
      using Cons.IH [where results = results and failures = "failures @ [(r, e)]" and s = t, OF rest] run Inl
      by (fastforce simp: tryA_def)
  next
    case (Inr x)
    then show ?thesis
      using Cons.IH [where results = "results @ [x]" and failures = failures and s = t, OF rest] run Inr
      by (fastforce simp: tryA_def)
  qed
qed

lemma pipeline_run_errors:
  assumes "\<And>r s e. fst (fetch r s) = Inl e \<Longrightarrow> is_ingestion_error e"
    and "\<And>raw e. parse raw = Inl e \<Longrightarrow> is_ingestion_error e"
    and "\<And>raw a s e. fst (save raw a s) = Inl e \<Longrightarrow> is_ingestion_error e"
    and "fst (pipeline_run fetch parse save r s) = Inl e"
  shows "is_ingestion_error e"
proof -
  have "fetch r s = (Inl e, t) \<Longrightarrow> is_ingestion_error e"
    and "save raw a u = (Inl e, t) \<Longrightarrow> is_ingestion_error e" for t raw a u
    using assms(1) [of r s e] assms(3) [of raw a u e] by simp_all
  then show ?thesis
    using assms(4)
    by (auto simp: pipeline_run_def pipeline_read_def pipeline_save_def bindA_def returnA_def raiseA_def
        split: prod.splits sum.splits dest: assms(2))
qed

text \<open>
  When fetching, parsing and saving fail only with the module's own \<open>IngestionError\<close>s,
  one broken document never stops a source: the run returns, every discovered reference is
  either a result or a recorded failure and never both, failures keep the listing's order,
  and each failure carries the error its document raised.
\<close>

theorem source_run_accounts_for_all:
  assumes "\<And>r s e. fst (fetch r s) = Inl e \<Longrightarrow> is_ingestion_error e"
    and "\<And>raw e. parse raw = Inl e \<Longrightarrow> is_ingestion_error e"
    and "\<And>raw a s e. fst (save raw a s) = Inl e \<Longrightarrow> is_ingestion_error e"
    and "discover limit s = (Inr refs, u)"
  shows "\<exists>results failures t.
     source_ingestion_run discover (pipeline_run fetch parse save) limit s = (Inr (results, failures), t) \<and>
     length results + length failures = length refs \<and> subseq (map fst failures) refs \<and>
     (\<forall>(r, e) \<in> set failures. is_ingestion_error e)"
proof -
  have "\<And>r s e. r \<in> set refs \<Longrightarrow> fst (pipeline_run fetch parse save r s) = Inl e \<Longrightarrow> is_ingestion_error e"
    by (rule pipeline_run_errors [OF assms(1-3)])
  from ingest_references_total [OF this, where results = "[]" and failures = "[]" and s = u]
  show ?thesis
    using assms(4) by (auto simp: source_ingestion_run_def bindA_def)
qed

definition fetch_by_url :: "source_reference \<Rightarrow> (nat, exn, raw_document) action" where
  "fetch_by_url r s = (if ref_url r = [] then (Inl (PermanentFetchError ''no url''), Suc s)
     else (Inr \<lparr>raw_external_id = ref_external_id r, raw_url = ref_url r, raw_fetched_at = int s,
            raw_content_type = ''text/html'', raw_content = ''x''\<rparr>, Suc s))"

theorem source_run_accounts_for_all_witness:
  "\<exists>results failures t.
     source_ingestion_run (\<lambda>limit s. (Inr [\<lparr>ref_external_id = ''1'', ref_url = ''u''\<rparr>,
           \<lparr>ref_external_id = ''2'', ref_url = []\<rparr>], s))
       (pipeline_run fetch_by_url (\<lambda>raw. Inl (ParseError ''no text''))
          (\<lambda>raw article s. (Inr (1::nat), s))) 10 0 = (Inr (results, failures), t) \<and>
     length results + length failures = length [\<lparr>ref_external_id = ''1'', ref_url = ''u''\<rparr>,
           \<lparr>ref_external_id = ''2'', ref_url = []\<rparr>] \<and>
     subseq (map fst failures) [\<lparr>ref_external_id = ''1'', ref_url = ''u''\<rparr>,
           \<lparr>ref_external_id = ''2'', ref_url = []\<rparr>] \<and>
     (\<forall>(r, e) \<in> set failures. is_ingestion_error e)"
  by (rule source_run_accounts_for_all)
    (auto simp: fetch_by_url_def is_ingestion_error_def split: if_splits)

section \<open>What the store promises\<close>

text \<open>The unique constraints, foreign keys and key counters of the three tables.\<close>

definition store_ok :: "store \<Rightarrow> bool" where
  "store_ok st \<longleftrightarrow>
     distinct (map src_id (sources st)) \<and> (\<forall>r \<in> set (sources st). src_id r < next_source_id st) \<and>
     distinct (map src_base_url (sources st)) \<and>
     distinct (map doc_id (documents st)) \<and> (\<forall>d \<in> set (documents st). doc_id d < next_document_id st) \<and>
     distinct (map (\<lambda>d. (doc_source_id d, doc_external_id d)) (documents st)) \<and>
     (\<forall>d \<in> set (documents st). doc_source_id d \<in> src_id ` set (sources st)) \<and>
     distinct (map art_id (articles st)) \<and> (\<forall>a \<in> set (articles st). art_id a < next_article_id st) \<and>
     distinct (map art_document_id (articles st)) \<and>
     (\<forall>a \<in> set (articles st). art_document_id a \<in> doc_id ` set (documents st))"

text \<open>What the store holds of a document: the abstract view, a map from a source's address
  and a document's id to the document and the article last saved.\<close>

type_synonym held_document = "(string \<times> int \<times> string \<times> string) \<times> (ustr \<times> datetime option \<times> ustr)"

definition view_of :: "document_row \<Rightarrow> article_row \<Rightarrow> held_document" where
  "view_of d a = ((doc_canonical_url d, doc_fetched_at d, doc_content_type d, doc_raw_content d),
     (art_title a, art_published_at a, art_text a))"

definition saved_view :: "raw_document \<Rightarrow> parsed_article \<Rightarrow> held_document" where
  "saved_view raw article = ((raw_url raw, raw_fetched_at raw, raw_content_type raw, raw_content raw),
     (article_title article, article_published_at article, article_text article))"

definition held :: "store \<Rightarrow> string \<times> string \<Rightarrow> held_document option" where
  "held st key = (case source_of st (fst key) of
     None \<Rightarrow> None
   | Some s \<Rightarrow> (case document_of st (src_id s) (snd key) of
       None \<Rightarrow> None
     | Some d \<Rightarrow> map_option (view_of d) (article_of st (doc_id d))))"

text \<open>Whether a document row is there: what \<open>known_external_ids\<close> asks.\<close>

definition stored_document :: "store \<Rightarrow> string \<times> string \<Rightarrow> bool" where
  "stored_document st key = (case source_of st (fst key) of
     None \<Rightarrow> False
   | Some s \<Rightarrow> document_of st (src_id s) (snd key) \<noteq> None)"

lemmas lookup_defs = source_of_def document_of_def article_of_def

lemma get_or_create_source_spec:
  assumes "store_ok st" and "get_or_create_source name url st = (s, st1)"
  shows "store_ok st1" and "s \<in> set (sources st1)" and "src_base_url s = url"
    and "source_of st1 u = (if u = url then Some s else source_of st u)"
    and "documents st1 = documents st" and "articles st1 = articles st"
    and "source_of st url = None \<Longrightarrow> document_of st1 (src_id s) x = None"
proof -
  consider (old) "source_of st url = Some s" "st1 = st"
    | (new) "source_of st url = None"
        "s = \<lparr>src_id = next_source_id st, src_name = name, src_base_url = url\<rparr>"
        "st1 = st\<lparr>sources := sources st @ [s], next_source_id := Suc (next_source_id st)\<rparr>"
    using assms(2) by (auto simp: get_or_create_source_def Let_def split: option.splits)
  note split = this
  show "store_ok st1"
    using assms(1) by (cases rule: split) (auto simp: store_ok_def source_of_def find_None)
  show "s \<in> set (sources st1)" and "src_base_url s = url"
    and "documents st1 = documents st" and "articles st1 = articles st"
    by (cases rule: split; auto simp: source_of_def dest: find_first)+
  show "source_of st1 u = (if u = url then Some s else source_of st u)"
    by (cases rule: split) (auto simp: source_of_def find_append split: option.splits)
  show "document_of st1 (src_id s) x = None" if "source_of st url = None"
    using assms(1) that
    by (cases rule: split) (fastforce simp: store_ok_def document_of_def find_None)+
qed

lemma get_or_create_document_spec:
  assumes "store_ok st" and "s \<in> set (sources st)" and "get_or_create_document s raw st = (d, st1)"
  shows "store_ok st1" and "d \<in> set (documents st1)"
    and "document_of st1 i x = (if i = src_id s \<and> x = raw_external_id raw then Some d else document_of st i x)"
    and "sources st1 = sources st" and "articles st1 = articles st"
    and "view_of d a = ((raw_url raw, raw_fetched_at raw, raw_content_type raw, raw_content raw),
           (art_title a, art_published_at a, art_text a))"
    and "document_of st (src_id s) (raw_external_id raw) = None \<Longrightarrow> article_of st1 (doc_id d) = None"
proof -
  consider (old) r where "document_of st (src_id s) (raw_external_id raw) = Some r"
        "d = fill_document raw r"
        "st1 = st\<lparr>documents := update_rows (\<lambda>d. doc_id d = doc_id r) (fill_document raw) (documents st)\<rparr>"
    | (new) "document_of st (src_id s) (raw_external_id raw) = None"
        "d = \<lparr>doc_id = next_document_id st, doc_source_id = src_id s,
              doc_external_id = raw_external_id raw, doc_canonical_url = raw_url raw,
              doc_fetched_at = raw_fetched_at raw, doc_content_type = raw_content_type raw,
              doc_raw_content = raw_content raw\<rparr>"
        "st1 = st\<lparr>documents := documents st @ [d], next_document_id := Suc (next_document_id st)\<rparr>"
    using assms(3) by (auto simp: get_or_create_document_def Let_def split: option.splits)
  note split = this
  have fill [simp]: "doc_id (fill_document raw e) = doc_id e" "doc_source_id (fill_document raw e) = doc_source_id e"
    "doc_external_id (fill_document raw e) = doc_external_id e" for e
    by (simp_all add: fill_document_def)
  have keys: "map key (update_rows q (fill_document raw) ds) = map key ds"
    if "\<And>e. key (fill_document raw e) = key e" for key :: "document_row \<Rightarrow> 'k" and q ds
    by (rule map_update_rows) (rule that)
  show "store_ok st1"
  proof (cases rule: split)
    case (old r)
    then show ?thesis
      using assms(1) by (simp add: store_ok_def keys key_set_update_rows all_update_rows)
  next
    case new
    then show ?thesis using assms(1,2) by (auto simp: store_ok_def document_of_def find_None)
  qed
  show "d \<in> set (documents st1)"
    by (cases rule: split) (auto simp: document_of_def set_update_rows dest!: find_first)
  show "sources st1 = sources st" and "articles st1 = articles st"
    by (cases rule: split; simp)+
  show "view_of d a = ((raw_url raw, raw_fetched_at raw, raw_content_type raw, raw_content raw),
           (art_title a, art_published_at a, art_text a))"
    by (cases rule: split) (auto simp: view_of_def fill_document_def)
  show "document_of st1 i x = (if i = src_id s \<and> x = raw_external_id raw then Some d else document_of st i x)"
  proof (cases rule: split)
    case (old r)
    have "e = r" if "e \<in> set (documents st)" "doc_id e = doc_id r" for e
      using that old(1) assms(1)
      by (auto simp: store_ok_def document_of_def dest: find_first intro: distinct_map_eq)
    then have same: "(if doc_id e = doc_id r then fill_document raw e else e) = (if e = r then d else e)"
      if "e \<in> set (documents st)" for e
      using that old(2) by auto
    have r: "doc_source_id r = src_id s" "doc_external_id r = raw_external_id raw"
      using old(1) by (auto simp: document_of_def dest: find_first)
    have "document_of st1 i x = map_option (\<lambda>e. if doc_id e = doc_id r then fill_document raw e else e)
        (document_of st i x)"
      unfolding document_of_def using old(3) by (simp add: find_update_rows)
    also have "\<dots> = map_option (\<lambda>e. if e = r then d else e) (document_of st i x)"
      unfolding document_of_def using same find_first by (intro map_option_cong) fastforce+
    finally show ?thesis
      using old(1) r by (cases "document_of st i x") (auto simp: document_of_def dest: find_first)
  next
    case new
    then show ?thesis by (auto simp: document_of_def find_append split: option.splits)
  qed
  show "article_of st1 (doc_id d) = None" if "document_of st (src_id s) (raw_external_id raw) = None"
    using that assms(1) by (cases rule: split) (fastforce simp: store_ok_def article_of_def find_None)+
qed

lemma get_or_create_article_spec:
  assumes "store_ok st" and "d \<in> set (documents st)" and "get_or_create_parsed_article d article st = (a, st1)"
  shows "store_ok st1" and "article_of st1 i = (if i = doc_id d then Some a else article_of st i)"
    and "sources st1 = sources st" and "documents st1 = documents st"
    and "view_of e a = ((doc_canonical_url e, doc_fetched_at e, doc_content_type e, doc_raw_content e),
           (article_title article, article_published_at article, article_text article))"
proof -
  consider (old) r where "article_of st (doc_id d) = Some r" "a = fill_article article r"
        "st1 = st\<lparr>articles := update_rows (\<lambda>a. art_id a = art_id r) (fill_article article) (articles st)\<rparr>"
    | (new) "article_of st (doc_id d) = None"
        "a = \<lparr>art_id = next_article_id st, art_document_id = doc_id d,
              art_title = article_title article, art_published_at = article_published_at article,
              art_text = article_text article\<rparr>"
        "st1 = st\<lparr>articles := articles st @ [a], next_article_id := Suc (next_article_id st)\<rparr>"
    using assms(3) by (auto simp: get_or_create_parsed_article_def Let_def split: option.splits)
  note split = this
  have fill [simp]: "art_id (fill_article article e) = art_id e"
    "art_document_id (fill_article article e) = art_document_id e" for e
    by (simp_all add: fill_article_def)
  have keys: "map key (update_rows q (fill_article article) as) = map key as"
    if "\<And>e. key (fill_article article e) = key e" for key :: "article_row \<Rightarrow> 'k" and q as
    by (rule map_update_rows) (rule that)
  show "store_ok st1"
  proof (cases rule: split)
    case (old r)
    then show ?thesis
      using assms(1) by (simp add: store_ok_def keys key_set_update_rows all_update_rows)
  next
    case new
    then show ?thesis using assms(1,2) by (auto simp: store_ok_def article_of_def find_None)
  qed
  show "sources st1 = sources st" and "documents st1 = documents st"
    by (cases rule: split; simp)+
  show "view_of e a = ((doc_canonical_url e, doc_fetched_at e, doc_content_type e, doc_raw_content e),
           (article_title article, article_published_at article, article_text article))"
    by (cases rule: split) (auto simp: view_of_def fill_article_def)
  show "article_of st1 i = (if i = doc_id d then Some a else article_of st i)"
  proof (cases rule: split)
    case (old r)
    have "e = r" if "e \<in> set (articles st)" "art_id e = art_id r" for e
      using that old(1) assms(1)
      by (auto simp: store_ok_def article_of_def dest: find_first intro: distinct_map_eq)
    then have same: "(if art_id e = art_id r then fill_article article e else e) = (if e = r then a else e)"
      if "e \<in> set (articles st)" for e
      using that old(2) by auto
    have r: "art_document_id r = doc_id d"
      using old(1) by (auto simp: article_of_def dest: find_first)
    have "article_of st1 i = map_option (\<lambda>e. if art_id e = art_id r then fill_article article e else e)
        (article_of st i)"
      unfolding article_of_def using old(3) by (simp add: find_update_rows)
    also have "\<dots> = map_option (\<lambda>e. if e = r then a else e) (article_of st i)"
      unfolding article_of_def using same find_first by (intro map_option_cong) fastforce+
    finally show ?thesis
      using old(1) r by (cases "article_of st i") (auto simp: article_of_def dest: find_first)
  next
    case new
    then show ?thesis by (auto simp: article_of_def find_append split: option.splits)
  qed
qed

lemma save_rows_spec:
  assumes "store_ok st"
  shows "store_ok (snd (save_rows name url raw article st))"
    and "held (snd (save_rows name url raw article st)) =
      (held st)((url, raw_external_id raw) \<mapsto> saved_view raw article)"
    and "stored_document (snd (save_rows name url raw article st)) key \<longleftrightarrow>
      key = (url, raw_external_id raw) \<or> stored_document st key"
proof -
  obtain s st1 where s: "get_or_create_source name url st = (s, st1)" by fastforce
  obtain d st2 where d: "get_or_create_document s raw st1 = (d, st2)" by fastforce
  obtain a st3 where a: "get_or_create_parsed_article d article st2 = (a, st3)" by fastforce
  note S = get_or_create_source_spec [OF assms s]
  note D = get_or_create_document_spec [OF S(1,2) d]
  note A = get_or_create_article_spec [OF D(1,2) a]
  have save: "snd (save_rows name url raw article st) = st3"
    by (simp add: save_rows_def s d a)
  show "store_ok (snd (save_rows name url raw article st))" using A(1) save by simp
  have src: "source_of st3 u = (if u = url then Some s else source_of st u)" for u
    using S(4) A(3) D(4) by (simp add: source_of_def)
  have doc: "document_of st3 i x = (if i = src_id s \<and> x = raw_external_id raw then Some d
      else document_of st i x)" for i x
    using D(3) A(4) S(5) by (simp add: document_of_def)
  have art: "article_of st3 i = (if i = doc_id d then Some a else article_of st i)" for i
    using A(2) D(5) S(6) by (simp add: article_of_def)
  have other_doc: "doc_id e \<noteq> doc_id d"
    if "document_of st i x = Some e" "\<not> (i = src_id s \<and> x = raw_external_id raw)" for i x e
  proof
    assume same: "doc_id e = doc_id d"
    have "document_of st2 i x = Some e" using that D(3) S(5) by (auto simp: document_of_def)
    then have e: "e \<in> set (documents st2)" "doc_source_id e = i \<and> doc_external_id e = x"
      by (auto simp: document_of_def dest: find_first)
    have "document_of st2 (src_id s) (raw_external_id raw) = Some d" using D(3) by simp
    then have "doc_source_id d = src_id s \<and> doc_external_id d = raw_external_id raw"
      by (auto simp: document_of_def dest: find_first)
    moreover have "e = d"
      using D(1,2) e(1) same by (auto simp: store_ok_def intro: distinct_map_eq)
    ultimately show False using e(2) that(2) by simp
  qed
  have other_source: "src_id s' \<noteq> src_id s" if "source_of st u = Some s'" "u \<noteq> url" for u s'
  proof
    assume same: "src_id s' = src_id s"
    have "source_of st1 u = Some s'" using that S(4) by simp
    then have "s' \<in> set (sources st1)" "src_base_url s' = u"
      by (auto simp: source_of_def dest: find_first)
    moreover from this S(1,2) same have "s' = s"
      by (auto simp: store_ok_def intro: distinct_map_eq)
    ultimately show False using S(3) that(2) by simp
  qed
  have new_source: "document_of st (src_id s) x = None" if "source_of st url = None" for x
    using S(7) [OF that, of x] S(5) by (simp add: document_of_def)
  have old_source: "s' = s" if "source_of st url = Some s'" for s'
    using that s by (simp add: get_or_create_source_def)
  have "held st3 key = ((held st)((url, raw_external_id raw) \<mapsto> saved_view raw article)) key" for key
  proof (cases "key = (url, raw_external_id raw)")
    case True
    have "view_of d a = saved_view raw article"
      using D(6) [of a] A(5) [of d] by (auto simp: saved_view_def view_of_def)
    with True show ?thesis by (simp add: held_def src doc art)
  next
    case False
    obtain u x where key: "key = (u, x)" by fastforce
    show ?thesis
    proof (cases "source_of st u")
      case None
      then show ?thesis
        using False key new_source by (auto simp: held_def src doc art)
    next
      case (Some s')
      then show ?thesis
        using False key other_source [of u s'] old_source other_doc
        by (auto simp: held_def src doc art split: option.splits)
    qed
  qed
  then show "held (snd (save_rows name url raw article st)) =
      (held st)((url, raw_external_id raw) \<mapsto> saved_view raw article)"
    using save by (auto simp: fun_eq_iff)
  have "stored_document st3 key \<longleftrightarrow> key = (url, raw_external_id raw) \<or> stored_document st key"
    using other_source [of "fst key"] new_source old_source
    by (cases key; cases "source_of st (fst key)") (auto simp: stored_document_def src doc)
  then show "stored_document (snd (save_rows name url raw article st)) key \<longleftrightarrow>
      key = (url, raw_external_id raw) \<or> stored_document st key"
    using save by simp
qed

section \<open>The store as a client sees it\<close>

text \<open>
  What the callers of a store of documents rely on: a save keeps the store's invariant and
  replaces what is held under the saved document's key, nothing else.
\<close>

locale document_store =
  fixes invar :: "'s \<Rightarrow> bool"
    and save :: "'d \<Rightarrow> 's \<Rightarrow> 's"
    and holds :: "'s \<Rightarrow> 'k \<Rightarrow> 'v option"
    and key_of :: "'d \<Rightarrow> 'k"
    and value_of :: "'d \<Rightarrow> 'v"
  assumes invar_save: "invar s \<Longrightarrow> invar (save d s)"
    and holds_save: "invar s \<Longrightarrow> holds (save d s) = (holds s)(key_of d \<mapsto> value_of d)"
begin

lemma invar_batch: "invar s \<Longrightarrow> invar (fold save ds s)"
  by (induction ds arbitrary: s) (simp_all add: invar_save)

lemma holds_batch:
  "invar s \<Longrightarrow> holds (fold save ds s) = holds s ++ map_of (rev (map (\<lambda>d. (key_of d, value_of d)) ds))"
  by (induction ds arbitrary: s) (simp_all add: invar_save holds_save)

lemma batch_twice:
  assumes "invar s"
  shows "holds (fold save ds (fold save ds s)) = holds (fold save ds s)"
  using assms by (simp add: holds_batch invar_batch map_add_def fun_eq_iff split: option.split)

lemma batch_order:
  assumes "invar s" and "distinct (map key_of ds)" and "mset es = mset ds"
  shows "holds (fold save es s) = holds (fold save ds s)"
proof -
  let ?kv = "\<lambda>d. (key_of d, value_of d)"
  have fsts: "map fst (rev (map ?kv xs)) = rev (map key_of xs)" for xs
    by (simp add: rev_map comp_def)
  have "mset (map key_of es) = mset (map key_of ds)" using assms(3) by simp
  then have "distinct (map key_of es)" using assms(2) by (metis mset_eq_imp_distinct_iff)
  moreover have "set es = set ds" using assms(3) by (metis mset_eq_setD)
  ultimately have "map_of (rev (map ?kv es)) = map_of (rev (map ?kv ds))"
    using assms(2) fsts by (subst map_of_inject_set) auto
  then show ?thesis using assms(1) by (simp add: holds_batch)
qed

end

text \<open>One request to the persistence of a source: its name and address, the page, the article.\<close>

type_synonym save_request = "string \<times> string \<times> raw_document \<times> parsed_article"

fun save_request :: "save_request \<Rightarrow> store \<Rightarrow> store" where
  "save_request (name, url, raw, article) st = snd (save_rows name url raw article st)"

fun request_key :: "save_request \<Rightarrow> string \<times> string" where
  "request_key (name, url, raw, article) = (url, raw_external_id raw)"

fun request_view :: "save_request \<Rightarrow> held_document" where
  "request_view (name, url, raw, article) = saved_view raw article"

interpretation postgres: document_store store_ok save_request held request_key request_view
proof
  fix st and d :: save_request
  assume ok: "store_ok st"
  obtain name url raw article where d: "d = (name, url, raw, article)" by (cases d)
  show "store_ok (save_request d st)"
    and "held (save_request d st) = (held st)(request_key d \<mapsto> request_view d)"
    using save_rows_spec [OF ok] by (simp_all add: d)
qed

definition empty_store :: store where
  "empty_store = \<lparr>sources = [], documents = [], articles = [], next_source_id = 1,
     next_document_id = 1, next_article_id = 1\<rparr>"

definition page :: "string \<Rightarrow> raw_document" where
  "page i = \<lparr>raw_external_id = i, raw_url = ''u'', raw_fetched_at = 0, raw_content_type = [], raw_content = []\<rparr>"

definition article_on :: "datetime option \<Rightarrow> parsed_article" where
  "article_on moment = \<lparr>article_external_id = ''a'', article_url = ''u'', article_title = [],
     article_published_at = moment, article_text = []\<rparr>"

lemma empty_store_ok: "store_ok empty_store"
  by (simp add: store_ok_def empty_store_def)

text \<open>C37. A save keeps the unique constraints, foreign keys and key counters of the three
  tables; what the store holds afterwards is the map it held before with the saved document
  and article under the source's address and the document's id, every other document as it
  was; and a save the database refuses leaves the tables untouched and raises a persistence
  error.\<close>

theorem save_replaces_one_document:
  assumes "store_ok st" and "persistence_save name url failure raw article st = (result, st')"
  shows "store_ok st' \<and>
    (case result of
       Inr ids \<Rightarrow> held st' = (held st)((url, raw_external_id raw) \<mapsto> saved_view raw article)
     | Inl e \<Rightarrow> st' = st \<and> (\<exists>raised. failure = Some raised \<and>
         (if is_sqlalchemy_error raised then is_ingestion_error e else e = raised)))"
proof (cases failure)
  case None
  then show ?thesis
    using assms save_rows_spec [OF assms(1), of name url raw article]
    by (auto simp: persistence_save_def split: prod.splits)
next
  case (Some e)
  then show ?thesis
    using assms by (auto simp: persistence_save_def is_ingestion_error_def split: if_splits)
qed

theorem save_replaces_one_document_witness:
  "\<exists>result st'. persistence_save ''N'' ''s'' None (page ''1'') (article_on None) empty_store = (result, st') \<and>
     store_ok st' \<and>
    (case result of
       Inr ids \<Rightarrow> held st' = (held empty_store)((''s'', raw_external_id (page ''1'')) \<mapsto> saved_view (page ''1'') (article_on None))
     | Inl e \<Rightarrow> st' = empty_store \<and> (\<exists>raised. None = Some raised \<and>
         (if is_sqlalchemy_error raised then is_ingestion_error e else e = raised)))"
  using save_replaces_one_document [OF empty_store_ok, of "''N''" "''s''" None "page ''1''" "article_on None"]
  by (metis (no_types, lifting) surj_pair)

lemma set_known_external_ids:
  assumes "store_ok st"
  shows "set (known_external_ids url ids st) = {x \<in> set ids. stored_document st (url, x)}"
proof -
  have one: "source_of st url = Some r" if "r \<in> set (sources st)" "src_base_url r = url" for r
  proof (cases "source_of st url")
    case None
    with that show ?thesis by (auto simp: source_of_def find_None)
  next
    case (Some r')
    then have "r' \<in> set (sources st)" "src_base_url r' = url"
      by (auto simp: source_of_def dest: find_first)
    then have "r' = r"
      using assms that by (auto simp: store_ok_def intro: distinct_map_eq)
    with Some show ?thesis by simp
  qed
  have "stored_document st (url, x) \<longleftrightarrow>
      (\<exists>d \<in> set (documents st). \<exists>r \<in> set (sources st).
        doc_source_id d = src_id r \<and> src_base_url r = url \<and> doc_external_id d = x)" for x
  proof (cases "source_of st url")
    case None
    then have "\<forall>r \<in> set (sources st). src_base_url r \<noteq> url" by (auto simp: source_of_def find_None)
    with None show ?thesis by (auto simp: stored_document_def)
  next
    case (Some r)
    then have r: "r \<in> set (sources st)" "src_base_url r = url"
      by (auto simp: source_of_def dest: find_first)
    have "stored_document st (url, x) \<longleftrightarrow> (\<exists>d \<in> set (documents st). doc_source_id d = src_id r \<and> doc_external_id d = x)"
      using Some by (auto simp: stored_document_def document_of_def find_None)
    moreover have "(\<exists>r' \<in> set (sources st). i = src_id r' \<and> src_base_url r' = url \<and> y = x) \<longleftrightarrow> i = src_id r \<and> y = x"
      for i y
      using r one Some by (metis option.inject)
    ultimately show ?thesis by simp
  qed
  then show ?thesis by (auto simp: known_external_ids_def)
qed

text \<open>What a source is told it already knows: of the ids asked about, those it had
  stored before, and after a save the saved document's id too; the ids of another source
  do not change.\<close>

theorem known_after_save:
  assumes "store_ok st"
  shows "set (known_external_ids base ids (snd (save_rows name url raw article st))) =
    set (known_external_ids base ids st) \<union> (if base = url then {raw_external_id raw} \<inter> set ids else {})"
  using assms by (auto simp: set_known_external_ids save_rows_spec)

theorem known_after_save_witness:
  "set (known_external_ids ''s'' [''1'', ''2''] (snd (save_rows ''N'' ''s'' (page ''1'') (article_on None) empty_store))) =
    set (known_external_ids ''s'' [''1'', ''2''] empty_store) \<union>
      (if ''s'' = ''s'' then {raw_external_id (page ''1'')} \<inter> set [''1'', ''2''] else {})"
  by (rule known_after_save [OF empty_store_ok])

text \<open>Running a batch of saves again changes nothing the store holds, and neither does
  the order of a batch of different documents.\<close>

theorem saving_again_changes_nothing:
  assumes "store_ok st" and "distinct (map request_key requests)" and "mset again = mset requests"
  shows "held (fold save_request again (fold save_request requests st)) = held (fold save_request requests st) \<and>
    held (fold save_request again st) = held (fold save_request requests st)"
  using postgres.batch_order [OF postgres.invar_batch [OF assms(1)] assms(2,3), of requests]
    postgres.batch_twice [OF assms(1)] postgres.batch_order [OF assms] by simp

theorem saving_again_changes_nothing_witness:
  "held (fold save_request [(''N'', ''s'', page ''2'', article_on None), (''N'', ''s'', page ''1'', article_on None)]
      (fold save_request [(''N'', ''s'', page ''1'', article_on None), (''N'', ''s'', page ''2'', article_on None)] empty_store)) =
   held (fold save_request [(''N'', ''s'', page ''1'', article_on None), (''N'', ''s'', page ''2'', article_on None)] empty_store) \<and>
   held (fold save_request [(''N'', ''s'', page ''2'', article_on None), (''N'', ''s'', page ''1'', article_on None)] empty_store) =
   held (fold save_request [(''N'', ''s'', page ''1'', article_on None), (''N'', ''s'', page ''2'', article_on None)] empty_store)"
  by (rule saving_again_changes_nothing [OF empty_store_ok]) (simp_all add: page_def add_mset_commute)

section \<open>What a period stores\<close>

definition within_period :: "int option \<Rightarrow> int option \<Rightarrow> parsed_article \<Rightarrow> bool" where
  "within_period published_from published_to article \<longleftrightarrow>
     (published_from = None \<and> published_to = None) \<or>
     (\<exists>moment. article_published_at article = Some moment \<and>
        (\<forall>d. published_from = Some d \<longrightarrow> d \<le> dt_date moment) \<and>
        (\<forall>d. published_to = Some d \<longrightarrow> dt_date moment \<le> d))"

lemma published_skip_None: "published_skip f t article = None \<longleftrightarrow> within_period f t article"
  by (auto simp: published_skip_def within_period_def Let_def split: option.splits)

text \<open>What reaches storage was fetched and parsed from the reference and published within
  the dates asked for; a document that is read and not stored says why.\<close>

theorem stored_only_within_period:
  assumes "service_read read published_from published_to reference s = (Inr document, t)"
  shows "(skipped document = None \<longleftrightarrow> read_fetched document \<noteq> None) \<and>
    (\<forall>article_id u. service_store save document t = (Inr article_id, u) \<longrightarrow>
      (\<exists>fetched article ids. read reference s = (Inr fetched, t) \<and>
        within_period published_from published_to (fetched_parsed fetched) \<and>
        save fetched t = (Inr (article, ids, article_id), u)))"
proof -
  obtain r t' where r: "read reference s = (r, t')" by fastforce
  consider (skip) "read_fetched document = None" "skipped document \<noteq> None"
    | (keep) fetched where "read reference s = (Inr fetched, t)" "skipped document = None"
        "read_fetched document = Some fetched" "within_period published_from published_to (fetched_parsed fetched)"
    using assms r
    by (cases r) (auto simp: service_read_def action_defs Let_def published_skip_None
        split: if_splits exn.splits)
  then show ?thesis
  proof cases
    case skip
    then show ?thesis by (simp add: service_store_def action_defs)
  next
    case (keep fetched)
    then show ?thesis
      by (auto simp: service_store_def action_defs split: prod.splits sum.splits)
  qed
qed

definition fetched_on :: "datetime option \<Rightarrow> fetched_article" where
  "fetched_on moment = \<lparr>fetched_raw = page ''1'', fetched_parsed = article_on moment\<rparr>"

definition on_day :: "int \<Rightarrow> read_document" where
  "on_day d = \<lparr>skipped = None, read_published_at = Some \<lparr>dt_date = d, dt_micros = 0\<rparr>,
     read_fetched = Some (fetched_on (Some \<lparr>dt_date = d, dt_micros = 0\<rparr>))\<rparr>"

theorem stored_only_within_period_witness:
  "service_store (\<lambda>f s. (Inr (fetched_parsed f, s, 7), Suc s)) (on_day 5) 0 = (Inr 7, 1) \<and>
   (\<exists>fetched article ids. (Inr (fetched_on (Some \<lparr>dt_date = 5, dt_micros = 0\<rparr>)), 0::nat) = (Inr fetched, 0) \<and>
     within_period (Some 4) (Some 5) (fetched_parsed fetched) \<and>
     (Inr (fetched_parsed fetched, 0, 7), 1) = (Inr (article, ids, 7), Suc 0))"
proof -
  let ?read = "\<lambda>_ s. (Inr (fetched_on (Some \<lparr>dt_date = 5, dt_micros = 0\<rparr>)), s)"
  have read: "service_read ?read (Some 4) (Some 5) () (0::nat) = (Inr (on_day 5), 0)"
    by (simp add: service_read_def action_defs Let_def published_skip_def fetched_on_def article_on_def on_day_def)
  have store: "service_store (\<lambda>f s. (Inr (fetched_parsed f, s, 7), Suc s)) (on_day 5) 0 = (Inr 7, 1)"
    by (simp add: service_store_def on_day_def action_defs)
  show ?thesis
    using stored_only_within_period [OF read, of "\<lambda>f s. (Inr (fetched_parsed f, s, 7), Suc s)"] store
    by auto
qed

section \<open>Reading ahead\<close>

text \<open>What the consumer of \<open>read_many\<close> sees, and what is running beside it.\<close>

fun yielded :: "'ref read_event list \<Rightarrow> ('ref \<times> (exn + read_document)) list" where
  "yielded [] = []"
| "yielded (Yielded r x # es) = (r, x) # yielded es"
| "yielded (e # es) = yielded es"

fun started :: "'ref read_event list \<Rightarrow> 'ref list" where
  "started [] = []"
| "started (Started r # es) = r # started es"
| "started (e # es) = started es"

fun cancelled :: "'ref read_event list \<Rightarrow> 'ref list" where
  "cancelled [] = []"
| "cancelled (Cancelled r # es) = r # cancelled es"
| "cancelled (e # es) = cancelled es"

lemma event_append [simp]:
  "yielded (es @ fs) = yielded es @ yielded fs"
  "started (es @ fs) = started es @ started fs"
  "cancelled (es @ fs) = cancelled es @ cancelled fs"
  by (induction es rule: yielded.induct) simp_all

lemma event_map [simp]:
  "yielded (map Started rs) = []" "yielded (map Cancelled rs) = []"
  "started (map Started rs) = rs" "started (map Cancelled rs) = []"
  "cancelled (map Started rs) = []" "cancelled (map Cancelled rs) = rs"
  by (induction rs) simp_all

text \<open>A read that ended in a result or in an ordinary exception.\<close>

definition ordinary :: "exn + 'a \<Rightarrow> bool" where
  "ordinary x \<longleftrightarrow> (case x of Inl e \<Rightarrow> is_exception e | Inr _ \<Rightarrow> True)"

lemma read_window_step:
  "ordinary (outcome r) \<Longrightarrow> read_window outcome (Suc demand) (r # window) upcoming =
     map Started (take 1 upcoming) @ Yielded r (outcome r) #
     read_window outcome demand (window @ take 1 upcoming) (drop 1 upcoming)"
  by (cases upcoming) (auto simp: ordinary_def split: sum.splits)

lemma read_window_all:
  assumes "\<forall>r \<in> set (window @ upcoming). ordinary (outcome r)" and "window = [] \<longrightarrow> upcoming = []"
  shows "yielded (read_window outcome demand window upcoming) =
        map (\<lambda>r. (r, outcome r)) (take demand (window @ upcoming)) \<and>
      started (read_window outcome demand window upcoming) = take demand upcoming \<and>
      cancelled (read_window outcome demand window upcoming) = drop demand (window @ take demand upcoming)"
  using assms
proof (induction demand arbitrary: window upcoming)
  case (Suc demand)
  show ?case
  proof (cases window)
    case Nil
    then show ?thesis using Suc.prems by simp
  next
    case (Cons r ws)
    let ?rest = "read_window outcome demand (ws @ take 1 upcoming) (drop 1 upcoming)"
    have window: "(ws @ take 1 upcoming) @ drop 1 upcoming = ws @ upcoming" by simp
    have "\<forall>r \<in> set (ws @ upcoming). ordinary (outcome r)" using Suc.prems(1) Cons by simp
    then have IH: "yielded ?rest = map (\<lambda>r. (r, outcome r)) (take demand (ws @ upcoming)) \<and>
        started ?rest = take demand (drop 1 upcoming) \<and>
        cancelled ?rest = drop demand ((ws @ take 1 upcoming) @ take demand (drop 1 upcoming))"
      using Suc.IH [of "ws @ take 1 upcoming" "drop 1 upcoming", unfolded window]
      by (cases upcoming) simp_all
    have step: "read_window outcome (Suc demand) window upcoming =
        map Started (take 1 upcoming) @ Yielded r (outcome r) # ?rest"
      using Suc.prems(1) Cons by (simp add: read_window_step del: read_window.simps(3))
    show ?thesis unfolding step using IH Cons by (cases upcoming) simp_all
  qed
qed simp

text \<open>Reading ahead: the consumer gets one result for each reference it asks for, in
  discovery order, whatever fails; the reads started are those of the references taken and
  of at most \<open>2 * workers\<close> after them; closing early cancels exactly the reads still waiting.\<close>

theorem read_many_in_order:
  assumes "1 \<le> workers" and "\<forall>r \<in> set references. ordinary (outcome r)" and "0 < demand"
  shows "\<exists>es. read_many outcome references workers demand = Inr es \<and>
     yielded es = map (\<lambda>r. (r, outcome r)) (take demand references) \<and>
     started es = take (2 * nat workers + demand) references \<and>
     cancelled es = take (2 * nat workers) (drop demand references)"
proof -
  let ?n = "2 * nat workers"
  have window: "take ?n references = [] \<longrightarrow> drop ?n references = []"
    using assms(1) by (cases references) auto
  have rest: "take ?n references @ take demand (drop ?n references) = take (?n + demand) references"
    by (simp add: take_add)
  have "drop demand (take (?n + demand) references) = take ?n (drop demand references)"
    by (simp add: drop_take)
  then show ?thesis
    using assms read_window_all [of "take ?n references" "drop ?n references" outcome demand] window rest
    by (simp add: read_many_def Let_def)
qed

theorem read_many_in_order_witness:
  "\<exists>es. read_many (\<lambda>r. if r = 2 then Inl (ParseError []) else
        Inr \<lparr>skipped = Some NO_TEXT, read_published_at = None, read_fetched = None\<rparr>)
        [1, 2, 3, 4, 5::nat] 1 2 = Inr es \<and>
     yielded es = map (\<lambda>r. (r, if r = 2 then Inl (ParseError []) else
        Inr \<lparr>skipped = Some NO_TEXT, read_published_at = None, read_fetched = None\<rparr>)) (take 2 [1, 2, 3, 4, 5]) \<and>
     started es = take (2 * nat 1 + 2) [1, 2, 3, 4, 5] \<and>
     cancelled es = take (2 * nat 1) (drop 2 [1, 2, 3, 4, 5])"
  by (rule read_many_in_order) (auto simp: ordinary_def)

end
