(* ===== verification/Monitoring_Service.thy ===== *)
theory Monitoring_Service
  imports Source_Health Ingestion
begin

text \<open>
  The pipeline orchestrator (\<open>orchestrator/service.py\<close>) with the lock of its derived stages
  (\<open>orchestrator/locks.py\<close>): a run is started, its stages call the modules one unit of work
  at a time and record counters and failed items on the run, and it is always finished. The
  modules' own databases are a component of the world the run table is no part of.
\<close>

section \<open>The world and the modules\<close>

record 'm service_world = "(monitoring_db, command) world" +
  outside :: 'm

type_synonym ('m, 'a) service = "('m service_world, exn, 'a) action"

definition repository :: "(monitoring_db, 'a) txn \<Rightarrow> ('m, 'a) service" where
  "repository = transact perform"

text \<open>A call of another module: it works on its own state and may raise.\<close>

definition call :: "('m, exn, 'a) action \<Rightarrow> ('m, 'a) service" where
  "call m w = (case m (outside w) of (r, o') \<Rightarrow> (r, w\<lparr>outside := o'\<rparr>))"

datatype extraction_status = EXTRACTION_RUNNING | EXTRACTION_SUCCEEDED | EXTRACTION_FAILED

record extraction_saved =
  saved_status :: extraction_status
  saved_error :: "string option"
  skipped_existing :: bool
  saved_events :: int

record resolution_stats =
  mentions_resolved :: int
  new_persons_created :: int
  mentions_reused :: int
  reviews_pending :: int

record review_batch =
  batch_reviewed :: int
  batch_auto_accepted :: int
  batch_auto_rejected :: int
  batch_human_required :: int
  batch_failed :: int
  batch_skipped :: int

record evaluation =
  evaluation_created :: int
  evaluation_skipped :: "string option"
  evaluation_criteria :: "json list"
  evaluation_matched :: "int list"

text \<open>
  The public APIs a run calls. \<open>read_result\<close> is what reading a reference comes to
  (\<open>read_many\<close> yields these in the references' order); \<open>lock_polls\<close> the moments at which
  the lock of a stage was found held before it was got; \<open>stopwatch\<close> the duration of a stage.
\<close>

record 'm modules =
  base_url :: "string \<Rightarrow> exn + string"
  discover_source :: "string \<Rightarrow> int \<Rightarrow> bool \<Rightarrow> ('m, exn, source_reference list) action"
  known_ids :: "string \<Rightarrow> string list \<Rightarrow> ('m, exn, string list) action"
  read_result :: "source_reference \<Rightarrow> exn + read_document"
  store_document :: "read_document \<Rightarrow> ('m, exn, nat) action"
  articles_pending :: "string \<Rightarrow> ('m, exn, nat list) action"
  extract_article :: "nat \<Rightarrow> ('m, exn, extraction_saved) action"
  runs_pending :: "string \<Rightarrow> ('m, exn, nat list) action"
  resolve_run :: "nat \<Rightarrow> ('m, exn, resolution_stats) action"
  review_pending :: "int \<Rightarrow> ('m, exn, review_batch option) action"
  persons_pending_classification :: "('m, exn, nat list) action"
  classify_person :: "nat \<Rightarrow> ('m, exn, string) action"
  latest_snapshot :: "('m, exn, nat option) action"
  persons_pending_match :: "nat \<Rightarrow> ('m, exn, nat list) action"
  match_person :: "nat \<Rightarrow> nat \<Rightarrow> ('m, exn, string) action"
  evaluate :: "nat \<Rightarrow> nat option \<Rightarrow> ('m, exn, evaluation) action"
  classifier_name :: json
  lock_polls :: "string \<Rightarrow> 'm \<Rightarrow> rat list"
  stopwatch :: "'m \<Rightarrow> int"

record settings =
  settings_limit :: int
  stale_run_after :: int

section \<open>Run handles\<close>

record run_handle =
  handle_run :: nat
  handle_source :: "string option"
  handle_trigger :: run_trigger
  discovery_limit :: int
  refetch_known :: bool
  published_from :: "int option"
  published_to :: "int option"
  resolve_only :: bool

definition is_regular :: "run_handle \<Rightarrow> bool" where
  "is_regular h \<longleftrightarrow> \<not> resolve_only h \<and> handle_trigger h \<in> {SCHEDULE, MANUAL}"

definition is_period :: "run_handle \<Rightarrow> bool" where
  "is_period h \<longleftrightarrow> published_from h \<noteq> None"

definition before_period :: "run_handle \<Rightarrow> datetime option \<Rightarrow> bool" where
  "before_period h moment = (case (published_from h, moment) of
     (Some d, Some m) \<Rightarrow> dt_date m < d | _ \<Rightarrow> False)"

definition require_run_source :: "run_handle \<Rightarrow> exn + string" where
  "require_run_source h = (case handle_source h of
     None \<Rightarrow> Inl (ValueError (''Monitoring run '' @ digits_of (handle_run h) @ '' has no source''))
   | Some source \<Rightarrow> Inr source)"

definition first_load_limit :: int where "first_load_limit = 500"
definition period_stop_after_older :: nat where "period_stop_after_older = 10"
definition entity_review_batch :: int where "entity_review_batch = 50"
definition resolution_progress_every :: nat where "resolution_progress_every = 10"

definition from_result :: "exn + 'a \<Rightarrow> ('m, 'a) service" where
  "from_result r = (case r of Inl e \<Rightarrow> raiseA e | Inr x \<Rightarrow> returnA x)"

section \<open>Stages and locks\<close>

text \<open>\<open>_stage\<close>: the fence, the body with its metrics, and the metrics stored on the run.\<close>

definition in_stage ::
  "'m modules \<Rightarrow> run_handle \<Rightarrow> stage \<Rightarrow> ('m, 'a \<times> (string \<times> json) list) service \<Rightarrow> ('m, 'a) service" where
  "in_stage M h st body =
     thenA (repository (heartbeat (handle_run h)))
       (bindA body (\<lambda>(x, metrics).
          bindA (call (\<lambda>o'. (Inr (stopwatch M o'), o'))) (\<lambda>ms.
          thenA (repository (set_stage_metrics (handle_run h) st (metrics @ [(''duration_ms'', JInt ms)])))
            (returnA x))))"

text \<open>
  \<open>advisory_lock\<close>: polled until it is got; while it is held elsewhere, the waiting run's
  heartbeat is called whenever \<open>every\<close> seconds have passed since the last call.
\<close>

fun wait_for_lock :: "rat list \<Rightarrow> rat \<Rightarrow> rat \<Rightarrow> ('s, exn, unit) action \<Rightarrow> ('s, exn, unit) action" where
  "wait_for_lock [] last_call every while_waiting = returnA ()"
| "wait_for_lock (t # polls) last_call every while_waiting =
     (if t - last_call \<ge> every
      then thenA while_waiting (wait_for_lock polls t every while_waiting)
      else wait_for_lock polls last_call every while_waiting)"

definition max_lock_wait_heartbeat :: rat where "max_lock_wait_heartbeat = 60"

definition heartbeat_every :: "settings \<Rightarrow> rat" where
  "heartbeat_every S = min max_lock_wait_heartbeat (of_int (stale_run_after S) / 1000000 / 4)"

definition with_derived_lock ::
  "'m modules \<Rightarrow> settings \<Rightarrow> run_handle \<Rightarrow> string \<Rightarrow> ('m, 'a) service \<Rightarrow> ('m, 'a) service" where
  "with_derived_lock M S h name body =
     bindA (call (\<lambda>o'. (Inr (lock_polls M name o'), o'))) (\<lambda>polls.
       thenA (wait_for_lock polls 0 (heartbeat_every S) (repository (heartbeat (handle_run h)))) body)"

section \<open>The life of a run\<close>

definition start_source_run ::
  "'m modules \<Rightarrow> settings \<Rightarrow> string \<Rightarrow> run_trigger \<Rightarrow> int option \<Rightarrow> bool \<Rightarrow> int option \<Rightarrow> int option
   \<Rightarrow> (int \<Rightarrow> string) \<Rightarrow> ('m, run_handle) service" where
  "start_source_run M S source trigger limit refetch from_day to_day isoformat =
     bindA (from_result (base_url M source)) (\<lambda>_.
       if refetch \<and> trigger \<noteq> BACKFILL
       then raiseA (ValueError ''refetch_known is only allowed for a backfill'')
       else if (case (from_day, to_day) of (Some a, Some b) \<Rightarrow> a > b | _ \<Rightarrow> False)
       then raiseA (ValueError ''published_from must be <= published_to'')
       else
         (let depth = (case limit of None \<Rightarrow> settings_limit S | Some n \<Rightarrow> if n = 0 then settings_limit S else n) in
          bindA (start_run (source_scope source) (Some source) trigger
              ([(''discovery_limit'', JInt depth), (''refetch_known'', JBool refetch)]
               @ (case from_day of None \<Rightarrow> [] | Some d \<Rightarrow> [(''published_from'', JText (isoformat d))])
               @ (case to_day of None \<Rightarrow> [] | Some d \<Rightarrow> [(''published_to'', JText (isoformat d))]))
              (stale_run_after S)) (\<lambda>i.
            returnA \<lparr>handle_run = i, handle_source = Some source, handle_trigger = trigger,
              discovery_limit = depth, refetch_known = refetch, published_from = from_day,
              published_to = to_day, resolve_only = False\<rparr>)))"

definition start_derived_run :: "settings \<Rightarrow> run_trigger \<Rightarrow> ('m, run_handle) service" where
  "start_derived_run S trigger =
     bindA (start_run derived_scope None trigger [] (stale_run_after S)) (\<lambda>i.
       returnA \<lparr>handle_run = i, handle_source = None, handle_trigger = trigger, discovery_limit = 0,
         refetch_known = False, published_from = None, published_to = None, resolve_only = False\<rparr>)"

text \<open>\<open>_warn_of_layout\<close>: a warning only; its failure never fails the run.\<close>

definition warn_of_layout :: "string \<Rightarrow> ('m, layout_suspect list) service" where
  "warn_of_layout source = tryA (repository (reading (layout_suspects (Some source)))) returnA
     (\<lambda>e. if is_exception e then returnA [] else raiseA e)"

definition moves_checkpoint :: "run_handle \<Rightarrow> run_status \<Rightarrow> bool" where
  "moves_checkpoint h status \<longleftrightarrow> is_regular h \<and> handle_source h \<noteq> None \<and>
     status \<in> {COMPLETED, COMPLETED_WITH_ERRORS}"

definition finish_handle :: "run_handle \<Rightarrow> exn option \<Rightarrow> ('m, run_view) service" where
  "finish_handle h e =
     bindA (repository (finish_run (handle_run h) e)) (\<lambda>status.
       bindA (repository (reading (get_run (handle_run h)))) (\<lambda>view. case view of
         None \<Rightarrow> raiseA (LookupError (''Monitoring run '' @ digits_of (handle_run h) @ '' not found''))
       | Some v \<Rightarrow>
           thenA (if moves_checkpoint h status
               then repository (update_checkpoint (the (handle_source h)) (handle_run h)
                 (count_of ''documents_discovered'' (view_run v)))
               else returnA ())
             (case handle_source h of
                None \<Rightarrow> returnA v
              | Some source \<Rightarrow> thenA (warn_of_layout source) (returnA v))))"

text \<open>What every run does around its stages: however they end, the run is finished.\<close>

definition guarded :: "run_handle \<Rightarrow> ('m, unit) service \<Rightarrow> ('m, run_view) service" where
  "guarded h stages = tryA stages
     (\<lambda>_. finish_handle h None)
     (\<lambda>e. case e of
        MonitoringRunAbortedError _ \<Rightarrow> finish_handle h None
      | _ \<Rightarrow> if is_exception e then finish_handle h (Some e)
             else thenA (finish_handle h (Some e)) (raiseA e))"

section \<open>The source stages\<close>

record discovery_result =
  references :: "source_reference list"
  known_external :: "string list"

definition to_ingest :: "discovery_result \<Rightarrow> bool \<Rightarrow> source_reference list" where
  "to_ingest d refetch = filter (\<lambda>r. refetch \<or> ref_external_id r \<notin> set (known_external d)) (references d)"

text \<open>How deep discovery goes, and whether it may stop at what is stored.\<close>

definition may_stop_at_known :: "run_handle \<Rightarrow> bool" where
  "may_stop_at_known h \<longleftrightarrow> is_regular h \<and> \<not> is_period h \<and> \<not> refetch_known h \<and> handle_source h \<noteq> None"

definition discovery_depth :: "run_handle \<Rightarrow> bool \<Rightarrow> int" where
  "discovery_depth h stop_at_known =
     (if is_regular h \<and> \<not> stop_at_known \<and> \<not> is_period h then min (discovery_limit h) first_load_limit
      else discovery_limit h)"

definition discover :: "'m modules \<Rightarrow> run_handle \<Rightarrow> ('m, discovery_result) service" where
  "discover M h =
     bindA (from_result (require_run_source h)) (\<lambda>source.
     bindA (from_result (base_url M source)) (\<lambda>_.
     in_stage M h DISCOVERY
       (bindA (if may_stop_at_known h
               then repository (reading (previous_load_completed source (handle_run h)))
               else returnA False) (\<lambda>stop_at_known.
        bindA (call (discover_source M source (discovery_depth h stop_at_known) stop_at_known)) (\<lambda>refs.
        bindA (call (known_ids M source (map ref_external_id refs))) (\<lambda>known.
          let skipped = (if refetch_known h then 0 else int (length known)) in
          thenA (repository (add_counters (handle_run h)
              [(''documents_discovered'', int (length refs)), (''documents_skipped'', skipped)]))
            (returnA (\<lparr>references = refs, known_external = known\<rparr>,
               [(''discovered'', JInt (int (length refs))), (''known'', JInt (int (length known))),
                (''unchanged_skipped'', JInt skipped)]))))))))"

text \<open>A \<open>Counter\<close> of outcomes.\<close>

definition bump :: "string \<Rightarrow> (string, int) dict \<Rightarrow> (string, int) dict" where
  "bump name d = dict_set name (1 + (case dict_get d name of None \<Rightarrow> 0 | Some n \<Rightarrow> n)) d"

definition total :: "(string, int) dict \<Rightarrow> int" where
  "total d = sum_list (map snd d)"

definition counter_json :: "(string, int) dict \<Rightarrow> (string \<times> json) list" where
  "counter_json d = map (\<lambda>(name, n). (name, JInt n)) d"

definition skip_value :: "skip_reason \<Rightarrow> string" where
  "skip_value r = (case r of NO_TEXT \<Rightarrow> ''no_text'' | UNKNOWN_PUBLISHED_DATE \<Rightarrow> ''unknown_published_date''
     | OUT_OF_PUBLISHED_RANGE \<Rightarrow> ''out_of_published_range'')"

text \<open>
  The loop of \<open>_ingest_references\<close>: a failed document is recorded, a skipped one counted, the
  others stored; a load for a period stops after ten in a row published before it.
\<close>

fun ingest_loop ::
  "'m modules \<Rightarrow> run_handle \<Rightarrow> source_reference list \<Rightarrow> nat list \<Rightarrow> (string, int) dict \<Rightarrow> nat
   \<Rightarrow> ('m, nat list \<times> (string, int) dict) service" where
  "ingest_loop M h [] ids outcomes older = returnA (ids, outcomes)"
| "ingest_loop M h (reference # rest) ids outcomes older =
     (case read_result M reference of
        Inl e \<Rightarrow>
          if \<not> is_exception e then raiseA e
          else thenA (repository (heartbeat (handle_run h)))
            (bindA (repository (record_failure (handle_run h) INGESTION ''source_reference'' e None
                (Some (ref_url reference)))) (\<lambda>kind.
             thenA (repository (add_counters (handle_run h) [(''documents_failed'', 1)]))
               (ingest_loop M h rest ids (bump (''failed_'' @ failure_kind_value kind) outcomes) older)))
      | Inr document \<Rightarrow>
          thenA (repository (heartbeat (handle_run h)))
            (if skipped document = Some NO_TEXT
             then thenA (repository (add_counters (handle_run h) [(''documents_skipped'', 1)]))
               (ingest_loop M h rest ids (bump ''skipped_no_text'' outcomes) older)
             else
               (let older' = (if before_period h (read_published_at document) then Suc older else 0) in
                case skipped document of
                  Some reason \<Rightarrow>
                    thenA (repository (add_counters (handle_run h) [(''documents_skipped'', 1)]))
                      (let outcomes' = bump (''skipped_'' @ skip_value reason) outcomes in
                       if older' \<ge> period_stop_after_older
                       then returnA (ids, bump ''stopped_before_period'' outcomes')
                       else ingest_loop M h rest ids outcomes' older')
                | None \<Rightarrow>
                    bindA (call (store_document M document)) (\<lambda>i.
                    thenA (repository (add_counters (handle_run h) [(''documents_ingested'', 1)]))
                      (ingest_loop M h rest (ids @ [i]) (bump ''ingested'' outcomes) older')))))"

record ingestion_result =
  article_ids :: "nat list"
  ingestion_failed :: int

definition failed_outcome :: "string \<Rightarrow> bool" where
  "failed_outcome name \<longleftrightarrow> take 6 name = ''failed''"

definition ingest :: "'m modules \<Rightarrow> run_handle \<Rightarrow> discovery_result \<Rightarrow> ('m, ingestion_result) service" where
  "ingest M h d =
     bindA (from_result (require_run_source h)) (\<lambda>source.
     bindA (from_result (base_url M source)) (\<lambda>_.
     let refs = to_ingest d (refetch_known h) in
     bindA (in_stage M h INGESTION
       (bindA (ingest_loop M h refs [] [] 0) (\<lambda>(ids, outcomes).
          returnA ((ids, outcomes), (''attempted'', JInt (int (length refs))) # counter_json outcomes))))
       (\<lambda>(ids, outcomes). returnA \<lparr>article_ids = ids,
          ingestion_failed = total (filter (\<lambda>(name, _). failed_outcome name) outcomes)\<rparr>)))"

text \<open>Recording one failed unit of a stage; anything but an \<open>Exception\<close> goes on up.\<close>

definition failed_item ::
  "run_handle \<Rightarrow> stage \<Rightarrow> string \<Rightarrow> nat \<Rightarrow> exn \<Rightarrow> 'a \<Rightarrow> ('m, 'a) service" where
  "failed_item h st entity_type entity e state =
     (if is_exception e
      then thenA (repository (record_failure (handle_run h) st entity_type e (Some entity) None)) (returnA state)
      else raiseA e)"

record stage_result =
  processed :: int
  created :: int
  stage_skipped :: int
  stage_failed :: int
  reviews :: int
  result_metrics :: "(string \<times> json) list"

definition extract_one ::
  "'m modules \<Rightarrow> run_handle \<Rightarrow> nat \<Rightarrow> stage_result \<Rightarrow> ('m, stage_result) service" where
  "extract_one M h article acc =
     thenA (repository (heartbeat (handle_run h)))
       (tryA (call (extract_article M article))
          (\<lambda>saved.
             if saved_status saved \<noteq> EXTRACTION_SUCCEEDED
             then failed_item h EXTRACTION ''article'' article
               (ExtractionFailedError (case saved_error saved of None \<Rightarrow> ''extraction failed''
                  | Some m \<Rightarrow> if m = [] then ''extraction failed'' else m))
               (acc\<lparr>stage_failed := stage_failed acc + 1\<rparr>)
             else if skipped_existing saved then returnA (acc\<lparr>stage_skipped := stage_skipped acc + 1\<rparr>)
             else thenA (repository (add_counters (handle_run h)
                 [(''articles_extracted'', 1), (''events_created'', saved_events saved)]))
               (returnA (acc\<lparr>processed := processed acc + 1, created := created acc + saved_events saved\<rparr>)))
          (\<lambda>e. failed_item h EXTRACTION ''article'' article e (acc\<lparr>stage_failed := stage_failed acc + 1\<rparr>)))"

definition nothing_done :: stage_result where
  "nothing_done = \<lparr>processed = 0, created = 0, stage_skipped = 0, stage_failed = 0, reviews = 0, result_metrics = []\<rparr>"

definition extract_stage :: "'m modules \<Rightarrow> run_handle \<Rightarrow> nat list \<Rightarrow> ('m, stage_result) service" where
  "extract_stage M h ingested =
     bindA (from_result (require_run_source h)) (\<lambda>source.
     bindA (from_result (base_url M source)) (\<lambda>url.
     bindA (call (articles_pending M url)) (\<lambda>pending.
     let articles = sort (remdups (pending @ ingested)) in
     in_stage M h EXTRACTION
       (bindA (foldA (extract_one M h) articles nothing_done) (\<lambda>acc.
          returnA (acc, [(''pending'', JInt (int (length articles))), (''extracted'', JInt (processed acc)),
            (''skipped_existing'', JInt (stage_skipped acc)), (''failed'', JInt (stage_failed acc)),
            (''events_created'', JInt (created acc))]))))))"

text \<open>Resolution: \<open>created\<close> counts new persons, \<open>stage_skipped\<close> carries the linked ones.\<close>

definition run_linked :: "resolution_stats \<Rightarrow> int" where
  "run_linked stats = max (mentions_resolved stats - new_persons_created stats - mentions_reused stats) 0"

definition resolve_one ::
  "'m modules \<Rightarrow> run_handle \<Rightarrow> nat \<Rightarrow> nat \<times> nat \<Rightarrow> stage_result \<Rightarrow> ('m, stage_result) service" where
  "resolve_one M h n = (\<lambda>(at_run, extraction_run) acc.
     thenA (if at_run mod resolution_progress_every = 0
            then repository (set_stage_metrics (handle_run h) RESOLUTION
              [(''extraction_runs'', JInt (int n)), (''done'', JInt (int at_run))])
            else repository (heartbeat (handle_run h)))
       (tryA (call (resolve_run M extraction_run))
          (\<lambda>stats. thenA (repository (add_counters (handle_run h)
              [(''persons_created'', new_persons_created stats), (''persons_linked'', run_linked stats),
               (''person_reviews_created'', reviews_pending stats)]))
            (returnA (acc\<lparr>created := created acc + new_persons_created stats,
               stage_skipped := stage_skipped acc + run_linked stats,
               reviews := reviews acc + reviews_pending stats\<rparr>)))
          (\<lambda>e. failed_item h RESOLUTION ''extraction_run'' extraction_run e
             (acc\<lparr>stage_failed := stage_failed acc + 1\<rparr>))))"

definition resolve :: "'m modules \<Rightarrow> run_handle \<Rightarrow> ('m, stage_result) service" where
  "resolve M h =
     bindA (from_result (require_run_source h)) (\<lambda>source.
     bindA (from_result (base_url M source)) (\<lambda>url.
     bindA (call (runs_pending M url)) (\<lambda>pending.
     in_stage M h RESOLUTION
       (bindA (foldA (resolve_one M h (length pending)) (zip [0..<length pending] pending) nothing_done) (\<lambda>acc.
          returnA (\<lparr>processed = int (length pending) - stage_failed acc, created = created acc,
              stage_skipped = 0, stage_failed = stage_failed acc, reviews = reviews acc,
              result_metrics = []\<rparr>,
            [(''extraction_runs'', JInt (int (length pending))), (''persons_created'', JInt (created acc)),
             (''persons_linked'', JInt (stage_skipped acc)), (''reviews'', JInt (reviews acc)),
             (''failed'', JInt (stage_failed acc))]))))))"

section \<open>The derived stages\<close>

definition review_entities :: "'m modules \<Rightarrow> settings \<Rightarrow> run_handle \<Rightarrow> ('m, stage_result) service" where
  "review_entities M S h = with_derived_lock M S h ''ai_entity_review''
     (in_stage M h AI_ENTITY_REVIEW
       (bindA (call (review_pending M (min (settings_limit S) entity_review_batch))) (\<lambda>batch. case batch of
          None \<Rightarrow> returnA (nothing_done\<lparr>result_metrics := [(''status'', JText ''not_configured'')]\<rparr>,
            [(''status'', JText ''not_configured'')])
        | Some b \<Rightarrow> returnA (\<lparr>processed = batch_reviewed b,
              created = batch_auto_accepted b + batch_auto_rejected b, stage_skipped = 0,
              stage_failed = batch_failed b, reviews = batch_human_required b, result_metrics = []\<rparr>,
            [(''reviewed'', JInt (batch_reviewed b)), (''auto_accepted'', JInt (batch_auto_accepted b)),
             (''auto_rejected'', JInt (batch_auto_rejected b)), (''human_required'', JInt (batch_human_required b)),
             (''failed'', JInt (batch_failed b)), (''skipped'', JInt (batch_skipped b))]))))"

text \<open>One person classified or matched: its status counted, or its failure recorded.\<close>

definition judge_one ::
  "run_handle \<Rightarrow> stage \<Rightarrow> string \<Rightarrow> (nat \<Rightarrow> ('m, exn, string) action) \<Rightarrow> nat
   \<Rightarrow> (string, int) dict \<times> int \<Rightarrow> ('m, (string, int) dict \<times> int) service" where
  "judge_one h st counter judge person = (\<lambda>(statuses, failed).
     thenA (repository (heartbeat (handle_run h)))
       (tryA (call (judge person))
          (\<lambda>status. thenA (repository (add_counters (handle_run h) [(counter, 1)]))
             (returnA (bump status statuses, failed)))
          (\<lambda>e. failed_item h st ''person'' person e (statuses, failed + 1))))"

definition classify :: "'m modules \<Rightarrow> settings \<Rightarrow> run_handle \<Rightarrow> ('m, stage_result) service" where
  "classify M S h = with_derived_lock M S h ''classification''
     (in_stage M h CLASSIFICATION
       (bindA (call (persons_pending_classification M)) (\<lambda>persons.
        bindA (foldA (judge_one h CLASSIFICATION ''classifications_created'' (classify_person M)) persons ([], 0))
          (\<lambda>(statuses, failed).
            returnA (\<lparr>processed = total statuses, created = 0, stage_skipped = 0, stage_failed = failed,
                reviews = (case dict_get statuses ''needs_review'' of None \<Rightarrow> 0 | Some n \<Rightarrow> n),
                result_metrics = [(''statuses'', JObject (counter_json statuses))]\<rparr>,
              [(''pending'', JInt (int (length persons))), (''failed'', JInt failed),
               (''statuses'', JObject (counter_json statuses)), (''classifier'', classifier_name M)])))))"

definition match_rosfinmonitoring :: "'m modules \<Rightarrow> settings \<Rightarrow> run_handle \<Rightarrow> ('m, nat option) service" where
  "match_rosfinmonitoring M S h = with_derived_lock M S h ''rf_matching''
     (in_stage M h RF_MATCHING
       (bindA (call (latest_snapshot M)) (\<lambda>snapshot. case snapshot of
          None \<Rightarrow> returnA (None, [(''skipped'', JText ''no_rf_snapshot'')])
        | Some i \<Rightarrow>
            thenA (repository (set_rf_snapshot (handle_run h) (Some i)))
              (bindA (call (persons_pending_match M i)) (\<lambda>persons.
               bindA (foldA (judge_one h RF_MATCHING ''rf_matches_created'' (\<lambda>p. match_person M p i)) persons ([], 0))
                 (\<lambda>(statuses, failed).
                   returnA (Some i, [(''snapshot_id'', JInt (int i)), (''pending'', JInt (int (length persons))),
                     (''failed'', JInt failed), (''statuses'', JObject (counter_json statuses))])))))))"

definition evaluate_findings ::
  "'m modules \<Rightarrow> settings \<Rightarrow> run_handle \<Rightarrow> nat option \<Rightarrow> ('m, stage_result) service" where
  "evaluate_findings M S h snapshot = with_derived_lock M S h ''findings''
     (in_stage M h FINDINGS
       (bindA (call (evaluate M (handle_run h) snapshot)) (\<lambda>ev.
          thenA (repository (add_counters (handle_run h) [(''findings_created'', evaluation_created ev)]))
            (returnA (\<lparr>processed = sum_list (evaluation_matched ev), created = evaluation_created ev,
                stage_skipped = 0, stage_failed = 0, reviews = 0,
                result_metrics = [(''skipped'', (case evaluation_skipped ev of None \<Rightarrow> JNull | Some t \<Rightarrow> JText t))]\<rparr>,
              [(''snapshot_id'', (case snapshot of None \<Rightarrow> JNull | Some i \<Rightarrow> JInt (int i))),
               (''skipped'', (case evaluation_skipped ev of None \<Rightarrow> JNull | Some t \<Rightarrow> JText t)),
               (''criteria'', JList (evaluation_criteria ev))])))))"

definition run_derived_stages :: "'m modules \<Rightarrow> settings \<Rightarrow> run_handle \<Rightarrow> ('m, unit) service" where
  "run_derived_stages M S h =
     thenA (review_entities M S h) (thenA (classify M S h)
       (bindA (match_rosfinmonitoring M S h) (\<lambda>snapshot.
         thenA (evaluate_findings M S h snapshot) (returnA ()))))"

section \<open>Whole runs\<close>

definition source_stages ::
  "'m modules \<Rightarrow> settings \<Rightarrow> run_handle \<Rightarrow> bool \<Rightarrow> bool \<Rightarrow> ('m, unit) service" where
  "source_stages M S h with_derived with_resolution =
     bindA (discover M h) (\<lambda>discovery.
     bindA (ingest M h discovery) (\<lambda>ingestion.
     thenA (extract_stage M h (article_ids ingestion))
       (thenA (if with_resolution then thenA (resolve M h) (returnA ()) else returnA ())
         (if with_derived then run_derived_stages M S h else returnA ()))))"

definition run_source ::
  "'m modules \<Rightarrow> settings \<Rightarrow> string \<Rightarrow> run_trigger \<Rightarrow> int option \<Rightarrow> bool \<Rightarrow> int option \<Rightarrow> int option
   \<Rightarrow> (int \<Rightarrow> string) \<Rightarrow> bool \<Rightarrow> bool \<Rightarrow> ('m, run_view) service" where
  "run_source M S source trigger limit refetch from_day to_day isoformat with_derived with_resolution =
     (if with_derived \<and> \<not> with_resolution
      then raiseA (ValueError ''the derived stages need resolution'')
      else bindA (start_source_run M S source trigger limit refetch from_day to_day isoformat)
        (\<lambda>h. guarded h (source_stages M S h with_derived with_resolution)))"

definition resolve_source :: "'m modules \<Rightarrow> settings \<Rightarrow> string \<Rightarrow> run_trigger \<Rightarrow> ('m, run_view) service" where
  "resolve_source M S source trigger =
     bindA (start_source_run M S source trigger (Some 1) False None None (\<lambda>_. []))
       (\<lambda>h. let h' = h\<lparr>resolve_only := True\<rparr> in guarded h' (thenA (resolve M h') (returnA ())))"

definition run_derived :: "'m modules \<Rightarrow> settings \<Rightarrow> run_trigger \<Rightarrow> ('m, run_view) service" where
  "run_derived M S trigger =
     bindA (start_derived_run S trigger) (\<lambda>h. guarded h (run_derived_stages M S h))"

text \<open>Discovery only: no run row, no ingestion, no checkpoint.\<close>

record dry_run_plan =
  plan_source :: string
  plan_limit :: int
  plan_references :: "source_reference list"
  plan_new :: "source_reference list"

definition dry_run :: "'m modules \<Rightarrow> settings \<Rightarrow> string \<Rightarrow> int option \<Rightarrow> ('m, dry_run_plan) service" where
  "dry_run M S source limit =
     bindA (from_result (base_url M source)) (\<lambda>_.
       let depth = (case limit of None \<Rightarrow> settings_limit S | Some n \<Rightarrow> if n = 0 then settings_limit S else n) in
       bindA (call (discover_source M source depth False)) (\<lambda>refs.
       bindA (call (known_ids M source (map ref_external_id refs))) (\<lambda>known.
         returnA \<lparr>plan_source = source, plan_limit = depth, plan_references = refs,
           plan_new = filter (\<lambda>r. ref_external_id r \<notin> set known) refs\<rparr>)))"


section \<open>What every part of a run does to the world\<close>

lemma snd_transact:
  "snd (transact perform operation w) = snd (transact perform (\<lambda>d. (Inr (), snd (operation d))) w)"
  by (auto simp: transact_def Let_def split: list.split prod.split option.split)

text \<open>
  The laws a relation on worlds needs so that every stage, whatever the modules answer, obeys
  it: one law for the modules' state, one for a transaction. \<open>allowed\<close> leaves open which
  checkpoints may move.
\<close>

locale run_law = state_order R
  for R :: "'m service_world \<Rightarrow> 'm service_world \<Rightarrow> bool" +
  fixes allowed :: "command \<Rightarrow> bool"
  assumes outside_step: "R w (w\<lparr>outside := x\<rparr>)"
    and commit_step: "allowed c \<Longrightarrow> R w (snd (repository (\<lambda>d. (Inr (), perform c d)) w))"
    and read_step: "R w (snd (repository (\<lambda>d. (Inr (), d)) w))"
    and allowed_others: "(\<And>s i n. c \<noteq> UpdateCheckpoint s i n) \<Longrightarrow> allowed c"
begin

lemma obeys_call: "obeys R (call m)"
  by (rule obeysI) (simp add: call_def outside_step split: prod.split)

lemma obeys_op:
  assumes "allowed c" and "\<And>d. snd (operation d) = perform c d"
  shows "obeys R (repository operation)"
  using commit_step [OF assms(1)] assms(2)
  by (intro obeysI) (simp add: repository_def snd_transact [where operation = operation])

lemma obeys_reading: "obeys R (repository (reading f))"
  using read_step by (intro obeysI) (simp add: repository_def snd_transact [where operation = "reading f"] reading_def)

lemma obeys_running_run_of: "obeys R (repository (running_run_of scope))"
  using read_step
  by (intro obeysI) (simp add: repository_def snd_transact [where operation = "running_run_of scope"] running_run_of_def)

lemma obeys_repository:
  "obeys R (repository (heartbeat i))"
  "obeys R (repository (add_counters i amounts))"
  "obeys R (repository (set_stage_metrics i st metrics))"
  "obeys R (repository (set_rf_snapshot i snapshot))"
  "obeys R (repository (record_failure i st kind e entity ref))"
  "obeys R (repository (finish_run i err))"
  "obeys R (repository (abort_stale_runs stale_after))"
  "obeys R (repository (insert_run scope source trigger parameters))"
  by (rule obeys_op [OF allowed_others perform.simps(4) [symmetric]]
      obeys_op [OF allowed_others perform.simps(5) [symmetric]]
      obeys_op [OF allowed_others perform.simps(6) [symmetric]]
      obeys_op [OF allowed_others perform.simps(7) [symmetric]]
      obeys_op [OF allowed_others perform.simps(8) [symmetric]]
      obeys_op [OF allowed_others perform.simps(9) [symmetric]]
      obeys_op [OF allowed_others perform.simps(2) [symmetric]]
      obeys_op [OF allowed_others perform.simps(3) [symmetric]]; simp)+

lemma obeys_from_result: "obeys R (from_result r)"
  by (cases r) (simp_all add: from_result_def obeys_flow)

lemma obeys_prod: "(\<And>a b. obeys R (f a b)) \<Longrightarrow> obeys R (case p of (a, b) \<Rightarrow> f a b)"
  by (cases p) simp

lemmas run_flow = obeys_flow obeys_call obeys_reading obeys_repository obeys_from_result obeys_prod

lemma obeys_in_stage: "obeys R body \<Longrightarrow> obeys R (in_stage M h st body)"
  by (simp add: in_stage_def run_flow)

lemma obeys_wait: "obeys R beat \<Longrightarrow> obeys R (wait_for_lock polls last_call every beat)"
  by (induction polls arbitrary: last_call) (simp_all add: run_flow)

lemma obeys_lock: "obeys R body \<Longrightarrow> obeys R (with_derived_lock M S h name body)"
  by (simp add: with_derived_lock_def run_flow obeys_wait)

lemma obeys_failed_item: "obeys R (failed_item h st entity_type entity e state)"
  by (simp add: failed_item_def run_flow)

lemma obeys_discover: "obeys R (discover M h)"
  by (simp add: discover_def Let_def run_flow obeys_in_stage)

lemma obeys_ingest_loop: "obeys R (ingest_loop M h refs ids outcomes older)"
  by (induction refs arbitrary: ids outcomes older)
    (auto simp: Let_def run_flow simp del: append.simps split: sum.split option.split)

lemma obeys_ingest: "obeys R (ingest M h d)"
  by (simp add: ingest_def Let_def run_flow obeys_in_stage obeys_ingest_loop)

lemma obeys_extract: "obeys R (extract_stage M h ids)"
  by (simp add: extract_stage_def extract_one_def Let_def run_flow obeys_in_stage obeys_failed_item)

lemma obeys_resolve_one: "obeys R (resolve_one M h n numbered acc)"
  by (cases numbered) (simp add: resolve_one_def run_flow obeys_failed_item)

lemma obeys_resolve: "obeys R (resolve M h)"
  by (simp add: resolve_def run_flow obeys_in_stage obeys_resolve_one)

lemma obeys_judge: "obeys R (judge_one h st counter judge person state)"
  by (cases state) (simp add: judge_one_def run_flow obeys_failed_item)

lemma obeys_derived: "obeys R (run_derived_stages M S h)"
  by (simp add: run_derived_stages_def review_entities_def classify_def match_rosfinmonitoring_def
    evaluate_findings_def run_flow obeys_in_stage obeys_lock obeys_judge)

lemma obeys_source_stages: "obeys R (source_stages M S h with_derived with_resolution)"
  by (simp add: source_stages_def run_flow obeys_discover obeys_ingest obeys_extract obeys_resolve
    obeys_derived)

lemma obeys_start_run: "obeys R (start_run scope source trigger parameters stale_after)"
  by (simp add: start_run_def repository_def [symmetric] run_flow obeys_running_run_of)

lemma obeys_start_source: "obeys R (start_source_run M S source trigger limit refetch from_day to_day isoformat)"
  by (simp add: start_source_run_def Let_def run_flow obeys_start_run)

lemma obeys_start_derived: "obeys R (start_derived_run S trigger)"
  by (simp add: start_derived_run_def run_flow obeys_start_run)

lemma obeys_finish:
  assumes "\<And>source i n. handle_source h = Some source \<Longrightarrow> is_regular h \<Longrightarrow> allowed (UpdateCheckpoint source i n)"
  shows "obeys R (finish_handle h e)"
proof -
  have "obeys R (repository (update_checkpoint (the (handle_source h)) i n))"
    if "moves_checkpoint h status" for status i n
    using that assms by (intro obeys_op [where c = "UpdateCheckpoint (the (handle_source h)) i n"])
      (auto simp: moves_checkpoint_def)
  then show ?thesis by (simp add: finish_handle_def warn_of_layout_def run_flow)
qed

lemma obeys_guarded:
  assumes "\<And>source i n. handle_source h = Some source \<Longrightarrow> is_regular h \<Longrightarrow> allowed (UpdateCheckpoint source i n)"
    and "obeys R stages"
  shows "obeys R (guarded h stages)"
  using obeys_finish [OF assms(1)] assms(2)
  by (auto simp: guarded_def run_flow split: exn.split)

end

interpretation running: run_law "follows commits" "\<lambda>_. True"
proof unfold_locales
  show "follows commits w w" for w :: "'m service_world" by (simp add: follows_def)
  show "follows commits w u" if "follows commits w v" "follows commits v u" for w v u :: "'m service_world"
    using that by (auto simp: follows_def)
  have commits_step: "obeys (follows commits) (repository (\<lambda>d. (Inr (), perform c d)))" for c
    unfolding repository_def by (rule obeys_transact) (auto intro: commit)
  have read: "obeys (follows commits) (repository (\<lambda>d. (Inr (), d)))"
    unfolding repository_def by (rule obeys_transact) (auto intro: commit)
  show "follows commits w (snd (repository (\<lambda>d. (Inr (), perform c d)) w))" for c and w :: "'m service_world"
    using obeysD [OF commits_step] .
  show "follows commits w (snd (repository (\<lambda>d. (Inr (), d)) w))" for w :: "'m service_world"
    using obeysD [OF read] .
qed (simp_all add: follows_def)

text \<open>
  A relation for what a run leaves alone: with nobody else at work, the checkpoints of the
  sources \<open>P\<close> stay.
\<close>

definition keeps_states :: "(string \<Rightarrow> bool) \<Rightarrow> 'm service_world \<Rightarrow> 'm service_world \<Rightarrow> bool" where
  "keeps_states P w w' \<longleftrightarrow> (script w = [] \<longrightarrow> script w' = [] \<and>
     (\<forall>s. P s \<longrightarrow> state_of (db w') s = state_of (db w) s))"

definition moves_no :: "(string \<Rightarrow> bool) \<Rightarrow> command \<Rightarrow> bool" where
  "moves_no P c \<longleftrightarrow> (case c of UpdateCheckpoint s _ _ \<Rightarrow> \<not> P s | _ \<Rightarrow> True)"

lemma perform_state_of:
  assumes "moves_no P c" and "P s"
  shows "state_of (perform c d) s = state_of d s"
proof (cases c)
  case (UpdateCheckpoint source i found)
  then show ?thesis using assms by (auto simp: moves_no_def checkpoint_states)
qed (use assms in \<open>auto simp: state_of_def abort_stale_runs_def insert_run_def Let_def heartbeat_def
    update_running_effect(3) [OF surjective_pairing] add_counters_def set_stage_metrics_def
    set_rf_snapshot_def record_failure_def finish_run_def
    split: option.split prod.split sum.split dest: update_running_effect(3)\<close>)

interpretation keeping: run_law "keeps_states P" "moves_no P" for P
  by unfold_locales (auto simp: keeps_states_def repository_def transact_def perform_state_of moves_no_def
    split: command.split)

section \<open>A started run is ended\<close>

definition ended :: "nat \<Rightarrow> monitoring_db \<Rightarrow> bool" where
  "ended i d \<longleftrightarrow> (\<exists>r \<in> set (runs d). run_id r = i \<and> run_status r \<noteq> RUNNING)"

definition recorded :: "nat \<Rightarrow> monitoring_db \<Rightarrow> bool" where
  "recorded i d \<longleftrightarrow> (\<exists>r \<in> set (runs d). run_id r = i)"

lemma ended_steps: "commits\<^sup>*\<^sup>* d d' \<Longrightarrow> monitoring.sound d \<Longrightarrow> ended i d \<Longrightarrow> ended i d'"
  unfolding ended_def using monitoring.frozen_steps by blast

lemma recorded_steps: "commits\<^sup>*\<^sup>* d d' \<Longrightarrow> monitoring.sound d \<Longrightarrow> recorded i d \<Longrightarrow> recorded i d'"
  unfolding recorded_def using monitoring.kept_steps by metis

lemma running_follows:
  assumes "obeys (follows commits) m" and "m w = (r, w')"
  shows "commits\<^sup>*\<^sup>* (db w) (db w')" "faultless w \<Longrightarrow> faultless w'"
  using obeysD [OF assms(1), of w] assms(2) faultless_follows [of commits w w']
  by (auto simp: follows_def)

lemma faultless_repository:
  assumes "repository operation w = (r, w')" and "faultless w"
  obtains others where "operation (fold perform others (db w)) = (r, db w')"
  using assms(1) unfolding repository_def
proof (cases rule: transact_cases)
  case (failed others e)
  then show ?thesis using assms(2) by (simp add: faultless_def)
next
  case (committed others)
  then show ?thesis using that by blast
qed

lemma finish_run_ends:
  assumes "finish_run i e d = (r, d')" and "monitoring.sound d" and "recorded i d"
  shows "ended i d'" "\<exists>status. r = Inr status"
proof -
  obtain q where q: "q \<in> set (runs d)" "run_id q = i" using assms(3) by (auto simp: recorded_def)
  have row: "row_by run_id i (runs d) = Some q"
    using row_by_in [OF monitoring.sound_distinct [OF assms(2)] q(1)] q(2) by simp
  have "closed_run e (clock d) q \<in> set (update_rows (\<lambda>q. run_id q = i) (closed_run e (clock d)) (runs d))"
    using q by (force simp: set_update_rows)
  moreover have "run_id (closed_run e (clock d) q) = i" "run_status (closed_run e (clock d) q) \<noteq> RUNNING"
    using q(2) by (simp_all add: closed_run_def outcome_status_def split: option.split)
  ultimately show "ended i d'" "\<exists>status. r = Inr status"
    using assms(1) row q unfolding ended_def by (auto simp: finish_run_def split: if_splits)
qed

lemma finish_handle_ends:
  assumes "finish_handle h e w = (r, w')" and "faultless w" and "monitoring.sound (db w)"
    and "recorded (handle_run h) (db w)"
  shows "ended (handle_run h) (db w')"
proof -
  obtain r1 w1 where finish: "repository (finish_run (handle_run h) e) w = (r1, w1)" by fastforce
  obtain others where others: "finish_run (handle_run h) e (fold perform others (db w)) = (r1, db w1)"
    using faultless_repository [OF finish assms(2)] .
  note sound = monitoring.sound_steps [OF commits_fold assms(3)]
  note ends = finish_run_ends [OF others sound recorded_steps [OF commits_fold assms(3,4)]]
  have "obeys (follows commits) (bindA (repository (reading (get_run (handle_run h)))) (\<lambda>view. case view of
         None \<Rightarrow> raiseA (LookupError (''Monitoring run '' @ digits_of (handle_run h) @ '' not found''))
       | Some v \<Rightarrow>
           thenA (if moves_checkpoint h status
               then repository (update_checkpoint (the (handle_source h)) (handle_run h)
                 (count_of ''documents_discovered'' (view_run v)))
               else returnA ())
             (case handle_source h of
                None \<Rightarrow> returnA v
              | Some source \<Rightarrow> thenA (warn_of_layout source) (returnA v))))" for status
    by (simp add: warn_of_layout_def running.run_flow
      running.obeys_op [OF _ perform.simps(10) [symmetric]])
  moreover obtain status where "r1 = Inr status" using ends(2) by blast
  ultimately have "commits\<^sup>*\<^sup>* (db w1) (db w')"
    using assms(1) finish running_follows(1) by (force simp: finish_handle_def bindA_def)
  moreover have "monitoring.sound (db w1)"
    using monitoring.sound_steps [OF running_follows(1) [OF running.obeys_repository(6) finish] assms(3)] .
  ultimately show ?thesis using ended_steps ends(1) by blast
qed

lemma guarded_ends:
  assumes "guarded h stages w = (r, w')" and "obeys (follows commits) stages"
    and "faultless w" and "monitoring.sound (db w)" and "recorded (handle_run h) (db w)"
  shows "ended (handle_run h) (db w')"
proof -
  obtain r1 w1 where stages: "stages w = (r1, w1)" by fastforce
  note steps = running_follows [OF assms(2) stages]
  note ready = steps(2) [OF assms(3)] monitoring.sound_steps [OF steps(1) assms(4)]
    recorded_steps [OF steps(1) assms(4,5)]
  obtain e r2 where "finish_handle h e w1 = (r2, w')"
    using assms(1) stages
    by (cases r1) (auto simp: guarded_def tryA_def thenA_def bindA_def raiseA_def
      split: exn.splits prod.splits sum.splits if_splits)
  then show ?thesis using finish_handle_ends ready by blast
qed

lemma start_run_records:
  fixes w :: "'m service_world"
  assumes "start_run scope source trigger parameters stale_after w = (Inr i, w')" and "faultless w"
  shows "recorded i (db w')" "faultless w'" "commits\<^sup>*\<^sup>* (db w) (db w')"
proof -
  show "faultless w'" "commits\<^sup>*\<^sup>* (db w) (db w')"
    using running_follows [OF running.obeys_start_run assms(1)] assms(2) by simp_all
  obtain w1 x where w1: "repository (abort_stale_runs stale_after) w = (Inr x, w1)"
      "repository (insert_run scope source trigger parameters) w1 = (Inr (Some i), w')"
    using assms(1) by (auto simp: start_run_def repository_def action_results split: option.splits)
  have "faultless w1" using running_follows(2) [OF running.obeys_repository(7) w1(1) assms(2)] .
  then obtain others where o: "insert_run scope source trigger parameters (fold perform others (db w1)) = (Inr (Some i), db w')"
    using faultless_repository [OF w1(2)] by blast
  define d where "d = fold perform others (db w1)"
  have "db w' = snd (insert_run scope source trigger parameters d)" using o by (simp add: d_def)
  moreover have "\<not> (\<exists>r \<in> set (runs d). scope_running scope r)" "i = next_run d"
    using o by (auto simp: insert_run_def Let_def d_def split: if_splits)
  ultimately show "recorded i (db w')" by (simp add: insert_run_def Let_def recorded_def)
qed

lemma start_source_records:
  assumes "start_source_run M S source trigger limit refetch from_day to_day isoformat w = (Inr h, w')"
    and "faultless w"
  shows "recorded (handle_run h) (db w')" "faultless w'" "commits\<^sup>*\<^sup>* (db w) (db w')"
  using assms start_run_records
  by (auto simp: start_source_run_def Let_def from_result_def action_results split: sum.splits if_splits)

text \<open>What a started run's handle says.\<close>

lemma start_source_handle:
  "start_source_run M S source trigger limit refetch from_day to_day isoformat w = (Inr h, w') \<Longrightarrow>
   handle_source h = Some source \<and> handle_trigger h = trigger"
  by (auto simp: start_source_run_def Let_def from_result_def action_results split: sum.splits if_splits)

lemma start_derived_handle: "start_derived_run S trigger w = (Inr h, w') \<Longrightarrow> handle_source h = None"
  by (auto simp: start_derived_run_def action_results)

text \<open>
  C32. A run that was started is always ended: while the database answers, whatever the modules
  return or raise, whether the run is interrupted, fenced off by another process or completes,
  and whatever other processes commit meanwhile, when \<open>run_source\<close> returns or raises the run
  it started is no longer running, so it does not hold its source's scope.
\<close>

theorem started_run_is_ended:
  assumes "start_source_run M S source trigger limit refetch from_day to_day isoformat w = (Inr h, w1)"
    and "faultless w" and "commits\<^sup>*\<^sup>* empty_db (db w)" and "\<not> (with_derived \<and> \<not> with_resolution)"
  shows "\<exists>r \<in> set (runs (db (snd (run_source M S source trigger limit refetch from_day to_day isoformat
      with_derived with_resolution w)))). run_id r = handle_run h \<and> run_status r \<noteq> RUNNING"
proof -
  note start = start_source_records [OF assms(1,2)]
  have sound: "monitoring.sound (db w1)"
    using monitoring.sound_steps [OF start(3) sound_reachable [OF assms(3)]] .
  obtain r w2 where run: "guarded h (source_stages M S h with_derived with_resolution) w1 = (r, w2)"
    by fastforce
  have "run_source M S source trigger limit refetch from_day to_day isoformat with_derived with_resolution w
      = (r, w2)"
    using assms(1,4) run by (auto simp: run_source_def bindA_def)
  moreover have "ended (handle_run h) (db w2)"
    using guarded_ends [OF run running.obeys_source_stages start(2) sound start(1)] .
  ultimately show ?thesis by (simp add: ended_def)
qed

text \<open>
  C29. Only a regular run moves a checkpoint, and only its own source's: with nobody else at
  work, a backfill of a source, a run of the derived stages and a run of the resolution alone
  leave every checkpoint as it was, and a regular run those of the other sources.
\<close>

theorem only_regular_runs_move_checkpoints:
  assumes "script w = []" and "other \<noteq> source \<or> trigger \<in> {BACKFILL, DERIVED}"
  shows "state_of (db (snd (run_source M S source trigger limit refetch from_day to_day isoformat
      with_derived with_resolution w))) other = state_of (db w) other \<and>
    state_of (db (snd (resolve_source M S source trigger' w))) any = state_of (db w) any \<and>
    state_of (db (snd (run_derived M S trigger' w))) any = state_of (db w) any"
proof -
  let ?P = "\<lambda>s. s \<noteq> source \<or> trigger \<in> {BACKFILL, DERIVED}"
  have "obeys (keeps_states ?P) (run_source M S source trigger limit refetch from_day to_day isoformat
      with_derived with_resolution)"
    unfolding run_source_def
    by (intro keeping.obeys_if keeping.obeys_raise keeping.obeys_bind_result keeping.obeys_start_source
      keeping.obeys_guarded keeping.obeys_source_stages)
      (auto dest!: start_source_handle simp: moves_no_def is_regular_def)
  then have "state_of (db (snd (run_source M S source trigger limit refetch from_day to_day isoformat
      with_derived with_resolution w))) other = state_of (db w) other"
    using assms by (auto simp: obeys_def keeps_states_def)
  moreover have "obeys (keeps_states (\<lambda>_. True)) (resolve_source M S source trigger')"
    unfolding resolve_source_def Let_def
    by (intro keeping.obeys_bind keeping.obeys_start_source keeping.obeys_guarded keeping.obeys_then
      keeping.obeys_return keeping.obeys_resolve) (simp add: is_regular_def)
  then have "state_of (db (snd (resolve_source M S source trigger' w))) any = state_of (db w) any"
    using assms(1) by (simp add: obeys_def keeps_states_def)
  moreover have "obeys (keeps_states (\<lambda>_. True)) (run_derived M S trigger')"
    unfolding run_derived_def
    by (intro keeping.obeys_bind_result keeping.obeys_start_derived keeping.obeys_guarded
      keeping.obeys_derived) (auto dest!: start_derived_handle)
  then have "state_of (db (snd (run_derived M S trigger' w))) any = state_of (db w) any"
    using assms(1) by (simp add: obeys_def keeps_states_def)
  ultimately show ?thesis by simp
qed

definition demo_modules :: "unit modules" where
  "demo_modules = \<lparr>base_url = (\<lambda>name. if name = ''a'' then Inr ''https://a'' else Inl (ValueError name)),
     discover_source = (\<lambda>_ _ _. raiseA (DiscoveryError ''closed'')), known_ids = (\<lambda>_ _. returnA []),
     read_result = (\<lambda>_. Inl (FetchError ''closed'')), store_document = (\<lambda>_. returnA 1),
     articles_pending = (\<lambda>_. returnA []), extract_article = (\<lambda>_. raiseA (ValueError [])),
     runs_pending = (\<lambda>_. returnA []), resolve_run = (\<lambda>_. raiseA (ValueError [])),
     review_pending = (\<lambda>_. returnA None), persons_pending_classification = returnA [],
     classify_person = (\<lambda>_. returnA []), latest_snapshot = returnA None,
     persons_pending_match = (\<lambda>_. returnA []), match_person = (\<lambda>_ _. returnA []),
     evaluate = (\<lambda>_ _. raiseA (ValueError [])), classifier_name = JNull,
     lock_polls = (\<lambda>_ _. []), stopwatch = (\<lambda>_. 0)\<rparr>"

definition demo_settings :: settings where
  "demo_settings = \<lparr>settings_limit = 100, stale_run_after = 60\<rparr>"

text \<open>Another process aborts the run as soon as it has started.\<close>

definition fenced_world :: "unit service_world" where
  "fenced_world = \<lparr>db = empty_db, script = [([], None), ([], None), ([Tick 99, AbortStale 1], None)],
     outside = ()\<rparr>"

theorem started_run_is_ended_witness:
  "\<exists>r \<in> set (runs (db (snd (run_source demo_modules demo_settings ''a'' MANUAL None False None None
      (\<lambda>_. []) True True fenced_world)))). run_id r = 1 \<and> run_status r \<noteq> RUNNING"
proof -
  obtain h w1 where start: "start_source_run demo_modules demo_settings ''a'' MANUAL None False None None
      (\<lambda>_. []) fenced_world = (Inr h, w1)" and h: "handle_run h = 1"
    by (simp add: start_source_run_def demo_modules_def demo_settings_def fenced_world_def from_result_def
      start_run_def action_defs transact_def abort_stale_runs_def insert_run_def empty_db_def Let_def)
  show ?thesis
    using started_run_is_ended [OF start, where with_derived = True and with_resolution = True] h
    by (simp add: fenced_world_def faultless_def)
qed

theorem only_regular_runs_move_checkpoints_witness:
  "state_of (db (snd (run_source demo_modules demo_settings ''a'' BACKFILL None True None None
      (\<lambda>_. []) True True (fenced_world\<lparr>script := []\<rparr>)))) ''a'' = None"
  using only_regular_runs_move_checkpoints [where w = "fenced_world\<lparr>script := []\<rparr>" and other = "''a''"
      and source = "''a''" and trigger = BACKFILL and M = demo_modules and S = demo_settings and limit = None
      and refetch = True and from_day = None and to_day = None and isoformat = "\<lambda>_. []"
      and with_derived = True and with_resolution = True and trigger' = MANUAL and any = "''a''"]
  by (simp add: fenced_world_def state_of_def empty_db_def)

section \<open>An ended run does no more work\<close>

lemma repository_outside: "outside (snd (repository operation w)) = outside w"
  by (auto simp: repository_def transact_def Let_def split: list.split prod.split option.split)

lemma beat_refused:
  assumes "ended i (db w)" and "monitoring.sound (db w)" and "faultless w"
  shows "\<exists>w'. repository (heartbeat i) w = (Inl (MonitoringRunAbortedError i), w') \<and> outside w' = outside w"
proof -
  obtain r w' where beat: "repository (heartbeat i) w = (r, w')" by fastforce
  obtain others where others: "heartbeat i (fold perform others (db w)) = (r, db w')"
    using faultless_repository [OF beat assms(3)] .
  let ?d = "fold perform others (db w)"
  have "ended i ?d" and sound: "monitoring.sound ?d"
    using ended_steps monitoring.sound_steps commits_fold assms(1,2) by blast+
  then obtain q where q: "q \<in> set (runs ?d)" "run_id q = i" "run_status q \<noteq> RUNNING"
    by (auto simp: ended_def)
  have "\<not> (\<exists>x \<in> set (runs ?d). running_row i x)"
    using monitoring.sound_key [OF sound _ q(1)] q(2,3) by (auto simp: running_row_def)
  then have "r = Inl (MonitoringRunAbortedError i)"
    using others update_running_refused by (simp add: heartbeat_def)
  then show ?thesis using beat repository_outside [of "heartbeat i" w] by simp
qed

lemma stage_refused:
  assumes "ended (handle_run h) (db w)" and "monitoring.sound (db w)" and "faultless w"
  shows "\<exists>w'. in_stage M h st body w = (Inl (MonitoringRunAbortedError (handle_run h)), w') \<and> outside w' = outside w"
  using beat_refused [OF assms] by (auto simp: in_stage_def action_defs)

lemma lock_refused:
  assumes "ended (handle_run h) (db w)" and "monitoring.sound (db w)" and "faultless w"
  shows "\<exists>w'. with_derived_lock M S h name (in_stage M h st body) w =
    (Inl (MonitoringRunAbortedError (handle_run h)), w') \<and> outside w' = outside w"
proof -
  have "\<exists>w'. thenA (wait_for_lock polls t every (repository (heartbeat (handle_run h)))) (in_stage M h st body) w =
    (Inl (MonitoringRunAbortedError (handle_run h)), w') \<and> outside w' = outside w" for polls t every
    using beat_refused [OF assms] stage_refused [OF assms, of M st body]
    by (induction polls arbitrary: t) (auto simp: thenA_def bindA_def returnA_def)
  then show ?thesis by (simp add: with_derived_lock_def call_def bindA_def)
qed



section \<open>No document is lost without an outcome\<close>

definition tally :: "string \<Rightarrow> (string, int) dict \<Rightarrow> int" where
  "tally name d = (case dict_get d name of None \<Rightarrow> 0 | Some n \<Rightarrow> n)"

lemma tally_bump: "tally name (bump name' d) = tally name d + (if name = name' then 1 else 0)"
  by (simp add: tally_def bump_def dict_get_set)

lemma total_dict_set:
  "total (dict_set name n d) = total d + n - tally name d"
  by (induction d) (auto simp: total_def tally_def dict_get_def)

lemma total_bump: "total (bump name d) = total d + 1"
  using total_dict_set [of name "1 + tally name d" d] by (simp add: bump_def tally_def)

lemma outcome_names:
  "''failed_'' @ x \<noteq> ''ingested''" "''failed_'' @ x \<noteq> ''stopped_before_period''"
  "''skipped_'' @ x \<noteq> ''ingested''" "''skipped_'' @ x \<noteq> ''stopped_before_period''"
  "''skipped_no_text'' \<noteq> ''ingested''" "''skipped_no_text'' \<noteq> ''stopped_before_period''"
  "''ingested'' \<noteq> ''stopped_before_period''"
  by simp_all

definition accounted ::
  "run_handle \<Rightarrow> nat \<Rightarrow> nat \<Rightarrow> nat list \<times> (string, int) dict \<Rightarrow> nat list \<times> (string, int) dict \<Rightarrow> bool" where
  "accounted h n older = (\<lambda>(ids, outcomes) (ids', outcomes').
     let stopped = tally ''stopped_before_period'' outcomes' - tally ''stopped_before_period'' outcomes;
         reached = total outcomes' - total outcomes - stopped in
     tally ''ingested'' outcomes' - tally ''ingested'' outcomes = int (length ids') - int (length ids) \<and>
     (stopped = 0 \<and> reached = int n \<or>
      stopped = 1 \<and> published_from h \<noteq> None \<and> reached \<le> int n \<and> int period_stop_after_older \<le> reached + int older))"

lemma accounted_next:
  assumes "accounted h n older' (ids', bump name outcomes) final" and "older' \<le> Suc older"
    and "name = ''ingested'' \<and> length ids' = Suc (length ids) \<or>
       name \<noteq> ''ingested'' \<and> name \<noteq> ''stopped_before_period'' \<and> ids' = ids"
  shows "accounted h (Suc n) older (ids, outcomes) final"
  using assms by (cases final) (auto simp: accounted_def Let_def tally_bump total_bump)

lemma accounted_stop:
  assumes "period_stop_after_older \<le> older'" and "older' \<le> Suc older" and "published_from h \<noteq> None"
    and "name \<noteq> ''ingested''" and "name \<noteq> ''stopped_before_period''"
  shows "accounted h (Suc n) older (ids, outcomes) (ids, bump ''stopped_before_period'' (bump name outcomes))"
  using assms by (auto simp: accounted_def Let_def tally_bump total_bump)

lemma ingest_loop_accounted:
  "ingest_loop M h refs ids outcomes older w = (Inr final, w') \<Longrightarrow>
   accounted h (length refs) older (ids, outcomes) final"
proof (induction refs arbitrary: ids outcomes older w)
  case Nil
  then show ?case by (auto simp: accounted_def)
next
  case (Cons reference rest)
  show ?case
  proof (cases "read_result M reference")
    case (Inl e)
    then obtain kind u where "ingest_loop M h rest ids (bump (''failed_'' @ failure_kind_value kind) outcomes) older u
        = (Inr final, w')"
      using Cons.prems by (auto simp: action_results simp del: append.simps split: if_splits)
    from accounted_next [OF Cons.IH [OF this], of older ids] show ?thesis
      using outcome_names by simp
  next
    case (Inr document)
    let ?older = "if before_period h (read_published_at document) then Suc older else 0"
    have older: "?older \<le> Suc older" by simp
    consider (no_text) u where "ingest_loop M h rest ids (bump ''skipped_no_text'' outcomes) older u = (Inr final, w')"
      | (skip) reason u where "ingest_loop M h rest ids (bump (''skipped_'' @ skip_value reason) outcomes) ?older u
          = (Inr final, w')"
      | (stop) reason where "period_stop_after_older \<le> ?older"
          "final = (ids, bump ''stopped_before_period'' (bump (''skipped_'' @ skip_value reason) outcomes))"
      | (stored) i u where "ingest_loop M h rest (ids @ [i]) (bump ''ingested'' outcomes) ?older u = (Inr final, w')"
      using Cons.prems Inr
      by (simp add: action_results Let_def del: append.simps split: if_split_asm option.split_asm) blast+
    then show ?thesis
    proof cases
      case no_text
      from accounted_next [OF Cons.IH [OF this], of older ids] show ?thesis using outcome_names by simp
    next
      case skip
      from accounted_next [OF Cons.IH [OF this] older, of ids] show ?thesis using outcome_names by simp
    next
      case (stop reason)
      have "published_from h \<noteq> None"
        using stop(1) by (auto simp: before_period_def period_stop_after_older_def split: option.splits if_splits)
      from accounted_stop [OF stop(1) older this, of "''skipped_'' @ skip_value reason"] show ?thesis
        using stop(2) outcome_names by simp
    next
      case stored
      from accounted_next [OF Cons.IH [OF this] older, of ids] show ?thesis by simp
    qed
  qed
qed


definition demo_handle :: run_handle where
  "demo_handle = \<lparr>handle_run = 1, handle_source = Some ''a'', handle_trigger = MANUAL, discovery_limit = 5,
     refetch_known = False, published_from = None, published_to = None, resolve_only = False\<rparr>"


end
