(* ===== verification/Operation_Commands.thy ===== *)
theory Operation_Commands
  imports Errors "HOL-Library.Sublist"
begin

text \<open>
  What the operator console may start: the parameters of an operation, the command line an
  operation becomes and the chain of the monitor's steps (the pure half of
  \<open>orchestrator/operations.py\<close>). The console's titles and explanations are left out.
\<close>

section \<open>The source registry\<close>

datatype source_kind = NEWS | REGISTRY

text \<open>\<open>source_registry.py: SOURCES\<close>, by name; \<open>telegram\<close> are the channels of \<open>channels.csv\<close>.\<close>

definition sources_registry :: "string list \<Rightarrow> (string, source_kind) dict" where
  "sources_registry telegram = [(''ovd-info'', NEWS), (''sota-vision'', NEWS), (''sudrf-2zovs'', NEWS),
     (''memopzk-figurants'', REGISTRY), (''kommersant'', NEWS)] @ map (\<lambda>name. (name, NEWS)) telegram"

section \<open>Parameters\<close>

datatype mode = LOAD | RESOLVE | PURGE | ENTITIES | ROSFIN | FIGURANTS | POLITICAL

record operation_parameters =
  op_source :: "string option"
  op_sources :: "string list option"
  op_published_from :: "string option"
  op_published_to :: "string option"
  op_mode :: "mode option"
  op_limit :: "int option"
  op_workers :: "int option"
  op_chain :: bool
  op_entity_model :: "string option"
  op_decision_model :: "string option"

definition no_parameters :: operation_parameters where
  "no_parameters = \<lparr>op_source = None, op_sources = None, op_published_from = None, op_published_to = None,
     op_mode = None, op_limit = None, op_workers = None, op_chain = False, op_entity_model = None,
     op_decision_model = None\<rparr>"

text \<open>The constraints of the fields: what pydantic's validation accepts.\<close>

definition model_character :: "char \<Rightarrow> bool" where
  "model_character c \<longleftrightarrow> c \<in> set ''ABCDEFGHIJKLMNOPQRSTUVWXYZabcdefghijklmnopqrstuvwxyz0123456789._/:~-''"

definition valid_model :: "string option \<Rightarrow> bool" where
  "valid_model m = (case m of None \<Rightarrow> True
     | Some name \<Rightarrow> length name \<le> 200 \<and> name \<noteq> [] \<and> list_all model_character name)"

definition valid_parameters :: "operation_parameters \<Rightarrow> bool" where
  "valid_parameters p \<longleftrightarrow>
     (case op_limit p of None \<Rightarrow> True | Some n \<Rightarrow> 1 \<le> n \<and> n \<le> 100000) \<and>
     (case op_workers p of None \<Rightarrow> True | Some n \<Rightarrow> 1 \<le> n \<and> n \<le> 32) \<and>
     valid_model (op_entity_model p) \<and> valid_model (op_decision_model p)"

text \<open>\<open>OPERATION_DEFINITIONS\<close>: the operations and their default parameters.\<close>

definition operation_definitions :: "(string, operation_parameters) dict" where
  "operation_definitions =
     [(''monitor'', no_parameters),
      (''discover-and-ingest'', no_parameters\<lparr>op_source := Some ''ovd-info'', op_limit := Some 50\<rparr>),
      (''extract-entities'', no_parameters\<lparr>op_limit := Some 500\<rparr>),
      (''resolve-people'', no_parameters\<lparr>op_limit := Some 10000, op_workers := Some 1\<rparr>),
      (''classify-persecution'', no_parameters\<lparr>op_limit := Some 10000\<rparr>)]"

text \<open>\<open>_with_defaults\<close>: what the caller gave, over the defaults; \<open>chain\<close> is always given.\<close>

definition or_default :: "'a option \<Rightarrow> 'a option \<Rightarrow> 'a option" where
  "or_default given fallback = (case given of None \<Rightarrow> fallback | Some x \<Rightarrow> Some x)"

definition with_defaults :: "operation_parameters \<Rightarrow> operation_parameters \<Rightarrow> operation_parameters" where
  "with_defaults d p = \<lparr>op_source = or_default (op_source p) (op_source d),
     op_sources = or_default (op_sources p) (op_sources d),
     op_published_from = or_default (op_published_from p) (op_published_from d),
     op_published_to = or_default (op_published_to p) (op_published_to d),
     op_mode = or_default (op_mode p) (op_mode d),
     op_limit = or_default (op_limit p) (op_limit d),
     op_workers = or_default (op_workers p) (op_workers d),
     op_chain = op_chain p,
     op_entity_model = or_default (op_entity_model p) (op_entity_model d),
     op_decision_model = or_default (op_decision_model p) (op_decision_model d)\<rparr>"

section \<open>The chain of the monitor's steps\<close>

datatype operation_status = OP_PENDING | OP_RUNNING | OP_SUCCEEDED | OP_FAILED | OP_INTERRUPTED

definition monitor_cycle :: "mode list" where
  "monitor_cycle = [LOAD, PURGE, ENTITIES, FIGURANTS, POLITICAL]"

fun index_of :: "'a \<Rightarrow> 'a list \<Rightarrow> nat" where
  "index_of x [] = 0"
| "index_of x (y # ys) = (if x = y then 0 else Suc (index_of x ys))"

definition next_in_chain :: "mode option \<Rightarrow> operation_status \<Rightarrow> bool \<Rightarrow> mode option" where
  "next_in_chain m status load_partly_done =
     (case m of
        None \<Rightarrow> None
      | Some step \<Rightarrow>
          if step \<notin> set monitor_cycle then None
          else let finished = (status = OP_SUCCEEDED \<or> (status = OP_FAILED \<and> step = LOAD \<and> load_partly_done));
                   index = index_of step monitor_cycle
               in if finished \<and> index + 1 < length monitor_cycle then Some (monitor_cycle ! (index + 1)) else None)"

section \<open>The command line\<close>

definition entity_model_modes :: "mode list" where
  "entity_model_modes = [ENTITIES, FIGURANTS, POLITICAL]"

fun whole_database_command :: "mode \<Rightarrow> string option" where
  "whole_database_command PURGE = Some ''purge-junk''"
| "whole_database_command ENTITIES = Some ''collect-entities''"
| "whole_database_command ROSFIN = Some ''check-entities-rosfin''"
| "whole_database_command FIGURANTS = Some ''find-figurants''"
| "whole_database_command POLITICAL = Some ''find-political''"
| "whole_database_command _ = None"

definition operation_not_found :: "string \<Rightarrow> exn" where
  "operation_not_found what = OtherException ''OperationNotFoundError'' what"

definition operation_conflict :: "string \<Rightarrow> exn" where
  "operation_conflict name = OtherException ''OperationConflictError'' (''operation '' @ name @ '' is already running'')"

text \<open>A value that is set and, for a string, not empty.\<close>

definition truthy :: "string option \<Rightarrow> string option" where
  "truthy v = (case v of Some [] \<Rightarrow> None | _ \<Rightarrow> v)"

definition require_source :: "(string, source_kind) dict \<Rightarrow> string option \<Rightarrow> exn + string" where
  "require_source registry source = (case source of
     None \<Rightarrow> Inl (ValueError ''unknown source: None'')
   | Some name \<Rightarrow> if name \<in> set (dict_keys registry) then Inr name
       else Inl (ValueError (''unknown source: '' @ name)))"

fun check_news_sources :: "(string, source_kind) dict \<Rightarrow> string list \<Rightarrow> exn option" where
  "check_news_sources registry [] = None"
| "check_news_sources registry (name # names) = (case dict_get registry name of
     None \<Rightarrow> Some (ValueError (''unknown source: '' @ name))
   | Some REGISTRY \<Rightarrow> Some (ValueError (''source is not a news source: '' @ name))
   | Some NEWS \<Rightarrow> check_news_sources registry names)"

definition require_news_sources :: "(string, source_kind) dict \<Rightarrow> string list \<Rightarrow> exn + string list" where
  "require_news_sources registry names =
     (if names = [] then Inl (ValueError ''at least one news source is required'')
      else case check_news_sources registry (unique names) of
        Some e \<Rightarrow> Inl e
      | None \<Rightarrow> Inr (unique names))"

definition require_limit :: "int option \<Rightarrow> exn + int" where
  "require_limit limit = (case limit of None \<Rightarrow> Inl (ValueError ''limit is required'') | Some n \<Rightarrow> Inr n)"

definition int_text :: "int \<Rightarrow> string" where
  "int_text n = (if n < 0 then ''-'' @ digits_of (nat (- n)) else digits_of (nat n))"

definition mode_value :: "mode \<Rightarrow> string" where
  "mode_value m = (case m of LOAD \<Rightarrow> ''load'' | RESOLVE \<Rightarrow> ''resolve'' | PURGE \<Rightarrow> ''purge'' | ENTITIES \<Rightarrow> ''entities''
     | ROSFIN \<Rightarrow> ''rosfin'' | FIGURANTS \<Rightarrow> ''figurants'' | POLITICAL \<Rightarrow> ''political'')"

text \<open>One flag with its value, when there is one.\<close>

definition flag :: "string \<Rightarrow> string option \<Rightarrow> string list" where
  "flag name v = (case v of None \<Rightarrow> [] | Some x \<Rightarrow> [name, x])"

text \<open>The branches of \<open>_command_for\<close>, in its order.\<close>

definition whole_database_line ::
  "string list \<Rightarrow> mode \<Rightarrow> string \<Rightarrow> operation_parameters \<Rightarrow> exn + string list" where
  "whole_database_line program m subcommand p =
     (if op_source p \<noteq> None \<or> op_sources p \<noteq> None
      then Inl (ValueError (mode_value m @ '' takes no sources: it covers the whole database''))
      else Inr (program @ [subcommand]
        @ (if m \<in> set entity_model_modes then flag ''--entity-model'' (truthy (op_entity_model p)) else [])
        @ (if m \<in> set entity_model_modes then flag ''--decision-model'' (truthy (op_decision_model p)) else [])))"

definition resolve_line ::
  "(string, source_kind) dict \<Rightarrow> string list \<Rightarrow> operation_parameters \<Rightarrow> exn + string list" where
  "resolve_line registry program p =
     (if op_source p \<noteq> None then Inl (ValueError ''resolution takes sources, not source'')
      else case require_news_sources registry (case op_sources p of None \<Rightarrow> [] | Some names \<Rightarrow> names) of
        Inl e \<Rightarrow> Inl e
      | Inr names \<Rightarrow> Inr (program @ [''monitor-resolve''] @ concat (map (\<lambda>n. [''--selected-source'', n]) names)))"

definition monitor_sources ::
  "(string, source_kind) dict \<Rightarrow> operation_parameters \<Rightarrow> exn + string list" where
  "monitor_sources registry p =
     (case op_sources p of
        Some names \<Rightarrow>
          if op_source p \<noteq> None then Inl (ValueError ''source and sources cannot both be set'')
          else (case require_news_sources registry names of
             Inl e \<Rightarrow> Inl e
           | Inr chosen \<Rightarrow> Inr (concat (map (\<lambda>n. [''--selected-source'', n]) chosen)))
      | None \<Rightarrow> (case truthy (op_source p) of
             None \<Rightarrow> Inr []
           | Some name \<Rightarrow> map_sum id (\<lambda>n. [''--source'', n]) (require_source registry (Some name))))"

definition monitor_line ::
  "(string, source_kind) dict \<Rightarrow> string list \<Rightarrow> operation_parameters \<Rightarrow> exn + string list" where
  "monitor_line registry program p =
     map_sum id (\<lambda>chosen. program @ [''monitor'', ''--catch-up''] @ chosen
       @ (if op_mode p = Some LOAD then [''--load-only''] else [])
       @ flag ''--published-from'' (op_published_from p)
       @ flag ''--published-to'' (op_published_to p)
       @ flag ''--limit'' (map_option int_text (op_limit p))) (monitor_sources registry p)"

definition limited :: "string list \<Rightarrow> operation_parameters \<Rightarrow> exn + string list" where
  "limited command p = map_sum id (\<lambda>n. command @ [''--limit'', int_text n]) (require_limit (op_limit p))"

definition sourced ::
  "(string, source_kind) dict \<Rightarrow> string list \<Rightarrow> string option \<Rightarrow> exn + string list" where
  "sourced registry command source =
     map_sum id (\<lambda>n. command @ [''--source'', n]) (require_source registry source)"

text \<open>\<open>parameters.workers or 1\<close>.\<close>

definition workers_or_one :: "operation_parameters \<Rightarrow> int" where
  "workers_or_one p = (case op_workers p of None \<Rightarrow> 1 | Some n \<Rightarrow> if n = 0 then 1 else n)"

definition command_for ::
  "(string, source_kind) dict \<Rightarrow> string \<Rightarrow> operation_parameters \<Rightarrow> string list \<Rightarrow> exn + string list" where
  "command_for registry name p program =
     (if name = ''monitor'' then
        (case op_mode p of
           None \<Rightarrow> monitor_line registry program p
         | Some m \<Rightarrow> (case whole_database_command m of
               Some subcommand \<Rightarrow> whole_database_line program m subcommand p
             | None \<Rightarrow> if m = RESOLVE then resolve_line registry program p
                 else monitor_line registry program p))
      else if name = ''discover-and-ingest'' then
        (case sourced registry (program @ [name]) (op_source p) of
           Inl e \<Rightarrow> Inl e
         | Inr command \<Rightarrow> limited command p)
      else if name = ''extract-entities'' then
        (case truthy (op_source p) of
           None \<Rightarrow> limited (program @ [name]) p
         | Some source \<Rightarrow> (case sourced registry (program @ [name]) (Some source) of
               Inl e \<Rightarrow> Inl e
             | Inr command \<Rightarrow> limited command p))
      else if name = ''resolve-people'' then
        map_sum id (\<lambda>command. command @ [''--workers'',
            int_text (workers_or_one p)])
          (limited (program @ [name]) p)
      else if name = ''classify-persecution'' then limited (program @ [name]) p
      else Inl (operation_not_found name))"

section \<open>What may be started\<close>

text \<open>
  The subcommands and the flags of the command line, and what may stand as a flag's value.
\<close>

definition subcommands :: "string list" where
  "subcommands = [''monitor'', ''monitor-resolve'', ''purge-junk'', ''collect-entities'',
     ''check-entities-rosfin'', ''find-figurants'', ''find-political'', ''discover-and-ingest'',
     ''extract-entities'', ''resolve-people'', ''classify-persecution'']"

definition flag_value :: "(string, source_kind) dict \<Rightarrow> operation_parameters \<Rightarrow> string \<Rightarrow> string \<Rightarrow> bool" where
  "flag_value registry p name v \<longleftrightarrow>
     (name = ''--source'' \<and> v \<in> set (dict_keys registry)) \<or>
     (name = ''--selected-source'' \<and> dict_get registry v = Some NEWS) \<or>
     (name \<in> {''--limit'', ''--workers''} \<and> (\<exists>n. 1 \<le> n \<and> n \<le> 100000 \<and> v = digits_of n)) \<or>
     (name \<in> {''--entity-model'', ''--decision-model''} \<and> valid_model (Some v)) \<or>
     (name = ''--published-from'' \<and> op_published_from p = Some v) \<or>
     (name = ''--published-to'' \<and> op_published_to p = Some v)"

inductive arguments :: "(string, source_kind) dict \<Rightarrow> operation_parameters \<Rightarrow> string list \<Rightarrow> bool"
  for registry p where
  none: "arguments registry p []"
| switch: "name \<in> {''--catch-up'', ''--load-only''} \<Longrightarrow> arguments registry p rest \<Longrightarrow> arguments registry p (name # rest)"
| valued: "flag_value registry p name v \<Longrightarrow> arguments registry p rest \<Longrightarrow> arguments registry p (name # v # rest)"

lemma arguments_append:
  "arguments registry p xs \<Longrightarrow> arguments registry p ys \<Longrightarrow> arguments registry p (xs @ ys)"
  by (induction rule: arguments.induct) (auto intro: arguments.intros)

lemma arguments_flag: "(\<And>x. v = Some x \<Longrightarrow> flag_value registry p name x) \<Longrightarrow> arguments registry p (flag name v)"
  by (cases v) (auto simp: flag_def intro: arguments.intros)

lemma arguments_selected:
  "list_all (\<lambda>n. dict_get registry n = Some NEWS) names \<Longrightarrow>
   arguments registry p (concat (map (\<lambda>n. [''--selected-source'', n]) names))"
  by (induction names) (auto simp: flag_value_def intro: arguments.intros)

lemma check_news_sources_None:
  "check_news_sources registry names = None \<longleftrightarrow> list_all (\<lambda>n. dict_get registry n = Some NEWS) names"
  by (induction names) (auto split: option.splits source_kind.splits)

lemma require_news_sources_Inr:
  "require_news_sources registry names = Inr chosen \<Longrightarrow>
   chosen = unique names \<and> list_all (\<lambda>n. dict_get registry n = Some NEWS) chosen"
  by (auto simp: require_news_sources_def check_news_sources_None split: if_splits option.splits)

lemma require_source_Inr: "require_source registry source = Inr n \<Longrightarrow> source = Some n \<and> n \<in> set (dict_keys registry)"
  by (auto simp: require_source_def split: option.splits if_splits)

lemma limit_value:
  assumes "valid_parameters p" and "op_limit p = Some n"
  shows "flag_value registry p ''--limit'' (int_text n)"
  using assms by (auto simp: valid_parameters_def flag_value_def int_text_def intro!: exI [of _ "nat n"])

lemma map_sum_Inr: "map_sum id f x = Inr y \<longleftrightarrow> (\<exists>z. x = Inr z \<and> y = f z)"
  by (cases x) auto

lemma model_values:
  assumes "valid_parameters p"
  shows "truthy (op_entity_model p) = Some m \<Longrightarrow> flag_value registry p ''--entity-model'' m"
    and "truthy (op_decision_model p) = Some m \<Longrightarrow> flag_value registry p ''--decision-model'' m"
  using assms by (auto simp: valid_parameters_def flag_value_def truthy_def split: option.splits list.splits)

lemma whole_database_line_shape:
  assumes "valid_parameters p" and "whole_database_line program m sub p = Inr c"
  shows "\<exists>args. c = program @ sub # args \<and> arguments registry p args"
  using assms model_values [OF assms(1)]
  by (auto simp: whole_database_line_def split: if_splits
      intro!: exI conjI arguments_append arguments_flag arguments.none)

lemma resolve_line_shape:
  assumes "resolve_line registry program p = Inr c"
  shows "\<exists>args. c = program @ ''monitor-resolve'' # args \<and> arguments registry p args"
  using assms
  by (auto simp: resolve_line_def split: if_splits sum.splits dest!: require_news_sources_Inr
      intro: arguments_selected)

lemma monitor_sources_shape:
  assumes "monitor_sources registry p = Inr chosen"
  shows "arguments registry p chosen"
proof -
  have source: "flag_value registry p ''--source'' n" if "n \<in> set (dict_keys registry)" for n
    using that by (simp add: flag_value_def)
  show ?thesis
    using assms
    by (auto simp: monitor_sources_def map_sum_Inr split: option.splits if_splits sum.splits
      dest!: require_news_sources_Inr require_source_Inr
      intro: arguments_selected arguments.none source arguments.valued)
qed

lemma monitor_line_shape:
  assumes "valid_parameters p" and "monitor_line registry program p = Inr c"
  shows "\<exists>args. c = program @ ''monitor'' # args \<and> arguments registry p args"
proof -
  obtain chosen where chosen: "monitor_sources registry p = Inr chosen"
    and c: "c = program @ ''monitor'' # ''--catch-up'' # chosen
       @ (if op_mode p = Some LOAD then [''--load-only''] else [])
       @ flag ''--published-from'' (op_published_from p)
       @ flag ''--published-to'' (op_published_to p)
       @ flag ''--limit'' (map_option int_text (op_limit p))"
    using assms(2) by (auto simp: monitor_line_def map_sum_Inr)
  have "arguments registry p (''--catch-up'' # chosen
       @ (if op_mode p = Some LOAD then [''--load-only''] else [])
       @ flag ''--published-from'' (op_published_from p)
       @ flag ''--published-to'' (op_published_to p)
       @ flag ''--limit'' (map_option int_text (op_limit p)))"
    using limit_value [OF assms(1)]
    by (auto intro!: arguments.switch arguments_append monitor_sources_shape [OF chosen] arguments.none
        arguments_flag simp: flag_value_def [of _ _ "''--published-from''"] flag_value_def [of _ _ "''--published-to''"])
  with c show ?thesis by blast
qed

lemma limited_shape:
  assumes "valid_parameters p" and "limited (program @ sub # front) p = Inr c" and "arguments registry p front"
  shows "\<exists>args. c = program @ sub # args \<and> arguments registry p args"
  using assms limit_value [OF assms(1)]
  by (auto simp: limited_def map_sum_Inr require_limit_def split: option.splits
      intro!: arguments_append arguments.valued arguments.none)

lemma sourced_shape:
  assumes "sourced registry (program @ [sub]) source = Inr c"
  shows "\<exists>front. c = program @ sub # front \<and> arguments registry p front"
  using assms
  by (auto simp: sourced_def map_sum_Inr flag_value_def dest!: require_source_Inr
      intro!: arguments.valued arguments.none)

lemma workers_value:
  assumes "valid_parameters p"
  shows "flag_value registry p ''--workers'' (int_text (workers_or_one p))"
proof -
  have w: "1 \<le> workers_or_one p \<and> workers_or_one p \<le> 32"
    using assms by (auto simp: valid_parameters_def workers_or_one_def split: option.splits)
  have number: "flag_value registry p ''--workers'' (digits_of n)" if "1 \<le> n" "n \<le> 100000" for n
    using that by (auto simp: flag_value_def)
  have "int_text (workers_or_one p) = digits_of (nat (workers_or_one p))" using w by (simp add: int_text_def)
  moreover have "1 \<le> nat (workers_or_one p)" "nat (workers_or_one p) \<le> 100000" using w by linarith+
  ultimately show ?thesis using number by simp
qed

lemma command_for_monitor:
  assumes "command_for registry ''monitor'' p program = Inr command"
  shows "(\<exists>m sub. whole_database_command m = Some sub \<and> whole_database_line program m sub p = Inr command) \<or>
     resolve_line registry program p = Inr command \<or> monitor_line registry program p = Inr command"
  using assms by (cases "op_mode p") (auto simp: command_for_def split: option.splits if_splits)

lemma named_subcommands:
  "''discover-and-ingest'' \<in> set subcommands" "''extract-entities'' \<in> set subcommands"
  "''resolve-people'' \<in> set subcommands" "''classify-persecution'' \<in> set subcommands"
  "''monitor'' \<in> set subcommands" "''monitor-resolve'' \<in> set subcommands"
  by (simp_all add: subcommands_def)

lemma command_for_others:
  "command_for registry ''discover-and-ingest'' p program =
     (case sourced registry (program @ [''discover-and-ingest'']) (op_source p) of
        Inl e \<Rightarrow> Inl e | Inr command \<Rightarrow> limited command p)"
  "command_for registry ''extract-entities'' p program =
     (case truthy (op_source p) of
        None \<Rightarrow> limited (program @ [''extract-entities'']) p
      | Some source \<Rightarrow> (case sourced registry (program @ [''extract-entities'']) (Some source) of
            Inl e \<Rightarrow> Inl e | Inr command \<Rightarrow> limited command p))"
  "command_for registry ''resolve-people'' p program =
     map_sum id (\<lambda>command. command @ [''--workers'', int_text (workers_or_one p)])
       (limited (program @ [''resolve-people'']) p)"
  "command_for registry ''classify-persecution'' p program = limited (program @ [''classify-persecution'']) p"
  by (simp_all add: command_for_def)

lemma command_for_names:
  assumes "command_for registry name p program = Inr command"
  shows "name = ''monitor'' \<or> name = ''discover-and-ingest'' \<or> name = ''extract-entities'' \<or>
    name = ''resolve-people'' \<or> name = ''classify-persecution''"
  using assms by (cases "name = ''monitor'' \<or> name = ''discover-and-ingest'' \<or> name = ''extract-entities'' \<or>
    name = ''resolve-people'' \<or> name = ''classify-persecution''") (simp_all add: command_for_def)

lemma sourced_limited_shape:
  assumes "valid_parameters p" and "sourced registry (program @ [sub]) name = Inr c" and "limited c p = Inr command"
  shows "\<exists>args. command = program @ sub # args \<and> arguments registry p args"
proof -
  obtain front where front: "c = program @ sub # front" "arguments registry p front"
    using sourced_shape [OF assms(2)] by blast
  show ?thesis by (rule limited_shape [OF assms(1) assms(3) [unfolded front(1)] front(2)])
qed

lemma monitor_shape:
  assumes "valid_parameters p" and "command_for registry ''monitor'' p program = Inr command"
  shows "\<exists>sub \<in> set subcommands. \<exists>args. command = program @ sub # args \<and> arguments registry p args"
proof -
  consider (whole) m sub where "whole_database_command m = Some sub"
      "whole_database_line program m sub p = Inr command"
    | (resolve) "resolve_line registry program p = Inr command"
    | (monitor) "monitor_line registry program p = Inr command"
    using command_for_monitor assms(2) by metis
  then show ?thesis
  proof cases
    case (whole m sub)
    have "sub \<in> set subcommands" using whole(1) by (cases m) (auto simp: subcommands_def)
    with whole_database_line_shape [OF assms(1) whole(2)] show ?thesis by blast
  next
    case resolve
    with resolve_line_shape [OF resolve] named_subcommands(6) show ?thesis by blast
  next
    case monitor
    with monitor_line_shape [OF assms(1) monitor] named_subcommands(5) show ?thesis by blast
  qed
qed

lemma extract_shape:
  assumes "valid_parameters p" and "command_for registry ''extract-entities'' p program = Inr command"
  shows "\<exists>args. command = program @ ''extract-entities'' # args \<and> arguments registry p args"
proof (cases "truthy (op_source p)")
  case None
  then have "limited (program @ [''extract-entities'']) p = Inr command"
    using assms(2) by (simp add: command_for_others)
  then show ?thesis by (rule limited_shape [OF assms(1) _ arguments.none])
next
  case (Some source)
  then obtain c where "sourced registry (program @ [''extract-entities'']) (Some source) = Inr c"
      "limited c p = Inr command"
    using assms(2) by (cases "sourced registry (program @ [''extract-entities'']) (Some source)")
      (simp_all add: command_for_others)
  then show ?thesis by (rule sourced_limited_shape [OF assms(1)])
qed

lemma resolve_people_shape:
  assumes "valid_parameters p" and "command_for registry ''resolve-people'' p program = Inr command"
  shows "\<exists>args. command = program @ ''resolve-people'' # args \<and> arguments registry p args"
proof -
  obtain c where c: "limited (program @ [''resolve-people'']) p = Inr c"
      "command = c @ [''--workers'', int_text (workers_or_one p)]"
    using assms(2) by (auto simp: command_for_others map_sum_Inr)
  obtain args where "c = program @ ''resolve-people'' # args" "arguments registry p args"
    using limited_shape [OF assms(1) c(1) arguments.none] by blast
  then show ?thesis
    using c(2) workers_value [OF assms(1)]
    by (intro exI [of _ "args @ [''--workers'', int_text (workers_or_one p)]"])
      (auto intro!: arguments_append arguments.valued arguments.none)
qed



section \<open>The order of a chain\<close>

text \<open>
  The steps a chain runs from one on: each is started by the ending of the one before,
  \<open>outcome\<close> being how a step ended and whether the load it was had partly loaded.
\<close>

lemma next_in_chain_Some:
  assumes "next_in_chain (Some m) status partly = Some n"
  shows "index_of n monitor_cycle = Suc (index_of m monitor_cycle) \<and> n \<in> set monitor_cycle \<and>
    m \<in> set monitor_cycle \<and> (status = OP_SUCCEEDED \<or> status = OP_FAILED \<and> m = LOAD \<and> partly)"
  using assms by (cases m) (auto simp: next_in_chain_def monitor_cycle_def Let_def split: if_splits)

function chain_steps :: "mode \<Rightarrow> (mode \<Rightarrow> operation_status \<times> bool) \<Rightarrow> mode list" where
  "chain_steps m outcome = m # (case next_in_chain (Some m) (fst (outcome m)) (snd (outcome m)) of
     None \<Rightarrow> [] | Some n \<Rightarrow> chain_steps n outcome)"
  by pat_completeness auto
termination
proof (relation "measure (\<lambda>(m, _). length monitor_cycle - index_of m monitor_cycle)")
  fix m outcome n
  assume "next_in_chain (Some m) (fst (outcome m)) (snd (outcome m)) = Some n"
  note step = next_in_chain_Some [OF this]
  have "index_of n monitor_cycle < length monitor_cycle"
    using step by (auto simp: monitor_cycle_def)
  then show "((n, outcome), m, outcome) \<in> measure (\<lambda>(m, _). length monitor_cycle - index_of m monitor_cycle)"
    using step by simp
qed simp

declare chain_steps.simps [simp del]

definition ended_well :: "mode \<Rightarrow> operation_status \<times> bool \<Rightarrow> bool" where
  "ended_well m outcome \<longleftrightarrow> fst outcome = OP_SUCCEEDED \<or> fst outcome = OP_FAILED \<and> m = LOAD \<and> snd outcome"



end
