(* ===== verification/Operation_Runs.thy ===== *)
theory Operation_Runs
  imports Monitoring_Runs Operation_Commands
begin

text \<open>
  The operator's operation runs (\<open>OperationRegistry\<close> of \<open>orchestrator/operations.py\<close>): a run
  is recorded, claimed by the worker that executes it, beats while its process lives, and is
  finished, stopped or interrupted; a chained step starts the next. Every method is made of
  short transactions; several API processes and command lines work on the one table.
\<close>

section \<open>The table\<close>

record operation_run =
  oprun_id :: nat
  oprun_name :: string
  oprun_parameters :: operation_parameters
  oprun_command :: "string list"
  oprun_status :: operation_status
  oprun_created_at :: int
  oprun_started_at :: "int option"
  oprun_heartbeat_at :: "int option"
  oprun_finished_at :: "int option"
  oprun_return_code :: "int option"
  oprun_stdout :: string
  oprun_stderr :: string
  oprun_error :: "string option"
  oprun_worker :: "string option"

text \<open>
  What the registry reads and writes: its table, the monitoring runs (whose clock is the
  database's), and the entity and decision models chosen in the settings.
\<close>

record op_db =
  op_runs :: "operation_run list"
  next_op :: nat
  monitoring_of :: monitoring_db
  chosen_entity_model :: string
  chosen_decision_model :: string

definition now :: "op_db \<Rightarrow> int" where
  "now d = clock (monitoring_of d)"

definition live_status :: "operation_status \<Rightarrow> bool" where
  "live_status s \<longleftrightarrow> s = OP_PENDING \<or> s = OP_RUNNING"

definition op_live :: "operation_run \<Rightarrow> bool" where
  "op_live r \<longleftrightarrow> live_status (oprun_status r)"

section \<open>The output of a process\<close>

definition output_limit :: nat where
  "output_limit = 20000"

definition tail :: "string \<Rightarrow> string" where
  "tail text = drop (length text - output_limit) text"

text \<open>\<open>_OutputTail._read\<close>: the lines of a pipe as they come.\<close>

fun read_pipe :: "string \<Rightarrow> string list \<Rightarrow> string" where
  "read_pipe text [] = text"
| "read_pipe text (line # lines) = read_pipe (tail (text @ line)) lines"

section \<open>The transactions\<close>

definition new_op_run :: "nat \<Rightarrow> string \<Rightarrow> operation_parameters \<Rightarrow> string list \<Rightarrow> int \<Rightarrow> operation_run" where
  "new_op_run i name p command moment =
     \<lparr>oprun_id = i, oprun_name = name, oprun_parameters = p, oprun_command = command,
      oprun_status = OP_PENDING, oprun_created_at = moment, oprun_started_at = None,
      oprun_heartbeat_at = None, oprun_finished_at = None, oprun_return_code = None,
      oprun_stdout = [], oprun_stderr = [], oprun_error = None, oprun_worker = None\<rparr>"

lemma new_op_run_fields [simp]:
  "oprun_id (new_op_run i name p command moment) = i"
  "oprun_name (new_op_run i name p command moment) = name"
  "oprun_parameters (new_op_run i name p command moment) = p"
  "oprun_command (new_op_run i name p command moment) = command"
  "oprun_status (new_op_run i name p command moment) = OP_PENDING"
  "oprun_worker (new_op_run i name p command moment) = None"
  by (simp_all add: new_op_run_def)

text \<open>\<open>None\<close>: \<open>uq_operator_operation_runs_active_operation\<close> refused the row.\<close>

definition insert_op_run ::
  "string \<Rightarrow> operation_parameters \<Rightarrow> string list \<Rightarrow> (op_db, nat option) txn" where
  "insert_op_run name p command d =
     (let i = next_op d; d' = d\<lparr>next_op := Suc i\<rparr> in
      if \<exists>r \<in> set (op_runs d). op_live r \<and> oprun_name r = name then (Inr None, d')
      else (Inr (Some i), d'\<lparr>op_runs := op_runs d @ [new_op_run i name p command (now d)]\<rparr>))"

definition second :: int where
  "second = 1000000"

definition last_sign_of_life :: "operation_run \<Rightarrow> int" where
  "last_sign_of_life r = (case oprun_heartbeat_at r of None \<Rightarrow> oprun_created_at r | Some t \<Rightarrow> t)"

definition op_stale :: "int \<Rightarrow> op_db \<Rightarrow> operation_run \<Rightarrow> bool" where
  "op_stale stale_after d r \<longleftrightarrow> op_live r \<and> last_sign_of_life r < now d - stale_after"

definition interrupted :: "int \<Rightarrow> string \<Rightarrow> operation_run \<Rightarrow> operation_run" where
  "interrupted moment message r = r\<lparr>oprun_status := OP_INTERRUPTED, oprun_finished_at := Some moment,
     oprun_error := Some message\<rparr>"

definition interrupt_stale_runs :: "int \<Rightarrow> (op_db, nat list) txn" where
  "interrupt_stale_runs stale_after d =
     (Inr (map oprun_id (filter (op_stale stale_after d) (op_runs d))),
      d\<lparr>op_runs := update_rows (op_stale stale_after d)
         (interrupted (now d) (''no heartbeat for '' @ int_text (stale_after div second)
            @ '' s: the process running it stopped'')) (op_runs d)\<rparr>)"

definition op_row :: "nat \<Rightarrow> (operation_run \<Rightarrow> bool) \<Rightarrow> operation_run \<Rightarrow> bool" where
  "op_row i p r \<longleftrightarrow> oprun_id r = i \<and> p r"

definition stopped_by_operator :: string where
  "stopped_by_operator = ''stopped by the operator''"

definition stop :: "nat \<Rightarrow> (op_db, bool) txn" where
  "stop i d =
     (if \<exists>r \<in> set (op_runs d). op_row i op_live r
      then (Inr True, d\<lparr>op_runs := update_rows (op_row i op_live) (interrupted (now d) stopped_by_operator) (op_runs d)\<rparr>)
      else if row_by oprun_id i (op_runs d) = None then (Inl (operation_not_found (digits_of i)), d)
      else (Inr False, d))"

definition pending :: "operation_run \<Rightarrow> bool" where
  "pending r \<longleftrightarrow> oprun_status r = OP_PENDING"

definition claim :: "string \<Rightarrow> nat \<Rightarrow> (op_db, bool) txn" where
  "claim worker i d =
     (Inr (\<exists>r \<in> set (op_runs d). op_row i pending r),
      d\<lparr>op_runs := update_rows (op_row i pending)
        (\<lambda>r. r\<lparr>oprun_status := OP_RUNNING, oprun_started_at := Some (now d),
               oprun_heartbeat_at := Some (now d), oprun_worker := Some worker\<rparr>) (op_runs d)\<rparr>)"

text \<open>\<open>_running_here\<close>: the fence of what a worker writes of its run.\<close>

definition running_here :: "string \<Rightarrow> operation_run \<Rightarrow> bool" where
  "running_here worker r \<longleftrightarrow> oprun_status r = OP_RUNNING \<and> oprun_worker r = Some worker"

definition beat :: "string \<Rightarrow> nat \<Rightarrow> string \<Rightarrow> string \<Rightarrow> (op_db, bool) txn" where
  "beat worker i out err d =
     (Inr (\<exists>r \<in> set (op_runs d). op_row i (running_here worker) r),
      d\<lparr>op_runs := update_rows (op_row i (running_here worker))
        (\<lambda>r. r\<lparr>oprun_heartbeat_at := Some (now d), oprun_stdout := tail out, oprun_stderr := tail err\<rparr>)
        (op_runs d)\<rparr>)"

text \<open>What \<open>_finish\<close> is told of the ending: an error, or the process's result.\<close>

datatype ending = Crashed string | Ended int string string

definition ending_status :: "ending \<Rightarrow> operation_status" where
  "ending_status e = (case e of Crashed _ \<Rightarrow> OP_FAILED
     | Ended code _ _ \<Rightarrow> if code = 0 then OP_SUCCEEDED else OP_FAILED)"

definition finished :: "ending \<Rightarrow> int \<Rightarrow> operation_run \<Rightarrow> operation_run" where
  "finished e moment r =
     (let r' = r\<lparr>oprun_status := ending_status e, oprun_finished_at := Some moment,
                 oprun_heartbeat_at := Some moment\<rparr> in
      case e of
        Crashed message \<Rightarrow> r'\<lparr>oprun_error := Some message\<rparr>
      | Ended code out err \<Rightarrow> r'\<lparr>oprun_return_code := Some code, oprun_stdout := tail out,
                                oprun_stderr := tail err\<rparr>)"

definition finish :: "string \<Rightarrow> nat \<Rightarrow> ending \<Rightarrow> (op_db, unit) txn" where
  "finish worker i e d =
     (Inr (), d\<lparr>op_runs := update_rows (op_row i (running_here worker)) (finished e (now d)) (op_runs d)\<rparr>)"

section \<open>The readings\<close>

definition newest_op_runs :: "operation_run list \<Rightarrow> operation_run list" where
  "newest_op_runs rs = rev (sort_key oprun_id rs)"

definition list_op_runs :: "nat \<Rightarrow> op_db \<Rightarrow> operation_run list" where
  "list_op_runs limit d = take limit (newest_op_runs (op_runs d))"

definition op_runs_of :: "string \<Rightarrow> nat \<Rightarrow> op_db \<Rightarrow> operation_run list" where
  "op_runs_of name limit d = take limit (newest_op_runs (filter (\<lambda>r. oprun_name r = name) (op_runs d)))"

definition runs_of_worker :: "string \<Rightarrow> string \<Rightarrow> nat \<Rightarrow> op_db \<Rightarrow> operation_run list" where
  "runs_of_worker worker name first d =
     sort_key oprun_id (filter (\<lambda>r. oprun_name r = name \<and> first \<le> oprun_id r \<and> oprun_worker r = Some worker)
       (op_runs d))"

definition get_op_run :: "nat \<Rightarrow> (op_db, operation_run) txn" where
  "get_op_run i d = ((case row_by oprun_id i (op_runs d) of
     None \<Rightarrow> Inl (operation_not_found (digits_of i)) | Some r \<Rightarrow> Inr r), d)"

text \<open>\<open>_load_partly_done\<close>: some source's own run of this load reached its end.\<close>

definition load_already_running :: int where
  "load_already_running = 3"

definition load_partly_done :: "operation_run \<Rightarrow> op_db \<Rightarrow> bool" where
  "load_partly_done r d =
     (if oprun_return_code r = Some load_already_running then False
      else case oprun_started_at r of
        None \<Rightarrow> False
      | Some since \<Rightarrow> filter (\<lambda>m. run_source m \<noteq> None \<and> run_started_at m \<ge> since
          \<and> run_status m \<in> {COMPLETED, COMPLETED_WITH_ERRORS}) (runs (monitoring_of d)) \<noteq> [])"

section \<open>Every transaction any process commits\<close>

datatype op_command =
    OpInsert string operation_parameters "string list"
  | OpInterrupt int
  | OpStop nat
  | OpClaim string nat
  | OpBeat string nat string string
  | OpFinish string nat ending
  | OpMonitoring command
  | OpChoose string string

fun op_perform :: "op_command \<Rightarrow> op_db \<Rightarrow> op_db" where
  "op_perform (OpInsert name p command) d = snd (insert_op_run name p command d)"
| "op_perform (OpInterrupt stale_after) d = snd (interrupt_stale_runs stale_after d)"
| "op_perform (OpStop i) d = snd (stop i d)"
| "op_perform (OpClaim worker i) d = snd (claim worker i d)"
| "op_perform (OpBeat worker i out err) d = snd (beat worker i out err d)"
| "op_perform (OpFinish worker i e) d = snd (finish worker i e d)"
| "op_perform (OpMonitoring c) d = d\<lparr>monitoring_of := perform c (monitoring_of d)\<rparr>"
| "op_perform (OpChoose entity decision) d = d\<lparr>chosen_entity_model := entity, chosen_decision_model := decision\<rparr>"

inductive op_commits :: "op_db \<Rightarrow> op_db \<Rightarrow> bool" where
  op_commit: "op_commits d (op_perform c d)"

inductive_cases op_commitsE: "op_commits d d'"

definition empty_op_db :: op_db where
  "empty_op_db = \<lparr>op_runs = [], next_op = 1, monitoring_of = empty_db, chosen_entity_model = [],
     chosen_decision_model = []\<rparr>"

text \<open>What a command does to the rows: a change of live ones, and at most one new row.\<close>

fun op_change :: "op_command \<Rightarrow> op_db \<Rightarrow> (operation_run \<Rightarrow> bool) \<times> (operation_run \<Rightarrow> operation_run)" where
  "op_change (OpInterrupt stale_after) d = (op_stale stale_after d,
     interrupted (now d) (''no heartbeat for '' @ int_text (stale_after div second)
       @ '' s: the process running it stopped''))"
| "op_change (OpStop i) d = (op_row i op_live, interrupted (now d) stopped_by_operator)"
| "op_change (OpClaim worker i) d = (op_row i pending,
     \<lambda>r. r\<lparr>oprun_status := OP_RUNNING, oprun_started_at := Some (now d),
           oprun_heartbeat_at := Some (now d), oprun_worker := Some worker\<rparr>)"
| "op_change (OpBeat worker i out err) d = (op_row i (running_here worker),
     \<lambda>r. r\<lparr>oprun_heartbeat_at := Some (now d), oprun_stdout := tail out, oprun_stderr := tail err\<rparr>)"
| "op_change (OpFinish worker i e) d = (op_row i (running_here worker), finished e (now d))"
| "op_change _ d = (\<lambda>_. False, id)"

definition op_new_rows :: "op_command \<Rightarrow> op_db \<Rightarrow> operation_run list" where
  "op_new_rows c d = (case c of
     OpInsert name p command \<Rightarrow>
       if \<exists>r \<in> set (op_runs d). op_live r \<and> oprun_name r = name then []
       else [new_op_run (next_op d) name p command (now d)]
   | _ \<Rightarrow> [])"

lemma op_perform_rows:
  "op_runs (op_perform c d) =
     update_rows (fst (op_change c d)) (snd (op_change c d)) (op_runs d) @ op_new_rows c d"
proof -
  have none: "update_rows (\<lambda>_. False) f rs = rs" for f :: "operation_run \<Rightarrow> operation_run" and rs
    by (rule update_rows_none) simp
  show ?thesis
    by (cases c) (auto simp: none op_new_rows_def insert_op_run_def interrupt_stale_runs_def stop_def
      claim_def beat_def finish_def Let_def update_rows_none)
qed

lemma op_perform_next:
  "next_op (op_perform c d) = (case c of OpInsert _ _ _ \<Rightarrow> Suc (next_op d) | _ \<Rightarrow> next_op d)"
  by (cases c) (auto simp: insert_op_run_def interrupt_stale_runs_def stop_def claim_def beat_def
    finish_def Let_def)

lemma op_change_facts:
  assumes "fst (op_change c d) r"
  shows "op_live r" "oprun_id (snd (op_change c d) r) = oprun_id r"
    "oprun_name (snd (op_change c d) r) = oprun_name r"
  using assms by (cases c; auto simp: op_stale_def op_row_def op_live_def live_status_def pending_def
    running_here_def interrupted_def finished_def Let_def split: ending.split)+

interpretation operating: fenced_runs op_runs oprun_id oprun_name op_live next_op op_commits
proof
  fix d d' assume "op_commits d d'"
  then obtain c where d': "d' = op_perform c d" by (auto elim: op_commitsE)
  let ?change = "\<lambda>r. if fst (op_change c d) r then snd (op_change c d) r else r"
  note seq = op_perform_next [of c d, folded d']
  have new: "n \<in> set (op_new_rows c d) \<Longrightarrow> oprun_id n = next_op d \<and> next_op d < next_op d' \<and>
      (\<forall>r \<in> set (op_runs d). op_live (?change r) \<longrightarrow> oprun_name r \<noteq> oprun_name n)" for n
    using seq by (cases c) (auto simp: op_new_rows_def split: if_splits)
  have "length (op_new_rows c d) \<le> 1" by (cases c) (auto simp: op_new_rows_def)
  then show "\<exists>change new. op_runs d' = map change (op_runs d) @ new \<and> length new \<le> 1 \<and>
        (\<forall>r \<in> set (op_runs d). oprun_id (change r) = oprun_id r \<and> oprun_name (change r) = oprun_name r \<and>
           (\<not> op_live r \<longrightarrow> change r = r)) \<and>
        (\<forall>n \<in> set new. oprun_id n = next_op d \<and> next_op d < next_op d' \<and>
           (\<forall>r \<in> set (op_runs d). op_live (change r) \<longrightarrow> oprun_name r \<noteq> oprun_name n))"
    using op_perform_rows [of c d] new op_change_facts
    by (intro exI [of _ ?change] exI [of _ "op_new_rows c d"]) (auto simp: d' update_rows_def)
next
  fix d d' assume "op_commits d d'"
  then show "next_op d \<le> next_op d'"
    by (elim op_commitsE) (auto simp: op_perform_next split: op_command.split)
qed

section \<open>The registry of one process\<close>

text \<open>
  What a registry is built with: its worker id, the stale timeout, the program of the command
  line, the source registry, and how a command's process behaves: it does not start, or the
  output it has shown at each missed wait, its own ending, and its ending when stopped.
\<close>

record process_result =
  return_code :: int
  stdout :: string
  stderr :: string

datatype process = NotStarted exn | Process "(string \<times> string) list" process_result process_result

record op_registry =
  worker_id :: string
  op_stale_after :: int
  program :: "string list"
  known_sources :: "(string, source_kind) dict"
  process_of :: "string list \<Rightarrow> process"

text \<open>The registry's world, with the runs it has handed to its executor.\<close>

record op_world = "(op_db, op_command) world" +
  handed :: "nat list"

type_synonym 'a op_action = "(op_world, exn, 'a) action"

definition operate :: "(op_db, 'a) txn \<Rightarrow> 'a op_action" where
  "operate = transact op_perform"

text \<open>\<open>_run_process\<close>: the beats of a process until it ends, or a beat says to stop it.\<close>

fun run_process ::
  "(string \<Rightarrow> string \<Rightarrow> ('s, exn, bool) action) \<Rightarrow> (string \<times> string) list \<Rightarrow> process_result \<Rightarrow> process_result
   \<Rightarrow> ('s, exn, process_result) action" where
  "run_process send [] ended ended_stopped = returnA ended"
| "run_process send ((out, err) # waits) ended ended_stopped =
     bindA (send out err) (\<lambda>go_on.
       if go_on then run_process send waits ended ended_stopped else returnA ended_stopped)"

text \<open>\<open>_heartbeat\<close>: a database failure is a missed beat, not the end of the run.\<close>

definition registry_heartbeat :: "op_registry \<Rightarrow> nat \<Rightarrow> string \<Rightarrow> string \<Rightarrow> bool op_action" where
  "registry_heartbeat reg i out err = tryA (operate (beat (worker_id reg) i out err)) returnA
     (\<lambda>e. if is_sqlalchemy_error e then returnA True else raiseA e)"

definition finish_or_log :: "op_registry \<Rightarrow> nat \<Rightarrow> ending \<Rightarrow> unit op_action" where
  "finish_or_log reg i e = tryA (operate (finish (worker_id reg) i e)) returnA
     (\<lambda>e'. if is_exception e' then returnA () else raiseA e')"

text \<open>\<open>start\<close>: which models the run asks is fixed before its command is built.\<close>

definition or_chosen :: "string option \<Rightarrow> string \<Rightarrow> string option" where
  "or_chosen given chosen = (case truthy given of None \<Rightarrow> Some chosen | Some m \<Rightarrow> Some m)"

definition fix_models :: "string \<Rightarrow> operation_parameters \<Rightarrow> operation_parameters op_action" where
  "fix_models name p =
     (if name = ''monitor'' \<and> (op_entity_model p = None \<or> op_decision_model p = None) \<and>
         (op_chain p \<or> (case op_mode p of None \<Rightarrow> False | Some m \<Rightarrow> m \<in> set entity_model_modes))
      then operate (reading (\<lambda>d. p\<lparr>op_entity_model := or_chosen (op_entity_model p) (chosen_entity_model d),
             op_decision_model := or_chosen (op_decision_model p) (chosen_decision_model d)\<rparr>))
      else returnA p)"

definition monitor_only :: "operation_parameters \<Rightarrow> bool" where
  "monitor_only p \<longleftrightarrow> op_sources p \<noteq> None \<or> op_published_from p \<noteq> None \<or> op_published_to p \<noteq> None
     \<or> op_mode p \<noteq> None"

definition liftE :: "exn + 'a \<Rightarrow> ('s, exn, 'a) action" where
  "liftE r = (case r of Inl e \<Rightarrow> raiseA e | Inr x \<Rightarrow> returnA x)"

definition hand_over :: "nat \<Rightarrow> nat op_action" where
  "hand_over i w = (Inr i, w\<lparr>handed := handed w @ [i]\<rparr>)"

definition start :: "op_registry \<Rightarrow> string \<Rightarrow> operation_parameters \<Rightarrow> nat op_action" where
  "start reg name given =
     (case dict_get operation_definitions name of
        None \<Rightarrow> raiseA (operation_not_found name)
      | Some defaults \<Rightarrow>
         (let p = with_defaults defaults given in
          if monitor_only p \<and> name \<noteq> ''monitor''
          then raiseA (ValueError ''sources, published dates and mode are only supported for monitor'')
          else bindA (fix_models name p) (\<lambda>p.
            bindA (liftE (command_for (known_sources reg) name p (program reg))) (\<lambda>command.
            thenA (operate (interrupt_stale_runs (op_stale_after reg)))
              (bindA (operate (insert_op_run name p command)) (\<lambda>inserted. case inserted of
                 None \<Rightarrow> raiseA (operation_conflict name)
               | Some i \<Rightarrow> hand_over i))))))"

text \<open>\<open>_continue_chain\<close>: how the step ended is read back from the table.\<close>

definition following_step :: "nat \<Rightarrow> op_db \<Rightarrow> (mode \<times> operation_parameters) option" where
  "following_step i d =
     (case row_by oprun_id i (op_runs d) of
        None \<Rightarrow> None
      | Some r \<Rightarrow>
          if oprun_name r \<noteq> ''monitor'' then None
          else let p = oprun_parameters r;
                   partly = (op_chain p \<and> op_mode p = Some LOAD \<and> oprun_status r = OP_FAILED
                     \<and> load_partly_done r d)
               in if op_chain p
                  then map_option (\<lambda>m. (m, p)) (next_in_chain (op_mode p) (oprun_status r) partly)
                  else None)"

definition chain_parameters :: "mode \<Rightarrow> operation_parameters \<Rightarrow> operation_parameters" where
  "chain_parameters m p = no_parameters\<lparr>op_mode := Some m, op_chain := True,
     op_entity_model := op_entity_model p, op_decision_model := op_decision_model p\<rparr>"

definition continue_chain :: "op_registry \<Rightarrow> nat \<Rightarrow> unit op_action" where
  "continue_chain reg i =
     tryA (bindA (operate (reading (following_step i))) (\<lambda>following. case following of
             None \<Rightarrow> returnA ()
           | Some (m, p) \<Rightarrow> bindA (start reg ''monitor'' (chain_parameters m p)) (\<lambda>_. returnA ())))
       returnA
       (\<lambda>e. if is_exception e then returnA () else raiseA e)"

definition command_of :: "nat \<Rightarrow> (op_db, string list) txn" where
  "command_of i d = ((case row_by oprun_id i (op_runs d) of
     None \<Rightarrow> Inl (OtherException ''AssertionError'' []) | Some r \<Rightarrow> Inr (oprun_command r)), d)"

definition crash_text :: "exn \<Rightarrow> string" where
  "crash_text e = error_type e @ '': '' @ error_message e"

definition run_command :: "op_registry \<Rightarrow> nat \<Rightarrow> process_result op_action" where
  "run_command reg i =
     bindA (operate (command_of i)) (\<lambda>command. case process_of reg command of
        NotStarted e \<Rightarrow> raiseA e
      | Process waits ended stopped \<Rightarrow> run_process (registry_heartbeat reg i) waits ended stopped)"

definition execute :: "op_registry \<Rightarrow> nat \<Rightarrow> unit op_action" where
  "execute reg i =
     bindA (operate (claim (worker_id reg) i)) (\<lambda>claimed.
       if \<not> claimed then returnA ()
       else tryA (run_command reg i)
         (\<lambda>result. thenA (finish_or_log reg i (Ended (return_code result) (stdout result) (stderr result)))
            (continue_chain reg i))
         (\<lambda>e. finish_or_log reg i (Crashed (crash_text e))))"

definition registry_stop :: "nat \<Rightarrow> bool op_action" where
  "registry_stop i = operate (stop i)"

text \<open>\<open>stop_chain_after\<close>: the live step a chain started after one that has ended.\<close>

definition chained_follower :: "nat \<Rightarrow> op_db \<Rightarrow> nat option" where
  "chained_follower i d =
     (case row_by oprun_id i (op_runs d) of
        None \<Rightarrow> None
      | Some r \<Rightarrow>
          if \<not> op_chain (oprun_parameters r) then None
          else (case find (\<lambda>q. oprun_name q = oprun_name r \<and> op_live q) (op_runs d) of
             None \<Rightarrow> None
           | Some q \<Rightarrow> if op_chain (oprun_parameters q) then Some (oprun_id q) else None))"

definition stop_chain_after :: "nat \<Rightarrow> bool op_action" where
  "stop_chain_after i = bindA (operate (reading (chained_follower i))) (\<lambda>following. case following of
     None \<Rightarrow> returnA False | Some j \<Rightarrow> registry_stop j)"

definition list_all_runs :: "op_registry \<Rightarrow> nat \<Rightarrow> operation_run list op_action" where
  "list_all_runs reg limit = thenA (operate (interrupt_stale_runs (op_stale_after reg)))
     (operate (reading (list_op_runs limit)))"

definition runs_of :: "op_registry \<Rightarrow> string \<Rightarrow> nat \<Rightarrow> operation_run list op_action" where
  "runs_of reg name limit = thenA (operate (interrupt_stale_runs (op_stale_after reg)))
     (operate (reading (op_runs_of name limit)))"

definition get :: "op_registry \<Rightarrow> nat \<Rightarrow> operation_run op_action" where
  "get reg i = thenA (operate (interrupt_stale_runs (op_stale_after reg))) (operate (get_op_run i))"

section \<open>What the output keeps\<close>

lemma tail_tail: "tail (tail shown @ line) = tail (shown @ line)"
  by (cases "length shown \<le> output_limit") (simp_all add: tail_def add.commute)

text \<open>
  The tail a pipe's reader keeps, line by line, is the tail of the whole output: its last
  20000 characters, whatever the lines, and all of it while it is no longer than that.
\<close>

theorem pipe_keeps_the_tail:
  "read_pipe [] lines = tail (concat lines) \<and> length (read_pipe [] lines) \<le> output_limit \<and>
   (length (concat lines) \<le> output_limit \<longrightarrow> read_pipe [] lines = concat lines)"
proof -
  have "read_pipe (tail shown) lines = tail (shown @ concat lines)" for shown
  proof (induction lines arbitrary: shown)
    case (Cons line lines)
    show ?case using Cons [of "shown @ line"] by (simp add: tail_tail)
  qed simp
  from this [of "[]"] have "read_pipe [] lines = tail (concat lines)" by (simp add: tail_def)
  then show ?thesis by (simp add: tail_def)
qed

theorem pipe_keeps_the_tail_witness:
  "read_pipe [] [''ab'', ''c''] = concat [''ab'', ''c'']"
proof -
  have "length (concat [''ab'', ''c'']) \<le> output_limit" by (simp add: output_limit_def)
  then show ?thesis using pipe_keeps_the_tail [of "[''ab'', ''c'']"] by blast
qed

section \<open>The registry among other processes\<close>

interpretation operating_order: state_order "follows op_commits :: op_world \<Rightarrow> op_world \<Rightarrow> bool"
  by (rule state_order_follows)

text \<open>Each transaction the registry makes is one of the table's commands, or reads only.\<close>

lemma op_txn_commits:
  "op_commits\<^sup>*\<^sup>* d (snd (interrupt_stale_runs stale_after d))"
  "op_commits\<^sup>*\<^sup>* d (snd (insert_op_run name p command d))"
  "op_commits\<^sup>*\<^sup>* d (snd (stop i d))"
  "op_commits\<^sup>*\<^sup>* d (snd (claim worker i d))"
  "op_commits\<^sup>*\<^sup>* d (snd (beat worker i out err d))"
  "op_commits\<^sup>*\<^sup>* d (snd (finish worker i e d))"
  "op_commits\<^sup>*\<^sup>* d (snd (reading f d))"
  "op_commits\<^sup>*\<^sup>* d (snd (command_of i d))"
  "op_commits\<^sup>*\<^sup>* d (snd (get_op_run i d))"
  using op_commit [of d "OpInterrupt stale_after"] op_commit [of d "OpInsert name p command"]
    op_commit [of d "OpStop i"] op_commit [of d "OpClaim worker i"] op_commit [of d "OpBeat worker i out err"]
    op_commit [of d "OpFinish worker i e"]
  by (auto simp: reading_def command_of_def get_op_run_def)

lemma obeys_operate:
  assumes "\<And>d. op_commits\<^sup>*\<^sup>* d (snd (operation d))"
  shows "obeys (follows op_commits) (operate operation)"
  unfolding operate_def using op_commit assms by (rule obeys_transact)

lemmas operate_flow = operating_order.obeys_flow obeys_operate [OF op_txn_commits(1)]
  obeys_operate [OF op_txn_commits(2)] obeys_operate [OF op_txn_commits(3)]
  obeys_operate [OF op_txn_commits(4)] obeys_operate [OF op_txn_commits(5)]
  obeys_operate [OF op_txn_commits(6)] obeys_operate [OF op_txn_commits(7)]
  obeys_operate [OF op_txn_commits(8)] obeys_operate [OF op_txn_commits(9)]

lemma obeys_hand_over: "obeys (follows op_commits) (hand_over i)"
  by (rule obeysI) (simp add: hand_over_def follows_def)

lemma obeys_fix_models: "obeys (follows op_commits) (fix_models name p)"
  unfolding fix_models_def by (intro operate_flow)

lemma obeys_liftE: "obeys (follows op_commits :: op_world \<Rightarrow> op_world \<Rightarrow> bool) (liftE r)"
  by (cases r) (simp_all add: liftE_def operate_flow)

lemma obeys_start: "obeys (follows op_commits) (start reg name given)"
  unfolding start_def Let_def
  by (intro operate_flow obeys_fix_models obeys_hand_over obeys_liftE)

lemma obeys_heartbeat: "obeys (follows op_commits) (registry_heartbeat reg i out err)"
  unfolding registry_heartbeat_def by (intro operate_flow)

lemma obeys_run_process:
  fixes send :: "string \<Rightarrow> string \<Rightarrow> bool op_action"
  shows "(\<And>out err. obeys (follows op_commits) (send out err)) \<Longrightarrow>
    obeys (follows op_commits) (run_process send waits ended stopped)"
proof (induction waits)
  case Nil
  then show ?case by (simp add: operate_flow)
next
  case (Cons w waits)
  then show ?case by (cases w) (simp, intro operate_flow, simp_all)
qed

lemma obeys_finish_or_log: "obeys (follows op_commits) (finish_or_log reg i e)"
  unfolding finish_or_log_def by (intro operate_flow)

lemma obeys_run_command: "obeys (follows op_commits) (run_command reg i)"
  unfolding run_command_def
  by (intro operate_flow) (simp split: process.split add: operate_flow obeys_run_process obeys_heartbeat)

lemma obeys_continue_chain: "obeys (follows op_commits) (continue_chain reg i)"
  unfolding continue_chain_def by (intro operate_flow) (auto intro: operate_flow obeys_start split: option.split)

section \<open>What the registry promises\<close>

lemma op_sound_empty: "operating.sound empty_op_db"
  by (simp add: operating.sound_def empty_op_db_def)

lemma op_sound_reachable: "op_commits\<^sup>*\<^sup>* empty_op_db d \<Longrightarrow> operating.sound d"
  using operating.sound_steps op_sound_empty by blast

lemma op_commits_fold: "op_commits\<^sup>*\<^sup>* d (fold op_perform cs d)"
  by (rule others_commit) (rule op_commit)

lemma no_row_written:
  assumes "\<And>r. r \<in> set rows \<Longrightarrow> oprun_id r = i \<Longrightarrow> \<not> p r"
  shows "update_rows (op_row i p) f rows = rows"
  using assms by (intro update_rows_none) (auto simp: op_row_def)

text \<open>
  C35. The end of an operation run is final, and at most one run of an operation is live. Once
  it has ended, whoever ended it (its worker, the operator's stop, the stale check), no
  process changes its row again: no worker claims it, a beat tells its worker to stop the
  process and writes nothing, a late ending is not recorded over it, and stopping it answers
  that it had already ended.
\<close>

theorem ended_operation_stays_ended:
  assumes "op_commits\<^sup>*\<^sup>* empty_op_db d" and "r \<in> set (op_runs d)" and "\<not> op_live r"
    and "op_commits\<^sup>*\<^sup>* d d'"
  shows "r \<in> set (op_runs d') \<and> (\<forall>q \<in> set (op_runs d'). oprun_id q = oprun_id r \<longrightarrow> q = r) \<and>
    (\<forall>q \<in> set (op_runs d'). \<forall>q' \<in> set (op_runs d'). op_live q \<and> op_live q' \<and> oprun_name q = oprun_name q' \<longrightarrow> q = q') \<and>
    claim worker (oprun_id r) d' = (Inr False, d') \<and>
    beat worker (oprun_id r) out err d' = (Inr False, d') \<and>
    finish worker (oprun_id r) e d' = (Inr (), d') \<and>
    stop (oprun_id r) d' = (Inr False, d')"
proof -
  note sound = op_sound_reachable [OF assms(1)]
  note sound' = operating.sound_steps [OF assms(4) sound]
  have kept: "r \<in> set (op_runs d')" using operating.frozen_steps [OF assms(4) sound assms(2,3)] .
  have only: "q = r" if "q \<in> set (op_runs d')" "oprun_id q = oprun_id r" for q
    using operating.finished_for_good [OF sound assms(4,2,3) that] .
  have not_live: "\<not> pending r" "\<not> running_here worker r"
    using assms(3) by (simp_all add: op_live_def live_status_def pending_def running_here_def)
  have none: "\<not> (\<exists>q \<in> set (op_runs d'). op_row (oprun_id r) p q)"
    "update_rows (op_row (oprun_id r) p) f (op_runs d') = op_runs d'" if "\<not> p r" for p f
    using only that by (auto simp: op_row_def intro!: no_row_written)
  have "row_by oprun_id (oprun_id r) (op_runs d') = Some r"
    using operating.sound_distinct [OF sound'] kept by (rule row_by_in)
  then show ?thesis
    using kept only none [where p = pending, OF not_live(1)]
      none [where p = "running_here worker", OF not_live(2)] none(1) [where p = op_live, OF assms(3)] sound'
    by (auto simp: claim_def beat_def finish_def stop_def operating.sound_def)
qed

definition monitor_started :: op_command where
  "monitor_started = OpInsert ''monitor'' no_parameters [''monitor'']"

theorem ended_operation_stays_ended_witness:
  "finish ''w'' 1 (Ended 0 [] []) (fold op_perform [monitor_started, OpClaim ''w'' 2]
      (fold op_perform [monitor_started, OpClaim ''w'' 1, OpStop 1] empty_op_db)) =
    (Inr (), fold op_perform [monitor_started, OpClaim ''w'' 2]
      (fold op_perform [monitor_started, OpClaim ''w'' 1, OpStop 1] empty_op_db))"
proof -
  let ?d = "fold op_perform [monitor_started, OpClaim ''w'' 1, OpStop 1] empty_op_db"
  obtain r where r: "op_runs ?d = [r]" "oprun_id r = 1" "\<not> op_live r"
    by (simp add: monitor_started_def insert_op_run_def empty_op_db_def Let_def claim_def op_row_def
      pending_def stop_def op_live_def live_status_def interrupted_def new_op_run_def)
  then have "r \<in> set (op_runs ?d)" by simp
  from ended_operation_stays_ended [OF op_commits_fold this r(3) op_commits_fold, where worker = "''w''" and e = "Ended 0 [] []"
      and out = "[]" and err = "[]"] r(2)
  show ?thesis by metis
qed

lemma obeys_execute: "obeys (follows op_commits) (execute reg i)"
  unfolding execute_def
  by (intro operate_flow obeys_run_command obeys_finish_or_log obeys_continue_chain)

text \<open>
  Once claimed, a run never waits again; once its worker does not run it, it never does again.
\<close>

definition not_waiting :: "nat \<Rightarrow> op_db \<Rightarrow> bool" where
  "not_waiting i d \<longleftrightarrow> i < next_op d \<and> (\<forall>r \<in> set (op_runs d). oprun_id r = i \<longrightarrow> \<not> pending r)"

definition not_running_here :: "string \<Rightarrow> nat \<Rightarrow> op_db \<Rightarrow> bool" where
  "not_running_here worker i d \<longleftrightarrow> i < next_op d \<and>
     (\<forall>r \<in> set (op_runs d). oprun_id r = i \<longrightarrow> \<not> running_here worker r)"

lemma op_rows_cases:
  assumes "r \<in> set (op_runs (op_perform c d))"
  obtains (old) q where "q \<in> set (op_runs d)" "r = (if fst (op_change c d) q then snd (op_change c d) q else q)"
    | (new) "r \<in> set (op_new_rows c d)"
  using assms by (auto simp: op_perform_rows set_update_rows)

lemma op_new_row: "r \<in> set (op_new_rows c d) \<Longrightarrow> oprun_id r = next_op d"
  by (cases c) (auto simp: op_new_rows_def split: if_splits)

lemma not_waiting_step:
  assumes "not_waiting i d"
  shows "not_waiting i (op_perform c d)"
  unfolding not_waiting_def
proof (intro conjI ballI impI)
  show "i < next_op (op_perform c d)"
    using assms by (auto simp: not_waiting_def op_perform_next split: op_command.split)
  fix r assume "r \<in> set (op_runs (op_perform c d))" and i: "oprun_id r = i"
  then show "\<not> pending r"
  proof (cases rule: op_rows_cases)
    case (old q)
    then have "\<not> pending q" using assms i op_change_facts(2) [of c d q] by (auto simp: not_waiting_def split: if_splits)
    then show ?thesis
      using old by (cases c) (auto simp: pending_def interrupted_def finished_def ending_status_def Let_def
        split: ending.splits)
  next
    case new
    then show ?thesis using assms i op_new_row by (auto simp: not_waiting_def)
  qed
qed

lemma not_running_step:
  assumes "not_running_here worker i d" and "not_waiting i d \<or> (\<forall>j. c \<noteq> OpClaim worker j)"
  shows "not_running_here worker i (op_perform c d)"
  unfolding not_running_here_def
proof (intro conjI ballI impI)
  show "i < next_op (op_perform c d)"
    using assms by (auto simp: not_running_here_def op_perform_next split: op_command.split)
  fix r assume "r \<in> set (op_runs (op_perform c d))" and i: "oprun_id r = i"
  then show "\<not> running_here worker r"
  proof (cases rule: op_rows_cases)
    case (old q)
    then have q: "oprun_id q = i" using i op_change_facts(2) [of c d q] by (auto split: if_splits)
    then have "\<not> running_here worker q" "not_waiting i d \<longrightarrow> \<not> pending q"
      using assms(1) old(1) by (auto simp: not_running_here_def not_waiting_def)
    then show ?thesis
      using old(2) assms(2) q by (cases c) (auto simp: op_row_def running_here_def interrupted_def
        finished_def ending_status_def Let_def split: ending.splits if_splits)
  next
    case new
    then have "r = new_op_run i (oprun_name r) (oprun_parameters r) (oprun_command r) (oprun_created_at r)"
      using i by (cases c) (auto simp: op_new_rows_def new_op_run_def split: if_splits)
    then have "oprun_worker r = None" by (metis new_op_run_fields(6))
    then show ?thesis by (simp add: running_here_def)
  qed
qed

lemma not_waiting_steps: "op_commits\<^sup>*\<^sup>* d d' \<Longrightarrow> not_waiting i d \<Longrightarrow> not_waiting i d'"
  by (induction rule: rtranclp_induct) (auto elim!: op_commitsE intro: not_waiting_step)

lemma not_running_steps:
  assumes "op_commits\<^sup>*\<^sup>* d d'" and "not_waiting i d" and "not_running_here worker i d"
  shows "not_running_here worker i d'"
  using assms
proof (induction rule: rtranclp_induct)
  case (step d1 d2)
  then have "not_waiting i d1" "not_running_here worker i d1" using not_waiting_steps by blast+
  then show ?case using step(2) not_running_step by (auto elim!: op_commitsE)
qed

lemma operate_cases:
  assumes "operate operation w = (r, w')"
  obtains (failed) others e where "r = Inl e" "db w' = fold op_perform others (db w)"
      "script w = (others, Some e) # script w'"
    | (committed) others where "operation (fold op_perform others (db w)) = (r, db w')"
      "script w = (others, None) # script w' \<or> script w = [] \<and> script w' = [] \<and> others = []"
  using assms unfolding operate_def by (rule transact_cases)

lemma faultless_operate:
  assumes "operate operation w = (r, w')" and "faultless w"
  obtains others where "operation (fold op_perform others (db w)) = (r, db w')" "faultless w'"
    "script w = (others, None) # script w' \<or> others = []"
  using assms(1)
proof (cases rule: operate_cases)
  case (failed others e)
  then show ?thesis using assms(2) by (simp add: faultless_def)
next
  case (committed others)
  then show ?thesis using assms(2) by (intro that [of others]) (auto simp: faultless_def)
qed

lemma follows_snd:
  assumes "obeys (follows op_commits) m" and "m w = (r, w')"
  shows "op_commits\<^sup>*\<^sup>* (db w) (db w')" "faultless w \<Longrightarrow> faultless w'"
  using obeysD [OF assms(1), of w] assms(2) faultless_follows [of op_commits w w']
  by (auto simp: follows_def)

lemma finish_or_log_ends:
  assumes "finish_or_log reg i e w = (r, w')" and "faultless w" and "not_waiting i (db w)"
  shows "not_waiting i (db w')" "not_running_here (worker_id reg) i (db w')" "faultless w'" "r = Inr ()"
proof -
  obtain r0 w0 where op: "operate (finish (worker_id reg) i e) w = (r0, w0)" by fastforce
  obtain others where o: "finish (worker_id reg) i e (fold op_perform others (db w)) = (r0, db w0)" "faultless w0"
    using faultless_operate [OF op assms(2)] by blast
  have r0: "r0 = Inr ()" using o(1) by (simp add: finish_def)
  have "db w0 = snd (finish (worker_id reg) i e (fold op_perform others (db w)))" using o(1) by simp
  then have rows: "op_runs (db w0) = update_rows (op_row i (running_here (worker_id reg)))
      (finished e (now (fold op_perform others (db w)))) (op_runs (fold op_perform others (db w)))"
    by (simp add: finish_def)
  then have w': "w' = w0" "r = Inr ()"
    using assms(1) op r0 by (simp_all add: finish_or_log_def action_defs)
  have "op_commits\<^sup>*\<^sup>* (db w) (db w0)"
    using follows_snd(1) [OF obeys_operate [OF op_txn_commits(6)] op] .
  then have waiting: "not_waiting i (db w0)" using not_waiting_steps assms(3) by blast
  have "\<not> running_here (worker_id reg) r" if r: "r \<in> set (op_runs (db w0))" "oprun_id r = i" for r
  proof -
    let ?f = "finished e (now (fold op_perform others (db w)))"
    obtain q where q: "r = (if op_row i (running_here (worker_id reg)) q then ?f q else q)"
      using r(1) unfolding rows set_update_rows by blast
    have "oprun_id (?f q) = oprun_id q" "oprun_status (?f q) \<noteq> OP_RUNNING"
      by (auto simp: finished_def ending_status_def Let_def split: ending.split)
    then show ?thesis using q r(2) by (auto simp: op_row_def running_here_def split: if_splits)
  qed
  with waiting have "not_running_here (worker_id reg) i (db w0)"
    by (simp add: not_running_here_def not_waiting_def)
  with waiting show "not_waiting i (db w')" "not_running_here (worker_id reg) i (db w')"
    using w'(1) by simp_all
  show "faultless w'" "r = Inr ()" using o(2) w' by simp_all
qed

lemma claim_waits:
  assumes "i < next_op d"
  shows "not_waiting i (snd (claim worker i d))"
  unfolding not_waiting_def
proof (intro conjI ballI impI)
  show "i < next_op (snd (claim worker i d))" using assms by (simp add: claim_def)
  fix r assume r: "r \<in> set (op_runs (snd (claim worker i d)))" "oprun_id r = i"
  let ?f = "\<lambda>r. r\<lparr>oprun_status := OP_RUNNING, oprun_started_at := Some (now d),
    oprun_heartbeat_at := Some (now d), oprun_worker := Some worker\<rparr>"
  have "r \<in> (\<lambda>q. if op_row i pending q then ?f q else q) ` set (op_runs d)"
    using r(1) by (simp add: claim_def set_update_rows)
  then obtain q where q: "r = (if op_row i pending q then ?f q else q)" by blast
  show "\<not> pending r"
  proof (cases "op_row i pending q")
    case True
    with q show ?thesis by (simp add: pending_def)
  next
    case False
    then have "r = q" using q by simp
    with False r(2) show ?thesis by (simp add: op_row_def)
  qed
qed

lemma not_running_fold:
  assumes "\<forall>j. OpClaim me j \<notin> set others" and "not_running_here me i d"
  shows "not_running_here me i (fold op_perform others d)"
  using assms
proof (induction others arbitrary: d)
  case (Cons c cs)
  have "not_running_here me i (op_perform c d)"
    using not_running_step [OF Cons.prems(2), of c] Cons.prems(1) by auto
  then show ?case using Cons.IH Cons.prems(1) by simp
qed simp

text \<open>A claimed run is finished, and what follows it only commits.\<close>

lemma claimed_run_is_finished:
  assumes "execute reg i w = (result, w')" and "operate (claim (worker_id reg) i) w = (Inr True, w1)"
    and "run_command reg i w1 = (r2, w2)" and "faultless w2" and "not_waiting i (db w2)"
  obtains e r3 w3 where "finish_or_log reg i e w2 = (r3, w3)" and "op_commits\<^sup>*\<^sup>* (db w3) (db w')"
proof -
  have rest: "op_commits\<^sup>*\<^sup>* (db w3) (db w')" if "w' = w3 \<or> w' = snd (continue_chain reg i w3)" for w3
    using that obeysD [OF obeys_continue_chain, of w3 reg i] by (auto simp: follows_def)
  show thesis
  proof (cases r2)
    case (Inl e)
    obtain r3 w3 where f: "finish_or_log reg i (Crashed (crash_text e)) w2 = (r3, w3)" by fastforce
    then have "w' = w3" using assms(1-3) Inl by (auto simp: execute_def action_defs split: sum.splits)
    then show ?thesis using that [OF f] rest by blast
  next
    case (Inr p)
    obtain r3 w3 where f: "finish_or_log reg i (Ended (return_code p) (stdout p) (stderr p)) w2 = (r3, w3)" by fastforce
    then have "r3 = Inr ()" using finish_or_log_ends(4) assms(4,5) by blast
    then have "execute reg i w = continue_chain reg i w3"
      using assms(2,3) Inr f by (simp add: execute_def action_defs)
    then have "w' = snd (continue_chain reg i w3)" using assms(1) by (metis snd_conv)
    then show ?thesis using that [OF f] rest by blast
  qed
qed

text \<open>
  A worker never leaves a run it claimed behind: while the database answers, however the
  process ends (it does not start, crashes, ends by itself, is stopped by a beat) and whatever
  the other processes commit meanwhile, when \<open>_execute\<close> returns the run is no longer pending
  and no longer running under this worker. (Worker ids, host and process id, are each
  process's own: no other process claims under this one.)
\<close>

theorem executed_run_is_not_left_running:
  assumes "execute reg i w = (result, w')" and "faultless w"
    and "not_running_here (worker_id reg) i (db w)"
    and "\<forall>(others, fault) \<in> set (script w). \<forall>j. OpClaim (worker_id reg) j \<notin> set others"
  shows "\<forall>r \<in> set (op_runs (db w')). oprun_id r = i \<longrightarrow>
    oprun_status r \<noteq> OP_PENDING \<and> \<not> (oprun_status r = OP_RUNNING \<and> oprun_worker r = Some (worker_id reg))"
proof -
  let ?me = "worker_id reg"
  obtain r1 w1 where claim: "operate (claim ?me i) w = (r1, w1)" by fastforce
  obtain others where o: "claim ?me i (fold op_perform others (db w)) = (r1, db w1)" "faultless w1"
      "script w = (others, None) # script w1 \<or> others = []"
    using faultless_operate [OF claim assms(2)] by blast
  have "\<forall>j. OpClaim ?me j \<notin> set others" using o(3) assms(4) by (auto simp: split_def)
  then have before: "not_running_here ?me i (fold op_perform others (db w))" using assms(3) by (rule not_running_fold)
  have claimed: "db w1 = snd (claim ?me i (fold op_perform others (db w)))" using o(1) by simp
  have waiting: "not_waiting i (db w1)"
    using claim_waits [of i "fold op_perform others (db w)" ?me] before claimed
    by (simp add: not_running_here_def)
  have "not_waiting i (db w') \<and> not_running_here ?me i (db w')"
  proof (cases "r1 = Inr True")
    case False
    then have "\<not> (\<exists>r \<in> set (op_runs (fold op_perform others (db w))). op_row i pending r)"
      using o(1) by (auto simp: claim_def)
    then have "db w1 = fold op_perform others (db w)" "r1 = Inr False"
      using o(1) by (auto simp: claim_def update_rows_none)
    moreover from this have "w' = w1" using assms(1) claim by (simp add: execute_def action_defs)
    ultimately show ?thesis using waiting before by simp
  next
    case True
    obtain r2 w2 where run: "run_command reg i w1 = (r2, w2)" by fastforce
    note steps = follows_snd [OF obeys_run_command run]
    have w2: "not_waiting i (db w2)" "faultless w2"
      using not_waiting_steps [OF steps(1) waiting] steps(2) [OF o(2)] by simp_all
    obtain e r3 w3 where finish: "finish_or_log reg i e w2 = (r3, w3)" and after: "op_commits\<^sup>*\<^sup>* (db w3) (db w')"
      using claimed_run_is_finished [OF assms(1) claim [unfolded True] run w2(2,1)] by blast
    note ends = finish_or_log_ends(1,2) [OF finish w2(2,1)]
    show ?thesis using not_waiting_steps [OF after ends(1)] not_running_steps [OF after ends(1,2)] by simp
  qed
  then show ?thesis by (auto simp: not_waiting_def not_running_here_def pending_def running_here_def)
qed

text \<open>A registry whose process shows some output twice and ends with code 0.\<close>

definition demo_registry :: op_registry where
  "demo_registry = \<lparr>worker_id = ''w'', op_stale_after = 300000000, program = [''main''],
     known_sources = sources_registry [],
     process_of = (\<lambda>command. Process [(''a'', []), (''b'', [])]
        \<lparr>return_code = 0, stdout = ''b'', stderr = []\<rparr> \<lparr>return_code = -2, stdout = ''a'', stderr = []\<rparr>)\<rparr>"

definition demo_world :: "op_command list \<Rightarrow> op_world" where
  "demo_world meanwhile = \<lparr>db = op_perform monitor_started empty_op_db,
     script = [([], None), ([], None), (meanwhile, None)], handed = []\<rparr>"

theorem executed_run_is_not_left_running_witness:
  "\<exists>r \<in> set (op_runs (db (snd (execute demo_registry 1 (demo_world [OpStop 1]))))). oprun_id r = 1 \<and>
    oprun_status r \<noteq> OP_PENDING \<and> \<not> (oprun_status r = OP_RUNNING \<and> oprun_worker r = Some (worker_id demo_registry))"
proof -
  obtain result w' where e: "execute demo_registry 1 (demo_world [OpStop 1]) = (result, w')" by fastforce
  have "op_commits\<^sup>*\<^sup>* (db (demo_world [OpStop 1])) (db w')"
    using follows_snd(1) [OF obeys_execute e] .
  moreover have "operating.sound (db (demo_world [OpStop 1]))"
    by (simp add: operating.sound_def demo_world_def monitor_started_def insert_op_run_def empty_op_db_def Let_def)
  ultimately obtain r where r: "r \<in> set (op_runs (db w'))" "oprun_id r = 1"
    using operating.kept_steps [of "db (demo_world [OpStop 1])" "db w'" "new_op_run 1 ''monitor'' no_parameters [''monitor''] 0"]
    by (auto simp: demo_world_def monitor_started_def insert_op_run_def empty_op_db_def Let_def now_def empty_db_def)
  have "faultless (demo_world [OpStop 1])" by (simp add: faultless_def demo_world_def)
  moreover have "not_running_here (worker_id demo_registry) 1 (db (demo_world [OpStop 1]))"
    by (simp add: not_running_here_def demo_world_def monitor_started_def insert_op_run_def empty_op_db_def Let_def
      running_here_def)
  moreover have "\<forall>(others, fault) \<in> set (script (demo_world [OpStop 1])). \<forall>j. OpClaim (worker_id demo_registry) j \<notin> set others"
    by (simp add: demo_world_def)
  ultimately show ?thesis
    unfolding e snd_conv using executed_run_is_not_left_running [OF e] r by blast
qed

lemma operate_handed: "operate operation w = (r, w') \<Longrightarrow> handed w' = handed w"
  by (auto simp: operate_def transact_def Let_def split: list.splits prod.splits option.splits)

lemma operate_quiet:
  "operate operation w = (r, w') \<Longrightarrow> script w = [] \<Longrightarrow>
   operation (db w) = (r, db w') \<and> script w' = []"
  by (auto simp: operate_def transact_def split: prod.splits)

lemma fix_models_handed:
  assumes "fix_models name p w = (r, w')"
  shows "handed w' = handed w" "script w = [] \<Longrightarrow> db w' = db w \<and> script w' = []"
  using assms operate_handed operate_quiet
  by (fastforce simp: fix_models_def reading_def split: if_splits)+

lemma interrupt_ids: "map oprun_id (op_runs (snd (interrupt_stale_runs stale_after d))) = map oprun_id (op_runs d)"
  by (simp add: interrupt_stale_runs_def map_update_rows interrupted_def)

lemma insert_op_run_row:
  "insert_op_run name p command d = (Inr (Some i), d') \<Longrightarrow>
   new_op_run i name p command (now d) \<in> set (op_runs d')"
  by (auto simp: insert_op_run_def Let_def split: if_splits)

lemma fix_models_keeps:
  "fix_models name p w = (Inr q, w') \<Longrightarrow> op_mode q = op_mode p \<and> op_chain q = op_chain p"
  by (auto simp: fix_models_def operate_def transact_def reading_def Let_def
    split: if_splits list.splits prod.splits option.splits)

lemma start_returned:
  assumes "start reg name given w = (Inr i, w')"
  obtains r defaults where "handed w' = handed w @ [i]" "r \<in> set (op_runs (db w'))" "oprun_id r = i"
    "oprun_name r = name" "oprun_status r = OP_PENDING" "oprun_worker r = None"
    "command_for (known_sources reg) name (oprun_parameters r) (program reg) = Inr (oprun_command r)"
    "dict_get operation_definitions name = Some defaults"
    "op_mode (oprun_parameters r) = op_mode (with_defaults defaults given)"
    "op_chain (oprun_parameters r) = op_chain given"
proof -
  obtain defaults p command w1 w2 ids w3 w4 where
    "dict_get operation_definitions name = Some defaults"
    and fixed: "fix_models name (with_defaults defaults given) w = (Inr p, w1)"
    and command: "command_for (known_sources reg) name p (program reg) = Inr command" "w2 = w1"
    and "operate (interrupt_stale_runs (op_stale_after reg)) w2 = (Inr ids, w3)"
    and insert: "operate (insert_op_run name p command) w3 = (Inr (Some i), w4)"
    and w': "w' = w4\<lparr>handed := handed w4 @ [i]\<rparr>"
    using assms
    by (auto simp: start_def Let_def action_results liftE_def hand_over_def split: option.splits if_splits sum.splits)
  moreover from this have "handed w4 = handed w"
    using fix_models_handed(1) operate_handed by metis
  moreover obtain others where "insert_op_run name p command (fold op_perform others (db w3)) = (Inr (Some i), db w4)"
    using insert by (cases rule: operate_cases) auto
  then have "new_op_run i name p command (now (fold op_perform others (db w3))) \<in> set (op_runs (db w4))"
    by (rule insert_op_run_row)
  moreover note fix_models_keeps [OF fixed]
  ultimately show thesis
    by (intro that [of "new_op_run i name p command (now (fold op_perform others (db w3)))" defaults])
      (simp_all add: with_defaults_def)
qed

lemma start_raised_cases:
  assumes "start reg name given w = (Inl e, w')"
  obtains (early) "w' = w"
    | (models) p where "fix_models name p w = (Inl e, w')"
    | (command) p q where "fix_models name p w = (Inr q, w')"
    | (interrupt) p q w1 where "fix_models name p w = (Inr q, w1)"
        "operate (interrupt_stale_runs (op_stale_after reg)) w1 = (Inl e, w')"
    | (insert) p q w1 command ids w2 x where "fix_models name p w = (Inr q, w1)"
        "operate (interrupt_stale_runs (op_stale_after reg)) w1 = (Inr ids, w2)"
        "operate (insert_op_run name q command) w2 = (x, w')" "x = Inl e \<or> x = Inr None"
  using assms
  by (auto simp: start_def Let_def action_results liftE_def hand_over_def
    split: option.splits if_splits sum.splits)

lemma insert_refused:
  "insert_op_run name p command d = (x, d') \<Longrightarrow> x = Inl e \<or> x = Inr None \<Longrightarrow>
   map oprun_id (op_runs d') = map oprun_id (op_runs d)"
  by (auto simp: insert_op_run_def Let_def split: if_splits)

lemma start_raised:
  assumes "start reg name given w = (Inl e, w')"
  shows "handed w' = handed w"
    and "script w = [] \<Longrightarrow> map oprun_id (op_runs (db w')) = map oprun_id (op_runs (db w))"
proof -
  show "handed w' = handed w"
    using assms
    by (cases rule: start_raised_cases) (simp_all add: operate_handed fix_models_handed(1))
  have interrupt: "map oprun_id (op_runs d') = map oprun_id (op_runs d)"
    if "interrupt_stale_runs stale_after d = (x, d')" for x stale_after d d'
    using that interrupt_ids [of stale_after d] by simp
  show "map oprun_id (op_runs (db w')) = map oprun_id (op_runs (db w))" if quiet: "script w = []"
    using assms
  proof (cases rule: start_raised_cases)
    case (interrupt p q w1)
    note fixed = fix_models_handed(2) [OF interrupt(1) quiet]
    have "interrupt_stale_runs (op_stale_after reg) (db w1) = (Inl e, db w')"
      using operate_quiet [OF interrupt(2)] fixed by simp
    then show ?thesis using interrupt_ids [of "op_stale_after reg" "db w1"] fixed by simp
  next
    case (insert p q w1 command ids w2 x)
    note fixed = fix_models_handed(2) [OF insert(1) quiet]
    have i: "interrupt_stale_runs (op_stale_after reg) (db w1) = (Inr ids, db w2)" "script w2 = []"
      using operate_quiet [OF insert(2)] fixed by simp_all
    have "insert_op_run name q command (db w2) = (x, db w')" using operate_quiet [OF insert(3) i(2)] by simp
    then have "map oprun_id (op_runs (db w')) = map oprun_id (op_runs (db w2))"
      using insert(4) by (rule insert_refused)
    then show ?thesis using interrupt_ids [of "op_stale_after reg" "db w1"] i(1) fixed by simp
  qed (use fix_models_handed(2) quiet in simp_all)
qed

text \<open>
  A start that returns has recorded exactly one new run, pending and claimed by nobody,
  with the allowlisted command of its parameters, and handed it once to the executor; a start
  that raises has handed nothing over and, with no other process at work, recorded nothing.
\<close>

theorem start_records_what_it_hands_over:
  assumes "start reg name given w = (result, w')"
  shows "case result of
      Inr i \<Rightarrow> handed w' = handed w @ [i] \<and>
        (\<exists>r \<in> set (op_runs (db w')). oprun_id r = i \<and> oprun_name r = name \<and> oprun_status r = OP_PENDING \<and>
           oprun_worker r = None \<and>
           command_for (known_sources reg) name (oprun_parameters r) (program reg) = Inr (oprun_command r))
    | Inl e \<Rightarrow> handed w' = handed w \<and>
        (script w = [] \<longrightarrow> map oprun_id (op_runs (db w')) = map oprun_id (op_runs (db w)))"
proof (cases result)
  case (Inr i)
  then obtain r where "handed w' = handed w @ [i]" "r \<in> set (op_runs (db w'))" "oprun_id r = i"
    "oprun_name r = name" "oprun_status r = OP_PENDING" "oprun_worker r = None"
    "command_for (known_sources reg) name (oprun_parameters r) (program reg) = Inr (oprun_command r)"
    using start_returned assms by metis
  with Inr show ?thesis by auto
next
  case (Inl e)
  then show ?thesis using start_raised assms by simp
qed

theorem start_records_what_it_hands_over_witness:
  "case fst (start demo_registry ''monitor'' no_parameters (demo_world [])) of
      Inr i \<Rightarrow> handed (snd (start demo_registry ''monitor'' no_parameters (demo_world []))) = handed (demo_world []) @ [i]
    | Inl e \<Rightarrow> handed (snd (start demo_registry ''monitor'' no_parameters (demo_world []))) = handed (demo_world [])"
  using start_records_what_it_hands_over [OF surjective_pairing, of demo_registry "''monitor''" no_parameters "demo_world []"]
  by (auto split: sum.splits)

text \<open>If continuing hands a run over, it read a following step off the table and started it.\<close>

lemma continue_chain_starts:
  assumes "continue_chain reg i w = (result, w')" and "handed w' \<noteq> handed w"
  obtains d n p s w1 where "op_commits\<^sup>*\<^sup>* (db w) d" and "following_step i d = Some (n, p)"
    and "handed w1 = handed w" and "start reg ''monitor'' (chain_parameters n p) w1 = (s, w')"
proof -
  let ?step = "\<lambda>following. case following of
             None \<Rightarrow> returnA ()
           | Some (m, p) \<Rightarrow> bindA (start reg ''monitor'' (chain_parameters m p)) (\<lambda>_. returnA ())"
  obtain r1 w1 where read: "operate (reading (following_step i)) w = (r1, w1)" by fastforce
  have h1: "handed w1 = handed w" using operate_handed [OF read] .
  obtain r2 where body: "bindA (operate (reading (following_step i))) ?step w = (r2, w')"
    using assms(1) by (auto simp: continue_chain_def tryA_def split: sum.splits if_splits prod.splits)
  show thesis
    using read
  proof (cases rule: operate_cases)
    case (failed others e)
    then show ?thesis using body read h1 assms(2) by (simp add: bindA_def)
  next
    case (committed others)
    then have r1: "r1 = Inr (following_step i (fold op_perform others (db w)))"
      unfolding reading_def by (metis prod.inject)
    show ?thesis
    proof (cases "following_step i (fold op_perform others (db w))")
      case None
      then show ?thesis using body read r1 h1 assms(2) by (simp add: bindA_def returnA_def)
    next
      case (Some np)
      obtain n p where np: "np = (n, p)" by fastforce
      obtain s w3 where s: "start reg ''monitor'' (chain_parameters n p) w1 = (s, w3)" by fastforce
      then have "w3 = w'"
        using body read r1 Some np by (cases s) (simp_all add: bindA_def returnA_def)
      then show ?thesis using that Some np s h1 op_commits_fold by blast
    qed
  qed
qed


definition chained_load :: operation_parameters where
  "chained_load = no_parameters\<lparr>op_mode := Some LOAD, op_chain := True, op_entity_model := Some ''m'',
     op_decision_model := Some ''m''\<rparr>"

definition loaded_world :: op_world where
  "loaded_world = \<lparr>db = fold op_perform [OpInsert ''monitor'' chained_load [''monitor''], OpClaim ''w'' 1,
     OpFinish ''w'' 1 (Ended 0 [] [])] empty_op_db, script = [], handed = []\<rparr>"

definition loaded_run :: operation_run where
  "loaded_run = finished (Ended 0 [] []) 0 ((new_op_run 1 ''monitor'' chained_load [''monitor''] 0)
     \<lparr>oprun_status := OP_RUNNING, oprun_started_at := Some 0, oprun_heartbeat_at := Some 0,
      oprun_worker := Some ''w''\<rparr>)"

lemma loaded_world_runs: "op_runs (db loaded_world) = [loaded_run]"
  by (simp add: loaded_world_def loaded_run_def insert_op_run_def empty_op_db_def Let_def claim_def finish_def
    op_row_def pending_def running_here_def now_def empty_db_def)

lemma loaded_run_fields:
  "oprun_id loaded_run = 1" "oprun_name loaded_run = ''monitor''" "oprun_parameters loaded_run = chained_load"
  "oprun_status loaded_run = OP_SUCCEEDED" "oprun_heartbeat_at loaded_run = Some 0"
  by (simp_all add: loaded_run_def finished_def Let_def ending_status_def)

lemma loaded_following: "following_step 1 (db loaded_world) = Some (PURGE, chained_load)"
  by (simp add: following_step_def loaded_world_runs row_by_def loaded_run_fields Let_def)
    (simp add: chained_load_def next_in_chain_def monitor_cycle_def Let_def)


end
