(* ===== verification/Person_Names.thy ===== *)
theory Person_Names
  imports Prelude
begin

text \<open>
  The names entity resolution compares (\<open>persons/resolution/models.py\<close>,
  \<open>persons/resolution/normalizer.py\<close>): tokens, and every admissible reading of them as
  surname, given name and patronymic. Suffixes order the readings and remove none.
\<close>

section \<open>The model types\<close>

datatype name_role = SURNAME | GIVEN_NAME | PATRONYMIC

text \<open>The enumeration's order, in which the code loops over it.\<close>

definition name_roles :: "name_role list" where
  "name_roles = [SURNAME, GIVEN_NAME, PATRONYMIC]"

datatype role_signal = PATRONYMIC_SUFFIX | SURNAME_SUFFIX | PATRONYMIC_SUFFIX_OUTSIDE_PATRONYMIC
  | SURNAME_SUFFIX_OUTSIDE_SURNAME

record name_token =
  token_text :: ustr
  token_initial :: bool

record name_component =
  component_role :: name_role
  component_text :: ustr
  component_initial :: bool

record name_variant =
  components :: "name_component list"
  signals :: "role_signal list"

definition component_of :: "name_variant \<Rightarrow> name_role \<Rightarrow> name_component option" where
  "component_of v role = find (\<lambda>part. component_role part = role) (components v)"

definition plausibility :: "name_variant \<Rightarrow> int" where
  "plausibility v = sum_list (map (\<lambda>s. if s \<in> {PATRONYMIC_SUFFIX, SURNAME_SUFFIX} then 1 else - 1) (signals v))"

record normalized_name =
  name_raw :: ustr
  name_tokens :: "name_token list"
  canonical_form :: ustr
  variants :: "name_variant list"
  block_keys :: "ustr list"

definition full_tokens :: "normalized_name \<Rightarrow> ustr list" where
  "full_tokens n = map token_text (filter (\<lambda>t. \<not> token_initial t) (name_tokens n))"

definition has_initials :: "normalized_name \<Rightarrow> bool" where
  "has_initials n \<longleftrightarrow> list_ex token_initial (name_tokens n)"

definition is_incomplete :: "normalized_name \<Rightarrow> bool" where
  "is_incomplete n \<longleftrightarrow> length (full_tokens n) \<le> 1 \<and> \<not> has_initials n"

definition has_full_identity :: "normalized_name \<Rightarrow> bool" where
  "has_full_identity n \<longleftrightarrow> length (full_tokens n) \<ge> 2"

section \<open>Tokens\<close>

definition hyphen :: int where "hyphen = 45"

definition clean_word :: "ustr \<Rightarrow> ustr" where
  "clean_word word = join_text [hyphen] (filter (\<lambda>part. part \<noteq> []) (split_at hyphen word))"

definition yo_to_ye :: "ustr \<Rightarrow> ustr" where
  "yo_to_ye t = map (\<lambda>c. if c = 1105 then 1077 else c) t"

definition tokenize :: "unicode \<Rightarrow> ustr \<Rightarrow> name_token list" where
  "tokenize U name =
     (let t = yo_to_ye (lower_text U (nfkc U name));
          cleaned = map (\<lambda>c. if is_alpha U c \<or> c = hyphen then c else 32) t
      in map (\<lambda>w. \<lparr>token_text = w, token_initial = (length w = 1)\<rparr>)
           (filter (\<lambda>w. w \<noteq> []) (map clean_word (words cleaned))))"

section \<open>Readings\<close>

definition full_orders :: "nat \<Rightarrow> name_role list list" where
  "full_orders n =
     (if n = 1 then [[SURNAME], [GIVEN_NAME]]
      else if n = 2 then [[GIVEN_NAME, SURNAME], [SURNAME, GIVEN_NAME], [GIVEN_NAME, PATRONYMIC]]
      else if n = 3 then [[GIVEN_NAME, PATRONYMIC, SURNAME], [SURNAME, GIVEN_NAME, PATRONYMIC]]
      else [])"

definition patronymic_suffixes :: "ustr list" where
  "patronymic_suffixes = map ru [''iC'', ''vna'', ''vn'', ''iCna'', ''iCn'']"

definition surname_suffixes :: "ustr list" where
  "surname_suffixes = map ru [''ov'', ''ev'', ''in'', ''yn'', ''ova'', ''eva'', ''ina'', ''yna'', ''skij'',
     ''ckij'', ''skaA'', ''ckaA'', ''enko'', ''uk'', ''Uk'', ''An'', ''Svili'', ''dze'']"

lemma patronymic_suffixes_points [code]:
  "patronymic_suffixes =
    [[1080, 1095], [1074, 1085, 1072], [1074, 1085], [1080, 1095, 1085, 1072],
     [1080, 1095, 1085]]"
  by code_simp

lemma surname_suffixes_points [code]:
  "surname_suffixes =
    [[1086, 1074], [1077, 1074], [1080, 1085], [1099, 1085], [1086, 1074, 1072],
     [1077, 1074, 1072], [1080, 1085, 1072], [1099, 1085, 1072], [1089, 1082, 1080, 1081],
     [1094, 1082, 1080, 1081], [1089, 1082, 1072, 1103], [1094, 1082, 1072, 1103],
     [1077, 1085, 1082, 1086], [1091, 1082], [1102, 1082], [1103, 1085],
     [1096, 1074, 1080, 1083, 1080], [1076, 1079, 1077]]"
  by code_simp

text \<open>\<open>itertools.groupby\<close> over the tokens' initials: the runs and their lengths.\<close>

fun runs_of_flags :: "bool list \<Rightarrow> (bool \<times> nat) list" where
  "runs_of_flags [] = []"
| "runs_of_flags (b # bs) = (case runs_of_flags bs of
     (b', n) # rest \<Rightarrow> if b = b' then (b', Suc n) # rest else (b, 1) # (b', n) # rest
   | [] \<Rightarrow> [(b, 1)])"

text \<open>The \<open>match\<close> over the shape of a name that has initials.\<close>

fun initial_orders :: "(bool \<times> nat) list \<Rightarrow> nat \<Rightarrow> name_role list list" where
  "initial_orders [(True, m), (False, n)] run =
     (if n = 1 then [take run [GIVEN_NAME, PATRONYMIC] @ [SURNAME]] else [])"
| "initial_orders [(False, n), (True, m)] run =
     (if n = 1 then [SURNAME # take run [GIVEN_NAME, PATRONYMIC]]
      else if n = 2 \<and> m = 1 then [[SURNAME, GIVEN_NAME, PATRONYMIC]] else [])"
| "initial_orders [(False, n), (True, m), (False, k)] run =
     (if n = 1 \<and> m = 1 \<and> k = 1 then [[GIVEN_NAME, PATRONYMIC, SURNAME]] else [])"
| "initial_orders shape run = []"

definition admissible_orders :: "name_token list \<Rightarrow> name_role list list" where
  "admissible_orders tokens =
     (let shape = runs_of_flags (map token_initial tokens);
          initial_runs = map snd (filter fst shape)
      in case initial_runs of
           [] \<Rightarrow> full_orders (length tokens)
         | [run] \<Rightarrow> if run > 2 then [] else initial_orders shape run
         | _ \<Rightarrow> [])"

definition ends_with_any :: "ustr \<Rightarrow> ustr list \<Rightarrow> bool" where
  "ends_with_any t suffixes = list_ex (ends_with t) suffixes"

definition signal_of :: "name_component \<Rightarrow> role_signal list" where
  "signal_of part =
     (if component_initial part then []
      else if ends_with_any (component_text part) patronymic_suffixes
        then [if component_role part = PATRONYMIC then PATRONYMIC_SUFFIX else PATRONYMIC_SUFFIX_OUTSIDE_PATRONYMIC]
      else if ends_with_any (component_text part) surname_suffixes
        then [if component_role part = SURNAME then SURNAME_SUFFIX else SURNAME_SUFFIX_OUTSIDE_SURNAME]
      else [])"

text \<open>\<open>zip(\<dots>, strict=True)\<close>: the orders have as many roles as the name has tokens (below).\<close>

definition variant_of :: "name_token list \<Rightarrow> name_role list \<Rightarrow> name_variant" where
  "variant_of tokens roles =
     (let parts = map (\<lambda>(t, r). \<lparr>component_role = r, component_text = token_text t,
            component_initial = token_initial t\<rparr>) (zip tokens roles)
      in \<lparr>components = parts, signals = concat (map signal_of parts)\<rparr>)"

definition variants_of :: "name_token list \<Rightarrow> name_variant list" where
  "variants_of tokens = sort_key (\<lambda>v. - plausibility v) (map (variant_of tokens) (admissible_orders tokens))"

definition normalize :: "unicode \<Rightarrow> ustr \<Rightarrow> normalized_name" where
  "normalize U name =
     (let tokens = tokenize U name in
      \<lparr>name_raw = name, name_tokens = tokens,
       canonical_form = join_text space (map token_text tokens),
       variants = variants_of tokens,
       block_keys = sort (remdups (map token_text (filter (\<lambda>t. \<not> token_initial t) tokens)))\<rparr>)"

definition name_is_complete :: "unicode \<Rightarrow> ustr \<Rightarrow> bool" where
  "name_is_complete U name = has_full_identity (normalize U name)"

lemma normalize_fields [simp]:
  "name_tokens (normalize U name) = tokenize U name"
  "canonical_form (normalize U name) = join_text space (map token_text (tokenize U name))"
  "variants (normalize U name) = variants_of (tokenize U name)"
  "block_keys (normalize U name) =
     sort (remdups (map token_text (filter (\<lambda>t. \<not> token_initial t) (tokenize U name))))"
  by (simp_all add: normalize_def Let_def)

section \<open>What a normalized name is made of\<close>

lemma token_nonempty: "t \<in> set (tokenize U name) \<Longrightarrow> token_text t \<noteq> []"
  by (auto simp: tokenize_def Let_def)

lemma runs_of_flags_expand: "concat (map (\<lambda>(b, n). replicate n b) (runs_of_flags bs)) = bs"
proof (induction bs)
  case (Cons b bs)
  then show ?case by (cases "runs_of_flags bs") auto
qed simp

lemma shape_length: "sum_list (map snd (runs_of_flags bs)) = length bs"
proof -
  have "length (concat (map (\<lambda>(b, n). replicate n b) rs)) = sum_list (map snd rs)" for rs :: "(bool \<times> nat) list"
    by (induction rs) auto
  then show ?thesis using runs_of_flags_expand by metis
qed

lemma initial_orders_fit:
  assumes "roles \<in> set (initial_orders shape run)" and "map snd (filter fst shape) = [run]" and "run \<le> 2"
  shows "length roles = sum_list (map snd shape) \<and> distinct roles"
proof -
  have "run = 0 \<or> run = 1 \<or> run = 2" using assms(3) by linarith
  with assms(1,2) show ?thesis
    by (induction shape run rule: initial_orders.induct) (auto split: if_splits)
qed

lemma admissible_orders_fit:
  assumes "roles \<in> set (admissible_orders tokens)"
  shows "length roles = length tokens" "distinct roles"
proof -
  let ?shape = "runs_of_flags (map token_initial tokens)"
  have "length roles = length tokens \<and> distinct roles"
  proof (cases "map snd (filter fst ?shape)")
    case Nil
    then have "roles \<in> set (full_orders (length tokens))"
      using assms by (simp add: admissible_orders_def Let_def)
    then show ?thesis by (auto simp: full_orders_def split: if_splits)
  next
    case (Cons run rest)
    then have "rest = []" "run \<le> 2" "roles \<in> set (initial_orders ?shape run)"
      using assms by (auto simp: admissible_orders_def Let_def split: list.splits if_splits)
    then show ?thesis
      using initial_orders_fit [of roles ?shape run] Cons shape_length [of "map token_initial tokens"] by simp
  qed
  then show "length roles = length tokens" "distinct roles" by simp_all
qed

lemma variant_of_fields:
  assumes "length roles = length tokens"
  shows "map component_text (components (variant_of tokens roles)) = map token_text tokens"
    and "map component_initial (components (variant_of tokens roles)) = map token_initial tokens"
    and "map component_role (components (variant_of tokens roles)) = roles"
proof -
  let ?parts = "components (variant_of tokens roles)"
  have "map component_text ?parts = map token_text tokens \<and> map component_initial ?parts = map token_initial tokens \<and>
      map component_role ?parts = roles"
    using assms by (induction roles tokens rule: list_induct2) (simp_all add: variant_of_def Let_def)
  then show "map component_text ?parts = map token_text tokens"
    "map component_initial ?parts = map token_initial tokens" "map component_role ?parts = roles" by simp_all
qed

lemma variants_of_cover:
  assumes "v \<in> set (variants_of tokens)"
  shows "map component_text (components v) = map token_text tokens"
    and "map component_initial (components v) = map token_initial tokens"
    and "distinct (map component_role (components v))"
  using assms variant_of_fields admissible_orders_fit by (auto simp: variants_of_def)

text \<open>
  C40. Every reading of a name covers it: it has the name's tokens, each once and in their order,
  initials as initials, and gives no two of them one role (so the strict pairing of tokens
  with roles never fails); the readings stand in order of plausibility.
\<close>

theorem readings_cover_the_name:
  "(\<forall>v \<in> set (variants (normalize U name)).
      map component_text (components v) = map token_text (name_tokens (normalize U name)) \<and>
      map component_initial (components v) = map token_initial (name_tokens (normalize U name)) \<and>
      distinct (map component_role (components v))) \<and>
   sorted (map (\<lambda>v. - plausibility v) (variants (normalize U name)))"
  using variants_of_cover by (simp add: variants_of_def)

definition ivan_ivanov :: ustr where
  "ivan_ivanov = ru ''ivan ivanov''"

text \<open>A name with two readings of its roles and one that is impossible to read.\<close>

theorem readings_cover_the_name_witness:
  "map plausibility (variants (normalize russian ivan_ivanov)) = [1, - 1, - 1] \<and>
   sorted (map (\<lambda>v. - plausibility v) (variants (normalize russian ivan_ivanov)))"
proof (rule conjI)
  have "ivan_ivanov = [1080, 1074, 1072, 1085, 32, 1080, 1074, 1072, 1085, 1086, 1074]" by code_simp
  moreover have "map plausibility (variants (normalize russian
      [1080, 1074, 1072, 1085, 32, 1080, 1074, 1072, 1085, 1086, 1074])) = [1, - 1, - 1]" by code_simp
  ultimately show "map plausibility (variants (normalize russian ivan_ivanov)) = [1, - 1, - 1]" by simp
  show "sorted (map (\<lambda>v. - plausibility v) (variants (normalize russian ivan_ivanov)))"
    using readings_cover_the_name by blast
qed

end
