(* ===== verification/Person_Features.thy ===== *)
theory Person_Features
  imports Person_Names
begin

text \<open>
  An incoming name compared with one candidate person (\<open>persons/resolution/features.py\<close>), the
  rule-based score of the comparison (\<open>scoring.py\<close>) and the aliases a link may add
  (\<open>aliases.py\<close>). Levenshtein's distance and the similarities are rapidfuzz's: parameters.
  The score tables are the source's decimals, taken as exact fractions: every sum of them has
  two decimals, so rounding to four changes none.
\<close>

section \<open>The model types\<close>

record fuzzy =
  edit_distance :: "ustr \<Rightarrow> ustr \<Rightarrow> nat"
  normalized_similarity :: "ustr \<Rightarrow> ustr \<Rightarrow> rat"
  fuzz_ratio :: "ustr \<Rightarrow> ustr \<Rightarrow> rat"

datatype component_match = EXACT | TYPO | INITIAL_COMPATIBLE | MISSING | MISMATCH

datatype identity_conflict = SURNAME_MISMATCH | GIVEN_NAME_MISMATCH | PATRONYMIC_MISMATCH

datatype candidate_source = EXACT_KEY | ALIAS | TRIGRAM

record person_identity =
  identity_name :: ustr
  identity_surface :: "ustr option"
  identity_key :: "ustr option"
  identity_mention :: "nat option"
  identity_article :: "nat option"

record person_candidate =
  candidate_person :: nat
  canonical_name :: ustr
  matching_key :: ustr
  candidate_aliases :: "ustr list"
  candidate_sources :: "candidate_source list"
  trigram_similarity :: "rat option"

record person_features =
  compared_form :: ustr
  compared_form_is_alias :: bool
  exact_matching_key :: bool
  exact_name :: bool
  exact_alias :: bool
  surname :: component_match
  given_name :: component_match
  patronymic :: component_match
  surname_similarity :: "rat option"
  given_name_similarity :: "rat option"
  patronymic_similarity :: "rat option"
  full_name_similarity :: rat
  order_differs :: bool
  initials_only :: bool
  incomplete_name :: bool
  conflicts :: "identity_conflict list"
  same_article_mention :: bool
  case_context_match :: bool

definition full_identity_match :: "person_features \<Rightarrow> bool" where
  "full_identity_match f \<longleftrightarrow> surname f = EXACT \<and> given_name f = EXACT \<and> patronymic f = EXACT"

section \<open>Comparing two names\<close>

fun match_weight :: "component_match \<Rightarrow> int" where
  "match_weight EXACT = 3"
| "match_weight TYPO = 2"
| "match_weight INITIAL_COMPATIBLE = 1"
| "match_weight MISSING = 0"
| "match_weight MISMATCH = 0"

fun conflict_by_role :: "name_role \<Rightarrow> identity_conflict" where
  "conflict_by_role SURNAME = SURNAME_MISMATCH"
| "conflict_by_role GIVEN_NAME = GIVEN_NAME_MISMATCH"
| "conflict_by_role PATRONYMIC = PATRONYMIC_MISMATCH"

definition typo_tolerance :: "nat \<Rightarrow> nat" where
  "typo_tolerance n = (if n \<ge> 10 then 2 else if n \<ge> 5 then 1 else 0)"

text \<open>No component's text is empty, so its first letter is there to compare.\<close>

definition compare_components ::
  "fuzzy \<Rightarrow> name_component option \<Rightarrow> name_component option \<Rightarrow> component_match \<times> rat option" where
  "compare_components F left right = (case (left, right) of
     (Some l, Some r) \<Rightarrow>
       if component_initial l \<or> component_initial r
       then (if hd (component_text l) = hd (component_text r) then INITIAL_COMPATIBLE else MISMATCH, None)
       else if component_text l = component_text r then (EXACT, Some 1)
       else let similarity = normalized_similarity F (component_text l) (component_text r);
                distance = edit_distance F (component_text l) (component_text r)
            in if distance \<le> typo_tolerance (max (length (component_text l)) (length (component_text r)))
               then (TYPO, Some similarity) else (MISMATCH, Some similarity)
   | _ \<Rightarrow> (MISSING, None))"

record alignment =
  alignment_matches :: "name_role \<Rightarrow> component_match \<times> rat option"
  alignment_order_differs :: bool
  alignment_plausibility :: int
  alignment_incoming :: "name_variant option"

definition alignment_conflicts :: "alignment \<Rightarrow> identity_conflict list" where
  "alignment_conflicts a =
     map conflict_by_role (filter (\<lambda>role. fst (alignment_matches a role) = MISMATCH) name_roles)"

definition alignment_weight :: "alignment \<Rightarrow> int" where
  "alignment_weight a = sum_list (map (\<lambda>role. match_weight (fst (alignment_matches a role))) name_roles)"

definition alignment_rank :: "alignment \<Rightarrow> int \<times> int \<times> int \<times> bool" where
  "alignment_rank a = (alignment_weight a, alignment_plausibility a,
     - int (length (alignment_conflicts a)), \<not> alignment_order_differs a)"

definition shared_order :: "name_variant \<Rightarrow> name_variant \<Rightarrow> name_role list" where
  "shared_order v other = filter (\<lambda>role. role \<in> set (map component_role (components other)))
     (map component_role (components v))"

definition align :: "fuzzy \<Rightarrow> name_variant \<Rightarrow> name_variant \<Rightarrow> alignment" where
  "align F incoming candidate =
     \<lparr>alignment_matches = (\<lambda>role. compare_components F (component_of incoming role) (component_of candidate role)),
      alignment_order_differs = (shared_order incoming candidate \<noteq> shared_order candidate incoming),
      alignment_plausibility = plausibility incoming + plausibility candidate,
      alignment_incoming = Some incoming\<rparr>"

definition unaligned :: alignment where
  "unaligned = \<lparr>alignment_matches = (\<lambda>_. (MISSING, None)), alignment_order_differs = False,
     alignment_plausibility = 0, alignment_incoming = None\<rparr>"

text \<open>\<open>max(xs, key=key)\<close>: the first of the greatest.\<close>

fun max_by :: "('a \<Rightarrow> 'k::linorder) \<Rightarrow> 'a \<Rightarrow> 'a list \<Rightarrow> 'a" where
  "max_by key best [] = best"
| "max_by key best (x # xs) = max_by key (if key best < key x then x else best) xs"

definition best_alignment :: "fuzzy \<Rightarrow> normalized_name \<Rightarrow> normalized_name \<Rightarrow> alignment" where
  "best_alignment F incoming form =
     (case concat (map (\<lambda>l. map (align F l) (variants form)) (variants incoming)) of
        [] \<Rightarrow> unaligned
      | a # as \<Rightarrow> max_by alignment_rank a as)"

text \<open>The forms of a candidate, its canonical name first: on equal rank that one wins.\<close>

definition chosen_form ::
  "unicode \<Rightarrow> fuzzy \<Rightarrow> normalized_name \<Rightarrow> person_candidate \<Rightarrow> alignment \<times> normalized_name \<times> bool" where
  "chosen_form U F incoming candidate =
     (let scored = (\<lambda>(form, is_alias). (best_alignment F incoming form, form, is_alias)) in
      max_by (\<lambda>item. alignment_rank (fst item)) (scored (normalize U (canonical_name candidate), False))
        (map scored (map (\<lambda>alias. (normalize U alias, True)) (candidate_aliases candidate))))"

definition features_of ::
  "unicode \<Rightarrow> fuzzy \<Rightarrow> person_identity \<Rightarrow> person_candidate \<Rightarrow> alignment \<times> normalized_name \<times> bool \<Rightarrow> person_features" where
  "features_of U F identity candidate = (\<lambda>(a, form, is_alias).
     let incoming = normalize U (identity_name identity);
         canonical = normalize U (canonical_name candidate);
         aliases = map (normalize U) (candidate_aliases candidate);
         given = (case alignment_incoming a of None \<Rightarrow> None | Some v \<Rightarrow> component_of v GIVEN_NAME)
     in \<lparr>compared_form = canonical_form form,
         compared_form_is_alias = is_alias,
         exact_matching_key = (identity_key identity = Some (matching_key candidate)),
         exact_name = (canonical_form incoming = canonical_form canonical),
         exact_alias = list_ex (\<lambda>alias. canonical_form incoming = canonical_form alias) aliases,
         surname = fst (alignment_matches a SURNAME),
         given_name = fst (alignment_matches a GIVEN_NAME),
         patronymic = fst (alignment_matches a PATRONYMIC),
         surname_similarity = snd (alignment_matches a SURNAME),
         given_name_similarity = snd (alignment_matches a GIVEN_NAME),
         patronymic_similarity = snd (alignment_matches a PATRONYMIC),
         full_name_similarity = fuzz_ratio F (canonical_form incoming) (canonical_form form) / 100,
         order_differs = alignment_order_differs a,
         initials_only = (case given of None \<Rightarrow> False | Some part \<Rightarrow> component_initial part),
         incomplete_name = (is_incomplete incoming \<or> (alignment_incoming a \<noteq> None \<and> given = None)),
         conflicts = alignment_conflicts a,
         same_article_mention = False, case_context_match = False\<rparr>)"

definition extract_features ::
  "unicode \<Rightarrow> fuzzy \<Rightarrow> person_identity \<Rightarrow> person_candidate \<Rightarrow> person_features" where
  "extract_features U F identity candidate =
     features_of U F identity candidate (chosen_form U F (normalize U (identity_name identity)) candidate)"

lemma features_of_fields:
  "conflicts (features_of U F identity candidate (a, form, is_alias)) = alignment_conflicts a"
  "exact_name (features_of U F identity candidate (a, form, is_alias)) =
     (canonical_form (normalize U (identity_name identity)) = canonical_form (normalize U (canonical_name candidate)))"
  "alignment_incoming a = Some v \<Longrightarrow> initials_only (features_of U F identity candidate (a, form, is_alias)) =
     (case component_of v GIVEN_NAME of None \<Rightarrow> False | Some part \<Rightarrow> component_initial part)"
  "alignment_incoming a = Some v \<Longrightarrow> incomplete_name (features_of U F identity candidate (a, form, is_alias)) =
     (is_incomplete (normalize U (identity_name identity)) \<or> component_of v GIVEN_NAME = None)"
  by (simp_all add: features_of_def Let_def)

section \<open>The score\<close>

fun surname_score :: "component_match \<Rightarrow> rat option" where
  "surname_score EXACT = Some (45 / 100)"
| "surname_score TYPO = Some (30 / 100)"
| "surname_score _ = None"

fun given_name_score :: "component_match \<Rightarrow> rat option" where
  "given_name_score EXACT = Some (30 / 100)"
| "given_name_score TYPO = Some (20 / 100)"
| "given_name_score INITIAL_COMPATIBLE = Some (8 / 100)"
| "given_name_score _ = None"

fun patronymic_score :: "component_match \<Rightarrow> rat option" where
  "patronymic_score EXACT = Some (20 / 100)"
| "patronymic_score TYPO = Some (12 / 100)"
| "patronymic_score INITIAL_COMPATIBLE = Some (5 / 100)"
| "patronymic_score MISSING = Some (5 / 100)"
| "patronymic_score MISMATCH = None"

fun match_value :: "component_match \<Rightarrow> string" where
  "match_value EXACT = ''exact''"
| "match_value TYPO = ''typo''"
| "match_value INITIAL_COMPATIBLE = ''initial_compatible''"
| "match_value MISSING = ''missing''"
| "match_value MISMATCH = ''mismatch''"

definition exact_form_bonus :: rat where "exact_form_bonus = 5 / 100"
definition exact_complete_form :: rat where "exact_complete_form = 85 / 100"
definition order_penalty :: rat where "order_penalty = 5 / 100"
definition conflict_cap :: rat where "conflict_cap = 25 / 100"

record person_score =
  resolution_score :: rat
  score_rules :: "string list"

definition table_rule :: "string \<Rightarrow> (component_match \<Rightarrow> rat option) \<Rightarrow> component_match \<Rightarrow>
    rat \<times> string list \<Rightarrow> rat \<times> string list" where
  "table_rule name table match = (\<lambda>(value, rules). case table match of
     None \<Rightarrow> (value, rules)
   | Some x \<Rightarrow> (value + x, rules @ [name @ ''_'' @ match_value match]))"

definition exact_form :: "person_features \<Rightarrow> bool" where
  "exact_form f \<longleftrightarrow> exact_name f \<or> exact_alias f"

definition form_rule :: "person_features \<Rightarrow> rat \<times> string list \<Rightarrow> rat \<times> string list" where
  "form_rule f = (\<lambda>(value, rules). if exact_form f then (value + exact_form_bonus, rules @ [''exact_form''])
     else (value, rules))"

definition complete_rule :: "person_features \<Rightarrow> rat \<times> string list \<Rightarrow> rat \<times> string list" where
  "complete_rule f = (\<lambda>(value, rules).
     if exact_form f \<and> \<not> incomplete_name f \<and> \<not> initials_only f \<and> value < exact_complete_form
     then (exact_complete_form, rules @ [''exact_complete_form'']) else (value, rules))"

definition order_rule :: "person_features \<Rightarrow> rat \<times> string list \<Rightarrow> rat \<times> string list" where
  "order_rule f = (\<lambda>(value, rules). if order_differs f then (value - order_penalty, rules @ [''order_differs''])
     else (value, rules))"

definition conflict_rule :: "person_features \<Rightarrow> rat \<times> string list \<Rightarrow> rat \<times> string list" where
  "conflict_rule f = (\<lambda>(value, rules). if conflicts f \<noteq> [] then (min value conflict_cap, rules @ [''conflict_cap''])
     else (value, rules))"

definition person_score_of :: "person_features \<Rightarrow> person_score" where
  "person_score_of f =
     (let scored = table_rule ''patronymic'' patronymic_score (patronymic f)
            (table_rule ''given_name'' given_name_score (given_name f)
              (table_rule ''surname'' surname_score (surname f) (0, [])));
          (value, rules) = conflict_rule f (order_rule f (complete_rule f (form_rule f scored)))
      in \<lparr>resolution_score = min (max value 0) 1, score_rules = rules\<rparr>)"

section \<open>Aliases a link adds\<close>

definition should_promote :: "unicode \<Rightarrow> ustr \<Rightarrow> person_features \<Rightarrow> bool" where
  "should_promote U name f =
     (let normalized = normalize U name in
      \<not> has_initials normalized \<and> length (full_tokens normalized) \<ge> 2 \<and> variants normalized \<noteq> [] \<and>
      conflicts f = [] \<and> \<not> incomplete_name f \<and> surname f = EXACT \<and> given_name f = EXACT \<and>
      patronymic f \<in> {EXACT, MISSING})"

section \<open>The same name again\<close>

lemma max_by_in: "max_by key b xs \<in> set (b # xs)"
  by (induction key b xs rule: max_by.induct) (auto split: if_splits)

lemma max_by_greatest: "x \<in> set (b # xs) \<Longrightarrow> key x \<le> key (max_by key b xs)"
proof (induction key b xs arbitrary: x rule: max_by.induct)
  case (2 key best y ys)
  let ?next = "if key best < key y then y else best"
  have "key best \<le> key ?next" "key y \<le> key ?next" by auto
  moreover have next_le: "key ?next \<le> key (max_by key best (y # ys))" using "2.IH" [of ?next] by simp
  ultimately have "key best \<le> key (max_by key best (y # ys))" "key y \<le> key (max_by key best (y # ys))"
    by (blast intro: order_trans)+
  moreover have "key x \<le> key (max_by key best (y # ys))" if "x \<in> set ys" using "2.IH" [of x] that by simp
  ultimately show ?case using 2(2) by (auto simp del: max_by.simps)
qed simp

text \<open>The weight a reading can reach, whatever it is aligned with.\<close>

definition part_weight :: "name_component \<Rightarrow> int" where
  "part_weight part = (if component_initial part then 1 else 3)"

definition name_weight :: "name_token list \<Rightarrow> int" where
  "name_weight tokens = sum_list (map (\<lambda>t. if token_initial t then 1 else 3) tokens)"

definition role_weight :: "name_variant \<Rightarrow> name_role \<Rightarrow> int" where
  "role_weight v role = (case component_of v role of None \<Rightarrow> 0 | Some part \<Rightarrow> part_weight part)"

lemma compare_bound:
  "match_weight (fst (compare_components F l r)) \<le> (case l of None \<Rightarrow> 0 | Some part \<Rightarrow> part_weight part)"
  by (auto simp: compare_components_def part_weight_def Let_def split: option.split)

lemma compare_best:
  "match_weight (fst (compare_components F l r)) = (case l of None \<Rightarrow> 0 | Some part \<Rightarrow> part_weight part) \<Longrightarrow>
   fst (compare_components F l r) \<noteq> MISMATCH"
  by (auto simp: compare_components_def part_weight_def Let_def split: option.splits if_splits)

lemma compare_same:
  "match_weight (fst (compare_components F l l)) = (case l of None \<Rightarrow> 0 | Some part \<Rightarrow> part_weight part)"
  by (auto simp: compare_components_def part_weight_def split: option.split)

lemma weight_unfold: "alignment_weight a = match_weight (fst (alignment_matches a SURNAME)) +
    match_weight (fst (alignment_matches a GIVEN_NAME)) + match_weight (fst (alignment_matches a PATRONYMIC))"
  by (simp add: alignment_weight_def name_roles_def)

lemma roles_weight:
  assumes "distinct (map component_role parts)"
  shows "(\<Sum>role\<leftarrow>name_roles. case find (\<lambda>part. component_role part = role) parts of None \<Rightarrow> 0 | Some part \<Rightarrow> part_weight part)
    = sum_list (map part_weight parts)"
  using assms
proof (induction parts)
  case Nil
  then show ?case by (simp add: name_roles_def)
next
  case (Cons p ps)
  have "find (\<lambda>part. component_role part = component_role p) ps = None"
    using Cons.prems unfolding find_None by (auto simp: image_iff)
  then show ?case
    using Cons by (cases "component_role p") (auto simp: name_roles_def)
qed

lemma reading_weight:
  assumes "v \<in> set (variants_of tokens)"
  shows "role_weight v SURNAME + role_weight v GIVEN_NAME + role_weight v PATRONYMIC = name_weight tokens"
proof -
  have "sum_list (map part_weight (components v)) = sum_list (map (\<lambda>b. if b then 1 else 3) (map component_initial (components v)))"
    by (simp add: part_weight_def [abs_def] comp_def)
  also have "\<dots> = name_weight tokens" by (simp only: variants_of_cover(2) [OF assms] name_weight_def list.map_comp comp_def)
  finally show ?thesis
    using roles_weight [OF variants_of_cover(3) [OF assms]]
    by (simp add: role_weight_def component_of_def name_roles_def)
qed

lemma align_weight:
  assumes "v \<in> set (variants_of tokens)"
  shows "alignment_weight (align F v u) \<le> name_weight tokens"
    and "alignment_weight (align F v u) = name_weight tokens \<Longrightarrow> alignment_conflicts (align F v u) = []"
    and "alignment_weight (align F v v) = name_weight tokens"
proof -
  let ?m = "\<lambda>u role. compare_components F (component_of v role) (component_of u role)"
  have bound: "match_weight (fst (?m x role)) \<le> role_weight v role" for role x
    unfolding role_weight_def by (rule compare_bound)
  show "alignment_weight (align F v u) \<le> name_weight tokens"
    using bound [of SURNAME u] bound [of GIVEN_NAME u] bound [of PATRONYMIC u] reading_weight [OF assms]
    by (simp add: weight_unfold align_def)
  show "alignment_weight (align F v v) = name_weight tokens"
    using reading_weight [OF assms] by (simp add: weight_unfold align_def compare_same role_weight_def)
  assume "alignment_weight (align F v u) = name_weight tokens"
  then have "match_weight (fst (?m u role)) = role_weight v role" for role
    using bound [of SURNAME u] bound [of GIVEN_NAME u] bound [of PATRONYMIC u] reading_weight [OF assms]
    by (cases role) (simp_all add: weight_unfold align_def)
  then have "fst (?m u role) \<noteq> MISMATCH" for role
    using compare_best unfolding role_weight_def by blast
  then show "alignment_conflicts (align F v u) = []"
    by (simp add: alignment_conflicts_def align_def)
qed

lemma best_alignment_cases:
  "best_alignment F incoming form = unaligned \<or>
   (\<exists>l \<in> set (variants incoming). \<exists>r \<in> set (variants form). best_alignment F incoming form = align F l r)"
proof (cases "concat (map (\<lambda>l. map (align F l) (variants form)) (variants incoming))")
  case (Cons a as)
  have "max_by alignment_rank a as \<in> set (concat (map (\<lambda>l. map (align F l) (variants form)) (variants incoming)))"
    unfolding Cons by (rule max_by_in)
  then have "best_alignment F incoming form \<in> set (concat (map (\<lambda>l. map (align F l) (variants form)) (variants incoming)))"
    by (simp add: best_alignment_def Cons)
  then show ?thesis by auto
next
  case Nil
  then have "best_alignment F incoming form = unaligned" unfolding best_alignment_def Nil by simp
  then show ?thesis ..
qed

lemma best_alignment_greatest:
  assumes "l \<in> set (variants incoming)" and "r \<in> set (variants form)"
  shows "alignment_rank (align F l r) \<le> alignment_rank (best_alignment F incoming form)"
proof -
  let ?all = "concat (map (\<lambda>l. map (align F l) (variants form)) (variants incoming))"
  have "align F l r \<in> set ?all" using assms by auto
  then obtain a as where all: "?all = a # as" by (cases ?all) auto
  then show ?thesis
    using max_by_greatest [of "align F l r" a as alignment_rank] \<open>align F l r \<in> set ?all\<close>
    unfolding best_alignment_def all by simp
qed

text \<open>What the comparison chosen for a candidate of the same name says.\<close>

lemma rank_weight: "alignment_rank a \<le> alignment_rank b \<Longrightarrow> alignment_weight a \<le> alignment_weight b"
  by (auto simp: alignment_rank_def)

lemma chosen_alignment:
  fixes U F identity candidate
  defines "tokens \<equiv> tokenize U (identity_name identity)"
  assumes "tokenize U (canonical_name candidate) = tokens" and "variants_of tokens \<noteq> []"
  shows "conflicts (extract_features U F identity candidate) = []"
    and "exact_name (extract_features U F identity candidate)"
    and "\<exists>v \<in> set (variants_of tokens).
      initials_only (extract_features U F identity candidate) =
        (case component_of v GIVEN_NAME of None \<Rightarrow> False | Some part \<Rightarrow> component_initial part) \<and>
      incomplete_name (extract_features U F identity candidate) =
        (is_incomplete (normalize U (identity_name identity)) \<or> component_of v GIVEN_NAME = None)"
proof -
  let ?incoming = "normalize U (identity_name identity)" and ?canonical = "normalize U (canonical_name candidate)"
  let ?scored = "\<lambda>(form, is_alias). (best_alignment F ?incoming form, form, is_alias)"
  let ?first = "?scored (?canonical, False)"
  let ?others = "map ?scored (map (\<lambda>alias. (normalize U alias, True)) (candidate_aliases candidate))"
  let ?rank = "\<lambda>item. alignment_rank (fst item)"
  obtain a form is_alias where form: "chosen_form U F ?incoming candidate = (a, form, is_alias)"
    using prod_cases3 by blast
  then have chosen: "max_by ?rank ?first ?others = (a, form, is_alias)" by (simp add: chosen_form_def Let_def)
  obtain v where v: "v \<in> set (variants_of tokens)" using assms(3) by (cases "variants_of tokens") auto
  have "alignment_rank (align F v v) \<le> alignment_rank (best_alignment F ?incoming ?canonical)"
    using best_alignment_greatest [of v ?incoming v ?canonical F] v assms(2) by (simp add: tokens_def)
  also have "\<dots> \<le> alignment_rank a"
    using max_by_greatest [of ?first ?first ?others ?rank] chosen by simp
  finally have weight: "name_weight tokens \<le> alignment_weight a"
    using align_weight(3) [OF v] rank_weight by metis
  have "(a, form, is_alias) \<in> set (?first # ?others)" using max_by_in [of ?rank ?first ?others] chosen by simp
  then obtain f where a: "a = best_alignment F ?incoming f" by auto
  have positive: "name_weight tokens > 0"
  proof -
    have "tokens \<noteq> []" using assms(3) by (auto simp: variants_of_def admissible_orders_def full_orders_def)
    moreover have "0 \<le> name_weight ts" for ts by (induction ts) (auto simp: name_weight_def)
    ultimately show ?thesis by (cases tokens) (auto simp: name_weight_def add_pos_nonneg)
  qed
  then have "a \<noteq> unaligned" using weight by (auto simp: unaligned_def weight_unfold)
  then obtain l r where l: "l \<in> set (variants_of tokens)" and a': "a = align F l r"
    using best_alignment_cases [of F ?incoming f] a by (auto simp: tokens_def)
  have "alignment_weight a = name_weight tokens" using align_weight(1) [OF l, of F r] weight a' by simp
  then have none: "alignment_conflicts a = []" using align_weight(2) [OF l, of F r] a' by simp
  have features: "conflicts (extract_features U F identity candidate) = alignment_conflicts a"
    "exact_name (extract_features U F identity candidate) = (canonical_form ?incoming = canonical_form ?canonical)"
    "initials_only (extract_features U F identity candidate) =
       (case component_of l GIVEN_NAME of None \<Rightarrow> False | Some part \<Rightarrow> component_initial part)"
    "incomplete_name (extract_features U F identity candidate) = (is_incomplete ?incoming \<or> component_of l GIVEN_NAME = None)"
    using form features_of_fields [where a = a] a' by (simp_all add: extract_features_def align_def)
  then show "conflicts (extract_features U F identity candidate) = []"
    "exact_name (extract_features U F identity candidate)"
    using none assms(2) by (simp_all add: tokens_def)
  show "\<exists>v \<in> set (variants_of tokens).
      initials_only (extract_features U F identity candidate) =
        (case component_of v GIVEN_NAME of None \<Rightarrow> False | Some part \<Rightarrow> component_initial part) \<and>
      incomplete_name (extract_features U F identity candidate) = (is_incomplete ?incoming \<or> component_of v GIVEN_NAME = None)"
    using l features(3,4) by (intro bexI [of _ l] conjI)
qed

text \<open>A name of two or three full tokens has a given name in every reading.\<close>

lemma full_name_orders:
  assumes "list_all (\<lambda>t. \<not> token_initial t) tokens"
  shows "admissible_orders tokens = full_orders (length tokens)"
proof -
  have "list_all (\<lambda>b. \<not> b) bs \<Longrightarrow> filter fst (runs_of_flags bs) = []" for bs
    by (induction bs) (auto split: list.split)
  then have "filter fst (runs_of_flags (map token_initial tokens)) = []"
    using assms by (simp add: list.pred_map comp_def)
  then show ?thesis by (simp add: admissible_orders_def Let_def)
qed

lemma full_name_has_given:
  assumes "list_all (\<lambda>t. \<not> token_initial t) tokens" and "length tokens \<ge> 2" and "v \<in> set (variants_of tokens)"
  shows "\<exists>part. component_of v GIVEN_NAME = Some part \<and> \<not> component_initial part"
proof -
  note full_name_orders [OF assms(1)]
  then obtain roles where roles: "roles \<in> set (full_orders (length tokens))" "v = variant_of tokens roles"
    using assms(3) by (auto simp: variants_of_def)
  then have "length roles = length tokens" "GIVEN_NAME \<in> set roles"
    using assms(2) by (auto simp: full_orders_def split: if_splits)
  then have "GIVEN_NAME \<in> component_role ` set (components v)"
    using variant_of_fields(3) [of roles tokens] roles(2) by (metis list.set_map)
  then obtain part where part: "component_of v GIVEN_NAME = Some part"
    by (cases "component_of v GIVEN_NAME") (auto simp: component_of_def find_None)
  then have "part \<in> set (components v)" by (auto simp: component_of_def dest: find_first)
  then have "component_initial part \<in> token_initial ` set tokens"
    using variants_of_cover(2) [OF assms(3)] by (metis image_eqI list.set_map)
  then show ?thesis using part assms(1) by (auto simp: list_all_iff)
qed

lemma clipped: "80 / 100 \<le> (v::rat) \<Longrightarrow> 80 / 100 \<le> min (max v 0) 1"
  by (simp add: min_def max_def)

lemma complete_form_score:
  assumes "exact_form f" and "\<not> incomplete_name f" and "\<not> initials_only f" and "conflicts f = []"
  shows "80 / 100 \<le> resolution_score (person_score_of f)"
proof -
  have complete: "85 / 100 \<le> fst (complete_rule f x)" for x
    using assms(1-3) by (cases x) (simp add: complete_rule_def exact_complete_form_def)
  have order: "fst x - 5 / 100 \<le> fst (order_rule f x)" for x
    by (cases x) (simp add: order_rule_def order_penalty_def)
  have "conflict_rule f x = x" for x using assms(4) by (cases x) (simp add: conflict_rule_def)
  then have "resolution_score (person_score_of f) = min (max (fst (order_rule f (complete_rule f (form_rule f
      (table_rule ''patronymic'' patronymic_score (patronymic f)
        (table_rule ''given_name'' given_name_score (given_name f)
          (table_rule ''surname'' surname_score (surname f) (0, [])))))))) 0) 1"
    by (simp add: person_score_of_def Let_def split_beta)
  moreover have "80 / 100 \<le> fst (order_rule f (complete_rule f x))" for x
    using complete [of x] order [of "complete_rule f x"] by linarith
  ultimately show ?thesis using clipped by metis
qed

text \<open>
  A full name met again is never taken for another person's by its own score: for a
  candidate whose canonical name has the same tokens, two or three of them and no initials,
  whatever aliases the candidate has collected and whatever the similarity functions answer,
  there is no conflict and the score is at least 0.80, twice what a candidate needs to be
  plausible.
\<close>

theorem same_full_name_stays_plausible:
  assumes "tokenize U (canonical_name candidate) = tokenize U (identity_name identity)"
    and "\<not> has_initials (normalize U (identity_name identity))"
    and "length (full_tokens (normalize U (identity_name identity))) \<in> {2, 3}"
  shows "conflicts (extract_features U F identity candidate) = [] \<and>
    80 / 100 \<le> resolution_score (person_score_of (extract_features U F identity candidate))"
proof -
  let ?tokens = "tokenize U (identity_name identity)" and ?f = "extract_features U F identity candidate"
  have full: "list_all (\<lambda>t. \<not> token_initial t) ?tokens"
    using assms(2) by (simp add: has_initials_def list_all_iff list_ex_iff)
  then have "length ?tokens \<in> {2, 3}"
    using assms(3) by (simp add: full_tokens_def list_all_iff)
  then have some: "variants_of ?tokens \<noteq> []" "length ?tokens \<ge> 2"
    using full_name_orders [OF full] by (auto simp: variants_of_def full_orders_def)
  note chosen = chosen_alignment [OF assms(1) some(1), of F]
  have complete: "\<not> incomplete_name ?f" "\<not> initials_only ?f"
  proof -
    obtain v where v: "v \<in> set (variants_of ?tokens)"
        "initials_only ?f = (case component_of v GIVEN_NAME of None \<Rightarrow> False | Some part \<Rightarrow> component_initial part)"
        "incomplete_name ?f = (is_incomplete (normalize U (identity_name identity)) \<or> component_of v GIVEN_NAME = None)"
      using chosen(3) by (elim bexE conjE) (rule that)
    obtain part where "component_of v GIVEN_NAME = Some part" "\<not> component_initial part"
      using full_name_has_given [OF full some(2) v(1)] by (elim exE conjE) (rule that)
    then show "\<not> incomplete_name ?f" "\<not> initials_only ?f"
      using assms(3) v(2,3) by (auto simp: is_incomplete_def)
  qed
  have "80 / 100 \<le> resolution_score (person_score_of ?f)"
    using complete_form_score chosen(1,2) complete by (simp add: exact_form_def)
  then show ?thesis using chosen(1) by simp
qed

text \<open>
  The bound is reached: an alias in the other order with the patronymic outranks the equal
  canonical name, and the reading it wins with costs the order penalty.
\<close>

definition exact_only :: fuzzy where
  "exact_only = \<lparr>edit_distance = (\<lambda>s t. if s = t then 0 else max (length s) (length t)),
     normalized_similarity = (\<lambda>s t. if s = t then 1 else 0), fuzz_ratio = (\<lambda>s t. if s = t then 100 else 0)\<rparr>"

definition ivanov_identity :: person_identity where
  "ivanov_identity = \<lparr>identity_name = ru ''ivanov ivan'', identity_surface = None, identity_key = None,
     identity_mention = None, identity_article = None\<rparr>"

definition ivanov_candidate :: "ustr list \<Rightarrow> person_candidate" where
  "ivanov_candidate aliases = \<lparr>candidate_person = 7, canonical_name = ru ''ivanov ivan'', matching_key = ru ''k'',
     candidate_aliases = aliases, candidate_sources = [TRIGRAM], trigram_similarity = None\<rparr>"

theorem same_full_name_stays_plausible_witness:
  "80 / 100 \<le> resolution_score (person_score_of
     (extract_features russian exact_only ivanov_identity (ivanov_candidate [ru ''ivan ivanoviC ivanov''])))"
proof -
  have "length (full_tokens (normalize russian (ru ''ivanov ivan''))) = 2"
    "\<not> has_initials (normalize russian (ru ''ivanov ivan''))" by code_simp+
  then show ?thesis
    using same_full_name_stays_plausible [of russian "ivanov_candidate [ru ''ivan ivanoviC ivanov'']" ivanov_identity exact_only]
    by (simp add: ivanov_candidate_def ivanov_identity_def)
qed

lemma alias_outranks_equal_name:
  "resolution_score (person_score_of (extract_features russian exact_only ivanov_identity
     (ivanov_candidate [ru ''ivan ivanoviC ivanov'']))) = 80 / 100"
  by code_simp

lemma equal_name_alone:
  "resolution_score (person_score_of (extract_features russian exact_only ivanov_identity (ivanov_candidate []))) = 85 / 100"
  by code_simp

section \<open>What a strong score takes\<close>

lemma table_value:
  "fst (table_rule name table match x) = fst x + (case table match of None \<Rightarrow> 0 | Some y \<Rightarrow> y)"
  by (cases x) (simp add: table_rule_def split: option.split)

lemma surname_strong: "35 / 100 \<le> (case surname_score m of None \<Rightarrow> 0 | Some y \<Rightarrow> y) \<Longrightarrow> m = EXACT"
  by (cases m) simp_all

lemma given_strong: "20 / 100 \<le> (case given_name_score m of None \<Rightarrow> 0 | Some y \<Rightarrow> y) \<Longrightarrow> m = EXACT \<or> m = TYPO"
  by (cases m) simp_all

lemma score_bounds:
  "(case surname_score m of None \<Rightarrow> 0 | Some y \<Rightarrow> y) \<le> 45 / 100"
  "(case given_name_score m of None \<Rightarrow> 0 | Some y \<Rightarrow> y) \<le> 30 / 100"
  "(case patronymic_score m of None \<Rightarrow> 0 | Some y \<Rightarrow> y) \<le> 20 / 100"
  by (cases m; simp)+

lemma score_value:
  "resolution_score (person_score_of f) = min (max (fst (conflict_rule f (order_rule f (complete_rule f (form_rule f
      (table_rule ''patronymic'' patronymic_score (patronymic f)
        (table_rule ''given_name'' given_name_score (given_name f)
          (table_rule ''surname'' surname_score (surname f) (0, []))))))))) 0) 1"
  by (simp add: person_score_of_def Let_def split_beta)

text \<open>
  The score is a fraction of one; a conflicting name part caps it at 0.25, below what makes a
  candidate plausible; and to reach the 0.85 of an automatic link there is no conflict, and
  either the whole form equals the name or an alias, or the surname is equal and the given name
  equal or a typo of it: a surname alone, initials and missing parts never add up to it.
\<close>

theorem strong_score_takes_evidence:
  "0 \<le> resolution_score (person_score_of f) \<and> resolution_score (person_score_of f) \<le> 1 \<and>
   (conflicts f = [] \<or> resolution_score (person_score_of f) \<le> 25 / 100) \<and>
   (resolution_score (person_score_of f) < 85 / 100 \<or> exact_name f \<or> exact_alias f \<or>
     surname f = EXACT \<and> (given_name f = EXACT \<or> given_name f = TYPO))"
proof -
  let ?tables = "table_rule ''patronymic'' patronymic_score (patronymic f)
        (table_rule ''given_name'' given_name_score (given_name f)
          (table_rule ''surname'' surname_score (surname f) (0, [])))"
  let ?s = "case surname_score (surname f) of None \<Rightarrow> 0 | Some y \<Rightarrow> y"
  let ?g = "case given_name_score (given_name f) of None \<Rightarrow> 0 | Some y \<Rightarrow> y"
  let ?p = "case patronymic_score (patronymic f) of None \<Rightarrow> 0 | Some y \<Rightarrow> y"
  define reached where "reached = fst (conflict_rule f (order_rule f (complete_rule f (form_rule f ?tables))))"
  have score: "resolution_score (person_score_of f) = min (max reached 0) 1"
    by (simp add: score_value reached_def)
  have cap: "conflicts f = [] \<or> reached \<le> 25 / 100"
    using min.cobounded2 [of _ conflict_cap] by (simp add: reached_def conflict_rule_def split_beta conflict_cap_def del: min.cobounded2)
  have strong: "exact_form f \<or> surname f = EXACT \<and> (given_name f = EXACT \<or> given_name f = TYPO)"
    if "85 / 100 \<le> reached"
  proof (rule disjCI)
    assume weak: "\<not> (surname f = EXACT \<and> (given_name f = EXACT \<or> given_name f = TYPO))"
    show "exact_form f"
    proof (rule ccontr)
      assume plain: "\<not> exact_form f"
      then have plain_rules: "complete_rule f (form_rule f x) = x" for x
        by (cases x) (simp add: complete_rule_def form_rule_def)
      have lower: "fst (conflict_rule f (order_rule f x)) \<le> fst x" for x
        by (cases x) (auto simp: conflict_rule_def order_rule_def order_penalty_def min_def)
      have "85 / 100 \<le> fst ?tables"
        using that lower [of ?tables] unfolding reached_def plain_rules by (rule order_trans)
      then have "85 / 100 \<le> ?s + ?g + ?p" by (simp add: table_value)
      then have "35 / 100 \<le> ?s" "20 / 100 \<le> ?g"
        using score_bounds(1) [of "surname f"] score_bounds(2) [of "given_name f"] score_bounds(3) [of "patronymic f"]
        by linarith+
      then show False
        using surname_strong given_strong weak by blast
    qed
  qed
  show ?thesis
    unfolding score using cap strong by (auto simp: exact_form_def min_def max_def)
qed

end
