(* ===== verification/Resolution_Decision.thy ===== *)
theory Resolution_Decision
  imports Person_Features
begin

text \<open>
  The decision policy of entity resolution (\<open>persons/resolution/decision.py\<close>): from scored
  candidates to a link, a new person or a human review.
\<close>

section \<open>Thresholds and candidates\<close>

record resolution_thresholds =
  auto_link_min :: rat
  review_min :: rat
  min_margin :: rat

definition default_thresholds :: resolution_thresholds where
  "default_thresholds = \<lparr>auto_link_min = 85 / 100, review_min = 4 / 10, min_margin = 1 / 10\<rparr>"

text \<open>\<open>__post_init__\<close>: \<open>Inl\<close> the message of its \<open>ValueError\<close>.\<close>

definition make_thresholds :: "rat \<Rightarrow> rat \<Rightarrow> rat \<Rightarrow> string + resolution_thresholds" where
  "make_thresholds auto review margin =
     (if \<not> (0 \<le> review \<and> review \<le> auto \<and> auto \<le> 1)
      then Inl ''expected 0 <= ER_REVIEW_MIN_SCORE <= ER_AUTO_LINK_MIN_SCORE <= 1''
      else if \<not> (0 \<le> margin \<and> margin \<le> 1) then Inl ''ER_MIN_MARGIN must be within [0, 1]''
      else Inr \<lparr>auto_link_min = auto, review_min = review, min_margin = margin\<rparr>)"

record scored_candidate =
  scored_person :: person_candidate
  scored_features :: person_features
  scored_score :: person_score

definition scored_id :: "scored_candidate \<Rightarrow> nat" where
  "scored_id c = candidate_person (scored_person c)"

definition score_of :: "scored_candidate \<Rightarrow> rat" where
  "score_of c = resolution_score (scored_score c)"

definition is_conflicting :: "scored_candidate \<Rightarrow> bool" where
  "is_conflicting c \<longleftrightarrow> conflicts (scored_features c) \<noteq> []"

datatype resolution_action = AUTO_LINK | CREATE_NEW | REVIEW

datatype resolution_reason =
    EXACT_MATCHING_KEY | STRONG_UNIQUE_MATCH | NO_CANDIDATE | NO_PLAUSIBLE_CANDIDATE
  | MULTIPLE_PLAUSIBLE_CANDIDATES | POSSIBLE_DUPLICATE_PERSONS | MULTIPLE_EXACT_NAME_MATCHES
  | KNOWN_DISTINCT_PERSONS | INCOMPLETE_NAME | NAME_ONLY_EVIDENCE | SAME_ARTICLE_SURNAME_REFERENCE
  | CASE_CONTEXT_MATCH | INITIALS_ONLY | CONFLICTING_IDENTITY_DATA | LOW_DECISION_MARGIN
  | MEDIUM_CONFIDENCE_MATCH

record resolution_decision =
  decision_action :: resolution_action
  decision_person :: "nat option"
  decision_candidates :: "scored_candidate list"
  decision_reasons :: "resolution_reason list"
  decision_margin :: "rat option"

section \<open>The policy\<close>

definition rank_candidates :: "scored_candidate list \<Rightarrow> scored_candidate list" where
  "rank_candidates = sort_key (\<lambda>c. (- score_of c, scored_id c))"

definition decision_of ::
  "scored_candidate list \<Rightarrow> resolution_action \<Rightarrow> resolution_reason list \<Rightarrow> nat option \<Rightarrow> rat option
   \<Rightarrow> resolution_decision" where
  "decision_of ranked action reasons selected margin = \<lparr>decision_action = action,
     decision_person = selected, decision_candidates = ranked, decision_reasons = reasons,
     decision_margin = margin\<rparr>"

text \<open>Within-article coreference: a surname alone, repeating a person of the article.\<close>

definition refers_to :: "scored_candidate \<Rightarrow> bool" where
  "refers_to c \<longleftrightarrow> (let f = scored_features c in
     same_article_mention f \<and> \<not> is_conflicting c \<and> incomplete_name f \<and> \<not> initials_only f \<and>
     surname f \<in> {EXACT, TYPO} \<and> given_name f = MISSING)"

definition plausible :: "resolution_thresholds \<Rightarrow> scored_candidate \<Rightarrow> bool" where
  "plausible T c \<longleftrightarrow> \<not> is_conflicting c \<and> score_of c \<ge> review_min T"

text \<open>All pairs \<open>i < j\<close> of a list, in the order of the nested loop.\<close>

fun pairs_of :: "'a list \<Rightarrow> ('a \<times> 'a) list" where
  "pairs_of [] = []"
| "pairs_of (x # xs) = map (\<lambda>y. (x, y)) xs @ pairs_of xs"

definition blocked_reasons :: "resolution_reason list" where
  "blocked_reasons = [LOW_DECISION_MARGIN, INITIALS_ONLY, INCOMPLETE_NAME, POSSIBLE_DUPLICATE_PERSONS,
     KNOWN_DISTINCT_PERSONS, MULTIPLE_EXACT_NAME_MATCHES, NAME_ONLY_EVIDENCE]"

text \<open>
  The reasons of a comparison with the plausible candidates, in the order they are added. The
  pairs a reviewer declared different people are unordered: two-element sets.
\<close>

definition strong :: "resolution_thresholds \<Rightarrow> scored_candidate \<Rightarrow> bool" where
  "strong T c \<longleftrightarrow> score_of c \<ge> auto_link_min T"

definition evidence_reasons ::
  "resolution_thresholds \<Rightarrow> nat set set \<Rightarrow> scored_candidate list \<Rightarrow> scored_candidate \<Rightarrow> resolution_reason list" where
  "evidence_reasons T distinct_pairs ps best =
     (let exact_key = filter (\<lambda>c. exact_matching_key (scored_features c)) ps;
          strong_ones = filter (strong T) ps;
          known_distinct = list_all (\<lambda>(l, r). {scored_id l, scored_id r} \<in> distinct_pairs) (pairs_of strong_ones);
          f = scored_features best
      in (if length ps > 1 then [MULTIPLE_PLAUSIBLE_CANDIDATES] else [])
       @ (if length exact_key > 1 then [MULTIPLE_EXACT_NAME_MATCHES] else [])
       @ (if length strong_ones > 1
          then [if known_distinct then KNOWN_DISTINCT_PERSONS else POSSIBLE_DUPLICATE_PERSONS] else [])
       @ (if initials_only f then [INITIALS_ONLY] else [])
       @ (if incomplete_name f then [INCOMPLETE_NAME] else [])
       @ (if \<not> full_identity_match f \<and> \<not> same_article_mention f
          then [if case_context_match f then CASE_CONTEXT_MATCH else NAME_ONLY_EVIDENCE] else []))"

text \<open>
  The margin over the second plausible candidate. The scores have two decimals, so rounding
  their difference to four changes none.
\<close>

definition margin_of :: "scored_candidate \<Rightarrow> scored_candidate list \<Rightarrow> rat" where
  "margin_of best others = score_of best - (case others of [] \<Rightarrow> 0 | second # _ \<Rightarrow> score_of second)"

definition decide_plausible ::
  "resolution_thresholds \<Rightarrow> nat set set \<Rightarrow> scored_candidate list \<Rightarrow> scored_candidate \<Rightarrow> scored_candidate list
   \<Rightarrow> resolution_decision" where
  "decide_plausible T distinct_pairs ranked best others =
     (let margin = margin_of best others;
          reasons = evidence_reasons T distinct_pairs (best # others) best
      in if score_of best < auto_link_min T
         then decision_of ranked REVIEW (MEDIUM_CONFIDENCE_MATCH # reasons) None (Some margin)
         else
           let reasons' = (if margin \<le> min_margin T \<and> others \<noteq> [] then LOW_DECISION_MARGIN # reasons else reasons)
           in if list_ex (\<lambda>r. r \<in> set blocked_reasons) reasons'
              then decision_of ranked REVIEW reasons' None (Some margin)
              else decision_of ranked AUTO_LINK (STRONG_UNIQUE_MATCH # reasons') (Some (scored_id best)) (Some margin))"

definition decide ::
  "resolution_thresholds \<Rightarrow> normalized_name \<Rightarrow> scored_candidate list \<Rightarrow> nat set set \<Rightarrow> resolution_decision" where
  "decide T parsed candidates distinct_pairs =
     (let ranked = rank_candidates candidates;
          single_token = (\<not> has_full_identity parsed);
          incomplete_reasons = INCOMPLETE_NAME # (if has_initials parsed then [INITIALS_ONLY] else [])
      in if ranked = []
         then (if single_token then decision_of ranked REVIEW (NO_CANDIDATE # incomplete_reasons) None None
               else decision_of ranked CREATE_NEW [NO_CANDIDATE] None None)
         else case filter refers_to ranked of
             [only] \<Rightarrow> decision_of ranked AUTO_LINK [SAME_ARTICLE_SURNAME_REFERENCE] (Some (scored_id only)) None
           | _ # _ # _ \<Rightarrow> decision_of ranked REVIEW [MULTIPLE_PLAUSIBLE_CANDIDATES, INCOMPLETE_NAME] None None
           | [] \<Rightarrow>
               (case filter (plausible T) ranked of
                  [] \<Rightarrow>
                    (let reasons = NO_PLAUSIBLE_CANDIDATE #
                        (if list_ex is_conflicting ranked then [CONFLICTING_IDENTITY_DATA] else [])
                     in if single_token then decision_of ranked REVIEW (reasons @ incomplete_reasons) None None
                        else decision_of ranked CREATE_NEW reasons None None)
                | best # others \<Rightarrow> decide_plausible T distinct_pairs ranked best others))"

section \<open>What the policy promises\<close>

lemma ranked_set [simp]: "set (rank_candidates cs) = set cs"
  by (simp add: rank_candidates_def)

lemma length_filter_one: "\<not> 1 < length (filter P xs) \<Longrightarrow> x \<in> set xs \<Longrightarrow> y \<in> set xs \<Longrightarrow> P x \<Longrightarrow> P y \<Longrightarrow> x = y"
proof -
  assume one: "\<not> 1 < length (filter P xs)" and xy: "x \<in> set xs" "y \<in> set xs" "P x" "P y"
  then have "x \<in> set (filter P xs)" "y \<in> set (filter P xs)" by simp_all
  then show "x = y" using one by (cases "filter P xs"; cases "tl (filter P xs)") auto
qed

text \<open>What no blocked reason among the evidence means.\<close>

lemma evidence_unblocked:
  assumes "\<not> list_ex (\<lambda>r. r \<in> set blocked_reasons) (evidence_reasons T distinct_pairs ps best)"
  shows "\<not> 1 < length (filter (\<lambda>c. exact_matching_key (scored_features c)) ps)"
    and "\<not> 1 < length (filter (strong T) ps)"
    and "\<not> initials_only (scored_features best)" and "\<not> incomplete_name (scored_features best)"
    and "full_identity_match (scored_features best) \<or> same_article_mention (scored_features best) \<or>
      case_context_match (scored_features best)"
  using assms by (auto simp: evidence_reasons_def blocked_reasons_def Let_def split: if_splits)

lemma decide_links:
  assumes "decision_action (decide T parsed cs pairs) = AUTO_LINK"
  obtains (reference) c where "filter refers_to (rank_candidates cs) = [c]"
      "decision_person (decide T parsed cs pairs) = Some (scored_id c)"
    | (evidence) best others where "filter refers_to (rank_candidates cs) = []"
      "filter (plausible T) (rank_candidates cs) = best # others"
      "decision_person (decide T parsed cs pairs) = Some (scored_id best)"
      "auto_link_min T \<le> score_of best" "others = [] \<or> min_margin T < margin_of best others"
      "\<not> list_ex (\<lambda>r. r \<in> set blocked_reasons) (evidence_reasons T pairs (best # others) best)"
proof (cases "filter refers_to (rank_candidates cs)")
  case Nil
  show ?thesis
  proof (cases "filter (plausible T) (rank_candidates cs)")
    case (Cons best others)
    have d: "decide T parsed cs pairs = decide_plausible T pairs (rank_candidates cs) best others"
      using Nil Cons by (auto simp: decide_def Let_def)
    show ?thesis
      using assms unfolding d
      by (intro evidence [OF Nil Cons])
        (auto simp: d decide_plausible_def decision_of_def Let_def blocked_reasons_def split: if_splits)
  qed (use assms Nil in \<open>auto simp: decide_def decision_of_def Let_def split: if_splits\<close>)
next
  case (Cons c rest)
  have "rank_candidates cs \<noteq> []" using Cons by auto
  then show ?thesis
    using assms Cons by (intro reference [of c]) (auto simp: decide_def decision_of_def Let_def split: list.splits)
qed


text \<open>
  A new person is only founded on a whole name: a name without a given name and a surname in
  full (a surname or a given name alone, or with initials) never creates one, whatever the
  candidates; and a whole name creates one only when no candidate is plausible.
\<close>

theorem new_person_needs_a_whole_name:
  assumes "decision_action (decide T parsed cs pairs) = CREATE_NEW"
  shows "length (full_tokens parsed) \<ge> 2 \<and> (\<forall>c \<in> set cs. \<not> refers_to c \<and> \<not> plausible T c) \<and>
    decision_person (decide T parsed cs pairs) = None"
proof -
  have whole: "has_full_identity parsed" "filter refers_to (rank_candidates cs) = []"
      "filter (plausible T) (rank_candidates cs) = []" "decision_person (decide T parsed cs pairs) = None"
    using assms
    by (auto simp: decide_def decide_plausible_def decision_of_def Let_def split: list.splits if_splits)
  then show ?thesis by (auto simp: has_full_identity_def filter_empty_conv)
qed

text \<open>
  C34. The decision does not depend on the order the candidates were generated in: two lists of
  the same candidates, each person once, are decided alike, down to the stored ranking.
\<close>

theorem decision_ignores_candidate_order:
  assumes "mset cs = mset cs'" and "distinct (map scored_id cs)"
  shows "decide T parsed cs pairs = decide T parsed cs' pairs"
proof -
  let ?key = "\<lambda>c. (- score_of c, scored_id c)"
  have inj: "inj_on ?key (set cs)"
    using assms(2) by (auto simp: distinct_map inj_on_def)
  have "sort_key ?key cs = sort_key ?key cs'"
    by (rule sort_key_inj_key_eq) (simp_all add: assms(1) inj)
  then show ?thesis by (simp add: decide_def rank_candidates_def)
qed

text \<open>Scored candidates of the same person's name, by its id and its evidence.\<close>

definition demo_features :: "component_match \<Rightarrow> person_features" where
  "demo_features m = \<lparr>compared_form = [], compared_form_is_alias = False, exact_matching_key = True,
     exact_name = True, exact_alias = False, surname = EXACT, given_name = EXACT, patronymic = m,
     surname_similarity = None, given_name_similarity = None, patronymic_similarity = None,
     full_name_similarity = 1, order_differs = False, initials_only = False, incomplete_name = False,
     conflicts = [], same_article_mention = False, case_context_match = False\<rparr>"

definition demo_scored :: "nat \<Rightarrow> component_match \<Rightarrow> scored_candidate" where
  "demo_scored i m = \<lparr>scored_person = (ivanov_candidate [])\<lparr>candidate_person := i\<rparr>,
     scored_features = demo_features m, scored_score = person_score_of (demo_features m)\<rparr>"

definition whole_name :: normalized_name where
  "whole_name = normalize russian (ru ''ivanov ivan'')"


theorem new_person_needs_a_whole_name_witness:
  "2 \<le> length (full_tokens whole_name) \<and> decision_person (decide default_thresholds whole_name [] {}) = None"
proof -
  have "decide default_thresholds whole_name [] {} = decision_of [] CREATE_NEW [NO_CANDIDATE] None None"
    by code_simp
  then show ?thesis
    using new_person_needs_a_whole_name [of default_thresholds whole_name "[]" "{}"] by (simp add: decision_of_def)
qed

theorem decision_ignores_candidate_order_witness:
  "decide default_thresholds whole_name [demo_scored 7 EXACT, demo_scored 3 MISSING] {} =
   decide default_thresholds whole_name [demo_scored 3 MISSING, demo_scored 7 EXACT] {}"
  by (rule decision_ignores_candidate_order)
    (simp_all add: demo_scored_def scored_id_def)

end
