(* ===== verification/AI_Review_Policy.thy ===== *)
theory AI_Review_Policy
  imports Resolution_Decision
begin

text \<open>
  What a model's review of a pending decision is allowed to do (\<open>persons/resolution/ai_policy.py\<close>,
  with the request and answer types of \<open>ai_review.py\<close>). The model's answers are data; only
  this policy turns them into an action.
\<close>

section \<open>Reasons as texts\<close>

fun reason_value :: "resolution_reason \<Rightarrow> string" where
  "reason_value EXACT_MATCHING_KEY = ''exact_matching_key''"
| "reason_value STRONG_UNIQUE_MATCH = ''strong_unique_match''"
| "reason_value NO_CANDIDATE = ''no_candidate''"
| "reason_value NO_PLAUSIBLE_CANDIDATE = ''no_plausible_candidate''"
| "reason_value MULTIPLE_PLAUSIBLE_CANDIDATES = ''multiple_plausible_candidates''"
| "reason_value POSSIBLE_DUPLICATE_PERSONS = ''possible_duplicate_persons''"
| "reason_value MULTIPLE_EXACT_NAME_MATCHES = ''multiple_exact_name_matches''"
| "reason_value KNOWN_DISTINCT_PERSONS = ''known_distinct_persons''"
| "reason_value INCOMPLETE_NAME = ''incomplete_name''"
| "reason_value NAME_ONLY_EVIDENCE = ''name_only_evidence''"
| "reason_value SAME_ARTICLE_SURNAME_REFERENCE = ''same_article_surname_reference''"
| "reason_value CASE_CONTEXT_MATCH = ''case_context_match''"
| "reason_value INITIALS_ONLY = ''initials_only''"
| "reason_value CONFLICTING_IDENTITY_DATA = ''conflicting_identity_data''"
| "reason_value LOW_DECISION_MARGIN = ''low_decision_margin''"
| "reason_value MEDIUM_CONFIDENCE_MATCH = ''medium_confidence_match''"

text \<open>\<open>f"{x:.2f}"\<close> of a fraction: the exact value rounded half to even.\<close>

definition round_half_even :: "rat \<Rightarrow> int" where
  "round_half_even x = (let n = \<lfloor>x\<rfloor>; rest = x - of_int n in
     if rest < 1 / 2 then n else if rest > 1 / 2 then n + 1 else if even n then n else n + 1)"

definition two_decimals :: "rat \<Rightarrow> string" where
  "two_decimals x = (let n = nat (round_half_even (x * 100)) in
     digits_of (n div 100) @ ''.'' @ digits_of (n mod 100 div 10) @ digits_of (n mod 10))"

section \<open>Settings\<close>

datatype review_provider = TOGETHER | CLI | NO_PROVIDER

record review_settings =
  review_provider :: review_provider
  review_auto_threshold :: rat
  review_timeout :: rat
  review_max_retries :: int
  review_prompt_version :: string
  review_cli_command :: string

definition check_settings :: "review_settings \<Rightarrow> string + review_settings" where
  "check_settings S =
     (if \<not> (1 / 2 \<le> review_auto_threshold S \<and> review_auto_threshold S \<le> 1)
        then Inl ''ENTITY_REVIEW_AUTO_THRESHOLD must be within [0.5, 1.0]''
      else if review_timeout S \<le> 0 then Inl ''ENTITY_REVIEW_TIMEOUT_SECONDS must be positive''
      else if review_max_retries S < 0 then Inl ''ENTITY_REVIEW_MAX_RETRIES must not be negative''
      else if strip_string (review_prompt_version S) = [] then Inl ''ENTITY_REVIEW_PROMPT_VERSION must not be empty''
      else if review_provider S = CLI \<and> strip_string (review_cli_command S) = []
        then Inl ''ENTITY_REVIEW_CLI_COMMAND must not be empty''
      else Inr S)"

definition review_enabled :: "review_settings \<Rightarrow> bool" where
  "review_enabled S \<longleftrightarrow> review_provider S \<noteq> NO_PROVIDER"

section \<open>Answers and what they come to\<close>

datatype review_decision = SAME_PERSON | DIFFERENT_PERSON | UNCERTAIN

text \<open>One reviewed candidate: of its request the person and its conflicts, of the answer the rest.\<close>

record candidate_review =
  reviewed_person :: nat
  conflicting_features :: "string list"
  review_answer :: review_decision
  review_confidence :: rat

datatype review_outcome = AUTO_ACCEPTED | AUTO_REJECTED | HUMAN_REQUIRED | REVIEW_FAILED

datatype review_action = LINK_TO_PERSON | CREATE_NEW_PERSON | MERGE_PERSONS | KEEP_SEPARATE

record review_resolution =
  resolution_outcome :: review_outcome
  resolution_applies :: "review_action option"
  resolution_person :: "nat option"
  resolution_text :: string

definition human :: "string \<Rightarrow> review_resolution" where
  "human reason = \<lparr>resolution_outcome = HUMAN_REQUIRED, resolution_applies = None,
     resolution_person = None, resolution_text = reason\<rparr>"

definition review_failure :: "string \<Rightarrow> review_resolution" where
  "review_failure reason = \<lparr>resolution_outcome = REVIEW_FAILED, resolution_applies = None,
     resolution_person = None, resolution_text = reason\<rparr>"

definition blocking_reasons :: "resolution_reason list" where
  "blocking_reasons = [MULTIPLE_EXACT_NAME_MATCHES, POSSIBLE_DUPLICATE_PERSONS, KNOWN_DISTINCT_PERSONS]"

definition confident :: "rat \<Rightarrow> candidate_review \<Rightarrow> bool" where
  "confident threshold o' \<longleftrightarrow> review_confidence o' \<ge> threshold"

definition review_same :: "rat \<Rightarrow> string list \<Rightarrow> candidate_review list \<Rightarrow> review_resolution" where
  "review_same threshold blocking same =
     (if blocking \<noteq> [] then human (''blocking_reasons:'' @ join_text '','' blocking)
      else case same of
        [chosen] \<Rightarrow>
          if conflicting_features chosen \<noteq> []
          then human (''conflicting_identity_data:'' @ join_text '','' (sort (conflicting_features chosen)))
          else \<lparr>resolution_outcome = AUTO_ACCEPTED, resolution_applies = Some LINK_TO_PERSON,
             resolution_person = Some (reviewed_person chosen),
             resolution_text = ''same_person confidence '' @ two_decimals (review_confidence chosen) @
               '' >= '' @ two_decimals threshold\<rparr>
      | _ \<Rightarrow> human ''several_candidates_reviewed_as_same_person'')"

definition review_resolve ::
  "rat \<Rightarrow> resolution_reason list \<Rightarrow> bool \<Rightarrow> candidate_review list \<Rightarrow> review_resolution" where
  "review_resolve threshold reasons whole outcomes =
     (let blocking = sort (map reason_value (filter (\<lambda>r. r \<in> set blocking_reasons) (remdups reasons)));
          sure = filter (confident threshold) outcomes;
          same = filter (\<lambda>o'. review_answer o' = SAME_PERSON) sure
      in if outcomes = [] then human ''no_candidate_to_review''
         else if same \<noteq> [] then review_same threshold blocking same
         else if length sure = length outcomes \<and> list_all (\<lambda>o'. review_answer o' = DIFFERENT_PERSON) sure
         then (if \<not> whole then human ''different_person_but_incomplete_name''
               else \<lparr>resolution_outcome = AUTO_REJECTED, resolution_applies = Some CREATE_NEW_PERSON,
                  resolution_person = None,
                  resolution_text = ''every candidate reviewed as different_person with confidence >= '' @
                    two_decimals threshold\<rparr>)
         else if list_ex (\<lambda>o'. review_answer o' = UNCERTAIN) outcomes then human ''uncertain''
         else human (''confidence_below_'' @ two_decimals threshold))"

section \<open>What a model can bring about\<close>

lemma human_no_action [simp]: "resolution_applies (human reason) = None"
  by (simp add: human_def)

lemma review_same_applies:
  assumes "resolution_applies (review_same threshold blocking same) = Some action"
  shows "action = LINK_TO_PERSON \<and> blocking = [] \<and> (\<exists>chosen. same = [chosen] \<and> conflicting_features chosen = [] \<and>
    resolution_person (review_same threshold blocking same) = Some (reviewed_person chosen))"
proof -
  have "blocking = []" using assms by (auto simp: review_same_def split: if_splits)
  moreover from this obtain chosen where same: "same = [chosen]"
    using assms by (cases same; cases "tl same") (auto simp: review_same_def)
  moreover have "conflicting_features chosen = []"
    using assms same calculation(1) by (auto simp: review_same_def split: if_splits)
  ultimately show ?thesis using assms by (simp add: review_same_def)
qed

text \<open>
  C20. What a model's answers may bring about, whatever they are: a link, only to the one candidate
  it was confident is the same person, which has no conflict with the name, of a decision with
  no blocking reason; or a new person, only for a whole name and when it was confident of every
  candidate that it is another person. It never merges persons and never separates them, and
  nothing happens without an answer.
\<close>

theorem model_cannot_override_a_conflict:
  assumes "resolution_applies (review_resolve threshold reasons whole outcomes) = Some action"
  shows "(\<exists>c \<in> set outcomes. action = LINK_TO_PERSON \<and>
      resolution_person (review_resolve threshold reasons whole outcomes) = Some (reviewed_person c) \<and>
      review_answer c = SAME_PERSON \<and> threshold \<le> review_confidence c \<and> conflicting_features c = [] \<and>
      set reasons \<inter> set blocking_reasons = {} \<and>
      (\<forall>c' \<in> set outcomes. review_answer c' = SAME_PERSON \<and> threshold \<le> review_confidence c' \<longrightarrow> c' = c)) \<or>
    action = CREATE_NEW_PERSON \<and> whole \<and> outcomes \<noteq> [] \<and>
      (\<forall>c \<in> set outcomes. review_answer c = DIFFERENT_PERSON \<and> threshold \<le> review_confidence c)"
proof -
  let ?sure = "filter (confident threshold) outcomes"
  let ?same = "filter (\<lambda>o'. review_answer o' = SAME_PERSON) ?sure"
  let ?blocking = "sort (map reason_value (filter (\<lambda>r. r \<in> set blocking_reasons) (remdups reasons)))"
  have some: "outcomes \<noteq> []" using assms by (auto simp: review_resolve_def)
  show ?thesis
  proof (cases "?same = []")
    case False
    then have r: "review_resolve threshold reasons whole outcomes = review_same threshold ?blocking ?same"
      using some by (simp add: review_resolve_def Let_def)
    obtain c where c: "action = LINK_TO_PERSON" "?blocking = []" "?same = [c]" "conflicting_features c = []"
        "resolution_person (review_same threshold ?blocking ?same) = Some (reviewed_person c)"
      using review_same_applies assms unfolding r by blast
    have "set ?blocking = {}" unfolding c(2) by simp
    then have "set reasons \<inter> set blocking_reasons = {}" by auto
    moreover have only: "{x \<in> set outcomes. confident threshold x \<and> review_answer x = SAME_PERSON} = {c}"
      using arg_cong [OF c(3), of set] by auto
    moreover have "c \<in> {x \<in> set outcomes. confident threshold x \<and> review_answer x = SAME_PERSON}"
      unfolding only by simp
    ultimately show ?thesis
      using c(1,4,5) unfolding r confident_def by (intro disjI1 bexI [of _ c]) auto
  next
    case True
    have "whole" "action = CREATE_NEW_PERSON" "length ?sure = length outcomes"
        "list_all (\<lambda>o'. review_answer o' = DIFFERENT_PERSON) ?sure"
      using assms some True by (auto simp: review_resolve_def Let_def split: if_splits)
    moreover from this(3) have "?sure = outcomes" by (metis length_filter_less filter_True less_irrefl)
    ultimately show ?thesis using some by (auto simp: list_all_iff confident_def filter_id_conv)
  qed
qed

theorem model_cannot_override_a_conflict_witness:
  "resolution_applies (review_resolve (9 / 10) [NAME_ONLY_EVIDENCE] True
     [\<lparr>reviewed_person = 4, conflicting_features = [], review_answer = SAME_PERSON, review_confidence = 95 / 100\<rparr>])
     = Some LINK_TO_PERSON \<and> set [NAME_ONLY_EVIDENCE] \<inter> set blocking_reasons = {}"
proof -
  let ?r = "review_resolve (9 / 10) [NAME_ONLY_EVIDENCE] True
     [\<lparr>reviewed_person = 4, conflicting_features = [], review_answer = SAME_PERSON, review_confidence = 95 / 100\<rparr>]"
  have "resolution_applies ?r = Some LINK_TO_PERSON" by code_simp
  then show ?thesis using model_cannot_override_a_conflict by force
qed

end
