(* ===== verification/Persons_Store.thy ===== *)
theory Persons_Store
  imports AI_Review_Policy
begin

text \<open>
  The tables of entity resolution (\<open>persons/storage/models.py\<close>, the mentions and events of
  \<open>processing/storage/models.py\<close>) and the operations on them inside a session
  (\<open>persons/persistence.py\<close>, \<open>persons/manual_review_service.py\<close>). A session is an action: an
  exception leaves the session's state, and the transaction around it rolls back.
\<close>

section \<open>Rows\<close>

datatype person_status = ACTIVE | MERGED | NEEDS_REVIEW

datatype alias_origin = FROM_EXTRACTION | FROM_MANUAL | FROM_RESOLUTION | FROM_MERGE

record person_row =
  person_id :: nat
  person_canonical :: ustr
  person_normalized :: ustr
  person_key :: ustr
  person_status :: person_status
  merged_into :: "nat option"

record alias_row =
  alias_person :: nat
  alias_surface :: ustr
  alias_text :: ustr
  alias_key :: ustr
  alias_origin :: alias_origin
  alias_confidence :: rat
  alias_mention :: "nat option"

datatype entity_type = PERSON | ORGANIZATION | COURT | LOCATION | LEGAL_REFERENCE

datatype extraction_status = RUNNING | SUCCEEDED | FAILED

text \<open>The version of an extraction: at most one run has it for an article's text.\<close>

record extraction_version =
  run_article :: nat
  content_hash :: string
  extractor_name :: string
  extractor_version :: string
  normalizer_version :: string

record extraction_run_row =
  run_id :: nat
  run_version :: extraction_version
  extraction_status :: extraction_status
  run_error :: "string option"

text \<open>Of a mention's \<open>normalized_data\<close>: its key and full name, where they are texts.\<close>

record mention_row =
  mention_id :: nat
  mention_run :: nat
  mention_type :: entity_type
  mention_span :: "int \<times> int"
  mention_surface :: ustr
  mention_text :: ustr
  mention_key :: "ustr option"
  mention_full_name :: "ustr option"
  mention_confidence :: rat
  mention_person :: "nat option"

record event_row =
  event_id :: nat
  event_run :: nat
  event_kind :: string
  event_confidence :: rat

record event_mention_row =
  em_event :: nat
  em_mention :: nat
  em_role :: string

record link_row =
  link_person :: nat
  link_event :: nat
  link_role :: string
  link_confidence :: rat

datatype decision_status = APPLIED | PENDING_REVIEW | REVIEWED

record decision_row =
  decision_id :: nat
  decision_mention :: nat
  row_action :: resolution_action
  decision_status :: decision_status
  selected_person :: "nat option"
  row_score :: "rat option"
  row_margin :: "rat option"
  row_reasons :: "resolution_reason list"
  row_identity :: person_identity
  row_candidates :: "scored_candidate list"
  row_review_action :: "review_action option"
  distinct_from :: "nat option"
  reviewer_note :: "string option"

datatype review_state = PENDING | APPROVED | REJECTED | NEEDS_MORE_INFO

record review_row =
  review_id :: nat
  review_subject_type :: string
  review_subject :: nat
  review_state :: review_state
  review_reason :: "string option"
  review_note :: "string option"

record merge_row =
  merge_id :: nat
  merge_source :: nat
  merge_target :: nat
  merge_reason :: "string option"

record persons_db =
  person_rows :: "person_row list"
  alias_rows :: "alias_row list"
  mention_rows :: "mention_row list"
  event_rows :: "event_row list"
  event_mention_rows :: "event_mention_row list"
  link_rows :: "link_row list"
  decision_rows :: "decision_row list"
  review_rows :: "review_row list"
  merge_rows :: "merge_row list"
  extraction_run_rows :: "extraction_run_row list"
  next_person :: nat
  next_decision :: nat
  next_review :: nat
  next_merge :: nat
  next_run :: nat
  next_mention :: nat
  next_event :: nat

definition empty_db :: persons_db where
  "empty_db = \<lparr>person_rows = [], alias_rows = [], mention_rows = [], event_rows = [], event_mention_rows = [],
     link_rows = [], decision_rows = [], review_rows = [], merge_rows = [], extraction_run_rows = [],
     next_person = 0, next_decision = 0, next_review = 0, next_merge = 0, next_run = 0, next_mention = 0,
     next_event = 0\<rparr>"

datatype er_error =
    PersonMergeConflict string
  | ResolutionReviewNotFound string
  | ResolutionReviewState string
  | StoreValueError string
  | StoreRuntimeError string
  | StoreKeyError nat
  | StoreIndexError
  | IntegrityError

type_synonym 'a session = "(persons_db, er_error, 'a) action"

text \<open>\<open>session_factory.begin()\<close>: an exception rolls everything back.\<close>

definition transaction :: "'a session \<Rightarrow> 'a session" where
  "transaction m d = (case m d of (Inl e, _) \<Rightarrow> (Inl e, d) | (Inr x, d') \<Rightarrow> (Inr x, d'))"

definition readS :: "(persons_db \<Rightarrow> 'a) \<Rightarrow> 'a session" where
  "readS f d = (Inr (f d), d)"

definition writeS :: "(persons_db \<Rightarrow> persons_db) \<Rightarrow> unit session" where
  "writeS f d = (Inr (), f d)"

section \<open>Persons and aliases\<close>

definition active :: "persons_db \<Rightarrow> nat \<Rightarrow> bool" where
  "active d i \<longleftrightarrow> list_ex (\<lambda>p. person_id p = i \<and> person_status p = ACTIVE) (person_rows d)"

definition create_person :: "ustr \<Rightarrow> ustr \<Rightarrow> ustr \<Rightarrow> nat session" where
  "create_person canonical normalized key d =
     (Inr (next_person d), d\<lparr>person_rows := person_rows d @ [\<lparr>person_id = next_person d,
        person_canonical = canonical, person_normalized = normalized, person_key = key,
        person_status = ACTIVE, merged_into = None\<rparr>], next_person := Suc (next_person d)\<rparr>)"

definition create_alias :: "alias_row \<Rightarrow> unit session" where
  "create_alias a d =
     (if list_ex (\<lambda>x. alias_person x = alias_person a \<and> alias_surface x = alias_surface a) (alias_rows d)
      then (Inl IntegrityError, d)
      else (Inr (), d\<lparr>alias_rows := alias_rows d @ [a]\<rparr>))"

text \<open>In a savepoint: a duplicate only undoes this insert.\<close>

definition add_alias_if_not_exists :: "alias_row \<Rightarrow> bool session" where
  "add_alias_if_not_exists a = tryA (transaction (create_alias a)) (\<lambda>_. returnA True)
     (\<lambda>e. if e = IntegrityError then returnA False else raiseA e)"

definition create_person_with_alias :: "ustr \<Rightarrow> ustr \<Rightarrow> ustr \<Rightarrow> alias_row \<Rightarrow> nat session" where
  "create_person_with_alias canonical normalized key a = transaction
     (bindA (create_person canonical normalized key) (\<lambda>i.
        thenA (create_alias (a\<lparr>alias_person := i, alias_key := key\<rparr>)) (returnA i)))"

definition persons_by_key :: "ustr \<Rightarrow> persons_db \<Rightarrow> nat list" where
  "persons_by_key key d =
     sort (map person_id (filter (\<lambda>p. person_key p = key \<and> person_status p = ACTIVE) (person_rows d)))"

section \<open>Merging two persons\<close>

definition row_of_person :: "nat \<Rightarrow> persons_db \<Rightarrow> person_row option" where
  "row_of_person i d = row_by person_id i (person_rows d)"

fun status_value :: "person_status \<Rightarrow> string" where
  "status_value ACTIVE = ''active''"
| "status_value MERGED = ''merged''"
| "status_value NEEDS_REVIEW = ''needs_review''"

text \<open>
  One link or alias of the source: repointed to the target, or deleted when the target has
  the like. Its row stands for it: the tables' unique constraints make rows distinct.
\<close>

definition move_row ::
  "('r \<Rightarrow> nat) \<Rightarrow> ('r \<Rightarrow> 'k) \<Rightarrow> (nat \<Rightarrow> 'r \<Rightarrow> 'r) \<Rightarrow> nat \<Rightarrow> 'r list \<Rightarrow> 'r \<Rightarrow> 'r list" where
  "move_row owner key set_owner target rows r =
     (if list_ex (\<lambda>x. owner x = target \<and> key x = key r) rows
      then filter (\<lambda>x. x \<noteq> r) rows
      else map (\<lambda>x. if x = r then set_owner target x else x) rows)"

definition merge_rows_of ::
  "('r \<Rightarrow> nat) \<Rightarrow> ('r \<Rightarrow> 'k) \<Rightarrow> (nat \<Rightarrow> 'r \<Rightarrow> 'r) \<Rightarrow> nat \<Rightarrow> nat \<Rightarrow> 'r list \<Rightarrow> 'r list" where
  "merge_rows_of owner key set_owner source target rows =
     foldl (move_row owner key set_owner target) rows (filter (\<lambda>r. owner r = source) rows)"

definition link_key :: "link_row \<Rightarrow> nat \<times> string" where
  "link_key l = (link_event l, link_role l)"

definition merge_links :: "nat \<Rightarrow> nat \<Rightarrow> link_row list \<Rightarrow> link_row list" where
  "merge_links = merge_rows_of link_person link_key (\<lambda>i l. l\<lparr>link_person := i\<rparr>)"

definition merge_aliases :: "nat \<Rightarrow> nat \<Rightarrow> alias_row list \<Rightarrow> alias_row list" where
  "merge_aliases = merge_rows_of alias_person alias_surface (\<lambda>i a. a\<lparr>alias_person := i\<rparr>)"

definition merged_db :: "nat \<Rightarrow> nat \<Rightarrow> string option \<Rightarrow> persons_db \<Rightarrow> persons_db" where
  "merged_db source target reason d =
     d\<lparr>person_rows := update_rows (\<lambda>p. person_id p = source)
         (\<lambda>p. p\<lparr>person_status := MERGED, merged_into := Some target\<rparr>) (person_rows d),
       mention_rows := update_rows (\<lambda>m. mention_person m = Some source)
         (\<lambda>m. m\<lparr>mention_person := Some target\<rparr>) (mention_rows d),
       link_rows := merge_links source target (link_rows d),
       alias_rows := merge_aliases source target (alias_rows d),
       merge_rows := merge_rows d @ [\<lparr>merge_id = next_merge d, merge_source = source,
         merge_target = target, merge_reason = reason\<rparr>],
       next_merge := Suc (next_merge d)\<rparr>"

definition merge_persons :: "nat \<Rightarrow> nat \<Rightarrow> string option \<Rightarrow> nat session" where
  "merge_persons source target reason =
     (if source = target
      then raiseA (PersonMergeConflict (''cannot merge person '' @ digits_of source @ '' into itself''))
      else bindA (readS (row_of_person source)) (\<lambda>s. case s of
        None \<Rightarrow> raiseA (StoreValueError (''Source person '' @ digits_of source @ '' not found''))
      | Some s \<Rightarrow> bindA (readS (row_of_person target)) (\<lambda>t. case t of
          None \<Rightarrow> raiseA (StoreValueError (''Target person '' @ digits_of target @ '' not found''))
        | Some t \<Rightarrow> (case find (\<lambda>p. person_status p \<noteq> ACTIVE) [s, t] of
            Some p \<Rightarrow> raiseA (PersonMergeConflict (''person '' @ digits_of (person_id p) @ '' is '' @
              status_value (person_status p) @ '', not active; cannot merge''))
          | None \<Rightarrow> bindA (readS next_merge) (\<lambda>i.
              thenA (writeS (merged_db source target reason)) (returnA i))))))"

section \<open>Reviews by a human\<close>

definition pending_of :: "string \<Rightarrow> nat \<Rightarrow> review_row \<Rightarrow> bool" where
  "pending_of kind subject r \<longleftrightarrow>
     review_subject_type r = kind \<and> review_subject r = subject \<and> review_state r = PENDING"

text \<open>A second pending review of a subject breaks the partial unique index.\<close>

definition create_review :: "string \<Rightarrow> nat \<Rightarrow> string \<Rightarrow> nat session" where
  "create_review kind subject notes d =
     (if list_ex (pending_of kind subject) (review_rows d) then (Inl IntegrityError, d)
      else (Inr (next_review d), d\<lparr>review_rows := review_rows d @
          [\<lparr>review_id = next_review d, review_subject_type = kind, review_subject = subject,
            review_state = PENDING, review_reason = None, review_note = Some notes\<rparr>],
          next_review := Suc (next_review d)\<rparr>))"

text \<open>An insert that gives way to a pending review of the same subject.\<close>

definition get_or_create_pending_review :: "string \<Rightarrow> nat \<Rightarrow> string \<Rightarrow> (nat \<times> bool) session" where
  "get_or_create_pending_review kind subject reason d =
     (case find (pending_of kind subject) (review_rows d) of
        Some r \<Rightarrow> (Inr (review_id r, False), d)
      | None \<Rightarrow> (Inr (next_review d, True), d\<lparr>review_rows := review_rows d @
          [\<lparr>review_id = next_review d, review_subject_type = kind, review_subject = subject,
            review_state = PENDING, review_reason = Some reason, review_note = None\<rparr>],
          next_review := Suc (next_review d)\<rparr>))"

definition update_review_status :: "nat \<Rightarrow> review_state \<Rightarrow> string \<Rightarrow> unit session" where
  "update_review_status i state note =
     bindA (readS (\<lambda>d. row_by review_id i (review_rows d))) (\<lambda>r. case r of
       None \<Rightarrow> raiseA (StoreValueError (''Review '' @ digits_of i @ '' not found''))
     | Some _ \<Rightarrow> writeS (\<lambda>d. d\<lparr>review_rows := update_rows (\<lambda>r. review_id r = i)
         (\<lambda>r. r\<lparr>review_state := state, review_note := Some note\<rparr>) (review_rows d)\<rparr>))"

section \<open>Rows with an owner\<close>

text \<open>
  What links and aliases share: a row belongs to a person and has a key no other row of the
  person has. Merging leaves the source none, keeps the keys unique, and gives the target a
  row for every key it or the source had.
\<close>

locale owned_rows =
  fixes owner :: "'r \<Rightarrow> nat" and key :: "'r \<Rightarrow> 'k" and set_owner :: "nat \<Rightarrow> 'r \<Rightarrow> 'r"
  assumes owner_set: "owner (set_owner i r) = i"
    and key_set: "key (set_owner i r) = key r"
begin

definition unique_rows :: "'r list \<Rightarrow> bool" where
  "unique_rows rows \<longleftrightarrow> distinct (map (\<lambda>r. (owner r, key r)) rows)"

lemma unique_rows_eq:
  "unique_rows rows \<Longrightarrow> x \<in> set rows \<Longrightarrow> y \<in> set rows \<Longrightarrow> owner x = owner y \<Longrightarrow> key x = key y \<Longrightarrow> x = y"
  unfolding unique_rows_def by (auto simp: distinct_map inj_on_def)

lemma unique_rows_map:
  assumes "unique_rows rows" and "r \<in> set rows" and "\<not> list_ex (\<lambda>x. owner x = target \<and> key x = key r) rows"
  shows "unique_rows (map (\<lambda>x. if x = r then set_owner target x else x) rows)"
proof -
  let ?f = "\<lambda>x. if x = r then set_owner target x else x"
  have "inj_on (\<lambda>x. (owner (?f x), key (?f x))) (set rows)"
  proof (rule inj_onI)
    fix x y assume xy: "x \<in> set rows" "y \<in> set rows" "(owner (?f x), key (?f x)) = (owner (?f y), key (?f y))"
    show "x = y"
    proof (cases "x = r \<or> y = r")
      case True
      then show ?thesis using xy assms(2,3) by (auto simp: owner_set key_set list_ex_iff split: if_splits)
    next
      case False
      then show ?thesis using xy unique_rows_eq [OF assms(1)] by simp
    qed
  qed
  moreover have "distinct rows" using assms(1) by (auto simp: unique_rows_def distinct_map)
  ultimately show ?thesis by (simp add: unique_rows_def distinct_map comp_def)
qed

lemma move_row_keeps:
  assumes "unique_rows rows" and "r \<in> set rows" and "owner r = source" and "source \<noteq> target"
  shows "unique_rows (move_row owner key set_owner target rows r)"
    and "x \<in> set (move_row owner key set_owner target rows r) \<Longrightarrow> owner x = source \<Longrightarrow> x \<in> set rows \<and> x \<noteq> r"
    and "x \<in> set rows \<Longrightarrow> x \<noteq> r \<Longrightarrow> x \<in> set (move_row owner key set_owner target rows r)"
    and "x \<in> set (move_row owner key set_owner target rows r) \<Longrightarrow> owner x = target \<or> x \<in> set rows"
    and "\<exists>x \<in> set (move_row owner key set_owner target rows r). owner x = target \<and> key x = key r"
proof -
  let ?twin = "list_ex (\<lambda>x. owner x = target \<and> key x = key r) rows"
  have changed: "set_owner target r \<noteq> r" using assms(3,4) owner_set [of target r] by auto
  show "unique_rows (move_row owner key set_owner target rows r)"
  proof (cases ?twin)
    case True
    have "unique_rows (filter P rows)" for P using assms(1) by (simp add: unique_rows_def distinct_map_filter)
    then show ?thesis using True by (simp add: move_row_def)
  next
    case False
    then show ?thesis using unique_rows_map [OF assms(1,2)] by (simp add: move_row_def)
  qed
  show "x \<in> set (move_row owner key set_owner target rows r) \<Longrightarrow> owner x = source \<Longrightarrow> x \<in> set rows \<and> x \<noteq> r"
    using assms(3,4) changed by (auto simp: move_row_def owner_set split: if_splits)
  show "x \<in> set rows \<Longrightarrow> x \<noteq> r \<Longrightarrow> x \<in> set (move_row owner key set_owner target rows r)"
    by (force simp: move_row_def)
  show "x \<in> set (move_row owner key set_owner target rows r) \<Longrightarrow> owner x = target \<or> x \<in> set rows"
    by (auto simp: move_row_def owner_set split: if_splits)
  show "\<exists>x \<in> set (move_row owner key set_owner target rows r). owner x = target \<and> key x = key r"
  proof (cases ?twin)
    case True
    then obtain x where "x \<in> set rows" "owner x = target" "key x = key r" by (auto simp: list_ex_iff)
    then show ?thesis using True assms(3,4) by (auto simp: move_row_def)
  next
    case False
    then show ?thesis using assms(2) by (force simp: move_row_def owner_set key_set)
  qed
qed

lemma merge_rows_keep:
  assumes "unique_rows rows" and "source \<noteq> target"
  shows "unique_rows (merge_rows_of owner key set_owner source target rows)"
    and "\<forall>x \<in> set (merge_rows_of owner key set_owner source target rows). owner x \<noteq> source \<and>
      (owner x = target \<or> x \<in> set rows)"
    and "\<forall>x \<in> set rows. (owner x = target \<or> owner x = source \<longrightarrow>
        (\<exists>y \<in> set (merge_rows_of owner key set_owner source target rows). owner y = target \<and> key y = key x)) \<and>
      (owner x \<noteq> source \<longrightarrow> x \<in> set (merge_rows_of owner key set_owner source target rows))"
proof -
  have step: "unique_rows (foldl (move_row owner key set_owner target) now todo) \<and>
      (\<forall>x \<in> set (foldl (move_row owner key set_owner target) now todo). owner x \<noteq> source \<and> (owner x = target \<or> x \<in> set now)) \<and>
      (\<forall>x \<in> set todo. \<exists>y \<in> set (foldl (move_row owner key set_owner target) now todo). owner y = target \<and> key y = key x) \<and>
      (\<forall>x \<in> set now. owner x \<noteq> source \<longrightarrow> x \<in> set (foldl (move_row owner key set_owner target) now todo))"
    if "unique_rows now" "distinct todo" "\<forall>r \<in> set todo. r \<in> set now \<and> owner r = source"
      "\<forall>x \<in> set now. owner x = source \<longrightarrow> x \<in> set todo" for now todo
    using that
  proof (induction todo arbitrary: now)
    case (Cons r todo)
    have r: "r \<in> set now" "owner r = source" using Cons.prems(3) by simp_all
    note keeps = move_row_keeps [OF Cons.prems(1) r assms(2)]
    let ?next = "move_row owner key set_owner target now r"
    have "x \<in> set ?next \<and> owner x = source" if "x \<in> set todo" for x
      using keeps(3) [of x] Cons.prems(2,3) that by auto
    then have todo: "\<forall>x \<in> set todo. x \<in> set ?next \<and> owner x = source" by blast
    have "x \<in> set todo" if "x \<in> set ?next" "owner x = source" for x
      using keeps(2) [OF that] Cons.prems(4) that(2) by auto
    then have rest: "\<forall>x \<in> set ?next. owner x = source \<longrightarrow> x \<in> set todo" by blast
    have "distinct todo" using Cons.prems(2) by simp
    note ih = Cons.IH [OF keeps(1) this todo rest]
    have "\<exists>y \<in> set (foldl (move_row owner key set_owner target) ?next todo). owner y = target \<and> key y = key r"
      using keeps(5) ih assms(2) by auto
    moreover have "x \<in> set now \<Longrightarrow> owner x \<noteq> source \<Longrightarrow> x \<in> set (foldl (move_row owner key set_owner target) ?next todo)" for x
      using keeps(3) [of x] r(2) ih by auto
    moreover have "owner x \<noteq> source \<and> (owner x = target \<or> x \<in> set now)"
      if "x \<in> set (foldl (move_row owner key set_owner target) ?next todo)" for x
      using ih keeps(4) [of x] that by blast
    ultimately show ?case using ih by simp
  qed auto
  have "distinct rows" using assms(1) by (auto simp: unique_rows_def distinct_map)
  then have "distinct (filter (\<lambda>r. owner r = source) rows)" by simp
  moreover have "\<forall>r \<in> set (filter (\<lambda>r. owner r = source) rows). r \<in> set rows \<and> owner r = source"
    "\<forall>x \<in> set rows. owner x = source \<longrightarrow> x \<in> set (filter (\<lambda>r. owner r = source) rows)" by simp_all
  ultimately have step': "unique_rows (merge_rows_of owner key set_owner source target rows) \<and>
      (\<forall>x \<in> set (merge_rows_of owner key set_owner source target rows). owner x \<noteq> source \<and> (owner x = target \<or> x \<in> set rows)) \<and>
      (\<forall>x \<in> set (filter (\<lambda>r. owner r = source) rows).
        \<exists>y \<in> set (merge_rows_of owner key set_owner source target rows). owner y = target \<and> key y = key x) \<and>
      (\<forall>x \<in> set rows. owner x \<noteq> source \<longrightarrow> x \<in> set (merge_rows_of owner key set_owner source target rows))"
    unfolding merge_rows_of_def by (rule step [OF assms(1)])
  note all = conjunct1 [OF step'] conjunct1 [OF conjunct2 [OF step']]
    conjunct1 [OF conjunct2 [OF conjunct2 [OF step']]] conjunct2 [OF conjunct2 [OF conjunct2 [OF step']]]
  show "unique_rows (merge_rows_of owner key set_owner source target rows)"
    "\<forall>x \<in> set (merge_rows_of owner key set_owner source target rows). owner x \<noteq> source \<and>
      (owner x = target \<or> x \<in> set rows)"
    by (fact all(1), fact all(2))
  show "\<forall>x \<in> set rows. (owner x = target \<or> owner x = source \<longrightarrow>
        (\<exists>y \<in> set (merge_rows_of owner key set_owner source target rows). owner y = target \<and> key y = key x)) \<and>
      (owner x \<noteq> source \<longrightarrow> x \<in> set (merge_rows_of owner key set_owner source target rows))"
  proof (intro ballI conjI impI)
    fix x assume x: "x \<in> set rows"
    show "\<exists>y \<in> set (merge_rows_of owner key set_owner source target rows). owner y = target \<and> key y = key x"
      if "owner x = target \<or> owner x = source"
    proof (cases "owner x = source")
      case True
      then show ?thesis using all(3) x by simp
    next
      case False
      then show ?thesis using all(4) x that by blast
    qed
    show "x \<in> set (merge_rows_of owner key set_owner source target rows)" if "owner x \<noteq> source"
      using all(4) x that by blast
  qed
qed

end

interpretation person_links: owned_rows link_person link_key "\<lambda>i l. l\<lparr>link_person := i\<rparr>"
  by unfold_locales (simp_all add: link_key_def)

interpretation person_aliases: owned_rows alias_person alias_surface "\<lambda>i a. a\<lparr>alias_person := i\<rparr>"
  by unfold_locales simp_all

end
