(* ===== verification/Extraction_Runs.thy ===== *)
theory Extraction_Runs
  imports Persons_Store
begin

text \<open>
  Extraction of one document (\<open>processing/extraction\<close>): the pipeline from the extractors to a
  stored run, the validation of spans, and the store with its skip, its replacement of an
  unfinished run and the cascades of the tables' foreign keys. The extractors, the
  normalizers and the event rules are parameters.
\<close>

section \<open>What is extracted\<close>

record document =
  doc_article :: nat
  doc_title :: ustr
  doc_text :: ustr
  doc_published :: "int option"
  doc_source :: string
  doc_url :: string
  doc_hash :: string

record raw_mention =
  raw_type :: entity_type
  raw_surface :: ustr
  raw_start :: int
  raw_end :: int
  raw_confidence :: rat

record normalized_mention =
  norm_type :: entity_type
  norm_surface :: ustr
  norm_text :: ustr
  norm_start :: int
  norm_end :: int
  norm_confidence :: rat
  norm_key :: "ustr option"
  norm_full_name :: "ustr option"

text \<open>A link is a role and the index of a mention.\<close>

record event_mention =
  ev_kind :: string
  ev_start :: int
  ev_end :: int
  ev_confidence :: rat
  ev_links :: "(string \<times> nat) list"

record extraction_result =
  result_document :: document
  result_mentions :: "normalized_mention list"
  result_events :: "event_mention list"
  result_version :: extraction_version

record save_result =
  saved_run :: nat
  saved_article :: nat
  saved_status :: extraction_status
  mentions_created :: nat
  events_created :: nat
  skipped_existing :: bool
  saved_error :: "string option"

section \<open>The store\<close>

definition find_run :: "extraction_version \<Rightarrow> persons_db \<Rightarrow> extraction_run_row option" where
  "find_run v d = find (\<lambda>r. run_version r = v) (extraction_run_rows d)"

definition skipped :: "extraction_run_row \<Rightarrow> save_result" where
  "skipped r = \<lparr>saved_run = run_id r, saved_article = run_article (run_version r), saved_status = SUCCEEDED,
     mentions_created = 0, events_created = 0, skipped_existing = True, saved_error = None\<rparr>"

definition insert_run :: "extraction_version \<Rightarrow> extraction_status \<Rightarrow> nat session" where
  "insert_run v status d = (Inr (next_run d), d\<lparr>extraction_run_rows := extraction_run_rows d @
     [\<lparr>run_id = next_run d, run_version = v, extraction_status = status, run_error = None\<rparr>],
     next_run := Suc (next_run d)\<rparr>)"

definition set_run :: "nat \<Rightarrow> extraction_status \<Rightarrow> string option \<Rightarrow> unit session" where
  "set_run i status e = writeS (\<lambda>d. d\<lparr>extraction_run_rows := update_rows (\<lambda>r. run_id r = i)
     (\<lambda>r. r\<lparr>extraction_status := status, run_error := e\<rparr>) (extraction_run_rows d)\<rparr>)"

definition events_of_run :: "nat \<Rightarrow> persons_db \<Rightarrow> nat list" where
  "events_of_run run d = map event_id (filter (\<lambda>e. event_run e = run) (event_rows d))"

definition mentions_of_run :: "nat \<Rightarrow> persons_db \<Rightarrow> nat list" where
  "mentions_of_run run d = map mention_id (filter (\<lambda>m. mention_run m = run) (mention_rows d))"

text \<open>
  The rows of a run, with what refers to them: \<open>ON DELETE CASCADE\<close> for the links of an event
  and the decision of a mention, \<open>SET NULL\<close> for the mention an alias came from.
\<close>

definition without_children :: "nat \<Rightarrow> persons_db \<Rightarrow> persons_db" where
  "without_children run d =
     d\<lparr>event_mention_rows := filter (\<lambda>em. em_event em \<notin> set (events_of_run run d) \<and>
         em_mention em \<notin> set (mentions_of_run run d)) (event_mention_rows d),
       event_rows := filter (\<lambda>e. event_run e \<noteq> run) (event_rows d),
       link_rows := filter (\<lambda>l. link_event l \<notin> set (events_of_run run d)) (link_rows d),
       mention_rows := filter (\<lambda>m. mention_run m \<noteq> run) (mention_rows d),
       decision_rows := filter (\<lambda>r. decision_mention r \<notin> set (mentions_of_run run d)) (decision_rows d),
       alias_rows := update_rows (\<lambda>a. \<exists>i \<in> set (mentions_of_run run d). alias_mention a = Some i)
         (\<lambda>a. a\<lparr>alias_mention := None\<rparr>) (alias_rows d)\<rparr>"

definition delete_children :: "nat \<Rightarrow> unit session" where
  "delete_children run = writeS (without_children run)"

definition mention_row_of :: "nat \<Rightarrow> nat \<Rightarrow> normalized_mention \<Rightarrow> mention_row" where
  "mention_row_of i run m = \<lparr>mention_id = i, mention_run = run, mention_type = norm_type m,
     mention_span = (norm_start m, norm_end m), mention_surface = norm_surface m, mention_text = norm_text m,
     mention_key = norm_key m, mention_full_name = norm_full_name m, mention_confidence = norm_confidence m,
     mention_person = None\<rparr>"

definition insert_mention :: "nat \<Rightarrow> normalized_mention \<Rightarrow> nat list \<Rightarrow> nat list session" where
  "insert_mention run m ids d =
     (if list_ex (\<lambda>x. mention_run x = run \<and> mention_type x = norm_type m \<and>
           mention_span x = (norm_start m, norm_end m)) (mention_rows d)
      then (Inl IntegrityError, d)
      else (Inr (ids @ [next_mention d]), d\<lparr>mention_rows := mention_rows d @ [mention_row_of (next_mention d) run m],
        next_mention := Suc (next_mention d)\<rparr>))"

definition insert_event_mention :: "nat \<Rightarrow> nat list \<Rightarrow> string \<times> nat \<Rightarrow> unit \<Rightarrow> unit session" where
  "insert_event_mention event ids = (\<lambda>(role, index) _ d.
     if index \<ge> length ids then (Inl StoreIndexError, d)
     else let em = \<lparr>em_event = event, em_mention = ids ! index, em_role = role\<rparr> in
       if em \<in> set (event_mention_rows d) then (Inl IntegrityError, d)
       else (Inr (), d\<lparr>event_mention_rows := event_mention_rows d @ [em]\<rparr>))"

definition insert_event :: "nat \<Rightarrow> nat list \<Rightarrow> event_mention \<Rightarrow> unit \<Rightarrow> unit session" where
  "insert_event run ids e = (\<lambda>_.
     bindA (\<lambda>d. (Inr (next_event d), d\<lparr>event_rows := event_rows d @
         [\<lparr>event_id = next_event d, event_run = run, event_kind = ev_kind e, event_confidence = ev_confidence e\<rparr>],
         next_event := Suc (next_event d)\<rparr>)) (\<lambda>i.
       foldA (insert_event_mention i ids) (ev_links e) ()))"

definition save_children :: "extraction_result \<Rightarrow> nat \<Rightarrow> save_result session" where
  "save_children r run =
     thenA (set_run run RUNNING None) (thenA (delete_children run)
       (bindA (foldA (insert_mention run) (result_mentions r) []) (\<lambda>ids.
          thenA (foldA (insert_event run ids) (result_events r) ())
            (thenA (set_run run SUCCEEDED None)
              (returnA \<lparr>saved_run = run, saved_article = doc_article (result_document r), saved_status = SUCCEEDED,
                 mentions_created = length ids, events_created = length (result_events r),
                 skipped_existing = False, saved_error = None\<rparr>)))))"

definition save_session :: "extraction_result \<Rightarrow> save_result session" where
  "save_session r = bindA (readS (find_run (result_version r))) (\<lambda>existing. case existing of
     Some run \<Rightarrow> if extraction_status run = SUCCEEDED then returnA (skipped run)
       else save_children r (run_id run)
   | None \<Rightarrow> bindA (insert_run (result_version r) RUNNING) (save_children r))"

definition save :: "extraction_result \<Rightarrow> save_result session" where
  "save r = transaction (save_session r)"

definition fail_children :: "extraction_version \<Rightarrow> string \<Rightarrow> nat \<Rightarrow> save_result session" where
  "fail_children v message run =
     thenA (delete_children run) (thenA (set_run run FAILED (Some (take 2000 message)))
       (returnA \<lparr>saved_run = run, saved_article = run_article v, saved_status = FAILED,
          mentions_created = 0, events_created = 0, skipped_existing = False,
          saved_error = Some (take 2000 message)\<rparr>))"

definition save_failed_session :: "extraction_version \<Rightarrow> string \<Rightarrow> save_result session" where
  "save_failed_session v message = bindA (readS (find_run v)) (\<lambda>existing. case existing of
     Some run \<Rightarrow> if extraction_status run = SUCCEEDED then returnA (skipped run)
       else fail_children v message (run_id run)
   | None \<Rightarrow> bindA (insert_run v FAILED) (fail_children v message))"

definition save_failed :: "extraction_version \<Rightarrow> string \<Rightarrow> save_result session" where
  "save_failed v message = transaction (save_failed_session v message)"

section \<open>Validation\<close>

text \<open>A check gives the message of the \<open>ExtractionValidationError\<close> it raises.\<close>

definition validate_span :: "ustr \<Rightarrow> ustr \<Rightarrow> int \<Rightarrow> int \<Rightarrow> string option" where
  "validate_span t surface from to =
     (if from < 0 then Some ''start_offset must be non-negative''
      else if to > int (length t) then Some ''end_offset exceeds document text''
      else if from \<ge> to then Some ''start_offset must be less than end_offset''
      else if surface = [] then Some ''surface_text must not be empty''
      else if take (nat (to - from)) (drop (nat from) t) \<noteq> surface then Some ''span does not match surface_text''
      else None)"

definition validate_raw_mention :: "document \<Rightarrow> raw_mention \<Rightarrow> string option" where
  "validate_raw_mention doc m = validate_span (doc_text doc) (raw_surface m) (raw_start m) (raw_end m)"

definition validate_normalized_mention :: "document \<Rightarrow> normalized_mention \<Rightarrow> string option" where
  "validate_normalized_mention doc m = validate_span (doc_text doc) (norm_surface m) (norm_start m) (norm_end m)"

definition validate_event :: "document \<Rightarrow> nat \<Rightarrow> event_mention \<Rightarrow> string option" where
  "validate_event doc n e =
     (if ev_end e > int (length (doc_text doc)) then Some ''event span exceeds document text''
      else if list_ex (\<lambda>(role, index). index \<ge> n) (ev_links e)
      then Some ''event link mention_index is out of range'' else None)"

section \<open>The pipeline\<close>

datatype extraction_exn =
    ExtractionValidationError string
  | ExtractionValueError string
  | PatternError string
  | StopIterationError
  | OtherExtractionError string
  | SaveError er_error

record extractor =
  extract_name :: string
  extract_version :: string
  extract_from :: "document \<Rightarrow> extraction_exn + raw_mention list"

record normalizer =
  normalize_version :: string
  supports :: "entity_type \<Rightarrow> bool"
  normalize_mention :: "raw_mention \<Rightarrow> document \<Rightarrow> extraction_exn + normalized_mention"

record extraction_pipeline =
  extractors :: "extractor list"
  normalizers :: "normalizer list"
  event_name :: string
  event_version :: string
  extract_events :: "document \<Rightarrow> normalized_mention list \<Rightarrow> extraction_exn + event_mention list"

definition version_of :: "extraction_pipeline \<Rightarrow> document \<Rightarrow> extraction_version" where
  "version_of P doc = \<lparr>run_article = doc_article doc, content_hash = doc_hash doc,
     extractor_name = join_text ''+'' (map extract_name (extractors P) @ [event_name P]),
     extractor_version = join_text ''+'' (map extract_version (extractors P) @ [event_version P]),
     normalizer_version = join_text ''+'' (sort (remdups (map normalize_version (normalizers P))))\<rparr>"

text \<open>The first failure of a loop ends it.\<close>

definition bind_result :: "'e + 'a \<Rightarrow> ('a \<Rightarrow> 'e + 'b) \<Rightarrow> 'e + 'b" where
  "bind_result x f = (case x of Inl e \<Rightarrow> Inl e | Inr y \<Rightarrow> f y)"

fun map_results :: "('a \<Rightarrow> 'e + 'b) \<Rightarrow> 'a list \<Rightarrow> 'e + 'b list" where
  "map_results f [] = Inr []"
| "map_results f (x # xs) = bind_result (f x) (\<lambda>y. bind_result (map_results f xs) (\<lambda>ys. Inr (y # ys)))"

definition check_all :: "('a \<Rightarrow> string option) \<Rightarrow> 'a list \<Rightarrow> extraction_exn + unit" where
  "check_all validate xs = (case List.map_filter validate xs of
     [] \<Rightarrow> Inr () | message # _ \<Rightarrow> Inl (ExtractionValidationError message))"

fun entity_type_value :: "entity_type \<Rightarrow> string" where
  "entity_type_value PERSON = ''person''"
| "entity_type_value ORGANIZATION = ''organization''"
| "entity_type_value COURT = ''court''"
| "entity_type_value LOCATION = ''location''"
| "entity_type_value LEGAL_REFERENCE = ''legal_reference''"

definition normalize_raw :: "extraction_pipeline \<Rightarrow> document \<Rightarrow> raw_mention \<Rightarrow> extraction_exn + normalized_mention" where
  "normalize_raw P doc m = (case find (\<lambda>n. supports n (raw_type m)) (normalizers P) of
     None \<Rightarrow> Inl StopIterationError
   | Some n \<Rightarrow> normalize_mention n m doc)"

definition mention_order :: "normalized_mention \<Rightarrow> int \<times> int \<times> string \<times> ustr" where
  "mention_order m = (norm_start m, norm_end m, entity_type_value (norm_type m), norm_text m)"

definition mention_identity :: "normalized_mention \<Rightarrow> string \<times> int \<times> int \<times> ustr" where
  "mention_identity m = (entity_type_value (norm_type m), norm_start m, norm_end m, norm_surface m)"

fun deduplicate_after :: "(string \<times> int \<times> int \<times> ustr) list \<Rightarrow> normalized_mention list \<Rightarrow> normalized_mention list" where
  "deduplicate_after seen [] = []"
| "deduplicate_after seen (m # ms) =
     (if mention_identity m \<in> set seen then deduplicate_after seen ms
      else m # deduplicate_after (mention_identity m # seen) ms)"

definition deduplicate :: "normalized_mention list \<Rightarrow> normalized_mention list" where
  "deduplicate = deduplicate_after []"

text \<open>All of \<open>run\<close> before the save.\<close>

definition extracted :: "extraction_pipeline \<Rightarrow> document \<Rightarrow> extraction_exn + extraction_result" where
  "extracted P doc =
     bind_result (map_results (\<lambda>x. extract_from x doc) (extractors P)) (\<lambda>found.
     bind_result (check_all (validate_raw_mention doc) (concat found)) (\<lambda>_.
     bind_result (map_results (normalize_raw P doc) (concat found)) (\<lambda>normalized.
       let mentions = deduplicate (sort_key mention_order normalized) in
       bind_result (check_all (validate_normalized_mention doc) mentions) (\<lambda>_.
       bind_result (extract_events P doc mentions) (\<lambda>events.
       bind_result (check_all (validate_event doc (length mentions)) events) (\<lambda>_.
         Inr \<lparr>result_document = doc, result_mentions = mentions, result_events = events,
           result_version = version_of P doc\<rparr>))))))"

definition caught_message :: "extraction_exn \<Rightarrow> string option" where
  "caught_message e = (case e of ExtractionValidationError t \<Rightarrow> Some t | ExtractionValueError t \<Rightarrow> Some t
     | PatternError t \<Rightarrow> Some t | _ \<Rightarrow> None)"

definition stored :: "'a session \<Rightarrow> (persons_db, extraction_exn, 'a) action" where
  "stored m d = (case m d of (Inl e, d') \<Rightarrow> (Inl (SaveError e), d') | (Inr x, d') \<Rightarrow> (Inr x, d'))"

definition pipeline_run :: "extraction_pipeline \<Rightarrow> document \<Rightarrow> (persons_db, extraction_exn, save_result) action" where
  "pipeline_run P doc = (case extracted P doc of
     Inr r \<Rightarrow> stored (save r)
   | Inl e \<Rightarrow> (case caught_message e of
       Some t \<Rightarrow> stored (save_failed (version_of P doc) t)
     | None \<Rightarrow> raiseA e))"

end
