(* ===== verification/Person_Resolution.thy ===== *)
theory Person_Resolution
  imports Extraction_Runs
begin

text \<open>
  Entity resolution over its tables: the candidates of a mention (\<open>candidates.py\<close>), the plan and
  its application (\<open>service.py\<close>, \<open>resolution_service.py\<close>) and a reviewer's action
  (\<open>review.py\<close>). pg_trgm's similarities and the articles' dates are parameters; the advisory
  locks taken around a session change no row.
\<close>

record er_config =
  er_unicode :: unicode
  er_fuzzy :: fuzzy
  er_thresholds :: resolution_thresholds
  candidate_limit :: nat
  trigram_score :: "ustr \<Rightarrow> ustr \<Rightarrow> rat"
  word_score :: "ustr \<Rightarrow> ustr \<Rightarrow> rat"
  article_published :: "nat \<Rightarrow> int option"

section \<open>Candidates\<close>

definition max_aliases :: nat where "max_aliases = 20"
definition trigram_min :: rat where "trigram_min = 3 / 10"
definition word_min :: rat where "word_min = 5 / 10"
definition min_block_token :: nat where "min_block_token = 3"

text \<open>\<open>CandidateConfig.__post_init__\<close>.\<close>

definition valid_limit :: "int \<Rightarrow> bool" where
  "valid_limit n \<longleftrightarrow> 2 \<le> n \<and> n \<le> 200"

definition aliases_of :: "persons_db \<Rightarrow> nat \<Rightarrow> ustr list" where
  "aliases_of d i = take max_aliases
     (unique (map alias_text (filter (\<lambda>a. alias_person a = i) (alias_rows d))))"

definition load_candidate :: "persons_db \<Rightarrow> candidate_source \<Rightarrow> nat \<Rightarrow> person_candidate option" where
  "load_candidate d source i =
     (case find (\<lambda>p. person_id p = i \<and> person_status p = ACTIVE) (person_rows d) of
        None \<Rightarrow> None
      | Some p \<Rightarrow> Some \<lparr>candidate_person = i, canonical_name = person_normalized p,
          matching_key = person_key p, candidate_aliases = aliases_of d i,
          candidate_sources = [source], trigram_similarity = None\<rparr>)"

definition load_candidates :: "persons_db \<Rightarrow> nat list \<Rightarrow> candidate_source \<Rightarrow> person_candidate list" where
  "load_candidates d ids source = List.map_filter (load_candidate d source) ids"

definition alias_keyed :: "persons_db \<Rightarrow> ustr \<Rightarrow> nat \<Rightarrow> bool" where
  "alias_keyed d key i \<longleftrightarrow> list_ex (\<lambda>a. alias_person a = i \<and> alias_key a = key) (alias_rows d)"

text \<open>By name or alias key, the name's first. \<open>sorted(sources)\<close> goes by the values' letters.\<close>

definition exact_candidates :: "person_identity \<Rightarrow> nat \<Rightarrow> persons_db \<Rightarrow> person_candidate list" where
  "exact_candidates identity limit d = (case identity_key identity of
     None \<Rightarrow> []
   | Some key \<Rightarrow> if key = [] then [] else
       (let found = filter (\<lambda>p. person_status p = ACTIVE \<and> (person_key p = key \<or> alias_keyed d key (person_id p)))
              (person_rows d);
            rows = take limit (sort_key (\<lambda>p. (if person_key p = key then 0 else 1 :: nat, person_id p)) found)
        in List.map_filter (\<lambda>p. map_option
             (\<lambda>c. c\<lparr>candidate_sources := (if alias_keyed d key (person_id p) then [ALIAS] else []) @
                (if person_key p = key then [EXACT_KEY] else [])\<rparr>)
             (load_candidate d EXACT_KEY (person_id p))) rows))"

definition round4 :: "rat \<Rightarrow> rat" where
  "round4 x = of_int (round_half_even (x * 10000)) / 10000"

definition text_hit :: "er_config \<Rightarrow> ustr \<Rightarrow> ustr list \<Rightarrow> ustr \<Rightarrow> bool" where
  "text_hit C query tokens t \<longleftrightarrow> trigram_score C t query \<ge> trigram_min \<or>
     list_ex (\<lambda>token. word_score C token t \<ge> word_min) tokens"

definition text_score :: "er_config \<Rightarrow> ustr \<Rightarrow> ustr list \<Rightarrow> ustr \<Rightarrow> rat" where
  "text_score C query tokens t = foldl max (trigram_score C t query) (map (\<lambda>token. word_score C token t) tokens)"

text \<open>The hits of the union, one per person with its best score.\<close>

definition trigram_hits :: "er_config \<Rightarrow> ustr \<Rightarrow> ustr list \<Rightarrow> persons_db \<Rightarrow> (nat \<times> rat) list" where
  "trigram_hits C query tokens d =
     (let names = map (\<lambda>p. (person_id p, text_score C query tokens (person_normalized p)))
            (filter (\<lambda>p. person_status p = ACTIVE \<and> text_hit C query tokens (person_normalized p)) (person_rows d));
          aliases = map (\<lambda>a. (alias_person a, text_score C query tokens (alias_text a)))
            (filter (\<lambda>a. active d (alias_person a) \<and> text_hit C query tokens (alias_text a)) (alias_rows d));
          hits = names @ aliases
      in map (\<lambda>i. (i, foldl max (the (map_of hits i)) (map snd (filter (\<lambda>h. fst h = i) hits))))
           (unique (map fst hits)))"

definition trigram_candidates :: "er_config \<Rightarrow> person_identity \<Rightarrow> nat \<Rightarrow> persons_db \<Rightarrow> person_candidate list" where
  "trigram_candidates C identity limit d =
     (let name = normalize (er_unicode C) (identity_name identity);
          tokens = filter (\<lambda>t. length t \<ge> min_block_token) (full_tokens name)
      in if name_tokens name = [] then [] else
         List.map_filter (\<lambda>(i, score). map_option (\<lambda>c. c\<lparr>trigram_similarity := Some (round4 score)\<rparr>)
             (load_candidate d TRIGRAM i))
           (take limit (sort_key (\<lambda>(i, score). (- score, i)) (trigram_hits C (canonical_form name) tokens d))))"

definition max_option :: "rat option \<Rightarrow> rat option \<Rightarrow> rat option" where
  "max_option l r = (case (l, r) of (Some x, Some y) \<Rightarrow> Some (max x y) | (None, _) \<Rightarrow> r | _ \<Rightarrow> l)"

definition source_rank :: "candidate_source \<Rightarrow> nat" where
  "source_rank s = (case s of ALIAS \<Rightarrow> 0 | EXACT_KEY \<Rightarrow> 1 | TRIGRAM \<Rightarrow> 2)"

definition merge_candidate :: "person_candidate option \<Rightarrow> person_candidate \<Rightarrow> person_candidate" where
  "merge_candidate existing new = (case existing of
     None \<Rightarrow> new
   | Some c \<Rightarrow> c\<lparr>candidate_sources := sort_key source_rank (remdups (candidate_sources c @ candidate_sources new)),
       trigram_similarity := max_option (trigram_similarity c) (trigram_similarity new)\<rparr>)"

definition add_candidate :: "(nat, person_candidate) dict \<Rightarrow> person_candidate \<Rightarrow> (nat, person_candidate) dict" where
  "add_candidate merged c =
     dict_set (candidate_person c) (merge_candidate (dict_get merged (candidate_person c)) c) merged"

definition candidate_order :: "person_candidate \<Rightarrow> nat \<times> rat \<times> nat" where
  "candidate_order c = (if EXACT_KEY \<in> set (candidate_sources c) \<or> ALIAS \<in> set (candidate_sources c) then 0 else 1,
     - (case trigram_similarity c of None \<Rightarrow> 0 | Some x \<Rightarrow> x), candidate_person c)"

definition composite_candidates :: "nat \<Rightarrow> person_candidate list list \<Rightarrow> person_candidate list" where
  "composite_candidates limit found =
     take limit (sort_key candidate_order (map snd (foldl add_candidate [] (concat found))))"

definition generate_candidates :: "er_config \<Rightarrow> person_identity \<Rightarrow> persons_db \<Rightarrow> person_candidate list" where
  "generate_candidates C identity d = composite_candidates (candidate_limit C)
     [exact_candidates identity (candidate_limit C) d, trigram_candidates C identity (candidate_limit C) d]"

section \<open>The context of a mention\<close>

definition article_of_run :: "persons_db \<Rightarrow> nat \<Rightarrow> nat option" where
  "article_of_run d run = map_option (\<lambda>r. run_article (run_version r)) (row_by run_id run (extraction_run_rows d))"

definition persons_in_article :: "persons_db \<Rightarrow> nat option \<Rightarrow> nat option \<Rightarrow> nat list" where
  "persons_in_article d article exclude = (case article of
     None \<Rightarrow> []
   | Some _ \<Rightarrow> List.map_filter mention_person (filter (\<lambda>m. article_of_run d (mention_run m) = article \<and>
       mention_type m = PERSON \<and> Some (mention_id m) \<noteq> exclude) (mention_rows d)))"

definition case_event_kinds :: "string list" where
  "case_event_kinds = [''case_opened'', ''charge'', ''arrest'', ''detention'', ''sentence'', ''search'', ''fine'']"

definition case_window :: int where "case_window = 180 * 24 * 60 * 60 * 1000000"

text \<open>The mention is the only target of an event of a case.\<close>

definition is_case_target :: "persons_db \<Rightarrow> nat \<Rightarrow> bool" where
  "is_case_target d mention \<longleftrightarrow> list_ex (\<lambda>em. em_mention em = mention \<and> em_role em = ''target'' \<and>
     list_ex (\<lambda>e. event_id e = em_event em \<and> event_kind e \<in> set case_event_kinds) (event_rows d) \<and>
     length (filter (\<lambda>x. em_event x = em_event em \<and> em_role x = ''target'') (event_mention_rows d)) = 1)
     (event_mention_rows d)"

definition persons_in_case_context :: "er_config \<Rightarrow> persons_db \<Rightarrow> person_identity \<Rightarrow> nat list \<Rightarrow> nat list" where
  "persons_in_case_context C d identity ids = (case (identity_mention identity, identity_article identity) of
     (Some mention, Some article) \<Rightarrow>
       if ids = [] \<or> \<not> is_case_target d mention then []
       else (case article_published C article of
           None \<Rightarrow> []
         | Some moment \<Rightarrow>
             (let near = (\<lambda>run. case article_of_run d run of None \<Rightarrow> False
                  | Some a \<Rightarrow> (case article_published C a of None \<Rightarrow> False
                      | Some t \<Rightarrow> moment - case_window \<le> t \<and> t \<le> moment + case_window))
              in filter (\<lambda>i. list_ex (\<lambda>m. mention_person m = Some i \<and> near (mention_run m)) (mention_rows d)) ids))
   | _ \<Rightarrow> [])"

definition known_distinct_pairs :: "persons_db \<Rightarrow> nat list \<Rightarrow> nat set set" where
  "known_distinct_pairs d ids = set (List.map_filter (\<lambda>r. case (selected_person r, distinct_from r) of
     (Some s, Some t) \<Rightarrow> if s \<in> set ids \<and> t \<in> set ids \<and> s \<noteq> t then Some {s, t} else None
   | _ \<Rightarrow> None) (if length ids < 2 then [] else decision_rows d))"

section \<open>The plan\<close>

definition score_candidate ::
  "er_config \<Rightarrow> person_identity \<Rightarrow> nat list \<Rightarrow> nat list \<Rightarrow> person_candidate \<Rightarrow> scored_candidate" where
  "score_candidate C identity in_article in_case c =
     (let f = extract_features (er_unicode C) (er_fuzzy C) identity c;
          f = (if candidate_person c \<in> set in_article then f\<lparr>same_article_mention := True\<rparr> else f);
          f = (if candidate_person c \<in> set in_case then f\<lparr>case_context_match := True\<rparr> else f)
      in \<lparr>scored_person = c, scored_features = f, scored_score = person_score_of f\<rparr>)"

definition plan :: "er_config \<Rightarrow> person_identity \<Rightarrow> persons_db \<Rightarrow> resolution_decision" where
  "plan C identity d =
     (let name = normalize (er_unicode C) (identity_name identity);
          found = generate_candidates C identity d;
          in_article = persons_in_article d (identity_article identity) (identity_mention identity);
          in_case = persons_in_case_context C d identity (map candidate_person found);
          scored = map (score_candidate C identity in_article in_case) found
      in decide (er_thresholds C) name scored (known_distinct_pairs d (map candidate_person found)))"

definition identity_from_mention :: "mention_row \<Rightarrow> nat option \<Rightarrow> person_identity option" where
  "identity_from_mention m article = (case mention_key m of
     None \<Rightarrow> None
   | Some key \<Rightarrow> if key = [] then None else Some
       \<lparr>identity_name = (case mention_full_name m of None \<Rightarrow> mention_text m
          | Some t \<Rightarrow> if t = [] then mention_text m else t),
        identity_surface = Some (mention_surface m), identity_key = Some key,
        identity_mention = Some (mention_id m), identity_article = article\<rparr>)"

text \<open>The identity blocks a worker locks: sorted, so that no two workers wait for each other.\<close>

definition advisory_lock_keys :: "normalized_name list \<Rightarrow> ustr list" where
  "advisory_lock_keys names = sort (remdups (map (\<lambda>key. ascii ''person_block:'' @ key) (concat (map block_keys names))))"

section \<open>Resolving a mention\<close>

record mention_outcome =
  outcome_mention :: nat
  outcome_person :: "nat option"
  outcome_action :: resolution_action
  outcome_created :: bool
  outcome_decision :: "nat option"
  outcome_reused :: bool

definition existing_outcome :: "mention_row \<Rightarrow> persons_db \<Rightarrow> mention_outcome option" where
  "existing_outcome m d = (case find (\<lambda>r. decision_mention r = mention_id m) (decision_rows d) of
     Some r \<Rightarrow> Some \<lparr>outcome_mention = mention_id m, outcome_person = mention_person m,
       outcome_action = row_action r, outcome_created = False, outcome_decision = Some (decision_id r),
       outcome_reused = True\<rparr>
   | None \<Rightarrow> (case mention_person m of
       Some i \<Rightarrow> Some \<lparr>outcome_mention = mention_id m, outcome_person = Some i, outcome_action = AUTO_LINK,
         outcome_created = False, outcome_decision = None, outcome_reused = True\<rparr>
     | None \<Rightarrow> None))"

text \<open>\<open>session.refresh(mention)\<close>.\<close>

definition refreshed :: "mention_row \<Rightarrow> persons_db \<Rightarrow> mention_row" where
  "refreshed m d = (case row_by mention_id (mention_id m) (mention_rows d) of None \<Rightarrow> m | Some m' \<Rightarrow> m')"

text \<open>An insert that gives way to a decision another worker recorded for the mention.\<close>

definition record_decision :: "mention_row \<Rightarrow> person_identity \<Rightarrow> resolution_decision \<Rightarrow> nat option session" where
  "record_decision m identity p d =
     (if list_ex (\<lambda>r. decision_mention r = mention_id m) (decision_rows d) then (Inr None, d)
      else (Inr (Some (next_decision d)), d\<lparr>decision_rows := decision_rows d @
        [\<lparr>decision_id = next_decision d, decision_mention = mention_id m, row_action = decision_action p,
          decision_status = (if decision_action p = REVIEW then PENDING_REVIEW else APPLIED),
          selected_person = decision_person p,
          row_score = (case decision_candidates p of [] \<Rightarrow> None | c # _ \<Rightarrow> Some (score_of c)),
          row_margin = decision_margin p, row_reasons = decision_reasons p, row_identity = identity,
          row_candidates = decision_candidates p, row_review_action = None, distinct_from = None,
          reviewer_note = None\<rparr>],
        next_decision := Suc (next_decision d)\<rparr>))"

definition review_subject_kind :: string where "review_subject_kind = ''person_resolution''"

definition set_mention_person :: "nat \<Rightarrow> nat \<Rightarrow> unit session" where
  "set_mention_person mention i = writeS (\<lambda>d. d\<lparr>mention_rows := update_rows (\<lambda>m. mention_id m = mention)
     (\<lambda>m. m\<lparr>mention_person := Some i\<rparr>) (mention_rows d)\<rparr>)"

definition set_selected_person :: "nat \<Rightarrow> nat \<Rightarrow> unit session" where
  "set_selected_person decision i = writeS (\<lambda>d. d\<lparr>decision_rows := update_rows (\<lambda>r. decision_id r = decision)
     (\<lambda>r. r\<lparr>selected_person := Some i\<rparr>) (decision_rows d)\<rparr>)"

definition new_alias :: "nat \<Rightarrow> mention_row \<Rightarrow> person_identity \<Rightarrow> alias_origin \<Rightarrow> alias_row" where
  "new_alias i m identity origin = \<lparr>alias_person = i, alias_surface = mention_surface m,
     alias_text = identity_name identity,
     alias_key = (case identity_key identity of None \<Rightarrow> [] | Some key \<Rightarrow> key),
     alias_origin = origin, alias_confidence = mention_confidence m, alias_mention = Some (mention_id m)\<rparr>"

text \<open>The person of an applied decision: a new one with its first alias, or the one selected.\<close>

definition person_for :: "er_config \<Rightarrow> mention_row \<Rightarrow> person_identity \<Rightarrow> resolution_decision \<Rightarrow> nat session" where
  "person_for C m identity p =
     (if decision_action p = CREATE_NEW
      then bindA (create_person (identity_name identity) (identity_name identity)
               (case identity_key identity of None \<Rightarrow> [] | Some key \<Rightarrow> key)) (\<lambda>i.
             thenA (create_alias (new_alias i m identity FROM_EXTRACTION)) (returnA i))
      else (case find (\<lambda>c. Some (scored_id c) = decision_person p) (decision_candidates p) of
          None \<Rightarrow> raiseA (StoreRuntimeError (''auto-link without a selected person for mention '' @ digits_of (mention_id m)))
        | Some c \<Rightarrow>
            thenA (if should_promote (er_unicode C) (identity_name identity) (scored_features c)
                   then add_alias_if_not_exists (new_alias (scored_id c) m identity FROM_RESOLUTION) else returnA False)
              (returnA (scored_id c))))"

definition apply_plan :: "er_config \<Rightarrow> mention_row \<Rightarrow> person_identity \<Rightarrow> resolution_decision \<Rightarrow> nat \<Rightarrow> mention_outcome session" where
  "apply_plan C m identity p decision =
     (if decision_action p = REVIEW
      then thenA (get_or_create_pending_review review_subject_kind decision
               (join_text '','' (map reason_value (decision_reasons p))))
             (returnA \<lparr>outcome_mention = mention_id m, outcome_person = None, outcome_action = decision_action p,
                outcome_created = False, outcome_decision = Some decision, outcome_reused = False\<rparr>)
      else bindA (person_for C m identity p) (\<lambda>i.
             thenA (set_mention_person (mention_id m) i) (thenA (set_selected_person decision i)
               (returnA \<lparr>outcome_mention = mention_id m, outcome_person = Some i,
                  outcome_action = decision_action p, outcome_created = (decision_action p = CREATE_NEW),
                  outcome_decision = Some decision, outcome_reused = False\<rparr>))))"

text \<open>The session's object of a mention is its row as it is now.\<close>

definition resolve_mention :: "er_config \<Rightarrow> mention_row \<Rightarrow> mention_outcome option session" where
  "resolve_mention C mention =
     bindA (readS (refreshed mention)) (\<lambda>m.
     bindA (readS (\<lambda>d. article_of_run d (mention_run m))) (\<lambda>article.
       case identity_from_mention m article of
         None \<Rightarrow> returnA None
       | Some identity \<Rightarrow> bindA (readS (existing_outcome m)) (\<lambda>existing. case existing of
           Some o' \<Rightarrow> returnA (Some o')
         | None \<Rightarrow> bindA (readS (plan C identity)) (\<lambda>p.
             bindA (record_decision m identity p) (\<lambda>recorded. case recorded of
               None \<Rightarrow> readS (\<lambda>d. existing_outcome (refreshed m d) d)
             | Some decision \<Rightarrow> bindA (apply_plan C m identity p decision) (\<lambda>o'. returnA (Some o')))))))"

section \<open>Resolving an extraction run\<close>

record run_stats =
  mentions_processed :: int
  mentions_resolved :: int
  new_persons_created :: int
  events_linked :: int
  reviews_pending :: int
  mentions_reused :: int

definition count_outcome :: "mention_outcome \<Rightarrow> run_stats \<Rightarrow> run_stats" where
  "count_outcome o' s = s\<lparr>
     mentions_resolved := mentions_resolved s + (if outcome_person o' \<noteq> None then 1 else 0),
     new_persons_created := new_persons_created s + (if outcome_created o' then 1 else 0),
     reviews_pending := reviews_pending s + (if outcome_action o' = REVIEW \<and> outcome_person o' = None then 1 else 0),
     mentions_reused := mentions_reused s + (if outcome_reused o' \<and> outcome_person o' \<noteq> None then 1 else 0)\<rparr>"

definition resolve_each ::
  "er_config \<Rightarrow> mention_row \<Rightarrow> (nat, nat) dict \<times> run_stats \<Rightarrow> ((nat, nat) dict \<times> run_stats) session" where
  "resolve_each C m = (\<lambda>(persons, stats). bindA (resolve_mention C m) (\<lambda>resolved. case resolved of
     None \<Rightarrow> returnA (persons, stats)
   | Some o' \<Rightarrow> returnA ((case outcome_person o' of None \<Rightarrow> persons | Some i \<Rightarrow> dict_set (mention_id m) i persons),
       count_outcome o' stats)))"

text \<open>A person-event link, once per person, event and role.\<close>

definition add_link :: "nat \<Rightarrow> nat \<Rightarrow> string \<Rightarrow> rat \<Rightarrow> int session" where
  "add_link i event role confidence d =
     (if list_ex (\<lambda>l. link_person l = i \<and> link_event l = event \<and> link_role l = role) (link_rows d)
      then (Inr 0, d)
      else (Inr 1, d\<lparr>link_rows := link_rows d @
        [\<lparr>link_person = i, link_event = event, link_role = role, link_confidence = confidence\<rparr>]\<rparr>))"

definition person_of_mention :: "(nat, nat) dict \<Rightarrow> nat \<Rightarrow> persons_db \<Rightarrow> nat option" where
  "person_of_mention persons mention d = (case dict_get persons mention of
     Some i \<Rightarrow> Some i
   | None \<Rightarrow> (case row_by mention_id mention (mention_rows d) of None \<Rightarrow> None | Some m \<Rightarrow> mention_person m))"

definition link_participants :: "(nat, nat) dict \<Rightarrow> event_row \<Rightarrow> int \<Rightarrow> int session" where
  "link_participants persons e linked =
     bindA (readS (\<lambda>d. filter (\<lambda>em. em_event em = event_id e) (event_mention_rows d))) (\<lambda>participants.
       foldA (\<lambda>em n. bindA (readS (person_of_mention persons (em_mention em))) (\<lambda>person. case person of
           None \<Rightarrow> returnA n
         | Some i \<Rightarrow> bindA (add_link i (event_id e) (em_role em) (event_confidence e)) (\<lambda>k. returnA (n + k))))
         participants linked)"

definition resolve_run_session :: "er_config \<Rightarrow> nat \<Rightarrow> run_stats session" where
  "resolve_run_session C run =
     bindA (readS (\<lambda>d. filter (\<lambda>m. mention_run m = run \<and> mention_type m = PERSON) (mention_rows d))) (\<lambda>mentions.
     bindA (foldA (resolve_each C) mentions ([], \<lparr>mentions_processed = int (length mentions),
         mentions_resolved = 0, new_persons_created = 0, events_linked = 0, reviews_pending = 0,
         mentions_reused = 0\<rparr>)) (\<lambda>(persons, stats).
     bindA (readS (\<lambda>d. filter (\<lambda>e. event_run e = run) (event_rows d))) (\<lambda>events.
     bindA (foldA (link_participants persons) events (events_linked stats)) (\<lambda>linked.
       returnA (stats\<lparr>events_linked := linked\<rparr>)))))"

definition resolve_extraction_run :: "er_config \<Rightarrow> nat \<Rightarrow> run_stats session" where
  "resolve_extraction_run C run = transaction (resolve_run_session C run)"

section \<open>A reviewer's action\<close>

fun action_value :: "review_action \<Rightarrow> string" where
  "action_value LINK_TO_PERSON = ''link_to_person''"
| "action_value CREATE_NEW_PERSON = ''create_new_person''"
| "action_value MERGE_PERSONS = ''merge_persons''"
| "action_value KEEP_SEPARATE = ''keep_separate''"

fun decision_status_value :: "decision_status \<Rightarrow> string" where
  "decision_status_value APPLIED = ''applied''"
| "decision_status_value PENDING_REVIEW = ''pending_review''"
| "decision_status_value REVIEWED = ''reviewed''"

definition require_active :: "nat \<Rightarrow> unit session" where
  "require_active i = bindA (readS (row_of_person i)) (\<lambda>p. case p of
     None \<Rightarrow> raiseA (ResolutionReviewState (''person '' @ digits_of i @ '' is not active (None)''))
   | Some p \<Rightarrow> if person_status p = ACTIVE then returnA ()
       else raiseA (ResolutionReviewState (''person '' @ digits_of i @ '' is not active ('' @
         status_value (person_status p) @ '')'')))"

definition create_reviewed_person :: "person_identity \<Rightarrow> mention_row \<Rightarrow> nat session" where
  "create_reviewed_person identity m =
     bindA (create_person (identity_name identity) (identity_name identity)
         (case identity_key identity of None \<Rightarrow> [] | Some key \<Rightarrow> key)) (\<lambda>i.
       thenA (add_alias_if_not_exists (new_alias i m identity FROM_MANUAL)) (returnA i))"

definition promote_alias :: "er_config \<Rightarrow> person_identity \<Rightarrow> mention_row \<Rightarrow> nat \<Rightarrow> bool session" where
  "promote_alias C identity m i = bindA (readS (\<lambda>d. load_candidate d EXACT_KEY i)) (\<lambda>c. case c of
     None \<Rightarrow> raiseA (StoreKeyError i)
   | Some c \<Rightarrow> if should_promote (er_unicode C) (identity_name identity)
           (extract_features (er_unicode C) (er_fuzzy C) identity c)
       then add_alias_if_not_exists (new_alias i m identity FROM_MANUAL) else returnA False)"

definition link_mention_events :: "nat \<Rightarrow> nat \<Rightarrow> int session" where
  "link_mention_events mention i =
     bindA (readS (\<lambda>d. List.map_filter (\<lambda>em. case row_by event_id (em_event em) (event_rows d) of
           None \<Rightarrow> None | Some e \<Rightarrow> Some (em_event em, em_role em, event_confidence e))
         (filter (\<lambda>em. em_mention em = mention) (event_mention_rows d)))) (\<lambda>rows.
       foldA (\<lambda>(event, role, confidence) n. bindA (add_link i event role confidence) (\<lambda>k. returnA (n + k)))
         rows 0)"

text \<open>
  The person a reviewer's action comes to, and the merge it made; the row of the decision may
  name another person as distinct.
\<close>

definition review_target ::
  "er_config \<Rightarrow> nat \<Rightarrow> person_identity \<Rightarrow> mention_row \<Rightarrow> review_action \<Rightarrow> nat option \<Rightarrow> nat option \<Rightarrow> string
   \<Rightarrow> (nat \<times> nat option) session" where
  "review_target C decision identity m action person source note = (case action of
     CREATE_NEW_PERSON \<Rightarrow> bindA (create_reviewed_person identity m) (\<lambda>i. returnA (i, None))
   | MERGE_PERSONS \<Rightarrow> (case (person, source) of
        (Some target, Some s) \<Rightarrow>
          if target = s then raiseA (ResolutionReviewState ''merge_persons needs distinct person_id (target) and source_person_id'')
          else thenA (require_active target) (thenA (require_active s)
            (tryA (merge_persons s target (Some (strip_string (''person resolution review of decision '' @ digits_of decision @ '': '' @ note))))
               (\<lambda>merge. returnA (target, Some merge))
               (\<lambda>e. case e of PersonMergeConflict t \<Rightarrow> raiseA (ResolutionReviewState t) | _ \<Rightarrow> raiseA e)))
      | _ \<Rightarrow> raiseA (ResolutionReviewState ''merge_persons needs distinct person_id (target) and source_person_id''))
   | _ \<Rightarrow> (case person of
        None \<Rightarrow> raiseA (ResolutionReviewState (action_value action @ '' needs person_id''))
      | Some target \<Rightarrow> thenA (require_active target)
          (thenA (if action \<noteq> KEEP_SEPARATE then returnA ()
              else (case source of
                  Some s \<Rightarrow> if s = target
                    then raiseA (ResolutionReviewState ''keep_separate needs person_id (linked) and a distinct source_person_id (the different person)'')
                    else thenA (require_active s) (writeS (\<lambda>d. d\<lparr>decision_rows :=
                      update_rows (\<lambda>r. decision_id r = decision) (\<lambda>r. r\<lparr>distinct_from := Some s\<rparr>) (decision_rows d)\<rparr>))
                | None \<Rightarrow> raiseA (ResolutionReviewState ''keep_separate needs person_id (linked) and a distinct source_person_id (the different person)'')))
            (thenA (promote_alias C identity m target) (returnA (target, None))))))"

definition latest_review :: "nat \<Rightarrow> persons_db \<Rightarrow> nat option" where
  "latest_review decision d = (case filter (\<lambda>r. review_subject_type r = review_subject_kind \<and>
       review_subject r = decision) (review_rows d) of
     [] \<Rightarrow> None | rs \<Rightarrow> Some (Max (set (map review_id rs))))"

record review_result =
  result_decision :: nat
  result_action :: review_action
  result_person :: nat
  result_created :: bool
  result_merge :: "nat option"
  result_linked :: int

definition close_decision :: "nat \<Rightarrow> review_action \<Rightarrow> nat \<Rightarrow> string option \<Rightarrow> unit session" where
  "close_decision decision action target note = writeS (\<lambda>d. d\<lparr>decision_rows :=
     update_rows (\<lambda>r. decision_id r = decision) (\<lambda>r. r\<lparr>decision_status := REVIEWED,
       row_review_action := Some action, selected_person := Some target, reviewer_note := note\<rparr>) (decision_rows d)\<rparr>)"

definition apply_review ::
  "er_config \<Rightarrow> nat \<Rightarrow> review_action \<Rightarrow> nat option \<Rightarrow> nat option \<Rightarrow> string option \<Rightarrow> review_result session" where
  "apply_review C decision action person source note =
     bindA (readS (\<lambda>d. row_by decision_id decision (decision_rows d))) (\<lambda>found. case found of
       None \<Rightarrow> raiseA (ResolutionReviewNotFound (''person resolution decision '' @ digits_of decision @ '' not found''))
     | Some r \<Rightarrow>
         if decision_status r \<noteq> PENDING_REVIEW
         then raiseA (ResolutionReviewState (''decision '' @ digits_of decision @ '' is '' @
           decision_status_value (decision_status r) @ '', not pending review''))
         else bindA (readS (\<lambda>d. row_by mention_id (decision_mention r) (mention_rows d))) (\<lambda>mention. case mention of
           None \<Rightarrow> raiseA (StoreRuntimeError ''no row was found when one was required'')
         | Some m \<Rightarrow>
             (let identity = (row_identity r)\<lparr>identity_mention := Some (mention_id m), identity_article := None\<rparr>;
                  words = (case note of None \<Rightarrow> [] | Some t \<Rightarrow> t) in
              bindA (review_target C decision identity m action person source words) (\<lambda>(target, merge).
              thenA (set_mention_person (mention_id m) target)
                (bindA (link_mention_events (mention_id m) target) (\<lambda>linked.
                 thenA (close_decision decision action target note)
                   (bindA (readS (latest_review decision)) (\<lambda>review.
                    thenA (case review of None \<Rightarrow> returnA ()
                         | Some i \<Rightarrow> update_review_status i APPROVED (strip_string (action_value action @ '': '' @ words)))
                      (returnA \<lparr>result_decision = decision, result_action = action, result_person = target,
                         result_created = (action = CREATE_NEW_PERSON), result_merge = merge,
                         result_linked = linked\<rparr>)))))))))"

section \<open>Deciding the review queue again\<close>

text \<open>\<open>redecide.py\<close>: the reviews for want of more than a name, each in its own transaction.\<close>

record redecide_summary =
  redecide_checked :: nat
  redecide_linkable :: nat
  redecide_linked :: nat

definition redecide_note :: string where
  "redecide_note = ''auto: case_context_match (ADR 0012 amendment 2026-09-17)''"

definition name_only_reviews :: "nat option \<Rightarrow> persons_db \<Rightarrow> nat list" where
  "name_only_reviews limit d =
     (let ids = sort (map decision_id (filter (\<lambda>r. decision_status r = PENDING_REVIEW \<and>
        NAME_ONLY_EVIDENCE \<in> set (row_reasons r)) (decision_rows d)))
      in case limit of None \<Rightarrow> ids | Some n \<Rightarrow> take n ids)"

definition redecide_one :: "er_config \<Rightarrow> bool \<Rightarrow> nat \<Rightarrow> redecide_summary \<Rightarrow> redecide_summary session" where
  "redecide_one C apply decision s = transaction
     (bindA (readS (\<lambda>d. row_by decision_id decision (decision_rows d))) (\<lambda>found. case found of
        None \<Rightarrow> raiseA (StoreRuntimeError ''no row was found when one was required'')
      | Some r \<Rightarrow> bindA (readS (\<lambda>d. row_by mention_id (decision_mention r) (mention_rows d))) (\<lambda>mention. case mention of
        None \<Rightarrow> raiseA (StoreRuntimeError ''no row was found when one was required'')
      | Some m \<Rightarrow> bindA (readS (\<lambda>d. identity_from_mention m (article_of_run d (mention_run m)))) (\<lambda>identity. case identity of
        None \<Rightarrow> returnA s
      | Some identity \<Rightarrow> bindA (readS (plan C identity)) (\<lambda>p.
          if decision_action p \<noteq> AUTO_LINK then returnA s
          else let s = s\<lparr>redecide_linkable := redecide_linkable s + 1\<rparr> in
            if \<not> apply then returnA s
            else thenA (apply_review C decision LINK_TO_PERSON (decision_person p) None (Some redecide_note))
              (returnA (s\<lparr>redecide_linked := redecide_linked s + 1\<rparr>)))))))"

definition redecide_reviews :: "er_config \<Rightarrow> bool \<Rightarrow> nat option \<Rightarrow> redecide_summary session" where
  "redecide_reviews C apply limit = bindA (readS (name_only_reviews limit)) (\<lambda>ids.
     foldA (redecide_one C apply) ids
       \<lparr>redecide_checked = length ids, redecide_linkable = 0, redecide_linked = 0\<rparr>)"

end
