(* ===== verification/Extraction_Stored.thy ===== *)
theory Extraction_Stored
  imports Extraction_Runs
begin

text \<open>
  What the pipeline extracts is what the store holds: the validated, deduplicated mentions fit
  the tables' constraints, and the run's rows give them back.
\<close>

section \<open>What validation and deduplication leave\<close>

lemma bind_result_Inr: "bind_result x f = Inr z \<longleftrightarrow> (\<exists>y. x = Inr y \<and> f y = Inr z)"
  by (auto simp: bind_result_def split: sum.splits)

lemma map_filter_Nil: "List.map_filter f xs = [] \<longleftrightarrow> (\<forall>x \<in> set xs. f x = None)"
  by (induction xs) (auto simp: List.map_filter_simps split: option.splits)

lemma check_all_Inr: "check_all validate xs = Inr u \<longleftrightarrow> (\<forall>x \<in> set xs. validate x = None)"
proof -
  have "check_all validate xs = Inr u \<longleftrightarrow> List.map_filter validate xs = []" by (simp add: check_all_def split: list.split)
  then show ?thesis by (simp add: map_filter_Nil)
qed

lemma deduplicated_unseen:
  "m \<in> set (deduplicate_after seen ms) \<Longrightarrow> mention_identity m \<notin> set seen"
  by (induction seen ms rule: deduplicate_after.induct) (auto split: if_splits)

lemma deduplicated: "distinct (map mention_identity (deduplicate_after seen ms))"
proof (induction ms arbitrary: seen)
  case (Cons m ms)
  have "mention_identity m \<notin> mention_identity ` set (deduplicate_after (mention_identity m # seen) ms)"
    by (metis deduplicated_unseen imageE list.set_intros(1))
  then show ?case using Cons.IH by simp
qed simp

lemma valid_surface:
  "validate_normalized_mention doc m = None \<Longrightarrow>
   norm_surface m = take (nat (norm_end m - norm_start m)) (drop (nat (norm_start m)) (doc_text doc))"
  by (auto simp: validate_normalized_mention_def validate_span_def split: if_splits)

definition span_of :: "normalized_mention \<Rightarrow> entity_type \<times> int \<times> int" where
  "span_of m = (norm_type m, norm_start m, norm_end m)"

lemma extracted_parts:
  assumes "extracted P doc = Inr r"
  shows "distinct (map mention_identity (result_mentions r)) \<and>
    (\<forall>m \<in> set (result_mentions r). validate_normalized_mention doc m = None) \<and>
    (\<forall>e \<in> set (result_events r). validate_event doc (length (result_mentions r)) e = None) \<and>
    result_document r = doc \<and> result_version r = version_of P doc"
  using assms deduplicated [of "[]"]
  by (auto simp: extracted_def Let_def bind_result_Inr check_all_Inr deduplicate_def)

lemma extracted_spans:
  assumes "extracted P doc = Inr r"
  shows "distinct (map span_of (result_mentions r))"
proof -
  note parts = extracted_parts [OF assms]
  have "x = y" if xy: "x \<in> set (result_mentions r)" "y \<in> set (result_mentions r)" "span_of x = span_of y" for x y
  proof -
    have "norm_surface x = norm_surface y"
      using valid_surface parts xy by (metis (no_types, lifting) Pair_inject span_of_def)
    then have "mention_identity x = mention_identity y" using xy(3) by (simp add: mention_identity_def span_of_def)
    then show ?thesis using parts xy(1,2) by (auto dest: inj_onD simp: distinct_map)
  qed
  moreover have "distinct (result_mentions r)" using parts by (auto simp: distinct_map)
  ultimately show ?thesis by (simp add: distinct_map inj_on_def)
qed

lemma extracted_links:
  "extracted P doc = Inr r \<Longrightarrow> e \<in> set (result_events r) \<Longrightarrow> (role, i) \<in> set (ev_links e) \<Longrightarrow> i < length (result_mentions r)"
  using extracted_parts [of P doc r]
  by (fastforce simp: validate_event_def list_ex_iff split: if_splits)

section \<open>The mentions' rows\<close>

definition stored_mention :: "mention_row \<Rightarrow> normalized_mention" where
  "stored_mention m = \<lparr>norm_type = mention_type m, norm_surface = mention_surface m, norm_text = mention_text m,
     norm_start = fst (mention_span m), norm_end = snd (mention_span m), norm_confidence = mention_confidence m,
     norm_key = mention_key m, norm_full_name = mention_full_name m\<rparr>"

lemma stored_row [simp]: "stored_mention (mention_row_of i run m) = m"
  by (simp add: stored_mention_def mention_row_of_def)

lemma row_of_run [simp]: "mention_run (mention_row_of i run m) = run"
  by (simp add: mention_row_of_def)

text \<open>The mentions of a run, read back.\<close>

definition read_mentions :: "nat \<Rightarrow> persons_db \<Rightarrow> normalized_mention list" where
  "read_mentions run d = map stored_mention (filter (\<lambda>m. mention_run m = run) (mention_rows d))"

lemma insert_mention_new:
  assumes "span_of m \<notin> span_of ` set (read_mentions run d)"
  shows "insert_mention run m ids d = (Inr (ids @ [next_mention d]),
    d\<lparr>mention_rows := mention_rows d @ [mention_row_of (next_mention d) run m], next_mention := Suc (next_mention d)\<rparr>)"
proof -
  have "\<not> list_ex (\<lambda>x. mention_run x = run \<and> mention_type x = norm_type m \<and>
      mention_span x = (norm_start m, norm_end m)) (mention_rows d)"
    using assms by (force simp: list_ex_iff read_mentions_def span_of_def stored_mention_def image_iff)
  then show ?thesis by (simp add: insert_mention_def)
qed

lemma insert_mentions:
  assumes "distinct (map span_of ms)" and "span_of ` set ms \<inter> span_of ` set (read_mentions run d) = {}"
  shows "\<exists>d'. foldA (insert_mention run) ms ids d = (Inr (ids @ [next_mention d ..< next_mention d + length ms]), d') \<and>
    read_mentions run d' = read_mentions run d @ ms \<and> next_event d' = next_event d \<and>
    event_mention_rows d' = event_mention_rows d"
  using assms
proof (induction ms arbitrary: d ids)
  case (Cons m ms)
  let ?d = "d\<lparr>mention_rows := mention_rows d @ [mention_row_of (next_mention d) run m], next_mention := Suc (next_mention d)\<rparr>"
  have step: "insert_mention run m ids d = (Inr (ids @ [next_mention d]), ?d)"
    by (rule insert_mention_new) (use Cons.prems(2) in auto)
  have read: "read_mentions run ?d = read_mentions run d @ [m]" by (simp add: read_mentions_def)
  have "span_of ` set ms \<inter> span_of ` set (read_mentions run ?d) = {}" using Cons.prems by (auto simp: read)
  then obtain d' where "foldA (insert_mention run) ms (ids @ [next_mention d]) ?d =
      (Inr ((ids @ [next_mention d]) @ [next_mention ?d ..< next_mention ?d + length ms]), d')"
    "read_mentions run d' = read_mentions run ?d @ ms" "next_event d' = next_event ?d" "event_mention_rows d' = event_mention_rows ?d"
    using Cons.IH [of ?d "ids @ [next_mention d]"] Cons.prems(1) by auto
  moreover have "[n ..< Suc (n + k)] = n # [Suc n ..< Suc (n + k)]" for n k by (rule upt_conv_Cons) simp
  ultimately show ?case using step read by (auto simp: bindA_def simp del: upt_Suc)
qed simp

section \<open>The events' rows\<close>

lemma insert_links:
  assumes "distinct ls" and "\<forall>(role, i) \<in> set ls. i < length ids" and "distinct ids"
    and "\<forall>(role, i) \<in> set ls. \<lparr>em_event = event, em_mention = ids ! i, em_role = role\<rparr> \<notin> set (event_mention_rows d)"
  shows "foldA (insert_event_mention event ids) ls () d = (Inr (),
    d\<lparr>event_mention_rows := event_mention_rows d @ map (\<lambda>(role, i). \<lparr>em_event = event, em_mention = ids ! i, em_role = role\<rparr>) ls\<rparr>)"
  using assms
proof (induction ls arbitrary: d)
  case (Cons l ls)
  obtain role i where l: "l = (role, i)" by fastforce
  let ?em = "\<lparr>em_event = event, em_mention = ids ! i, em_role = role\<rparr>"
  let ?d = "d\<lparr>event_mention_rows := event_mention_rows d @ [?em]\<rparr>"
  have step: "insert_event_mention event ids l () d = (Inr (), ?d)"
    using Cons.prems(2,4) by (auto simp: l insert_event_mention_def)
  have "\<forall>(role', j) \<in> set ls. \<lparr>em_event = event, em_mention = ids ! j, em_role = role'\<rparr> \<notin> set (event_mention_rows ?d)"
    using Cons.prems l by (fastforce simp: nth_eq_iff_index_eq)
  then have "foldA (insert_event_mention event ids) ls () ?d = (Inr (),
      ?d\<lparr>event_mention_rows := event_mention_rows ?d @ map (\<lambda>(role, i). \<lparr>em_event = event, em_mention = ids ! i, em_role = role\<rparr>) ls\<rparr>)"
    using Cons.IH [of ?d] Cons.prems(1-3) by simp
  then show ?case using step by (simp add: bindA_def l)
qed simp

definition event_ids_fresh :: "persons_db \<Rightarrow> bool" where
  "event_ids_fresh d \<longleftrightarrow> (\<forall>em \<in> set (event_mention_rows d). em_event em < next_event d)"

lemma insert_event_new:
  assumes "distinct (ev_links e)" and "\<forall>(role, i) \<in> set (ev_links e). i < length ids" and "distinct ids" and "event_ids_fresh d"
  shows "\<exists>d'. insert_event run ids e () d = (Inr (), d') \<and> event_ids_fresh d' \<and> mention_rows d' = mention_rows d"
proof -
  let ?d = "d\<lparr>event_rows := event_rows d @ [\<lparr>event_id = next_event d, event_run = run, event_kind = ev_kind e,
     event_confidence = ev_confidence e\<rparr>], next_event := Suc (next_event d)\<rparr>"
  have "\<forall>(role, i) \<in> set (ev_links e). \<lparr>em_event = next_event d, em_mention = ids ! i, em_role = role\<rparr> \<notin> set (event_mention_rows ?d)"
    using assms(4) by (auto simp: event_ids_fresh_def)
  note links = insert_links [OF assms(1-3) this]
  show ?thesis
    using links assms(4) by (auto simp: insert_event_def bindA_def event_ids_fresh_def less_Suc_eq)
qed

lemma insert_events:
  assumes "\<forall>e \<in> set es. distinct (ev_links e) \<and> (\<forall>(role, i) \<in> set (ev_links e). i < length ids)" and "distinct ids"
    and "event_ids_fresh d"
  shows "\<exists>d'. foldA (insert_event run ids) es () d = (Inr (), d') \<and> mention_rows d' = mention_rows d"
  using assms
proof (induction es arbitrary: d)
  case (Cons e es)
  obtain d1 where d1: "insert_event run ids e () d = (Inr (), d1)" "event_ids_fresh d1" "mention_rows d1 = mention_rows d"
    using insert_event_new [of e ids d run] Cons.prems by auto
  obtain d2 where "foldA (insert_event run ids) es () d1 = (Inr (), d2)" "mention_rows d2 = mention_rows d1"
    using Cons.IH [of d1] Cons.prems d1(2) by auto
  then show ?case using d1 by (simp add: bindA_def)
qed simp

section \<open>The run\<close>

lemma children_saved:
  assumes "extracted P doc = Inr r" and "\<forall>e \<in> set (result_events r). distinct (ev_links e)" and "event_ids_fresh d"
  shows "\<exists>res d'. save_children r run d = (Inr res, d') \<and> saved_run res = run \<and> saved_status res = SUCCEEDED \<and>
    \<not> skipped_existing res \<and> read_mentions run d' = result_mentions r"
proof -
  let ?ms = "result_mentions r"
  obtain d1 where d1: "set_run run RUNNING None d = (Inr (), d1)" "event_mention_rows d1 = event_mention_rows d" "next_event d1 = next_event d"
    by (simp add: set_run_def writeS_def)
  let ?d2 = "without_children run d1"
  have d2: "delete_children run d1 = (Inr (), ?d2)" by (simp add: delete_children_def writeS_def)
  have none: "read_mentions run ?d2 = []" by (simp add: read_mentions_def without_children_def)
  obtain d3 where d3: "foldA (insert_mention run) ?ms [] ?d2 = (Inr [next_mention ?d2 ..< next_mention ?d2 + length ?ms], d3)"
    "read_mentions run d3 = ?ms" "next_event d3 = next_event ?d2" "event_mention_rows d3 = event_mention_rows ?d2"
    using insert_mentions [OF extracted_spans [OF assms(1)], of run ?d2 "[]"] none by auto
  have fresh: "event_ids_fresh d3" using assms(3) d1 d3(3,4) by (auto simp: event_ids_fresh_def without_children_def)
  have links: "\<forall>e \<in> set (result_events r). distinct (ev_links e) \<and>
      (\<forall>(role, i) \<in> set (ev_links e). i < length [next_mention ?d2 ..< next_mention ?d2 + length ?ms])"
    using assms(2) extracted_links [OF assms(1)] by auto
  obtain d4 where d4: "foldA (insert_event run [next_mention ?d2 ..< next_mention ?d2 + length ?ms]) (result_events r) () d3 = (Inr (), d4)"
    "mention_rows d4 = mention_rows d3"
    using insert_events [OF links distinct_upt fresh, of run] by (elim exE conjE) (rule that)
  have "read_mentions run (snd (set_run run SUCCEEDED None d4)) = ?ms"
    using d3(2) d4(2) by (simp add: read_mentions_def set_run_def writeS_def)
  then show ?thesis
    using d1(1) d2 d3(1) d4(1) by (simp add: save_children_def bindA_def thenA_def set_run_def writeS_def returnA_def)
qed

text \<open>C28. What the pipeline extracted from a document is stored without breaking a constraint of the
  tables, and the mentions read back from the run's rows are the extracted ones, in their order,
  whatever an earlier unfinished run of the version had left. The event rules give no link
  twice; event ids come from a sequence.\<close>

theorem stored_mentions_read_back:
  assumes "extracted P doc = Inr r" and "\<forall>e \<in> set (result_events r). distinct (ev_links e)" and "event_ids_fresh d"
    and "\<forall>x. find_run (version_of P doc) d = Some x \<longrightarrow> extraction_status x \<noteq> SUCCEEDED"
  shows "\<exists>res d'. pipeline_run P doc d = (Inr res, d') \<and> saved_status res = SUCCEEDED \<and> \<not> skipped_existing res \<and>
    read_mentions (saved_run res) d' = result_mentions r"
proof -
  have version: "result_version r = version_of P doc" using extracted_parts [OF assms(1)] by simp
  have "\<exists>res d'. save_session r d = (Inr res, d') \<and> saved_status res = SUCCEEDED \<and> \<not> skipped_existing res \<and>
      read_mentions (saved_run res) d' = result_mentions r"
  proof (cases "find_run (version_of P doc) d")
    case None
    let ?d = "snd (insert_run (version_of P doc) RUNNING d)"
    have "event_ids_fresh ?d" using assms(3) by (simp add: insert_run_def event_ids_fresh_def)
    from children_saved [OF assms(1,2) this, of "next_run d"] show ?thesis
      by (auto simp: save_session_def version None readS_def bindA_def insert_run_def)
  next
    case (Some x)
    then have "extraction_status x \<noteq> SUCCEEDED" using assms(4) by simp
    then show ?thesis using children_saved [OF assms(1-3), of "run_id x"]
      by (auto simp: save_session_def version Some readS_def bindA_def)
  qed
  then show ?thesis using assms(1) by (auto simp: pipeline_run_def stored_def save_def transaction_def)
qed

text \<open>A document that names one person.\<close>

definition sample_name :: ustr where
  "sample_name = ru ''ivanov ivan''"

definition sample_document :: document where
  "sample_document = \<lparr>doc_article = 5, doc_title = [], doc_text = sample_name, doc_published = None,
     doc_source = ''s'', doc_url = ''u'', doc_hash = ''h''\<rparr>"

definition sample_mention :: normalized_mention where
  "sample_mention = \<lparr>norm_type = PERSON, norm_surface = sample_name, norm_text = sample_name, norm_start = 0, norm_end = 11,
     norm_confidence = 1, norm_key = Some sample_name, norm_full_name = Some sample_name\<rparr>"

definition sample_pipeline :: extraction_pipeline where
  "sample_pipeline = \<lparr>extractors = [\<lparr>extract_name = ''e'', extract_version = ''1'',
       extract_from = (\<lambda>_. Inr [\<lparr>raw_type = PERSON, raw_surface = sample_name, raw_start = 0, raw_end = 11, raw_confidence = 1\<rparr>])\<rparr>],
     normalizers = [\<lparr>normalize_version = ''1'', supports = (\<lambda>_. True),
       normalize_mention = (\<lambda>_ _. Inr sample_mention)\<rparr>],
     event_name = ''v'', event_version = ''1'', extract_events = (\<lambda>_ _. Inr [])\<rparr>"

theorem stored_mentions_read_back_witness:
  "\<exists>res d'. pipeline_run sample_pipeline sample_document empty_db = (Inr res, d') \<and>
     read_mentions (saved_run res) d' = [sample_mention]"
proof -
  have ext: "extracted sample_pipeline sample_document = Inr \<lparr>result_document = sample_document,
      result_mentions = [sample_mention], result_events = [], result_version = version_of sample_pipeline sample_document\<rparr>"
    by code_simp
  have "event_ids_fresh empty_db" "\<forall>x. find_run (version_of sample_pipeline sample_document) empty_db = Some x \<longrightarrow>
      extraction_status x \<noteq> SUCCEEDED"
    by (simp_all add: event_ids_fresh_def empty_db_def find_run_def)
  from stored_mentions_read_back [OF ext _ this] show ?thesis by auto
qed

end
