(* ===== verification/Person_Invariants.thy ===== *)
theory Person_Invariants
  imports Person_Resolution Extraction_Stored
begin

text \<open>
  What every operation on the tables of entity resolution keeps: references only to active
  persons, keys that stay unique, and a mention without a person exactly while its decision
  waits for a review.
\<close>

section \<open>What an action that returns leaves\<close>

definition yields :: "('s \<Rightarrow> bool) \<Rightarrow> ('s, 'e, 'a) action \<Rightarrow> ('a \<Rightarrow> 's \<Rightarrow> bool) \<Rightarrow> bool" where
  "yields P m Q \<longleftrightarrow> (\<forall>s x t. P s \<longrightarrow> m s = (Inr x, t) \<longrightarrow> Q x t)"

named_theorems yields_intros \<open>the rules of \<open>yields\<close> along the code's control flow\<close>

lemma yieldsI: "(\<And>s x t. P s \<Longrightarrow> m s = (Inr x, t) \<Longrightarrow> Q x t) \<Longrightarrow> yields P m Q"
  by (simp add: yields_def)

lemma yieldsD: "yields P m Q \<Longrightarrow> P s \<Longrightarrow> m s = (Inr x, t) \<Longrightarrow> Q x t"
  by (auto simp: yields_def)

lemma yields_return: "(\<And>s. P s \<Longrightarrow> Q x s) \<Longrightarrow> yields P (returnA x) Q"
  by (auto simp: yields_def)

lemma yields_raise [yields_intros]: "yields P (raiseA e) Q"
  by (simp add: yields_def)

lemma yields_bind: "yields P m R \<Longrightarrow> (\<And>x. yields (R x) (f x) Q) \<Longrightarrow> yields P (bindA m f) Q"
  unfolding yields_def bindA_Inr by blast

lemma yields_then: "yields P m R \<Longrightarrow> (\<And>x. yields (R x) k Q) \<Longrightarrow> yields P (thenA m k) Q"
  unfolding thenA_def by (rule yields_bind)

lemma yields_pre: "yields P m Q \<Longrightarrow> (\<And>s. P' s \<Longrightarrow> P s) \<Longrightarrow> yields P' m Q"
  by (auto simp: yields_def)

lemma yields_post: "yields P m Q \<Longrightarrow> (\<And>x s. Q x s \<Longrightarrow> Q' x s) \<Longrightarrow> yields P m Q'"
  unfolding yields_def by blast

lemma yields_given: "(\<And>s. P s \<Longrightarrow> c) \<Longrightarrow> (c \<Longrightarrow> yields P m Q) \<Longrightarrow> yields P m Q"
  unfolding yields_def by blast

lemma yields_try:
  assumes "yields P m R" and "\<And>x. yields (R x) (ok x) Q" and "\<And>e s t x. handler e s \<noteq> (Inr x, t)"
  shows "yields P (tryA m ok handler) Q"
  using assms unfolding yields_def tryA_def by (fastforce split: prod.splits sum.splits)

lemma yields_fold:
  "(\<And>x a. x \<in> set xs \<Longrightarrow> yields (P a) (f x a) P) \<Longrightarrow> yields (P a) (foldA f xs a) P"
  by (induction xs arbitrary: a) (auto intro: yields_return yields_bind)

lemma yields_obeys:
  "yields P m Q \<Longrightarrow> obeys R m \<Longrightarrow> state_order R \<Longrightarrow> yields (\<lambda>s. P s \<and> R s0 s) m (\<lambda>x s. Q x s \<and> R s0 s)"
  unfolding yields_def obeys_def state_order_def by (metis snd_conv)

lemma yields_read: "yields P (readS f) (\<lambda>x d. P d \<and> x = f d)"
  by (auto simp: yields_def readS_def)

lemma yields_bind_read: "(\<And>x. yields P (f x) Q) \<Longrightarrow> yields P (bindA (readS g) f) Q"
  by (auto simp: yields_def bindA_Inr readS_def)

lemma yields_option: "yields P m Q \<Longrightarrow> (\<And>x. yields P (f x) Q) \<Longrightarrow> yields P (case v of None \<Rightarrow> m | Some x \<Rightarrow> f x) Q"
  by (cases v) simp_all

lemma yields_if: "yields P m Q \<Longrightarrow> yields P k Q \<Longrightarrow> yields P (if b then m else k) Q"
  by simp

lemma yields_write: "(\<And>d. P d \<Longrightarrow> Q () (f d)) \<Longrightarrow> yields P (writeS f) Q"
  by (auto simp: yields_def writeS_def)

text \<open>A transaction that fails changes nothing, so what success keeps is kept.\<close>

lemma transaction_keeps: "yields P m (\<lambda>_. P) \<Longrightarrow> P d \<Longrightarrow> P (snd (transaction m d))"
  unfolding yields_def transaction_def by (auto split: prod.splits sum.splits)

lemma yields_transaction: "yields P m Q \<Longrightarrow> yields P (transaction m) Q"
  unfolding yields_def transaction_def by (auto split: prod.splits sum.splits)

section \<open>Consistent tables\<close>

definition rows_ok :: "persons_db \<Rightarrow> bool" where
  "rows_ok d \<longleftrightarrow> distinct (map person_id (person_rows d)) \<and> (\<forall>p \<in> set (person_rows d). person_id p < next_person d) \<and>
     distinct (map mention_id (mention_rows d)) \<and> (\<forall>m \<in> set (mention_rows d). mention_id m < next_mention d) \<and>
     distinct (map decision_id (decision_rows d)) \<and> (\<forall>r \<in> set (decision_rows d). decision_id r < next_decision d) \<and>
     distinct (map decision_mention (decision_rows d)) \<and>
     person_links.unique_rows (link_rows d) \<and> person_aliases.unique_rows (alias_rows d)"

definition refs_ok :: "persons_db \<Rightarrow> bool" where
  "refs_ok d \<longleftrightarrow> (\<forall>m \<in> set (mention_rows d). \<forall>i. mention_person m = Some i \<longrightarrow> active d i) \<and>
     (\<forall>a \<in> set (alias_rows d). active d (alias_person a)) \<and> (\<forall>l \<in> set (link_rows d). active d (link_person l))"

text \<open>Outside the mentions of \<open>X\<close>, where an operation is at work.\<close>

definition decisions_ok :: "nat set \<Rightarrow> persons_db \<Rightarrow> bool" where
  "decisions_ok X d \<longleftrightarrow> (\<forall>r \<in> set (decision_rows d). \<exists>m \<in> set (mention_rows d). mention_id m = decision_mention r \<and>
     (mention_id m \<notin> X \<longrightarrow> (decision_status r = PENDING_REVIEW \<longleftrightarrow> mention_person m = None)))"

definition consistent_but :: "nat set \<Rightarrow> persons_db \<Rightarrow> bool" where
  "consistent_but X d \<longleftrightarrow> rows_ok d \<and> refs_ok d \<and> decisions_ok X d"

definition consistent :: "persons_db \<Rightarrow> bool" where
  "consistent = consistent_but {}"

lemma active_frame [simp]:
  "active (d\<lparr>alias_rows := a\<rparr>) i = active d i"
  "active (d\<lparr>mention_rows := m\<rparr>) i = active d i"
  "active (d\<lparr>event_rows := e\<rparr>) i = active d i"
  "active (d\<lparr>event_mention_rows := em\<rparr>) i = active d i"
  "active (d\<lparr>link_rows := l\<rparr>) i = active d i"
  "active (d\<lparr>decision_rows := r\<rparr>) i = active d i"
  "active (d\<lparr>review_rows := v\<rparr>) i = active d i"
  "active (d\<lparr>merge_rows := g\<rparr>) i = active d i"
  "active (d\<lparr>extraction_run_rows := x\<rparr>) i = active d i"
  "active (d\<lparr>next_person := n\<rparr>) i = active d i"
  "active (d\<lparr>next_decision := n\<rparr>) i = active d i"
  "active (d\<lparr>next_review := n\<rparr>) i = active d i"
  "active (d\<lparr>next_merge := n\<rparr>) i = active d i"
  "active (d\<lparr>next_run := n\<rparr>) i = active d i"
  "active (d\<lparr>next_mention := n\<rparr>) i = active d i"
  "active (d\<lparr>next_event := n\<rparr>) i = active d i"
  by (simp_all add: active_def)

lemmas consistency_defs = consistent_but_def rows_ok_def refs_ok_def decisions_ok_def

section \<open>Single writes\<close>

lemma all_in_update: "(\<And>r. r \<in> set rows \<Longrightarrow> Q (if p r then f r else r)) \<Longrightarrow> \<forall>r \<in> set (update_rows p f rows). Q r"
  by (induction rows) auto

lemma consistent_frame [simp]:
  "consistent_but X (d\<lparr>review_rows := v\<rparr>) = consistent_but X d"
  "consistent_but X (d\<lparr>next_review := n\<rparr>) = consistent_but X d"
  "consistent_but X (d\<lparr>extraction_run_rows := x\<rparr>) = consistent_but X d"
  "consistent_but X (d\<lparr>next_run := n\<rparr>) = consistent_but X d"
  "consistent_but X (d\<lparr>event_rows := e\<rparr>) = consistent_but X d"
  "consistent_but X (d\<lparr>event_mention_rows := em\<rparr>) = consistent_but X d"
  "consistent_but X (d\<lparr>next_event := n\<rparr>) = consistent_but X d"
  by (simp_all add: consistency_defs)

lemma create_person_yields:
  "yields (consistent_but X) (create_person canonical normalized key) (\<lambda>i d. consistent_but X d \<and> active d i)"
proof (rule yieldsI)
  fix d i d' assume ok: "consistent_but X d" and run: "create_person canonical normalized key d = (Inr i, d')"
  have mono: "active d j \<Longrightarrow> active d' j" for j using run by (auto simp: create_person_def active_def)
  have "next_person d \<notin> person_id ` set (person_rows d)" using ok by (auto simp: consistent_but_def rows_ok_def)
  then have "rows_ok d'" using ok run by (auto simp: create_person_def consistent_but_def rows_ok_def less_Suc_eq)
  moreover have "refs_ok d'" using ok run mono by (auto simp: create_person_def consistent_but_def refs_ok_def)
  moreover have "decisions_ok X d'" using ok run by (auto simp: create_person_def consistent_but_def decisions_ok_def)
  moreover have "active d' i" using run by (auto simp: create_person_def active_def)
  ultimately show "consistent_but X d' \<and> active d' i" by (simp add: consistent_but_def)
qed

text \<open>What stays active: an operation that only adds persons.\<close>

definition ready :: "nat set \<Rightarrow> nat \<Rightarrow> persons_db \<Rightarrow> bool" where
  "ready X i d \<longleftrightarrow> consistent_but X d \<and> active d i"

lemma create_alias_yields: "alias_person a = i \<Longrightarrow> yields (ready X i) (create_alias a) (\<lambda>_. ready X i)"
  unfolding yields_def create_alias_def ready_def
  by (auto simp: consistency_defs person_aliases.unique_rows_def list_ex_iff split: if_splits)

lemma add_alias_eq:
  "add_alias_if_not_exists a d = (case create_alias a d of (Inl e, _) \<Rightarrow> (Inr False, d) | (Inr _, d') \<Rightarrow> (Inr True, d'))"
  by (auto simp: add_alias_if_not_exists_def transaction_def create_alias_def action_defs)

lemma add_alias_yields: "alias_person a = i \<Longrightarrow> yields (ready X i) (add_alias_if_not_exists a) (\<lambda>_. ready X i)"
  using create_alias_yields [of a i X] unfolding yields_def add_alias_eq
  by (auto split: prod.splits sum.splits)

lemma add_link_yields: "yields (ready X i) (add_link i event role confidence) (\<lambda>_. ready X i)"
  unfolding yields_def add_link_def ready_def
  by (auto simp: consistency_defs person_links.unique_rows_def link_key_def list_ex_iff split: if_splits)

lemma decisions_okD:
  "decisions_ok X d \<Longrightarrow> r \<in> set (decision_rows d) \<Longrightarrow> \<exists>m \<in> set (mention_rows d). mention_id m = decision_mention r \<and>
     (mention_id m \<notin> X \<longrightarrow> (decision_status r = PENDING_REVIEW \<longleftrightarrow> mention_person m = None))"
  unfolding decisions_ok_def by (rule bspec)

lemma decisions_ok_mentions:
  assumes "decisions_ok X d" and "\<And>m. mention_id (f m) = mention_id m" and "X \<subseteq> Y"
    and "\<And>m. m \<in> set (mention_rows d) \<Longrightarrow> p m \<Longrightarrow> mention_id m \<notin> Y \<Longrightarrow> (mention_person (f m) = None) = (mention_person m = None)"
  shows "decisions_ok Y (d\<lparr>mention_rows := update_rows p f (mention_rows d)\<rparr>)"
  unfolding decisions_ok_def
proof
  fix r assume "r \<in> set (decision_rows (d\<lparr>mention_rows := update_rows p f (mention_rows d)\<rparr>))"
  then obtain m where m: "m \<in> set (mention_rows d)" "mention_id m = decision_mention r"
    "mention_id m \<notin> X \<longrightarrow> (decision_status r = PENDING_REVIEW) = (mention_person m = None)"
    using assms(1) by (fastforce simp: decisions_ok_def)
  show "\<exists>m \<in> set (mention_rows (d\<lparr>mention_rows := update_rows p f (mention_rows d)\<rparr>)). mention_id m = decision_mention r \<and>
      (mention_id m \<notin> Y \<longrightarrow> (decision_status r = PENDING_REVIEW) = (mention_person m = None))"
    using m assms by (intro bexI [of _ "if p m then f m else m"]) (auto simp: set_update_rows)
qed

lemma set_mention_yields:
  assumes "m \<in> X"
  shows "yields (ready X i) (set_mention_person m i) (\<lambda>_. ready X i)"
  unfolding set_mention_person_def
proof (rule yields_write)
  fix d assume d: "ready X i d"
  let ?d = "d\<lparr>mention_rows := update_rows (\<lambda>m'. mention_id m' = m) (\<lambda>m'. m'\<lparr>mention_person := Some i\<rparr>) (mention_rows d)\<rparr>"
  have "decisions_ok X ?d"
    by (rule decisions_ok_mentions [where X = X]) (use d assms in \<open>auto simp: ready_def consistent_but_def\<close>)
  moreover have "rows_ok ?d" "refs_ok ?d" using d
    by (auto simp: ready_def consistent_but_def rows_ok_def refs_ok_def set_update_rows map_update_rows)
  ultimately show "ready X i ?d" using d by (simp add: ready_def consistent_but_def)
qed

text \<open>Fields of a decision other than its status, its mention and its id.\<close>

lemma update_decision_ready:
  assumes "ready X i d" and "\<And>r. decision_id (f r) = decision_id r \<and> decision_mention (f r) = decision_mention r"
    and "\<And>r. decision_status (f r) = decision_status r"
  shows "ready X i (d\<lparr>decision_rows := update_rows p f (decision_rows d)\<rparr>)"
  using assms by (auto simp: ready_def consistency_defs set_update_rows map_update_rows)

lemma set_selected_yields: "yields (ready X i) (set_selected_person decision j) (\<lambda>_. ready X i)"
  unfolding set_selected_person_def by (rule yields_write) (rule update_decision_ready, simp_all)

lemma pending_review_yields:
  "yields (consistent_but X) (get_or_create_pending_review kind subject reason) (\<lambda>_. consistent_but X)"
  by (auto simp: yields_def get_or_create_pending_review_def split: option.splits)

lemma update_review_yields: "yields (ready X i) (update_review_status n state note) (\<lambda>_. ready X i)"
  unfolding update_review_status_def ready_def
  by (rule yields_bind [OF yields_read])
    (auto simp: yields_def writeS_def split: option.splits)

section \<open>Merging\<close>

lemma active_merged: "source \<noteq> target \<Longrightarrow> active (merged_db source target reason d) i \<longleftrightarrow> i \<noteq> source \<and> active d i"
  by (auto simp: merged_db_def active_def list_ex_iff update_rows_def)

lemma merged_consistent:
  assumes ok: "consistent_but X d" and "source \<noteq> target" and "active d target"
  shows "consistent_but X (merged_db source target reason d)"
proof -
  let ?d = "merged_db source target reason d"
  have uniq: "person_links.unique_rows (link_rows d)" "person_aliases.unique_rows (alias_rows d)"
    using ok by (simp_all add: consistent_but_def rows_ok_def)
  note links = person_links.merge_rows_keep [OF uniq(1) assms(2), folded merge_links_def]
  note aliases = person_aliases.merge_rows_keep [OF uniq(2) assms(2), folded merge_aliases_def]
  have links': "link_rows ?d = merge_links source target (link_rows d)"
    and aliases': "alias_rows ?d = merge_aliases source target (alias_rows d)"
    and mentions': "mention_rows ?d = update_rows (\<lambda>m. mention_person m = Some source)
      (\<lambda>m. m\<lparr>mention_person := Some target\<rparr>) (mention_rows d)"
    by (simp_all add: merged_db_def)
  have "rows_ok ?d"
    using ok links(1) aliases(1)
    by (auto simp: consistent_but_def rows_ok_def merged_db_def map_update_rows set_update_rows)
  moreover have "refs_ok ?d"
    unfolding refs_ok_def active_merged [OF assms(2)]
  proof (intro conjI ballI allI impI)
    fix m i assume m: "m \<in> set (mention_rows ?d)" "mention_person m = Some i"
    then show "i \<noteq> source" using assms(2) by (auto simp: mentions' set_update_rows)
    show "active d i" using m ok assms(3) by (auto simp: mentions' set_update_rows consistent_but_def refs_ok_def split: if_splits)
  next
    fix a assume a: "a \<in> set (alias_rows ?d)"
    then show "alias_person a \<noteq> source" "active d (alias_person a)"
      using aliases(2) ok assms(3) by (auto simp: aliases' consistent_but_def refs_ok_def)
  next
    fix l assume l: "l \<in> set (link_rows ?d)"
    then show "link_person l \<noteq> source" "active d (link_person l)"
      using links(2) ok assms(3) by (auto simp: links' consistent_but_def refs_ok_def)
  qed
  moreover have "decisions_ok X (d\<lparr>mention_rows := update_rows (\<lambda>m. mention_person m = Some source)
      (\<lambda>m. m\<lparr>mention_person := Some target\<rparr>) (mention_rows d)\<rparr>)"
    by (rule decisions_ok_mentions [where X = X]) (use ok in \<open>auto simp: consistent_but_def\<close>)
  then have "decisions_ok X ?d" by (simp add: decisions_ok_def merged_db_def)
  ultimately show ?thesis by (simp add: consistent_but_def)
qed

lemma row_of_active: "row_of_person i d = Some p \<Longrightarrow> person_status p = ACTIVE \<Longrightarrow> active d i"
  unfolding row_of_person_def active_def list_ex_iff by (metis row_by_Some)

lemma merge_result:
  "merge_persons source target reason d = (Inr i, d') \<Longrightarrow>
   source \<noteq> target \<and> active d source \<and> active d target \<and> d' = merged_db source target reason d"
  unfolding merge_persons_def
  by (auto simp: action_results readS_def writeS_def row_of_active split: if_splits option.splits)

lemma merge_yields:
  "yields (consistent_but X) (merge_persons source target reason) (\<lambda>_ d. ready X target d)"
  by (rule yieldsI) (auto dest!: merge_result simp: ready_def merged_consistent active_merged)

section \<open>Candidates are active\<close>

lemma load_candidate_active: "load_candidate d source i = Some c \<Longrightarrow> active d (candidate_person c)"
  unfolding load_candidate_def active_def list_ex_iff
  by (fastforce simp: find_Some_iff split: option.splits)

lemma exact_active: "c \<in> set (exact_candidates identity limit d) \<Longrightarrow> active d (candidate_person c)"
  unfolding exact_candidates_def
  by (auto simp: in_map_filter Let_def dest: load_candidate_active split: option.splits if_splits)

lemma trigram_active: "c \<in> set (trigram_candidates C identity limit d) \<Longrightarrow> active d (candidate_person c)"
  unfolding trigram_candidates_def
  by (auto simp: in_map_filter Let_def dest: load_candidate_active split: if_splits)

lemma merged_candidates:
  assumes "\<forall>c \<in> set cs. Q (candidate_person c)" and "\<forall>(k, c) \<in> set m. Q (candidate_person c)"
  shows "\<forall>(k, c) \<in> set (foldl add_candidate m cs). Q (candidate_person c)"
  using assms
proof (induction cs arbitrary: m)
  case (Cons c cs)
  have "dict_get m k = Some e \<Longrightarrow> Q (candidate_person e)" for k e
    using Cons.prems(2) map_of_SomeD [of m k e] by (auto simp: dict_get_def)
  then have "Q (candidate_person (merge_candidate (dict_get m (candidate_person c)) c))"
    using Cons.prems(1) by (auto simp: merge_candidate_def split: option.splits)
  then have "\<forall>(k, c) \<in> set (add_candidate m c). Q (candidate_person c)"
    using Cons.prems(2) set_dict_set [of "candidate_person c" _ m] unfolding add_candidate_def by fast
  then show ?case using Cons by simp
qed simp

lemma generated_active: "c \<in> set (generate_candidates C identity d) \<Longrightarrow> active d (candidate_person c)"
proof -
  let ?cs = "concat [exact_candidates identity (candidate_limit C) d, trigram_candidates C identity (candidate_limit C) d]"
  have "\<forall>c \<in> set ?cs. active d (candidate_person c)" using exact_active trigram_active by auto
  then have all: "\<forall>(k, c) \<in> set (foldl add_candidate [] ?cs). active d (candidate_person c)"
    by (rule merged_candidates) simp
  assume "c \<in> set (generate_candidates C identity d)"
  then have "c \<in> snd ` set (foldl add_candidate [] ?cs)"
    unfolding generate_candidates_def composite_candidates_def by (auto dest!: in_set_takeD)
  then show "active d (candidate_person c)" using all by auto
qed

lemma decision_of_candidates [simp]: "decision_candidates (decision_of ranked action reasons selected margin) = ranked"
  by (simp add: decision_of_def)

lemma decide_plausible_candidates [simp]: "decision_candidates (decide_plausible T ps ranked best others) = ranked"
  by (simp add: decide_plausible_def Let_def)

lemma decide_candidates: "decision_candidates (decide T n cs ps) = rank_candidates cs"
  by (simp add: decide_def Let_def split: list.split)

definition known_active :: "resolution_decision \<Rightarrow> persons_db \<Rightarrow> bool" where
  "known_active p d \<longleftrightarrow> (\<forall>c \<in> set (decision_candidates p). active d (scored_id c))"

lemma plan_active: "known_active (plan C identity d) d"
  by (auto simp: known_active_def plan_def Let_def decide_candidates score_candidate_def scored_id_def
    dest: generated_active)

section \<open>Resolving\<close>

text \<open>
  What resolving the mentions \<open>K\<close> leaves as it was: all of every mention but its person, the
  other mentions and the decisions already there; \<open>decided\<close> is what a later run reads of one.
\<close>

definition unlinked :: "mention_row \<Rightarrow> mention_row" where
  "unlinked m = m\<lparr>mention_person := None\<rparr>"

definition decided :: "decision_row \<Rightarrow> nat \<times> nat \<times> resolution_action" where
  "decided r = (decision_id r, decision_mention r, row_action r)"

definition undisturbed :: "nat set \<Rightarrow> persons_db \<Rightarrow> persons_db \<Rightarrow> bool" where
  "undisturbed K d d' \<longleftrightarrow> map unlinked (mention_rows d') = map unlinked (mention_rows d) \<and>
     (\<forall>k. k \<notin> K \<longrightarrow> row_by mention_id k (mention_rows d') = row_by mention_id k (mention_rows d)) \<and>
     (\<exists>new. map decided (decision_rows d') = map decided (decision_rows d) @ new \<and> (fst \<circ> snd) ` set new \<subseteq> K) \<and>
     event_rows d' = event_rows d \<and> event_mention_rows d' = event_mention_rows d \<and>
     extraction_run_rows d' = extraction_run_rows d"

lemma undisturbed_order: "state_order (undisturbed K)"
proof (unfold_locales, unfold undisturbed_def, goal_cases)
  case (2 s t u)
  obtain new1 where new1: "map decided (decision_rows t) = map decided (decision_rows s) @ new1" "(fst \<circ> snd) ` set new1 \<subseteq> K"
    using 2(1) by blast
  obtain new2 where new2: "map decided (decision_rows u) = map decided (decision_rows t) @ new2" "(fst \<circ> snd) ` set new2 \<subseteq> K"
    using 2(2) by blast
  have "\<exists>new. map decided (decision_rows u) = map decided (decision_rows s) @ new \<and> (fst \<circ> snd) ` set new \<subseteq> K"
    using new1 new2 by (intro exI [of _ "new1 @ new2"]) (simp add: image_Un)
  then show ?case using 2 by simp
qed simp

interpretation resolving: state_order "undisturbed K" for K
  by (rule undisturbed_order)

lemma undisturbed_mono: "undisturbed K d d' \<Longrightarrow> K \<subseteq> L \<Longrightarrow> undisturbed L d d'"
  unfolding undisturbed_def by (elim conjE exE) (intro conjI exI allI impI; blast)

lemma undisturbed_ids: "undisturbed K d d' \<Longrightarrow> map mention_id (mention_rows d') = map mention_id (mention_rows d)"
proof -
  assume "undisturbed K d d'"
  then have "map mention_id (map unlinked (mention_rows d')) = map mention_id (map unlinked (mention_rows d))"
    by (simp add: undisturbed_def)
  then show ?thesis by (simp add: unlinked_def comp_def)
qed

lemma undisturbed_read: "obeys (undisturbed K) (readS f)"
  by (simp add: obeys_def readS_def resolving.R_refl)

lemma undisturbed_create_person: "obeys (undisturbed K) (create_person canonical normalized key)"
  by (simp add: obeys_def create_person_def undisturbed_def)

lemma undisturbed_create_alias: "obeys (undisturbed K) (create_alias a)"
  by (simp add: obeys_def create_alias_def undisturbed_def)

lemma undisturbed_add_alias: "obeys (undisturbed K) (add_alias_if_not_exists a)"
  by (simp add: obeys_def add_alias_eq create_alias_def undisturbed_def)

lemma undisturbed_set_mention: "k \<in> K \<Longrightarrow> obeys (undisturbed K) (set_mention_person k i)"
proof (rule obeysI)
  fix d assume "k \<in> K"
  have "unlinked (if mention_id m = k then m\<lparr>mention_person := Some i\<rparr> else m) = unlinked m" for m :: mention_row
    by (simp add: unlinked_def)
  moreover have "row_by mention_id j (update_rows (\<lambda>m. mention_id m = k) (\<lambda>m. m\<lparr>mention_person := Some i\<rparr>) rows) =
      row_by mention_id j rows" if "j \<notin> K" for j and rows :: "mention_row list"
    using that \<open>k \<in> K\<close> by (cases "row_by mention_id j rows") (auto simp: row_by_update dest: row_by_Some)
  ultimately show "undisturbed K d (snd (set_mention_person k i d))"
    by (simp add: set_mention_person_def writeS_def undisturbed_def update_rows_def)
qed

lemma undisturbed_set_selected: "obeys (undisturbed K) (set_selected_person decision i)"
proof -
  have "map decided (update_rows (\<lambda>r. decision_id r = decision) (\<lambda>r. r\<lparr>selected_person := Some i\<rparr>) rows) = map decided rows" for rows
    by (induction rows) (auto simp: decided_def)
  then show ?thesis by (simp add: obeys_def set_selected_person_def writeS_def undisturbed_def)
qed

lemma undisturbed_record: "mention_id m \<in> K \<Longrightarrow> obeys (undisturbed K) (record_decision m identity p)"
  by (simp add: obeys_def record_decision_def undisturbed_def decided_def)

lemma undisturbed_pending: "obeys (undisturbed K) (get_or_create_pending_review kind subject reason)"
  by (simp add: obeys_def get_or_create_pending_review_def undisturbed_def split: option.split)

lemma undisturbed_add_link: "obeys (undisturbed K) (add_link i event role confidence)"
  by (simp add: obeys_def add_link_def undisturbed_def)

lemmas undisturbed_ops = undisturbed_read undisturbed_create_person undisturbed_create_alias undisturbed_add_alias
  undisturbed_set_selected undisturbed_pending undisturbed_add_link

lemma undisturbed_person_for: "obeys (undisturbed K) (person_for C m identity p)"
  unfolding person_for_def
  by (intro resolving.obeys_if resolving.obeys_bind resolving.obeys_then resolving.obeys_option
    resolving.obeys_return resolving.obeys_raise undisturbed_ops)

lemma undisturbed_apply_plan: "mention_id m \<in> K \<Longrightarrow> obeys (undisturbed K) (apply_plan C m identity p decision)"
  unfolding apply_plan_def
  by (intro resolving.obeys_if resolving.obeys_bind resolving.obeys_then resolving.obeys_return
    undisturbed_person_for undisturbed_set_mention undisturbed_ops)

lemma refreshed_id [simp]: "mention_id (refreshed m d) = mention_id m"
  by (auto simp: refreshed_def dest: row_by_Some split: option.split)

lemma undisturbed_resolve: "mention_id m \<in> K \<Longrightarrow> obeys (undisturbed K) (resolve_mention C m)"
  unfolding resolve_mention_def
  by (intro resolving.obeys_bind_result [OF undisturbed_read] resolving.obeys_option
      resolving.obeys_bind resolving.obeys_return undisturbed_apply_plan undisturbed_record undisturbed_ops)
    (auto simp: readS_def)

text \<open>The statuses of the decisions, which only the end of a resolution or a review changes.\<close>

definition status_key :: "decision_row \<Rightarrow> nat \<times> nat \<times> decision_status" where
  "status_key r = (decision_id r, decision_mention r, decision_status r)"

definition same_statuses :: "persons_db \<Rightarrow> persons_db \<Rightarrow> bool" where
  "same_statuses d d' \<longleftrightarrow> map status_key (decision_rows d') = map status_key (decision_rows d)"

interpretation statuses: state_order same_statuses
  by unfold_locales (auto simp: same_statuses_def)

lemma statuses_ops:
  "obeys same_statuses (readS f)"
  "obeys same_statuses (create_person canonical normalized key)"
  "obeys same_statuses (create_alias a)"
  "obeys same_statuses (add_alias_if_not_exists a)"
  "obeys same_statuses (set_mention_person k i)"
  "obeys same_statuses (get_or_create_pending_review kind subject reason)"
  "obeys same_statuses (add_link i event role confidence)"
  by (simp_all add: obeys_def same_statuses_def readS_def writeS_def create_person_def create_alias_def add_alias_eq
    set_mention_person_def get_or_create_pending_review_def add_link_def split: option.split)

lemma statuses_update:
  "(\<And>r. status_key (f r) = status_key r) \<Longrightarrow>
   obeys same_statuses (writeS (\<lambda>d. d\<lparr>decision_rows := update_rows p f (decision_rows d)\<rparr>))"
  by (simp add: obeys_def same_statuses_def writeS_def update_rows_def)

lemma statuses_set_selected: "obeys same_statuses (set_selected_person decision i)"
  unfolding set_selected_person_def by (rule statuses_update) (simp add: status_key_def)

lemma statuses_person_for: "obeys same_statuses (person_for C m identity p)"
  unfolding person_for_def
  by (intro statuses.obeys_flow statuses_ops)

definition statuses_of :: "nat \<Rightarrow> persons_db \<Rightarrow> decision_status set" where
  "statuses_of k d = {s. \<exists>i. (i, k, s) \<in> set (map status_key (decision_rows d))}"

lemma statuses_of_same: "same_statuses d d' \<Longrightarrow> statuses_of k d' = statuses_of k d"
  by (simp add: statuses_of_def same_statuses_def)

lemma in_statuses_of: "r \<in> set (decision_rows d) \<Longrightarrow> decision_mention r = k \<Longrightarrow> decision_status r \<in> statuses_of k d"
  by (force simp: statuses_of_def status_key_def)

text \<open>At the end the mention at work has its person, or waits for it.\<close>

lemma settled_consistent:
  assumes "consistent_but {k} d"
    and "\<And>r. r \<in> set (decision_rows d) \<Longrightarrow> decision_mention r = k \<Longrightarrow> decision_status r = PENDING_REVIEW \<longleftrightarrow> b"
    and "\<And>m. m \<in> set (mention_rows d) \<Longrightarrow> mention_id m = k \<Longrightarrow> mention_person m = None \<longleftrightarrow> b"
  shows "consistent d"
proof -
  have "decisions_ok {} d"
    unfolding decisions_ok_def
  proof
    fix r assume r: "r \<in> set (decision_rows d)"
    have "decisions_ok {k} d" using assms(1) by (simp add: consistent_but_def)
    from decisions_okD [OF this r] obtain m where m: "m \<in> set (mention_rows d)" "mention_id m = decision_mention r"
      "mention_id m \<notin> {k} \<longrightarrow> (decision_status r = PENDING_REVIEW) = (mention_person m = None)"
      by (elim bexE conjE) (rule that)
    then show "\<exists>m \<in> set (mention_rows d). mention_id m = decision_mention r \<and>
        (mention_id m \<notin> {} \<longrightarrow> (decision_status r = PENDING_REVIEW) = (mention_person m = None))"
      using assms(2) [OF r] assms(3) [OF m(1)] by (intro bexI [of _ m]) auto
  qed
  then show ?thesis using assms(1) by (simp add: consistent_def consistent_but_def)
qed

lemma person_for_yields:
  "yields (\<lambda>d. consistent_but X d \<and> known_active p d) (person_for C m identity p) (\<lambda>i. ready X i)"
proof (cases "decision_action p = CREATE_NEW")
  case True
  have new: "yields (consistent_but X) (create_person (identity_name identity) (identity_name identity)
      (case identity_key identity of None \<Rightarrow> [] | Some key \<Rightarrow> key)) (\<lambda>i. ready X i)"
    unfolding ready_def by (rule create_person_yields)
  show ?thesis
    unfolding person_for_def if_P [OF True]
    by (rule yields_pre [OF yields_bind [OF new yields_then [OF create_alias_yields yields_return]]])
      (simp_all add: new_alias_def)
next
  case False
  have old: "yields (\<lambda>d. consistent_but X d \<and> known_active p d)
      (thenA (if should_promote (er_unicode C) (identity_name identity) (scored_features c)
         then add_alias_if_not_exists (new_alias (scored_id c) m identity FROM_RESOLUTION) else returnA False)
       (returnA (scored_id c))) (\<lambda>i. ready X i)"
    if "find (\<lambda>c. Some (scored_id c) = decision_person p) (decision_candidates p) = Some c" for c
  proof (rule yields_pre [where P = "ready X (scored_id c)"])
    show "yields (ready X (scored_id c)) (thenA (if should_promote (er_unicode C) (identity_name identity) (scored_features c)
         then add_alias_if_not_exists (new_alias (scored_id c) m identity FROM_RESOLUTION) else returnA False)
       (returnA (scored_id c))) (\<lambda>i. ready X i)"
      by (rule yields_then [where R = "\<lambda>_. ready X (scored_id c)"])
        (auto intro: add_alias_yields yields_return simp: new_alias_def)
    have "c \<in> set (decision_candidates p)" using that by (auto simp: find_Some_iff)
    then show "consistent_but X s \<and> known_active p s \<Longrightarrow> ready X (scored_id c) s" for s
      by (auto simp: ready_def known_active_def)
  qed
  show ?thesis
    unfolding person_for_def if_not_P [OF False]
    by (cases "find (\<lambda>c. Some (scored_id c) = decision_person p) (decision_candidates p)")
      (simp_all add: yields_raise old)
qed

lemma ready_settled:
  assumes "ready {k} i d" and "\<forall>m \<in> set (mention_rows d). mention_id m = k \<longrightarrow> mention_person m \<noteq> None"
    and "PENDING_REVIEW \<notin> statuses_of k d"
  shows "consistent d"
proof (rule settled_consistent [where k = k and b = False])
  show "consistent_but {k} d" using assms(1) by (simp add: ready_def)
  show "decision_status r = PENDING_REVIEW \<longleftrightarrow> False" if "r \<in> set (decision_rows d)" "decision_mention r = k" for r
    using in_statuses_of [OF that] assms(3) by auto
  show "mention_person m = None \<longleftrightarrow> False" if "m \<in> set (mention_rows d)" "mention_id m = k" for m
    using assms(2) that by auto
qed

text \<open>A person is linked to the mention at work; its decision is not pending any more.\<close>

definition linked :: "nat \<Rightarrow> nat \<Rightarrow> persons_db \<Rightarrow> bool" where
  "linked k i d \<longleftrightarrow> ready {k} i d \<and> (\<forall>m \<in> set (mention_rows d). mention_id m = k \<longrightarrow> mention_person m \<noteq> None)"

lemma set_mention_linked: "yields (ready {k} i) (set_mention_person k i) (\<lambda>_. linked k i)"
proof (rule yieldsI)
  fix d x d' assume d: "ready {k} i d" and run: "set_mention_person k i d = (Inr x, d')"
  have "ready {k} i d'" using yieldsD [OF set_mention_yields d run] by simp
  moreover have "mention_rows d' = update_rows (\<lambda>m. mention_id m = k) (\<lambda>m. m\<lparr>mention_person := Some i\<rparr>) (mention_rows d)"
    using run by (auto simp: set_mention_person_def writeS_def)
  moreover have "\<forall>m \<in> set (update_rows (\<lambda>m. mention_id m = k) (\<lambda>m. m\<lparr>mention_person := Some i\<rparr>) (mention_rows d)).
      mention_id m = k \<longrightarrow> mention_person m \<noteq> None"
    by (rule all_in_update) simp
  ultimately show "linked k i d'" by (simp only: linked_def simp_thms)
qed

lemma set_selected_linked: "yields (linked k i) (set_selected_person decision j) (\<lambda>_. linked k i)"
proof (rule yieldsI)
  fix d x d' assume d: "linked k i d" and run: "set_selected_person decision j d = (Inr x, d')"
  have "ready {k} i d'" using yieldsD [OF set_selected_yields _ run, of "{k}" i] d by (simp add: linked_def)
  moreover have "mention_rows d' = mention_rows d" using run by (auto simp: set_selected_person_def writeS_def)
  ultimately show "linked k i d'" using d by (simp add: linked_def)
qed

lemma apply_plan_yields:
  "yields (\<lambda>d. consistent_but {mention_id m} d \<and> known_active p d \<and>
      (\<forall>x \<in> set (mention_rows d). mention_id x = mention_id m \<longrightarrow> mention_person x = None) \<and>
      statuses_of (mention_id m) d = {if decision_action p = REVIEW then PENDING_REVIEW else APPLIED})
     (apply_plan C m identity p decision) (\<lambda>_. consistent)"
proof (cases "decision_action p = REVIEW")
  case True
  let ?k = "mention_id m"
  have pend: "yields (\<lambda>d. consistent_but {?k} d \<and>
      (\<forall>x \<in> set (mention_rows d). mention_id x = ?k \<longrightarrow> mention_person x = None) \<and> statuses_of ?k d = {PENDING_REVIEW})
      (get_or_create_pending_review kind decision reason) (\<lambda>_. consistent)" for kind reason
  proof (rule yieldsI)
    fix d x d'
    assume d: "consistent_but {?k} d \<and>
        (\<forall>x \<in> set (mention_rows d). mention_id x = ?k \<longrightarrow> mention_person x = None) \<and> statuses_of ?k d = {PENDING_REVIEW}"
      and run: "get_or_create_pending_review kind decision reason d = (Inr x, d')"
    have ok: "consistent_but {?k} d'" using yieldsD [OF pending_review_yields _ run] d by simp
    have same: "mention_rows d' = mention_rows d" "decision_rows d' = decision_rows d"
      using run by (auto simp: get_or_create_pending_review_def split: option.splits)
    show "consistent d'"
    proof (rule settled_consistent [OF ok, where b = True])
      show "decision_status r = PENDING_REVIEW \<longleftrightarrow> True" if "r \<in> set (decision_rows d')" "decision_mention r = ?k" for r
        using in_statuses_of [of r d ?k] that d same by simp
      show "mention_person x = None \<longleftrightarrow> True" if "x \<in> set (mention_rows d')" "mention_id x = ?k" for x
        using that d same by simp
    qed
  qed
  show ?thesis
    unfolding apply_plan_def if_P [OF True]
    by (rule yields_pre [OF yields_then [OF pend yields_return]]) (simp_all add: True)
next
  case False
  let ?k = "mention_id m"
  have all: "obeys same_statuses (apply_plan C m identity p decision)"
    unfolding apply_plan_def
    by (intro statuses.obeys_flow statuses_ops statuses_person_for statuses_set_selected)
  have run: "yields (\<lambda>d. consistent_but {?k} d \<and> known_active p d) (apply_plan C m identity p decision)
      (\<lambda>_ d. \<exists>i. linked ?k i d)"
    unfolding apply_plan_def if_not_P [OF False]
    by (rule yields_bind [OF person_for_yields], rule yields_then [OF set_mention_linked],
      rule yields_then [OF set_selected_linked], rule yields_return) blast
  show ?thesis
  proof (rule yieldsI)
    fix d x d'
    assume d: "consistent_but {?k} d \<and> known_active p d \<and>
        (\<forall>x \<in> set (mention_rows d). mention_id x = ?k \<longrightarrow> mention_person x = None) \<and>
        statuses_of ?k d = {if decision_action p = REVIEW then PENDING_REVIEW else APPLIED}"
      and result: "apply_plan C m identity p decision d = (Inr x, d')"
    obtain i where i: "linked ?k i d'" using yieldsD [OF run _ result] d by blast
    have "same_statuses d d'" using obeysD [OF all, of d] result by simp
    then have "PENDING_REVIEW \<notin> statuses_of ?k d'" using d False by (simp add: statuses_of_same)
    then show "consistent d'"
      by (rule ready_settled [OF conjunct1 [OF i [unfolded linked_def]] conjunct2 [OF i [unfolded linked_def]]])
  qed
qed

text \<open>A mention with a row, and none but this decision.\<close>

lemma record_decision_result:
  assumes "record_decision m identity p d = (Inr (Some n), d')" and "consistent d"
    and "mention_id m \<in> mention_id ` set (mention_rows d)"
  shows "consistent_but {mention_id m} d' \<and> mention_rows d' = mention_rows d \<and> person_rows d' = person_rows d \<and>
    statuses_of (mention_id m) d' = {if decision_action p = REVIEW then PENDING_REVIEW else APPLIED}"
proof -
  let ?k = "mention_id m"
  have fresh: "\<forall>r \<in> set (decision_rows d). decision_mention r \<noteq> ?k"
    using assms(1) by (auto simp: record_decision_def list_ex_iff split: if_splits)
  obtain row where row: "d' = d\<lparr>decision_rows := decision_rows d @ [row], next_decision := Suc (next_decision d)\<rparr>"
      "decision_mention row = ?k" "decision_id row = next_decision d"
      "decision_status row = (if decision_action p = REVIEW then PENDING_REVIEW else APPLIED)"
    using assms(1) by (auto simp: record_decision_def split: if_splits)
  have ok: "rows_ok d" "refs_ok d" "decisions_ok {} d" using assms(2) by (simp_all add: consistent_def consistent_but_def)
  have "rows_ok d'"
    using ok(1) fresh row by (auto simp: rows_ok_def less_Suc_eq)
  moreover have "refs_ok d'" using ok(2) by (simp add: row refs_ok_def)
  moreover have "decisions_ok {?k} d'"
    unfolding decisions_ok_def
  proof
    fix r assume "r \<in> set (decision_rows d')"
    then consider "r \<in> set (decision_rows d)" | "r = row" by (auto simp: row(1))
    then show "\<exists>x \<in> set (mention_rows d'). mention_id x = decision_mention r \<and>
        (mention_id x \<notin> {?k} \<longrightarrow> (decision_status r = PENDING_REVIEW) = (mention_person x = None))"
    proof cases
      case 1
      from decisions_okD [OF ok(3) this] show ?thesis by (simp add: row(1)) (elim bexE conjE, rule bexI, simp_all)
    next
      case 2
      then show ?thesis using assms(3) by (auto simp: row)
    qed
  qed
  moreover have "statuses_of ?k d' = {decision_status row}"
    using fresh row(2) by (auto simp: row(1) statuses_of_def status_key_def)
  ultimately show ?thesis by (simp add: consistent_but_def row)
qed

lemma refreshed_in: "mention_id m \<in> mention_id ` set (mention_rows d) \<Longrightarrow> refreshed m d \<in> set (mention_rows d)"
  unfolding refreshed_def by (auto simp: row_by_None dest: row_by_Some split: option.split)

text \<open>How resolving a mention ends: with what stood already, or with a new decision applied.\<close>

lemma resolve_mention_cases:
  assumes "resolve_mention C mention d = (Inr x, d')"
  obtains (nameless) "identity_from_mention (refreshed mention d) (article_of_run d (mention_run (refreshed mention d))) = None"
      "x = None" "d' = d"
    | (reused) o' where "existing_outcome (refreshed mention d) d = Some o'" "x = Some o'" "d' = d"
    | (new) identity n d1 o' where
      "identity_from_mention (refreshed mention d) (article_of_run d (mention_run (refreshed mention d))) = Some identity"
      "existing_outcome (refreshed mention d) d = None"
      "record_decision (refreshed mention d) identity (plan C identity d) d = (Inr (Some n), d1)"
      "apply_plan C (refreshed mention d) identity (plan C identity d) n d1 = (Inr o', d')" "x = Some o'"
proof -
  let ?m = "refreshed mention d"
  let ?identity = "identity_from_mention ?m (article_of_run d (mention_run ?m))"
  show thesis
  proof (cases ?identity)
    case None
    then have "x = None" "d' = d" using assms by (simp_all add: resolve_mention_def readS_def bindA_def)
    then show ?thesis by (rule nameless [OF None])
  next
    case (Some identity)
    show ?thesis
    proof (cases "existing_outcome ?m d")
      case (Some o')
      then show ?thesis using assms \<open>?identity = Some identity\<close>
        by (intro reused [of o']) (simp_all add: resolve_mention_def readS_def bindA_def)
    next
      case None
      have "\<forall>r \<in> set (decision_rows d). decision_mention r \<noteq> mention_id ?m"
        using None by (auto simp: existing_outcome_def find_None_iff split: option.splits)
      then obtain n d1 where recorded: "record_decision ?m identity (plan C identity d) d = (Inr (Some n), d1)"
        by (auto simp: record_decision_def list_ex_iff)
      have "resolve_mention C mention d = bindA (apply_plan C ?m identity (plan C identity d) n) (\<lambda>o'. returnA (Some o')) d1"
        unfolding resolve_mention_def using None Some recorded by (simp add: readS_def bindA_def)
      then have "bindA (apply_plan C ?m identity (plan C identity d) n) (\<lambda>o'. returnA (Some o')) d1 = (Inr x, d')"
        using assms by simp
      then obtain o' where "apply_plan C ?m identity (plan C identity d) n d1 = (Inr o', d')" "x = Some o'"
        unfolding bindA_Inr by auto
      then show ?thesis by (rule new [OF Some None recorded])
    qed
  qed
qed

lemma existing_None:
  "existing_outcome m d = None \<Longrightarrow> mention_person m = None \<and> (\<forall>r \<in> set (decision_rows d). decision_mention r \<noteq> mention_id m)"
  by (auto simp: existing_outcome_def find_None_iff split: option.splits)

lemma resolve_mention_new:
  assumes "refreshed mention d = m" and "identity_from_mention m (article_of_run d (mention_run m)) = Some identity"
    and "existing_outcome m d = None" and "plan C identity d = p"
    and "record_decision m identity p d = (Inr (Some n), d1)" and "apply_plan C m identity p n d1 = (Inr o', d')"
  shows "resolve_mention C mention d = (Inr (Some o'), d')"
  using assms by (simp add: resolve_mention_def readS_def bindA_def)

lemma resolve_yields:
  "yields (\<lambda>d. consistent d \<and> mention_id mention \<in> mention_id ` set (mention_rows d)) (resolve_mention C mention)
     (\<lambda>_. consistent)"
proof (rule yieldsI)
  fix d x d'
  assume d: "consistent d \<and> mention_id mention \<in> mention_id ` set (mention_rows d)"
    and run: "resolve_mention C mention d = (Inr x, d')"
  show "consistent d'"
    using run
  proof (cases rule: resolve_mention_cases)
    case (new identity n d1 o')
    let ?m = "refreshed mention d"
    have m: "?m \<in> set (mention_rows d)" using d refreshed_in by blast
    have d1: "consistent_but {mention_id ?m} d1 \<and> mention_rows d1 = mention_rows d \<and> person_rows d1 = person_rows d \<and>
        statuses_of (mention_id ?m) d1 = {if decision_action (plan C identity d) = REVIEW then PENDING_REVIEW else APPLIED}"
      using record_decision_result [OF new(3)] d by simp
    have "active d1 i = active d i" for i using d1 by (simp add: active_def)
    then have known: "known_active (plan C identity d) d1" using plan_active [of C identity d] by (simp add: known_active_def)
    have "distinct (map mention_id (mention_rows d))" using d by (simp add: consistent_def consistent_but_def rows_ok_def)
    then have "\<forall>y \<in> set (mention_rows d1). mention_id y = mention_id ?m \<longrightarrow> mention_person y = None"
      using existing_None [OF new(2)] m d1 by (metis distinct_map_eq)
    then show ?thesis using yieldsD [OF apply_plan_yields _ new(4)] d1 known by blast
  qed (use d in simp_all)
qed

section \<open>A run\<close>

text \<open>The row of a mention a resolution came to has the person the outcome names.\<close>

lemma apply_plan_person:
  assumes "apply_plan C m identity p decision d = (Inr o', d')" and "x \<in> set (mention_rows d)"
    and "mention_id x = mention_id m" and "mention_person x = None"
  shows "\<exists>y \<in> set (mention_rows d'). mention_id y = mention_id m \<and> mention_person y = outcome_person o'"
proof (cases "decision_action p = REVIEW")
  case True
  then have "mention_rows d' = mention_rows d \<and> outcome_person o' = None"
    using assms(1) by (auto simp: apply_plan_def action_results get_or_create_pending_review_def split: option.splits)
  then show ?thesis using assms by (intro bexI [of _ x]) simp_all
next
  case False
  then obtain i d1 d2 where run: "person_for C m identity p d = (Inr i, d1)"
      "set_mention_person (mention_id m) i d1 = (Inr (), d2)" "set_selected_person decision i d2 = (Inr (), d')"
      "outcome_person o' = Some i"
    using assms(1) by (auto simp: apply_plan_def action_results)
  have "mention_id ` set (mention_rows d1) = mention_id ` set (mention_rows d)"
    using arg_cong [OF undisturbed_ids [OF obeysD [OF undisturbed_person_for, of UNIV d C m identity p]], of set] run(1) by simp
  then obtain z where z: "z \<in> set (mention_rows d1)" "mention_id z = mention_id m" using assms(2,3) by (metis image_iff)
  have "mention_rows d' = update_rows (\<lambda>x. mention_id x = mention_id m) (\<lambda>x. x\<lparr>mention_person := Some i\<rparr>) (mention_rows d1)"
    using run(2,3) by (auto simp: set_mention_person_def set_selected_person_def writeS_def)
  then show ?thesis using z run(4) by (intro bexI [of _ "z\<lparr>mention_person := Some i\<rparr>"]) (auto simp: set_update_rows)
qed

lemma resolve_person:
  assumes "resolve_mention C mention d = (Inr (Some o'), d')" and "mention_id mention \<in> mention_id ` set (mention_rows d)"
  shows "\<exists>y \<in> set (mention_rows d'). mention_id y = mention_id mention \<and> mention_person y = outcome_person o'"
proof -
  let ?m = "refreshed mention d"
  have m: "?m \<in> set (mention_rows d)" using assms(2) by (rule refreshed_in)
  from assms(1) show ?thesis
  proof (cases rule: resolve_mention_cases)
    case (reused o'')
    then have "outcome_person o' = mention_person ?m" by (auto simp: existing_outcome_def split: option.splits)
    then show ?thesis using m reused by (intro bexI [of _ ?m]) simp_all
  next
    case (new identity n d1 o'')
    have same: "mention_rows d1 = mention_rows d" using new(3) by (auto simp: record_decision_def split: if_splits)
    from apply_plan_person [OF new(4), of ?m] show ?thesis
      using existing_None [OF new(2)] new(5) m same by simp
  qed simp
qed

text \<open>A mention that has its person keeps it, whatever else is resolved.\<close>

lemma resolve_keeps_links:
  assumes "resolve_mention C mention d = (Inr x, d')" and "distinct (map mention_id (mention_rows d))"
    and "mention_id mention \<in> mention_id ` set (mention_rows d)" and "y \<in> set (mention_rows d)" and "mention_person y = Some i"
  shows "y \<in> set (mention_rows d')"
  using assms(1)
proof (cases rule: resolve_mention_cases)
  case (new identity n d1 o')
  let ?m = "refreshed mention d"
  have m: "?m \<in> set (mention_rows d)" using assms(3) by (rule refreshed_in)
  have "mention_person ?m = None" using existing_None [OF new(2)] by simp
  then have other: "mention_id y \<noteq> mention_id ?m" using m assms(2,4,5) by (metis distinct_map_eq option.distinct(1))
  have "undisturbed {mention_id mention} d d'"
    using obeysD [OF undisturbed_resolve [of mention "{mention_id mention}" C], of d] assms(1) by simp
  then have "row_by mention_id (mention_id y) (mention_rows d') = row_by mention_id (mention_id y) (mention_rows d)"
    using other by (simp add: undisturbed_def)
  also have "\<dots> = Some y" using assms(2,4) by (rule row_by_in)
  finally show ?thesis by (blast dest: row_by_Some)
qed (use assms in simp_all)

definition known_links :: "(nat, nat) dict \<Rightarrow> persons_db \<Rightarrow> bool" where
  "known_links persons d \<longleftrightarrow>
     (\<forall>(k, i) \<in> set persons. \<exists>m \<in> set (mention_rows d). mention_id m = k \<and> mention_person m = Some i)"

definition run_ok :: "mention_row list \<Rightarrow> (nat, nat) dict \<Rightarrow> persons_db \<Rightarrow> bool" where
  "run_ok mentions persons d \<longleftrightarrow> consistent d \<and> known_links persons d \<and>
     mention_id ` set mentions \<subseteq> mention_id ` set (mention_rows d)"

lemma resolve_each_yields:
  assumes "m \<in> set mentions"
  shows "yields (\<lambda>d. run_ok mentions (fst a) d) (resolve_each C m a) (\<lambda>a' d. run_ok mentions (fst a') d)"
proof (rule yieldsI)
  fix d a' d'
  assume d: "run_ok mentions (fst a) d" and run: "resolve_each C m a d = (Inr a', d')"
  obtain persons stats where a: "a = (persons, stats)" by fastforce
  obtain x where x: "resolve_mention C m d = (Inr x, d')"
    "fst a' = (case x of None \<Rightarrow> persons | Some o' \<Rightarrow> (case outcome_person o' of None \<Rightarrow> persons
        | Some i \<Rightarrow> dict_set (mention_id m) i persons))"
    using run by (auto simp: a resolve_each_def bindA_Inr split: option.splits)
  have in_db: "mention_id m \<in> mention_id ` set (mention_rows d)" using assms d by (auto simp: run_ok_def)
  have ok: "consistent d'" using yieldsD [OF resolve_yields _ x(1)] d in_db by (simp add: run_ok_def)
  have dist: "distinct (map mention_id (mention_rows d))" using d
    by (simp add: run_ok_def consistent_def consistent_but_def rows_ok_def)
  have "undisturbed {mention_id m} d d'"
    using obeysD [OF undisturbed_resolve [of m "{mention_id m}" C], of d] x(1) by simp
  then have ids: "mention_id ` set (mention_rows d') = mention_id ` set (mention_rows d)"
    using arg_cong [OF undisturbed_ids, of _ _ _ set] by (metis set_map)
  have old: "known_links persons d'"
    unfolding known_links_def
  proof clarify
    fix k i assume "(k, i) \<in> set persons"
    then obtain y where "y \<in> set (mention_rows d)" "mention_id y = k" "mention_person y = Some i"
      using d by (fastforce simp: a run_ok_def known_links_def)
    then show "\<exists>y \<in> set (mention_rows d'). mention_id y = k \<and> mention_person y = Some i"
      using resolve_keeps_links [OF x(1) dist in_db] by blast
  qed
  have "known_links (fst a') d'"
  proof (cases "\<exists>o' i. x = Some o' \<and> outcome_person o' = Some i")
    case True
    then obtain o' i where o': "x = Some o'" "outcome_person o' = Some i" by blast
    have "\<exists>y \<in> set (mention_rows d'). mention_id y = mention_id m \<and> mention_person y = Some i"
      using resolve_person [OF x(1) [unfolded o'(1)] in_db] o'(2) by simp
    then show ?thesis using old set_dict_set [of "mention_id m" i persons] x(2) o' by (auto simp: known_links_def)
  next
    case False
    then have "fst a' = persons" using x(2) by (auto split: option.splits)
    then show ?thesis using old by simp
  qed
  then show "run_ok mentions (fst a') d'" using ok ids d by (simp add: run_ok_def)
qed

lemma linked_active: "run_ok mentions persons d \<Longrightarrow> person_of_mention persons k d = Some i \<Longrightarrow> active d i"
proof -
  assume d: "run_ok mentions persons d" and i: "person_of_mention persons k d = Some i"
  have "\<exists>m \<in> set (mention_rows d). mention_person m = Some i"
  proof (cases "dict_get persons k")
    case None
    then show ?thesis using i by (auto simp: person_of_mention_def dest: row_by_Some split: option.splits)
  next
    case (Some j)
    then have "(k, i) \<in> set persons" using i map_of_SomeD [of persons k i] by (simp add: person_of_mention_def dict_get_def)
    then show ?thesis using d by (fastforce simp: run_ok_def known_links_def)
  qed
  then show ?thesis using d by (auto simp: run_ok_def consistent_def consistent_but_def refs_ok_def)
qed

lemma add_link_run:
  "yields (\<lambda>d. run_ok mentions persons d \<and> active d i) (add_link i event role confidence) (\<lambda>_. run_ok mentions persons)"
proof (rule yieldsI)
  fix d x d' assume d: "run_ok mentions persons d \<and> active d i" and run: "add_link i event role confidence d = (Inr x, d')"
  have "consistent d'" using yieldsD [OF add_link_yields _ run, of "{}"] d by (simp add: ready_def run_ok_def consistent_def)
  moreover have "mention_rows d' = mention_rows d" using run by (auto simp: add_link_def split: if_splits)
  ultimately show "run_ok mentions persons d'" using d by (simp add: run_ok_def known_links_def)
qed

lemma link_participants_yields:
  "yields (run_ok mentions persons) (link_participants persons e n) (\<lambda>_. run_ok mentions persons)"
  unfolding link_participants_def
proof (rule yields_bind [OF yields_read], rule yields_pre [where P = "run_ok mentions persons"], rule yields_fold)
  fix em a
  show "yields (run_ok mentions persons)
      (bindA (readS (person_of_mention persons (em_mention em))) (\<lambda>person. case person of
           None \<Rightarrow> returnA a
         | Some i \<Rightarrow> bindA (add_link i (event_id e) (em_role em) (event_confidence e)) (\<lambda>k. returnA (a + k))))
      (\<lambda>_. run_ok mentions persons)"
  proof (rule yields_bind [OF yields_read])
    fix person
    show "yields (\<lambda>d. run_ok mentions persons d \<and> person = person_of_mention persons (em_mention em) d)
      (case person of
           None \<Rightarrow> returnA a
         | Some i \<Rightarrow> bindA (add_link i (event_id e) (em_role em) (event_confidence e)) (\<lambda>k. returnA (a + k)))
      (\<lambda>_. run_ok mentions persons)"
    proof (cases person)
      case None
      then show ?thesis by (simp add: yields_def)
    next
      case (Some i)
      have "yields (\<lambda>d. run_ok mentions persons d \<and> active d i)
          (bindA (add_link i (event_id e) (em_role em) (event_confidence e)) (\<lambda>k. returnA (a + k)))
          (\<lambda>_. run_ok mentions persons)"
        by (rule yields_bind [OF add_link_run yields_return])
      then show ?thesis
        unfolding Some option.case by (rule yields_pre) (elim conjE, intro conjI, assumption, rule linked_active, assumption, erule sym)
    qed
  qed
qed simp

lemma run_session_yields: "yields consistent (resolve_run_session C run) (\<lambda>_. consistent)"
proof (rule yieldsI)
  fix d x d'
  assume d: "consistent d" and run: "resolve_run_session C run d = (Inr x, d')"
  let ?mentions = "filter (\<lambda>m. mention_run m = run \<and> mention_type m = PERSON) (mention_rows d)"
  obtain persons stats d1 linked where fold: "foldA (resolve_each C) ?mentions ([], \<lparr>mentions_processed = int (length ?mentions),
         mentions_resolved = 0, new_persons_created = 0, events_linked = 0, reviews_pending = 0,
         mentions_reused = 0\<rparr>) d = (Inr (persons, stats), d1)"
    and links: "foldA (link_participants persons) (filter (\<lambda>e. event_run e = run) (event_rows d1)) (events_linked stats) d1 =
      (Inr linked, d')"
    using run by (auto simp: resolve_run_session_def readS_def bindA_Inr)
  have "run_ok ?mentions [] d" using d by (auto simp: run_ok_def known_links_def)
  then have "run_ok ?mentions (fst (persons, stats)) d1"
    using yieldsD [OF yields_fold [of ?mentions "\<lambda>a. run_ok ?mentions (fst a)" "resolve_each C"] _ fold] resolve_each_yields
    by simp
  then have "run_ok ?mentions persons d'"
    using yieldsD [OF yields_fold [where P = "\<lambda>_. run_ok ?mentions persons"] _ links] link_participants_yields by simp
  then show "consistent d'" by (simp add: run_ok_def)
qed

section \<open>A review\<close>

lemma require_active_yields: "yields P (require_active i) (\<lambda>_ d. P d \<and> active d i)"
  unfolding yields_def require_active_def
  by (auto simp: bindA_Inr readS_def row_of_active split: option.splits if_splits)

lemma statuses_require: "obeys same_statuses (require_active i)"
  unfolding require_active_def by (intro statuses.obeys_flow statuses_ops)

lemma statuses_create_reviewed: "obeys same_statuses (create_reviewed_person identity m)"
  unfolding create_reviewed_person_def by (intro statuses.obeys_flow statuses_ops)

lemma statuses_promote: "obeys same_statuses (promote_alias C identity m i)"
  unfolding promote_alias_def by (intro statuses.obeys_flow statuses_ops)

lemma statuses_merge: "obeys same_statuses (merge_persons source target reason)"
proof (rule obeysI)
  fix d
  obtain r d' where run: "merge_persons source target reason d = (r, d')" by fastforce
  have "decision_rows d' = decision_rows d"
    using run unfolding merge_persons_def
    by (auto simp: bindA_def thenA_def raiseA_def returnA_def readS_def writeS_def merged_db_def split: if_splits option.splits)
  then show "same_statuses d (snd (merge_persons source target reason d))" using run by (simp add: same_statuses_def)
qed

lemma statuses_distinct:
  "obeys same_statuses (writeS (\<lambda>d. d\<lparr>decision_rows := update_rows (\<lambda>r. decision_id r = decision)
     (\<lambda>r. r\<lparr>distinct_from := Some s\<rparr>) (decision_rows d)\<rparr>))"
  by (rule statuses_update) (simp add: status_key_def)

lemma statuses_review_target: "obeys same_statuses (review_target C decision identity m action person source note)"
  unfolding review_target_def
  by (cases action; cases person; cases source)
    (simp_all, (intro statuses.obeys_flow statuses_create_reviewed statuses_require statuses_promote statuses_merge
      statuses_distinct statuses_ops | simp split: er_error.split | intro conjI allI impI)+)

lemma create_reviewed_yields: "yields (consistent_but X) (create_reviewed_person identity m) (\<lambda>i. ready X i)"
proof -
  have new: "yields (consistent_but X) (create_person (identity_name identity) (identity_name identity)
      (case identity_key identity of None \<Rightarrow> [] | Some key \<Rightarrow> key)) (\<lambda>i. ready X i)"
    unfolding ready_def by (rule create_person_yields)
  show ?thesis
    unfolding create_reviewed_person_def
    by (rule yields_bind [OF new yields_then [OF add_alias_yields yields_return]]) (simp_all add: new_alias_def)
qed

lemma promote_yields: "yields (ready X i) (promote_alias C identity m i) (\<lambda>_. ready X i)"
  unfolding promote_alias_def
proof (rule yields_bind [OF yields_read])
  fix c
  have "yields (ready X i) (add_alias_if_not_exists (new_alias i m identity FROM_MANUAL)) (\<lambda>_. ready X i)"
    by (rule add_alias_yields) (simp add: new_alias_def)
  then show "yields (\<lambda>d. ready X i d \<and> c = load_candidate d EXACT_KEY i)
      (case c of None \<Rightarrow> raiseA (StoreKeyError i)
       | Some c \<Rightarrow> if should_promote (er_unicode C) (identity_name identity)
             (extract_features (er_unicode C) (er_fuzzy C) identity c)
           then add_alias_if_not_exists (new_alias i m identity FROM_MANUAL) else returnA False) (\<lambda>_. ready X i)"
    by (cases c) (auto simp: yields_raise intro: yields_pre yields_return)
qed

lemma active_after_require:
  "yields (ready X j) m Q \<Longrightarrow> yields (consistent_but X) (thenA (require_active j) m) Q"
  by (rule yields_then [OF require_active_yields]) (auto simp: ready_def intro: yields_pre)

lemma require_then: "yields P m Q \<Longrightarrow> yields P (thenA (require_active j) m) Q"
  by (rule yields_then [OF require_active_yields]) (auto intro: yields_pre)

lemma require_keeps: "yields (ready X j) (require_active i) (\<lambda>_. ready X j)"
  by (rule yields_post [OF require_active_yields]) simp

lemma review_merge_yields:
  "yields (consistent_but X) (tryA (merge_persons s target reason) (\<lambda>merge. returnA (target, Some merge))
     (\<lambda>e. case e of PersonMergeConflict t \<Rightarrow> raiseA (ResolutionReviewState t) | _ \<Rightarrow> raiseA e))
   (\<lambda>(i, _). ready X i)"
  by (rule yields_try [OF merge_yields yields_return]) (auto split: er_error.splits)

lemma review_keep_yields:
  "yields (ready X target) (if action \<noteq> KEEP_SEPARATE then returnA ()
      else (case source of
          Some s \<Rightarrow> if s = target then raiseA e
            else thenA (require_active s) (writeS (\<lambda>d. d\<lparr>decision_rows :=
              update_rows (\<lambda>r. decision_id r = decision) (\<lambda>r. r\<lparr>distinct_from := Some s\<rparr>) (decision_rows d)\<rparr>))
        | None \<Rightarrow> raiseA e')) (\<lambda>_. ready X target)"
proof -
  have "yields (ready X target) (writeS (\<lambda>d. d\<lparr>decision_rows :=
      update_rows (\<lambda>r. decision_id r = decision) (\<lambda>r. r\<lparr>distinct_from := Some s\<rparr>) (decision_rows d)\<rparr>)) (\<lambda>_. ready X target)" for s
    by (rule yields_write) (rule update_decision_ready, simp_all)
  then show ?thesis
    by (cases source) (auto simp: yields_raise intro: yields_return yields_then [OF require_keeps])
qed

lemma review_target_yields:
  "yields (consistent_but X) (review_target C decision identity m action person source note) (\<lambda>(i, _). ready X i)"
proof -
  note keep = yields_then [OF review_keep_yields yields_then [OF promote_yields yields_return]]
  show ?thesis
  proof (cases action)
    case CREATE_NEW_PERSON
    then show ?thesis
      by (simp add: review_target_def) (rule yields_bind [OF create_reviewed_yields yields_return], simp)
  next
    case MERGE_PERSONS
    have "yields (consistent_but X) (thenA (require_active target) (thenA (require_active s)
        (tryA (merge_persons s target reason) (\<lambda>merge. returnA (target, Some merge))
          (\<lambda>e. case e of PersonMergeConflict t \<Rightarrow> raiseA (ResolutionReviewState t) | _ \<Rightarrow> raiseA e))))
      (\<lambda>(i, _). ready X i)" for target s reason
      by (intro require_then review_merge_yields)
    then show ?thesis
      using MERGE_PERSONS by (simp add: review_target_def yields_raise split: option.split)
  next
    case LINK_TO_PERSON
    have "yields (consistent_but X) (thenA (require_active target) (thenA (returnA ())
        (thenA (promote_alias C identity m target) (returnA (target, None :: nat option))))) (\<lambda>(i, _). ready X i)" for target
      by (intro active_after_require yields_then [where R = "\<lambda>_. ready X target"] yields_return promote_yields) auto
    then show ?thesis using LINK_TO_PERSON by (simp add: review_target_def yields_raise split: option.split)
  next
    case KEEP_SEPARATE
    have "yields (consistent_but X) (thenA (require_active target) (thenA (if KEEP_SEPARATE \<noteq> KEEP_SEPARATE then returnA ()
      else (case source of
          Some s \<Rightarrow> if s = target then raiseA e
            else thenA (require_active s) (writeS (\<lambda>d. d\<lparr>decision_rows :=
              update_rows (\<lambda>r. decision_id r = decision) (\<lambda>r. r\<lparr>distinct_from := Some s\<rparr>) (decision_rows d)\<rparr>))
        | None \<Rightarrow> raiseA e')) (thenA (promote_alias C identity m target) (returnA (target, None :: nat option)))))
      (\<lambda>(i, _). ready X i)" for target e e'
      by (intro active_after_require yields_then [where R = "\<lambda>_. ready X target"] review_keep_yields yields_return promote_yields) simp
    then show ?thesis using KEEP_SEPARATE by (simp add: review_target_def yields_raise split: option.split)
  qed
qed

lemma link_events_yields: "yields (linked k i) (link_mention_events m i) (\<lambda>_. linked k i)"
  unfolding link_mention_events_def
proof (rule yields_bind [OF yields_read], rule yields_pre [where P = "linked k i"], rule yields_fold)
  have link: "yields (linked k i) (add_link i event role confidence) (\<lambda>_. linked k i)" for event role confidence
  proof (rule yieldsI)
    fix d x d' assume d: "linked k i d" and run: "add_link i event role confidence d = (Inr x, d')"
    have "ready {k} i d'" using yieldsD [OF add_link_yields _ run] d by (simp add: linked_def)
    moreover have "mention_rows d' = mention_rows d" using run by (auto simp: add_link_def split: if_splits)
    ultimately show "linked k i d'" using d by (simp add: linked_def)
  qed
  fix x :: "nat \<times> string \<times> rat" and n :: int
  show "yields (linked k i) ((\<lambda>(event, role, confidence) n. bindA (add_link i event role confidence) (\<lambda>k. returnA (n + k))) x n)
      (\<lambda>_. linked k i)"
    by (cases x) (simp add: yields_bind [OF link yields_return])
qed simp

lemma statuses_link_events: "obeys same_statuses (link_mention_events m i)"
  unfolding link_mention_events_def
  by (intro statuses.obeys_flow statuses_ops) (auto intro: statuses.obeys_flow statuses_ops)

text \<open>Closing the decision of the mention at work.\<close>

lemma close_consistent:
  assumes d: "linked k i d" and mine: "\<forall>r \<in> set (decision_rows d). decision_id r = decision \<longleftrightarrow> decision_mention r = k"
    and run: "close_decision decision action target note d = (Inr x, d')"
  shows "consistent d'"
proof -
  let ?f = "\<lambda>r. r\<lparr>decision_status := REVIEWED, row_review_action := Some action, selected_person := Some target, reviewer_note := note\<rparr>"
  have d': "d' = d\<lparr>decision_rows := update_rows (\<lambda>r. decision_id r = decision) ?f (decision_rows d)\<rparr>"
    using run by (simp add: close_decision_def writeS_def)
  have ok: "rows_ok d" "refs_ok d" "decisions_ok {k} d" "active d i"
    using d by (simp_all add: linked_def ready_def consistent_but_def)
  have "rows_ok d'" using ok(1) by (auto simp: d' rows_ok_def map_update_rows set_update_rows)
  moreover have "refs_ok d'" using ok(2) by (simp add: d' refs_ok_def)
  moreover have "decisions_ok {k} d'"
    unfolding decisions_ok_def
  proof
    fix r assume "r \<in> set (decision_rows d')"
    then obtain r0 where r0: "r0 \<in> set (decision_rows d)" "r = (if decision_id r0 = decision then ?f r0 else r0)"
      by (auto simp: d' update_rows_def)
    have m: "decision_mention r = decision_mention r0" using r0(2) by simp
    have other: "decision_mention r0 \<noteq> k \<Longrightarrow> r = r0" using r0 mine by auto
    from decisions_okD [OF ok(3) r0(1)]
    show "\<exists>x \<in> set (mention_rows d'). mention_id x = decision_mention r \<and>
        (mention_id x \<notin> {k} \<longrightarrow> (decision_status r = PENDING_REVIEW) = (mention_person x = None))"
      unfolding m by (simp add: d') (elim bexE conjE, rule bexI, use other in auto)
  qed
  ultimately have "ready {k} i d'" using ok(4) by (simp add: ready_def consistent_but_def d')
  then show ?thesis
  proof (rule ready_settled)
    show "\<forall>m \<in> set (mention_rows d'). mention_id m = k \<longrightarrow> mention_person m \<noteq> None" using d by (simp add: linked_def d')
    show "PENDING_REVIEW \<notin> statuses_of k d'"
      using mine by (auto simp: d' statuses_of_def status_key_def update_rows_def split: if_splits)
  qed
qed

lemma decision_is_mine:
  assumes "same_statuses d0 d" and "distinct (map decision_id (decision_rows d0))"
    and "distinct (map decision_mention (decision_rows d0))" and "r0 \<in> set (decision_rows d0)" and "r \<in> set (decision_rows d)"
  shows "decision_id r = decision_id r0 \<longleftrightarrow> decision_mention r = decision_mention r0"
proof -
  have "status_key r \<in> set (map status_key (decision_rows d0))"
    using assms(1,5) unfolding same_statuses_def by (metis image_eqI set_map)
  then obtain r' where r': "r' \<in> set (decision_rows d0)" "decision_id r = decision_id r'" "decision_mention r = decision_mention r'"
    by (auto simp: status_key_def)
  have "decision_id r' = decision_id r0 \<longleftrightarrow> r' = r0" using assms(2,4) r'(1) distinct_map_eq by metis
  moreover have "decision_mention r' = decision_mention r0 \<longleftrightarrow> r' = r0" using assms(3,4) r'(1) distinct_map_eq by metis
  ultimately show ?thesis using r' by simp
qed

lemma consistent_weaken: "consistent d \<Longrightarrow> consistent_but X d"
  unfolding consistent_def consistent_but_def decisions_ok_def by fastforce

lemma apply_review_cases:
  assumes "apply_review C decision action person source note d = (Inr x, d')"
  obtains r m identity words target merge d1 d2 n d3 d4 where
    "row_by decision_id decision (decision_rows d) = Some r" "decision_status r = PENDING_REVIEW"
    "row_by mention_id (decision_mention r) (mention_rows d) = Some m"
    "review_target C decision identity m action person source words d = (Inr (target, merge), d1)"
    "set_mention_person (mention_id m) target d1 = (Inr (), d2)"
    "link_mention_events (mention_id m) target d2 = (Inr n, d3)"
    "close_decision decision action target note d3 = (Inr (), d4)"
    "d' = d4 \<or> (\<exists>i state text'. update_review_status i state text' d4 = (Inr (), d'))"
  using assms unfolding apply_review_def
  by (auto simp: bindA_Inr thenA_Inr readS_def Let_def split: option.splits if_splits) 
    (rule that, assumption, assumption, assumption, assumption, assumption, assumption, simp, blast)+

lemma review_yields: "yields consistent (apply_review C decision action person source note) (\<lambda>_. consistent)"
proof (rule yieldsI)
  fix d x d'
  assume d: "consistent d" and run: "apply_review C decision action person source note d = (Inr x, d')"
  from run show "consistent d'"
  proof (cases rule: apply_review_cases)
    case (1 r m identity words target merge d1 d2 n d3 d4)
    let ?k = "mention_id m"
    have r: "r \<in> set (decision_rows d)" "decision_id r = decision" using row_by_Some [OF 1(1)] by simp_all
    have m: "decision_mention r = ?k" using row_by_Some [OF 1(3)] by simp
    have rows: "distinct (map decision_id (decision_rows d))" "distinct (map decision_mention (decision_rows d))"
      using d by (simp_all add: consistent_def consistent_but_def rows_ok_def)
    have "ready {?k} target d1"
      using yieldsD [OF review_target_yields consistent_weaken [OF d] 1(4)] by simp
    then have "linked ?k target d2" using yieldsD [OF set_mention_linked _ 1(5)] by simp
    then have l3: "linked ?k target d3" using yieldsD [OF link_events_yields _ 1(6)] by simp
    have "same_statuses d d1" using obeysD [OF statuses_review_target, of d] 1(4) by (metis snd_conv)
    moreover have "same_statuses d1 d2" using obeysD [OF statuses_ops(5), of d1] 1(5) by (metis snd_conv)
    moreover have "same_statuses d2 d3" using obeysD [OF statuses_link_events, of d2] 1(6) by (metis snd_conv)
    ultimately have same: "same_statuses d d3" by (simp add: same_statuses_def)
    have "\<forall>q \<in> set (decision_rows d3). decision_id q = decision \<longleftrightarrow> decision_mention q = ?k"
      using decision_is_mine [OF same rows r(1)] r(2) m by simp
    then have d4: "consistent d4" using close_consistent [OF l3 _ 1(7)] by simp
    show ?thesis
      using 1(8)
    proof
      assume "\<exists>i state text'. update_review_status i state text' d4 = (Inr (), d')"
      then obtain i state words' where upd: "update_review_status i state words' d4 = (Inr (), d')" by blast
      then have "\<exists>v. d' = d4\<lparr>review_rows := v\<rparr>"
        by (auto simp: update_review_status_def bindA_Inr readS_def writeS_def split: option.splits)
      then show ?thesis using d4 by (auto simp: consistent_def)
    qed (use d4 in simp)
  qed
qed

section \<open>An extraction\<close>

lemma insert_run_yields: "yields consistent (insert_run v status) (\<lambda>_. consistent)"
  by (rule yieldsI) (auto simp: insert_run_def consistent_def)

lemma set_run_yields: "yields consistent (set_run i status e) (\<lambda>_. consistent)"
  unfolding set_run_def by (rule yields_write) (simp add: consistent_def)

lemma distinct_map_filtered: "distinct (map f xs) \<Longrightarrow> distinct (map f (filter P xs))"
  by (rule distinct_map_filter)

lemma delete_children_yields: "yields consistent (delete_children run) (\<lambda>_. consistent)"
  unfolding delete_children_def
proof (rule yields_write)
  fix d assume d: "consistent d"
  let ?d = "without_children run d"
  have ok: "rows_ok d" "refs_ok d" "decisions_ok {} d" using d by (simp_all add: consistent_def consistent_but_def)
  have active: "active ?d i = active d i" for i by (simp add: without_children_def active_def)
  have aliases: "alias_person (if P then a\<lparr>alias_mention := None\<rparr> else a) = alias_person a"
    "alias_surface (if P then a\<lparr>alias_mention := None\<rparr> else a) = alias_surface a" for a :: alias_row and P by simp_all
  have "person_aliases.unique_rows (alias_rows ?d)"
    using ok(1) by (simp add: rows_ok_def person_aliases.unique_rows_def without_children_def update_rows_def comp_def aliases)
  moreover have "person_links.unique_rows (link_rows ?d)"
    using ok(1) by (simp add: rows_ok_def person_links.unique_rows_def without_children_def distinct_map_filtered)
  ultimately have "rows_ok ?d"
    using ok(1) by (simp add: rows_ok_def without_children_def distinct_map_filtered)
  moreover have "refs_ok ?d"
    using ok(2) unfolding refs_ok_def active by (auto simp: without_children_def set_update_rows)
  moreover have "decisions_ok {} ?d"
    unfolding decisions_ok_def
  proof
    fix r assume "r \<in> set (decision_rows ?d)"
    then have r: "r \<in> set (decision_rows d)" "decision_mention r \<notin> set (mentions_of_run run d)"
      by (simp_all add: without_children_def)
    from decisions_okD [OF ok(3) r(1)] obtain m where m: "m \<in> set (mention_rows d)" "mention_id m = decision_mention r"
      "mention_id m \<notin> {} \<longrightarrow> (decision_status r = PENDING_REVIEW) = (mention_person m = None)"
      by (elim bexE conjE) (rule that)
    have "mention_run m \<noteq> run" using r(2) m(1,2) by (force simp: mentions_of_run_def)
    then have "m \<in> set (mention_rows ?d)" using m(1) by (simp add: without_children_def)
    then show "\<exists>x \<in> set (mention_rows ?d). mention_id x = decision_mention r \<and>
        (mention_id x \<notin> {} \<longrightarrow> (decision_status r = PENDING_REVIEW) = (mention_person x = None))"
      using m(2,3) by (intro bexI [of _ m]) simp_all
  qed
  ultimately show "consistent ?d" by (simp add: consistent_def consistent_but_def)
qed

lemma insert_mention_yields: "yields consistent (insert_mention run m ids) (\<lambda>_. consistent)"
proof (rule yieldsI)
  fix d x d' assume d: "consistent d" and run: "insert_mention run m ids d = (Inr x, d')"
  have ok: "rows_ok d" "refs_ok d" "decisions_ok {} d" using d by (simp_all add: consistent_def consistent_but_def)
  have d': "d' = d\<lparr>mention_rows := mention_rows d @ [mention_row_of (next_mention d) run m], next_mention := Suc (next_mention d)\<rparr>"
    using run by (auto simp: insert_mention_def split: if_splits)
  have "next_mention d \<notin> mention_id ` set (mention_rows d)" using ok(1) by (auto simp: rows_ok_def)
  then have "rows_ok d'" using ok(1) by (auto simp: d' rows_ok_def mention_row_of_def less_Suc_eq)
  moreover have "refs_ok d'" using ok(2) by (auto simp: d' refs_ok_def mention_row_of_def)
  moreover have "decisions_ok {} d'"
    unfolding decisions_ok_def
  proof
    fix r assume "r \<in> set (decision_rows d')"
    then have "r \<in> set (decision_rows d)" by (simp add: d')
    from decisions_okD [OF ok(3) this]
    show "\<exists>x \<in> set (mention_rows d'). mention_id x = decision_mention r \<and>
        (mention_id x \<notin> {} \<longrightarrow> (decision_status r = PENDING_REVIEW) = (mention_person x = None))"
      by (elim bexE) (rule bexI, assumption, simp add: d')
  qed
  ultimately show "consistent d'" by (simp add: consistent_def consistent_but_def)
qed

lemma insert_event_yields: "yields consistent (insert_event run ids e u) (\<lambda>_. consistent)"
  unfolding insert_event_def
proof (rule yields_bind [where R = "\<lambda>_. consistent"])
  show "yields consistent (\<lambda>d. (Inr (next_event d), d\<lparr>event_rows := event_rows d @
       [\<lparr>event_id = next_event d, event_run = run, event_kind = ev_kind e, event_confidence = ev_confidence e\<rparr>],
       next_event := Suc (next_event d)\<rparr>)) (\<lambda>_. consistent)"
    by (rule yieldsI) (auto simp: consistent_def)
  show "yields consistent (foldA (insert_event_mention i ids) (ev_links e) ()) (\<lambda>_. consistent)" for i
    by (rule yields_fold, rule yieldsI)
      (auto simp: insert_event_mention_def consistent_def Let_def split: prod.splits if_splits)
qed

lemma save_children_yields: "yields consistent (save_children r run) (\<lambda>_. consistent)"
  unfolding save_children_def
  by (intro yields_then [OF set_run_yields] yields_then [OF delete_children_yields] yields_bind [where R = "\<lambda>_. consistent"]
      yields_then [where R = "\<lambda>_. consistent"] yields_fold insert_mention_yields insert_event_yields set_run_yields yields_return)

lemma fail_children_yields: "yields consistent (fail_children v message run) (\<lambda>_. consistent)"
  unfolding fail_children_def
  by (intro yields_then [OF delete_children_yields] yields_then [OF set_run_yields] yields_return)

lemma save_yields: "yields consistent (save_session r) (\<lambda>_. consistent)"
  unfolding save_session_def
  by (intro yields_bind_read yields_option yields_if yields_bind [OF insert_run_yields] save_children_yields
    yields_return)

lemma save_failed_yields: "yields consistent (save_failed_session v message) (\<lambda>_. consistent)"
  unfolding save_failed_session_def
  by (intro yields_bind_read yields_option yields_if yields_bind [OF insert_run_yields] fail_children_yields
    yields_return)

section \<open>Every database the program makes\<close>

text \<open>Whatever an operation returns or raises, consistent tables stay consistent.\<close>

definition keeps_consistent :: "persons_db \<Rightarrow> persons_db \<Rightarrow> bool" where
  "keeps_consistent d d' \<longleftrightarrow> (consistent d \<longrightarrow> consistent d')"

interpretation consistency: state_order keeps_consistent
  by unfold_locales (auto simp: keeps_consistent_def)

lemma transaction_consistent: "yields consistent m (\<lambda>_. consistent) \<Longrightarrow> obeys keeps_consistent (transaction m)"
  by (simp add: obeys_def keeps_consistent_def transaction_keeps)

lemma pipeline_consistent: "consistent d \<Longrightarrow> consistent (snd (pipeline_run P doc d))"
proof -
  assume d: "consistent d"
  have stored: "snd (stored m d) = snd (m d)" for m :: "save_result session"
    by (simp add: stored_def split: prod.split sum.split)
  have "consistent (snd (save r d))" "consistent (snd (save_failed v t d))" for r v t
    using transaction_consistent [OF save_yields [of r]] transaction_consistent [OF save_failed_yields [of v t]] d
    by (auto simp: save_def save_failed_def obeys_def keeps_consistent_def)
  then show ?thesis using d
    by (simp add: pipeline_run_def stored raiseA_def split: sum.split option.split)
qed

lemma redecide_consistent: "obeys keeps_consistent (redecide_reviews C commit limit)"
proof -
  have review: "yields consistent (thenA (apply_review C decision LINK_TO_PERSON person None words) (returnA z)) (\<lambda>_. consistent)"
    for decision person words and z :: redecide_summary
    by (rule yields_then [OF review_yields yields_return])
  have "obeys keeps_consistent (redecide_one C commit decision s)" for decision s
    unfolding redecide_one_def
    unfolding Let_def
    by (intro transaction_consistent yields_bind_read yields_option yields_if yields_raise yields_return review)
  then show ?thesis
    unfolding redecide_reviews_def
    by (intro consistency.obeys_bind consistency.obeys_fold) (simp_all add: obeys_def readS_def keeps_consistent_def)
qed

inductive reachable :: "persons_db \<Rightarrow> bool" where
  from_empty: "reachable empty_db"
| extraction: "reachable d \<Longrightarrow> reachable (snd (pipeline_run P doc d))"
| resolution: "reachable d \<Longrightarrow> reachable (snd (resolve_extraction_run C run d))"
| review: "reachable d \<Longrightarrow> reachable (snd (transaction (apply_review C decision action person source note) d))"
| redecision: "reachable d \<Longrightarrow> reachable (snd (redecide_reviews C commit limit d))"
| merging: "reachable d \<Longrightarrow> reachable (snd (transaction (merge_persons source target reason) d))"

lemma reachable_consistent: "reachable d \<Longrightarrow> consistent d"
proof (induction rule: reachable.induct)
  case from_empty
  show ?case
    by (simp add: empty_db_def consistent_def consistency_defs person_links.unique_rows_def person_aliases.unique_rows_def)
next
  case (extraction d P doc)
  then show ?case by (simp add: pipeline_consistent)
next
  case (resolution d C run)
  then show ?case
    using obeysD [OF transaction_consistent [OF run_session_yields]] by (simp add: resolve_extraction_run_def keeps_consistent_def)
next
  case (review d C decision action person source words)
  then show ?case using obeysD [OF transaction_consistent [OF review_yields]] by (simp add: keeps_consistent_def)
next
  case (redecision d C commit limit)
  then show ?case using obeysD [OF redecide_consistent] by (simp add: keeps_consistent_def)
next
  case (merging d source target reason)
  have "yields consistent (merge_persons source target reason) (\<lambda>_. consistent)"
    unfolding consistent_def by (rule yields_post [OF merge_yields]) (simp add: ready_def)
  from obeysD [OF transaction_consistent [OF this], of d] merging show ?case by (simp add: keeps_consistent_def)
qed

text \<open>C2. In every database that extraction, resolution, reviews, re-decisions and merges come to,
  in any order and with their failures, mentions, aliases and event links belong to active
  persons only (never to a merged one), and a decided mention is without a person exactly
  while its decision waits for a review.\<close>

theorem only_active_persons_are_referenced:
  assumes "reachable d"
  shows "(\<forall>m \<in> set (mention_rows d). \<forall>i. mention_person m = Some i \<longrightarrow> active d i) \<and>
    (\<forall>a \<in> set (alias_rows d). active d (alias_person a)) \<and> (\<forall>l \<in> set (link_rows d). active d (link_person l)) \<and>
    (\<forall>r \<in> set (decision_rows d). \<exists>m \<in> set (mention_rows d). mention_id m = decision_mention r \<and>
       (decision_status r = PENDING_REVIEW \<longleftrightarrow> mention_person m = None))"
proof -
  have "refs_ok d" "decisions_ok {} d"
    using reachable_consistent [OF assms] by (simp_all add: consistent_def consistent_but_def)
  then show ?thesis by (simp add: refs_ok_def decisions_ok_def)
qed

text \<open>A document that names one person, extracted and resolved.\<close>

definition sample_config :: er_config where
  "sample_config = \<lparr>er_unicode = russian, er_fuzzy = exact_only, er_thresholds = default_thresholds,
     candidate_limit = 20, trigram_score = (\<lambda>s t. if s = t then 1 else 0),
     word_score = (\<lambda>s t. if s = t then 1 else 0), article_published = (\<lambda>_. None)\<rparr>"

definition sample_row :: mention_row where
  "sample_row = mention_row_of 0 0 sample_mention"

definition sample_extracted :: persons_db where
  "sample_extracted = empty_db\<lparr>mention_rows := [sample_row], next_run := 1, next_mention := 1,
     extraction_run_rows := [\<lparr>run_id = 0, run_version = version_of sample_pipeline sample_document,
       extraction_status = SUCCEEDED, run_error = None\<rparr>]\<rparr>"

lemma sample_extraction: "snd (pipeline_run sample_pipeline sample_document empty_db) = sample_extracted"
  by code_simp

definition sample_identity :: person_identity where
  "sample_identity = \<lparr>identity_name = sample_name, identity_surface = Some sample_name, identity_key = Some sample_name,
     identity_mention = Some 0, identity_article = Some 5\<rparr>"

definition sample_plan :: resolution_decision where
  "sample_plan = decision_of [] CREATE_NEW [NO_CANDIDATE] None None"

definition sample_decided :: persons_db where
  "sample_decided = snd (record_decision sample_row sample_identity sample_plan sample_extracted)"

definition sample_applied :: persons_db where
  "sample_applied = snd (apply_plan sample_config sample_row sample_identity sample_plan 0 sample_decided)"

lemma sample_resolution:
  "\<exists>o'. resolve_mention sample_config sample_row sample_extracted = (Inr (Some o'), sample_applied) \<and> outcome_person o' = Some 0"
proof -
  have "refreshed sample_row sample_extracted = sample_row" by code_simp
  moreover have "identity_from_mention sample_row (article_of_run sample_extracted (mention_run sample_row)) = Some sample_identity"
    by code_simp
  moreover have "existing_outcome sample_row sample_extracted = None" by code_simp
  moreover have "plan sample_config sample_identity sample_extracted = sample_plan" by code_simp
  moreover have "record_decision sample_row sample_identity sample_plan sample_extracted = (Inr (Some 0), sample_decided)"
    by (simp add: sample_decided_def record_decision_def sample_extracted_def empty_db_def)
  moreover have "fst (apply_plan sample_config sample_row sample_identity sample_plan 0 sample_decided) =
      Inr \<lparr>outcome_mention = 0, outcome_person = Some 0, outcome_action = CREATE_NEW, outcome_created = True,
        outcome_decision = Some 0, outcome_reused = False\<rparr>"
    by (simp add: apply_plan_def person_for_def action_defs create_alias_def create_person_def
      set_selected_person_def set_mention_person_def writeS_def sample_decided_def record_decision_def sample_plan_def
      decision_of_def sample_extracted_def empty_db_def new_alias_def sample_row_def mention_row_of_def)
  then have "apply_plan sample_config sample_row sample_identity sample_plan 0 sample_decided =
      (Inr \<lparr>outcome_mention = 0, outcome_person = Some 0, outcome_action = CREATE_NEW, outcome_created = True,
        outcome_decision = Some 0, outcome_reused = False\<rparr>, sample_applied)"
    unfolding sample_applied_def by (simp add: prod_eq_iff)
  ultimately show ?thesis using resolve_mention_new by fastforce
qed

lemma sample_applied_rows:
  "map mention_person (mention_rows sample_applied) = [Some 0]" "event_rows sample_applied = []"
  "map decision_status (decision_rows sample_applied) = [APPLIED]"
  by (simp_all add: sample_applied_def apply_plan_def person_for_def action_defs create_alias_def create_person_def
      set_selected_person_def set_mention_person_def writeS_def sample_decided_def record_decision_def sample_plan_def
      decision_of_def sample_extracted_def empty_db_def new_alias_def sample_row_def mention_row_of_def)

lemma sample_run: "snd (resolve_extraction_run sample_config 0 sample_extracted) = sample_applied"
proof -
  have "filter (\<lambda>m. mention_run m = 0 \<and> mention_type m = PERSON) (mention_rows sample_extracted) = [sample_row]" by code_simp
  moreover obtain o' where "resolve_mention sample_config sample_row sample_extracted = (Inr (Some o'), sample_applied)"
    using sample_resolution by blast
  ultimately show ?thesis
    by (simp add: resolve_extraction_run_def transaction_def resolve_run_session_def readS_def bindA_def resolve_each_def
      sample_applied_rows returnA_def)
qed

theorem only_active_persons_are_referenced_witness:
  "reachable sample_applied \<and> map mention_person (mention_rows sample_applied) = [Some 0] \<and> active sample_applied 0"
proof -
  have "reachable sample_extracted"
    using reachable.extraction [OF reachable.from_empty, of sample_pipeline sample_document] by (simp add: sample_extraction)
  then have r: "reachable sample_applied"
    using reachable.resolution [of sample_extracted sample_config 0] by (simp add: sample_run)
  have "Some 0 \<in> mention_person ` set (mention_rows sample_applied)"
    using arg_cong [OF sample_applied_rows(1), of set] by simp
  then obtain m where "m \<in> set (mention_rows sample_applied)" "mention_person m = Some 0" by (metis imageE)
  then show ?thesis using only_active_persons_are_referenced [OF r] r sample_applied_rows(1) by blast
qed

end
