(* ===== verification/Resolution_Rerun.thy ===== *)
theory Resolution_Rerun
  imports Person_Invariants
begin

text \<open>
  Resolving an extraction run again: every mention is found decided, every link is found made,
  and the second run leaves the tables as they are.
\<close>

section \<open>Steps that settle\<close>

text \<open>A loop whose every step leaves what \<open>done\<close> says, and none undoes it.\<close>

lemma fold_settles:
  assumes "\<And>x a d b d'. f x a d = (Inr b, d') \<Longrightarrow> Done x d'" and "state_order R" and "\<And>x a. obeys R (f x a)"
    and "\<And>x d d'. Done x d \<Longrightarrow> R d d' \<Longrightarrow> Done x d'"
  shows "foldA f xs a d = (Inr b, d') \<Longrightarrow> \<forall>x \<in> set xs. Done x d'"
proof (induction xs arbitrary: a d)
  case (Cons x xs)
  have "bindA (f x a) (foldA f xs) d = (Inr b, d')" using Cons.prems by simp
  then obtain a1 d1 where step: "f x a d = (Inr a1, d1)" and rest: "foldA f xs a1 d1 = (Inr b, d')"
    unfolding bindA_Inr by blast
  have "obeys R (foldA f xs a1)" using state_order.obeys_fold [OF assms(2) assms(3)] .
  then have "R d1 d'" using obeysD [of R "foldA f xs a1" d1] rest by simp
  then have "Done x d'" using assms(1) [OF step] assms(4) by blast
  then show ?case using Cons.IH [OF rest] by simp
qed simp

lemma fold_idle: "(\<And>x a. x \<in> set xs \<Longrightarrow> f x a d = (Inr a, d)) \<Longrightarrow> foldA f xs a d = (Inr a, d)"
  by (induction xs arbitrary: a) (auto simp: bindA_def)

section \<open>A mention resolved before\<close>

definition standing :: "mention_row \<Rightarrow> persons_db \<Rightarrow> mention_outcome option" where
  "standing m d = existing_outcome (refreshed m d) d"

definition identified :: "mention_row \<Rightarrow> persons_db \<Rightarrow> bool" where
  "identified m d \<longleftrightarrow> (\<exists>key. mention_key (refreshed m d) = Some key \<and> key \<noteq> [])"

lemma identity_None: "identity_from_mention (refreshed m d) article = None \<longleftrightarrow> \<not> identified m d"
  by (auto simp: identity_from_mention_def identified_def split: option.split)

lemma resolve_standing:
  "identified m d \<Longrightarrow> standing m d = Some o' \<Longrightarrow> resolve_mention C m d = (Inr (Some o'), d)"
  using identity_None [of m d "article_of_run d (mention_run (refreshed m d))"]
  by (auto simp: resolve_mention_def standing_def readS_def bindA_def split: option.split)

lemma resolve_unidentified: "\<not> identified m d \<Longrightarrow> resolve_mention C m d = (Inr None, d)"
  using identity_None [of m d "article_of_run d (mention_run (refreshed m d))"]
  by (auto simp: resolve_mention_def readS_def bindA_def split: option.split)

lemma find_decided:
  assumes "map decided rows' = map decided rows @ new"
  shows "find (\<lambda>r. decision_mention r = k) rows = Some r \<Longrightarrow>
      \<exists>r'. find (\<lambda>r. decision_mention r = k) rows' = Some r' \<and> decided r' = decided r"
    and "k \<notin> (fst \<circ> snd) ` set new \<Longrightarrow> find (\<lambda>r. decision_mention r = k) rows = None \<Longrightarrow>
      find (\<lambda>r. decision_mention r = k) rows' = None"
proof -
  have "map_option decided (find (\<lambda>r. decision_mention r = k) rs) = find (\<lambda>(i, j, a). j = k) (map decided rs)" for rs
    by (induction rs) (simp_all add: decided_def)
  then have eq: "map_option decided (find (\<lambda>r. decision_mention r = k) rows') = (case map_option decided
      (find (\<lambda>r. decision_mention r = k) rows) of None \<Rightarrow> find (\<lambda>(i, j, a). j = k) new | Some x \<Rightarrow> Some x)"
    by (simp add: assms find_append)
  show "find (\<lambda>r. decision_mention r = k) rows = Some r \<Longrightarrow>
      \<exists>r'. find (\<lambda>r. decision_mention r = k) rows' = Some r' \<and> decided r' = decided r"
    using eq by (auto simp: map_option_eq_Some)
  show "k \<notin> (fst \<circ> snd) ` set new \<Longrightarrow> find (\<lambda>r. decision_mention r = k) rows = None \<Longrightarrow>
      find (\<lambda>r. decision_mention r = k) rows' = None"
  proof -
    assume k: "k \<notin> (fst \<circ> snd) ` set new" and none: "find (\<lambda>r. decision_mention r = k) rows = None"
    have "find (\<lambda>(i, j, a). j = k) new = None" using k by (force simp: find_None_iff)
    then show "find (\<lambda>r. decision_mention r = k) rows' = None" using eq none by simp
  qed
qed

text \<open>Resolving other mentions leaves what stands for this one.\<close>

lemma standing_kept:
  assumes "undisturbed K d d'" and "mention_id m \<notin> K" and "standing m d = Some o'"
  shows "standing m d' = Some o'"
proof -
  obtain new where new: "map decided (decision_rows d') = map decided (decision_rows d) @ new" "(fst \<circ> snd) ` set new \<subseteq> K"
    using assms(1) by (auto simp: undisturbed_def)
  have same: "refreshed m d' = refreshed m d" using assms(1,2) by (simp add: undisturbed_def refreshed_def)
  show ?thesis
  proof (cases "find (\<lambda>r. decision_mention r = mention_id m) (decision_rows d)")
    case (Some r)
    then obtain r' where "find (\<lambda>r. decision_mention r = mention_id m) (decision_rows d') = Some r'" "decided r' = decided r"
      using find_decided(1) [OF new(1)] by blast
    then show ?thesis using assms(3) Some by (simp add: standing_def existing_outcome_def same decided_def)
  next
    case None
    then have "find (\<lambda>r. decision_mention r = mention_id m) (decision_rows d') = None"
      using find_decided(2) [OF new(1)] new(2) assms(2) by blast
    then show ?thesis using assms(3) None by (simp add: standing_def existing_outcome_def same)
  qed
qed

lemma identified_kept:
  assumes "undisturbed K d d'" and "mention_id m \<in> mention_id ` set (mention_rows d)"
  shows "identified m d' = identified m d"
proof -
  have key: "map_option mention_key (row_by mention_id k rows) = map_option mention_key (row_by mention_id k (map unlinked rows))"
    for k rows by (induction rows) (simp_all add: row_by_def unlinked_def)
  have "map_option mention_key (row_by mention_id (mention_id m) (mention_rows d')) =
      map_option mention_key (row_by mention_id (mention_id m) (mention_rows d))"
    unfolding key [of _ "mention_rows d'"] key [of _ "mention_rows d"] using assms(1) by (simp add: undisturbed_def)
  moreover obtain r where r: "row_by mention_id (mention_id m) (mention_rows d) = Some r"
    using assms(2) row_by_None [of mention_id "mention_id m" "mention_rows d"] by fastforce
  ultimately show ?thesis by (auto simp: identified_def refreshed_def split: option.splits)
qed

lemma refreshed_found:
  "distinct (map mention_id (mention_rows d)) \<Longrightarrow> y \<in> set (mention_rows d) \<Longrightarrow> mention_id y = mention_id m \<Longrightarrow> refreshed m d = y"
  using row_by_in [of mention_id "mention_rows d" y] by (simp add: refreshed_def)

text \<open>After a mention is resolved, what stands for it names the same person and action.\<close>

lemma resolve_settles:
  assumes "resolve_mention C m d = (Inr (Some o'), d')" and "distinct (map mention_id (mention_rows d))"
    and "mention_id m \<in> mention_id ` set (mention_rows d)"
  shows "\<exists>o''. standing m d' = Some o'' \<and> outcome_person o'' = outcome_person o' \<and>
    outcome_action o'' = outcome_action o' \<and> \<not> outcome_created o''"
  using assms(1)
proof (cases rule: resolve_mention_cases)
  case (reused o'')
  then have "outcome_created o' = False" by (auto simp: existing_outcome_def split: option.splits)
  then show ?thesis using reused by (simp add: standing_def)
next
  case (new identity n d1 o'')
  let ?m = "refreshed m d" and ?k = "mention_id m"
  have "undisturbed {?k} d1 d'"
    using obeysD [OF undisturbed_apply_plan [of ?m "{?k}" C identity "plan C identity d" n], of d1] new(4) by simp
  then obtain rest where rest: "map decided (decision_rows d') = map decided (decision_rows d1) @ rest"
    by (auto simp: undisturbed_def)
  obtain r where r: "decision_rows d1 = decision_rows d @ [r]" "decision_mention r = ?k" "row_action r = decision_action (plan C identity d)"
    using new(3) by (auto simp: record_decision_def split: if_splits)
  have "find (\<lambda>r. decision_mention r = ?k) (decision_rows d1) = Some r"
    using existing_None [OF new(2)] by (simp add: r find_append find_None_iff [THEN iffD2])
  then obtain r' where r': "find (\<lambda>r. decision_mention r = ?k) (decision_rows d') = Some r'" "decided r' = decided r"
    using find_decided(1) [OF rest] by blast
  obtain y where y: "y \<in> set (mention_rows d')" "mention_id y = ?k" "mention_person y = outcome_person o'"
    using resolve_person [OF assms(1,3)] by blast
  have "undisturbed {?k} d d'"
    using obeysD [OF undisturbed_resolve [of m "{?k}" C], of d] assms(1) by simp
  then have "distinct (map mention_id (mention_rows d'))" using assms(2) by (simp add: undisturbed_ids)
  then have "refreshed m d' = y" using refreshed_found y(1,2) by blast
  moreover have "outcome_action o' = decision_action (plan C identity d)"
    using new(4,5) by (auto simp: apply_plan_def action_results split: if_splits)
  ultimately show ?thesis using r' r(3) y(2,3) by (simp add: standing_def existing_outcome_def decided_def)
qed simp

section \<open>All mentions of a run\<close>

lemma refreshed_same: "mention_id m' = mention_id m \<Longrightarrow> mention_id m \<in> mention_id ` set (mention_rows d) \<Longrightarrow> refreshed m' d = refreshed m d"
  using row_by_None [of mention_id "mention_id m" "mention_rows d"] by (auto simp: refreshed_def split: option.split)

lemma undisturbed_each: "mention_id m \<in> K \<Longrightarrow> obeys (undisturbed K) (resolve_each C m a)"
  unfolding resolve_each_def
  by (cases a) (auto intro!: resolving.obeys_bind resolving.obeys_option resolving.obeys_return undisturbed_resolve)

lemma undisturbed_all: "mention_id ` set ms \<subseteq> K \<Longrightarrow> obeys (undisturbed K) (foldA (resolve_each C) ms a)"
  by (induction ms arbitrary: a) (auto intro!: resolving.obeys_bind resolving.obeys_return undisturbed_each)

text \<open>What two runs count alike: persons linked and reviews waiting; the second makes nothing.\<close>

definition counts_alike :: "run_stats \<Rightarrow> run_stats \<Rightarrow> run_stats \<Rightarrow> run_stats \<Rightarrow> bool" where
  "counts_alike s s' z z' \<longleftrightarrow> mentions_resolved z' - mentions_resolved z = mentions_resolved s' - mentions_resolved s \<and>
     reviews_pending z' - reviews_pending z = reviews_pending s' - reviews_pending s \<and>
     new_persons_created z' = new_persons_created z \<and> events_linked z' = events_linked z"

lemma counts_alike_trans: "counts_alike s t z w \<Longrightarrow> counts_alike t u w v \<Longrightarrow> counts_alike s u z v"
  by (simp add: counts_alike_def)

lemma counts_alike_count:
  "outcome_person o'' = outcome_person o' \<Longrightarrow> outcome_action o'' = outcome_action o' \<Longrightarrow> \<not> outcome_created o'' \<Longrightarrow>
   counts_alike s (count_outcome o' s) z (count_outcome o'' z)"
  by (simp add: counts_alike_def count_outcome_def)

lemma each_again:
  assumes run: "resolve_each C m (persons, s) d = (Inr (persons', s'), d1)" and dist: "distinct (map mention_id (mention_rows d))"
    and here: "mention_id m \<in> mention_id ` set (mention_rows d)" and later: "undisturbed L d1 e" "mention_id m \<notin> L"
    and same: "mention_id m' = mention_id m"
  shows "\<exists>z'. resolve_each C m' (persons, z) e = (Inr (persons', z'), e) \<and> counts_alike s s' z z'"
proof -
  have "bindA (resolve_mention C m) (\<lambda>resolved. case resolved of
      None \<Rightarrow> returnA (persons, s)
    | Some o' \<Rightarrow> returnA ((case outcome_person o' of None \<Rightarrow> persons | Some i \<Rightarrow> dict_set (mention_id m) i persons),
        count_outcome o' s)) d = (Inr (persons', s'), d1)"
    using run by (simp add: resolve_each_def)
  then obtain x u where step: "resolve_mention C m d = (Inr x, u)" and value': "(case x of
      None \<Rightarrow> returnA (persons, s)
    | Some o' \<Rightarrow> returnA ((case outcome_person o' of None \<Rightarrow> persons | Some i \<Rightarrow> dict_set (mention_id m) i persons),
        count_outcome o' s)) u = (Inr (persons', s') :: er_error + (nat, nat) dict \<times> run_stats, d1)"
    unfolding bindA_Inr by (elim exE conjE) (rule that)
  have x: "resolve_mention C m d = (Inr x, d1)"
    "(persons', s') = (case x of None \<Rightarrow> (persons, s) | Some o' \<Rightarrow> ((case outcome_person o' of None \<Rightarrow> persons
        | Some i \<Rightarrow> dict_set (mention_id m) i persons), count_outcome o' s))"
    using step value' by (cases x; simp)+
  have first: "undisturbed {mention_id m} d d1"
    using obeysD [OF undisturbed_resolve [of m "{mention_id m}" C], of d] x(1) by simp
  have here1: "mention_id m \<in> mention_id ` set (mention_rows d1)" and here2: "mention_id m \<in> mention_id ` set (mention_rows e)"
    using undisturbed_ids [OF first] undisturbed_ids [OF later(1)] here by (metis set_map)+
  have ref: "refreshed m' e = refreshed m e" using refreshed_same [OF same here2] .
  have same_id: "identified m' e = identified m d" "standing m' e = standing m e"
    using identified_kept [OF first here] identified_kept [OF later(1) here1] ref by (simp_all add: identified_def standing_def)
  show ?thesis
  proof (cases x)
    case None
    have "\<not> identified m d"
    proof
      assume "identified m d"
      then show False using x(1) None identity_None [of m d "article_of_run d (mention_run (refreshed m d))"]
        by (cases rule: resolve_mention_cases [OF x(1)]) simp_all
    qed
    then have "resolve_mention C m' e = (Inr None, e)" using same_id(1) resolve_unidentified by simp
    then show ?thesis using x(2) None by (simp add: resolve_each_def bindA_def counts_alike_def)
  next
    case (Some o')
    have id: "identified m d"
    proof (rule ccontr)
      assume "\<not> identified m d"
      then show False using resolve_unidentified x(1) Some by simp
    qed
    obtain o'' where o'': "standing m d1 = Some o''" "outcome_person o'' = outcome_person o'"
      "outcome_action o'' = outcome_action o'" "\<not> outcome_created o''"
      using resolve_settles [OF x(1) [unfolded Some] dist here] by blast
    have "standing m' e = Some o''" using standing_kept [OF later o''(1)] same_id(2) by simp
    then have "resolve_mention C m' e = (Inr (Some o''), e)" using resolve_standing same_id(1) id by simp
    then show ?thesis using x(2) Some o'' same
      by (simp add: resolve_each_def bindA_def counts_alike_count split: option.split)
  qed
qed

lemma all_again:
  assumes "foldA (resolve_each C) ms (persons, s) d = (Inr (persons', s'), d')" and "distinct (map mention_id (mention_rows d))"
    and "mention_id ` set ms \<subseteq> mention_id ` set (mention_rows d)" and "distinct (map mention_id ms)"
    and "undisturbed L d' e" and "L \<inter> mention_id ` set ms = {}" and "map mention_id ms' = map mention_id ms"
  shows "\<exists>z'. foldA (resolve_each C) ms' (persons, z) e = (Inr (persons', z'), e) \<and> counts_alike s s' z z'"
  using assms
proof (induction ms arbitrary: ms' persons s d z)
  case Nil
  then show ?case by (simp add: counts_alike_def)
next
  case (Cons m ms)
  have "bindA (resolve_each C m (persons, s)) (foldA (resolve_each C) ms) d = (Inr (persons', s'), d')" using Cons.prems(1) by simp
  then obtain persons1 s1 d1 where step: "resolve_each C m (persons, s) d = (Inr (persons1, s1), d1)"
    and rest: "foldA (resolve_each C) ms (persons1, s1) d1 = (Inr (persons', s'), d')"
    unfolding bindA_Inr by (metis prod.exhaust)
  obtain m' rest' where ms': "ms' = m' # rest'" "mention_id m' = mention_id m" "map mention_id rest' = map mention_id ms"
    using Cons.prems(7) by auto
  have first: "undisturbed {mention_id m} d d1"
    using obeysD [OF undisturbed_each [of m "{mention_id m}" C], of d "(persons, s)"] step by simp
  have ids: "map mention_id (mention_rows d1) = map mention_id (mention_rows d)" by (rule undisturbed_ids [OF first])
  have others: "undisturbed (mention_id ` set ms) d1 d'"
    using obeysD [OF undisturbed_all [of ms "mention_id ` set ms" C], of d1 "(persons1, s1)"] rest by simp
  have "undisturbed (mention_id ` set ms \<union> L) d1 e"
    by (rule resolving.R_trans [OF undisturbed_mono [OF others] undisturbed_mono [OF Cons.prems(5)]]) simp_all
  then obtain z1 where z1: "resolve_each C m' (persons, z) e = (Inr (persons1, z1), e)" "counts_alike s s1 z z1"
    using each_again [OF step Cons.prems(2) _ _ _ ms'(2), of "mention_id ` set ms \<union> L" e z] Cons.prems(3,4,6) by auto
  have "mention_id ` set ms \<subseteq> mention_id ` set (mention_rows d1)" using Cons.prems(3) ids by (metis (no_types, lifting) insert_subset list.simps(15) image_insert set_map)
  then obtain z2 where z2: "foldA (resolve_each C) rest' (persons1, z1) e = (Inr (persons', z2), e)" "counts_alike s1 s' z1 z2"
    using Cons.IH [OF rest _ _ _ Cons.prems(5) _ ms'(3), of z1] Cons.prems(2,4,6) ids by auto
  then show ?case using z1 by (auto simp: ms'(1) bindA_def intro: counts_alike_trans)
qed

section \<open>The links of its events\<close>

text \<open>Links are only added; what they are read from stays.\<close>

definition grows :: "persons_db \<Rightarrow> persons_db \<Rightarrow> bool" where
  "grows d d' \<longleftrightarrow> mention_rows d' = mention_rows d \<and> event_mention_rows d' = event_mention_rows d \<and>
     event_rows d' = event_rows d \<and> set (link_rows d) \<subseteq> set (link_rows d')"

interpretation growing: state_order grows
  by unfold_locales (auto simp: grows_def)

definition has_link :: "persons_db \<Rightarrow> nat \<Rightarrow> nat \<Rightarrow> string \<Rightarrow> bool" where
  "has_link d i event role \<longleftrightarrow> list_ex (\<lambda>l. link_person l = i \<and> link_event l = event \<and> link_role l = role) (link_rows d)"

lemma add_link_grows: "obeys grows (add_link i event role confidence)"
  by (auto simp: obeys_def add_link_def grows_def)

lemma add_link_has: "add_link i event role confidence d = (Inr k, d') \<Longrightarrow> has_link d' i event role"
  by (auto simp: add_link_def has_link_def list_ex_iff split: if_splits)

lemma add_link_again: "has_link d i event role \<Longrightarrow> add_link i event role confidence d = (Inr 0, d)"
  by (simp add: add_link_def has_link_def)

definition link_one :: "(nat, nat) dict \<Rightarrow> event_row \<Rightarrow> event_mention_row \<Rightarrow> int \<Rightarrow> int session" where
  "link_one persons e em n = bindA (readS (person_of_mention persons (em_mention em))) (\<lambda>person. case person of
       None \<Rightarrow> returnA n
     | Some i \<Rightarrow> bindA (add_link i (event_id e) (em_role em) (event_confidence e)) (\<lambda>k. returnA (n + k)))"

definition linked_one :: "(nat, nat) dict \<Rightarrow> event_row \<Rightarrow> event_mention_row \<Rightarrow> persons_db \<Rightarrow> bool" where
  "linked_one persons e em d \<longleftrightarrow> (\<forall>i. person_of_mention persons (em_mention em) d = Some i \<longrightarrow> has_link d i (event_id e) (em_role em))"

definition linked_event :: "(nat, nat) dict \<Rightarrow> event_row \<Rightarrow> persons_db \<Rightarrow> bool" where
  "linked_event persons e d \<longleftrightarrow> (\<forall>em \<in> set (filter (\<lambda>em. em_event em = event_id e) (event_mention_rows d)). linked_one persons e em d)"

lemma link_participants_eq:
  "link_participants persons e n = bindA (readS (\<lambda>d. filter (\<lambda>em. em_event em = event_id e) (event_mention_rows d)))
     (\<lambda>participants. foldA (link_one persons e) participants n)"
  by (simp add: link_participants_def link_one_def [abs_def])

lemma person_grows: "grows d d' \<Longrightarrow> person_of_mention persons k d' = person_of_mention persons k d"
  by (simp add: person_of_mention_def grows_def split: option.split)

lemma has_link_grows: "has_link d i event role \<Longrightarrow> grows d d' \<Longrightarrow> has_link d' i event role"
  unfolding has_link_def list_ex_iff grows_def by blast

lemma linked_one_grows: "linked_one persons e em d \<Longrightarrow> grows d d' \<Longrightarrow> linked_one persons e em d'"
  by (auto simp: linked_one_def person_grows intro: has_link_grows)

lemma linked_event_grows: "linked_event persons e d \<Longrightarrow> grows d d' \<Longrightarrow> linked_event persons e d'"
proof -
  assume d: "linked_event persons e d" and g: "grows d d'"
  then have "event_mention_rows d' = event_mention_rows d" by (simp add: grows_def)
  then show ?thesis using d linked_one_grows [OF _ g] by (simp add: linked_event_def)
qed

lemma link_one_grows: "obeys grows (link_one persons e em n)"
  unfolding link_one_def
  by (intro growing.obeys_bind growing.obeys_option growing.obeys_return add_link_grows)
    (simp add: obeys_def readS_def growing.R_refl)

lemma link_one_settles: "link_one persons e em n d = (Inr k, d') \<Longrightarrow> linked_one persons e em d'"
proof -
  assume run: "link_one persons e em n d = (Inr k, d')"
  have g: "grows d d'" using obeysD [OF link_one_grows, of d persons e em n] run by simp
  show ?thesis
    using run unfolding linked_one_def person_grows [OF g]
    by (auto simp: link_one_def bindA_Inr readS_def dest: add_link_has)
qed

lemma link_one_again: "linked_one persons e em d \<Longrightarrow> link_one persons e em n d = (Inr n, d)"
  by (auto simp: link_one_def linked_one_def readS_def bindA_def add_link_again split: option.split)

lemma link_participants_grows: "obeys grows (link_participants persons e n)"
  unfolding link_participants_eq
  by (intro growing.obeys_bind growing.obeys_fold link_one_grows) (simp add: obeys_def readS_def growing.R_refl)

lemma link_participants_settles: "link_participants persons e n d = (Inr k, d') \<Longrightarrow> linked_event persons e d'"
proof -
  assume run: "link_participants persons e n d = (Inr k, d')"
  have "grows d d'" using obeysD [OF link_participants_grows, of d persons e n] run by simp
  then have ems: "event_mention_rows d' = event_mention_rows d" by (simp add: grows_def)
  have "foldA (link_one persons e) (filter (\<lambda>em. em_event em = event_id e) (event_mention_rows d)) n d = (Inr k, d')"
    using run by (simp add: link_participants_eq bindA_def readS_def)
  from fold_settles [where Done = "linked_one persons e", OF link_one_settles growing.state_order_axioms link_one_grows
      linked_one_grows this]
  show ?thesis by (simp add: linked_event_def ems)
qed

lemma link_participants_again: "linked_event persons e d \<Longrightarrow> link_participants persons e n d = (Inr n, d)"
  unfolding link_participants_eq linked_event_def
  by (simp add: bindA_def readS_def) (rule fold_idle, auto intro: link_one_again)

lemma undisturbed_link: "obeys (undisturbed {}) (link_participants persons e n)"
  unfolding link_participants_def
  by (intro resolving.obeys_bind resolving.obeys_fold resolving.obeys_option resolving.obeys_return undisturbed_read
    undisturbed_add_link)

section \<open>The second run\<close>

definition run_mentions :: "nat \<Rightarrow> persons_db \<Rightarrow> mention_row list" where
  "run_mentions run d = filter (\<lambda>m. mention_run m = run \<and> mention_type m = PERSON) (mention_rows d)"

definition run_events :: "nat \<Rightarrow> persons_db \<Rightarrow> event_row list" where
  "run_events run d = filter (\<lambda>e. event_run e = run) (event_rows d)"

definition start_stats :: "nat \<Rightarrow> run_stats" where
  "start_stats n = \<lparr>mentions_processed = int n, mentions_resolved = 0, new_persons_created = 0, events_linked = 0,
     reviews_pending = 0, mentions_reused = 0\<rparr>"

lemma run_session_parts:
  "resolve_run_session C run d = (Inr s, d') \<longleftrightarrow> (\<exists>persons stats d1 linked.
     foldA (resolve_each C) (run_mentions run d) ([], start_stats (length (run_mentions run d))) d = (Inr (persons, stats), d1) \<and>
     foldA (link_participants persons) (run_events run d1) (events_linked stats) d1 = (Inr linked, d') \<and>
     s = stats\<lparr>events_linked := linked\<rparr>)"
  by (auto simp: resolve_run_session_def run_mentions_def run_events_def start_stats_def readS_def bindA_Inr)

lemma run_mentions_ids:
  assumes "undisturbed K d d'"
  shows "map mention_id (run_mentions run d') = map mention_id (run_mentions run d)"
proof -
  have "map mention_id (run_mentions run x) = map mention_id (filter (\<lambda>m. mention_run m = run \<and> mention_type m = PERSON)
      (map unlinked (mention_rows x)))" for x
    by (simp add: run_mentions_def filter_map comp_def unlinked_def)
  then show ?thesis using assms by (simp add: undisturbed_def)
qed

text \<open>C21. Resolving an extraction run a second time succeeds, writes nothing at all, and reports the
  same persons linked and the same reviews waiting, no new person and no new event link.\<close>

theorem resolving_a_run_again_changes_nothing:
  assumes "distinct (map mention_id (mention_rows d))" and "resolve_extraction_run C run d = (Inr s, d')"
  shows "\<exists>z. resolve_extraction_run C run d' = (Inr z, d') \<and> new_persons_created z = 0 \<and> events_linked z = 0 \<and>
    mentions_resolved z = mentions_resolved s \<and> reviews_pending z = reviews_pending s"
proof -
  have "resolve_run_session C run d = (Inr s, d')"
    using assms(2) by (auto simp: resolve_extraction_run_def transaction_def split: prod.splits sum.splits)
  then obtain persons stats d1 linked where
    first: "foldA (resolve_each C) (run_mentions run d) ([], start_stats (length (run_mentions run d))) d = (Inr (persons, stats), d1)"
    and links: "foldA (link_participants persons) (run_events run d1) (events_linked stats) d1 = (Inr linked, d')"
    and s: "s = stats\<lparr>events_linked := linked\<rparr>"
    unfolding run_session_parts by blast
  let ?ms = "run_mentions run d"
  have ms: "mention_id ` set ?ms \<subseteq> mention_id ` set (mention_rows d)" "distinct (map mention_id ?ms)"
    using assms(1) by (auto simp: run_mentions_def distinct_map_filter)
  have u1: "undisturbed (mention_id ` set ?ms) d d1"
    using obeysD [OF undisturbed_all [of ?ms "mention_id ` set ?ms" C], of d "([], start_stats (length ?ms))"] first by simp
  have "obeys (undisturbed {}) (foldA (link_participants persons) (run_events run d1) (events_linked stats))"
    by (rule resolving.obeys_fold) (rule undisturbed_link)
  from obeysD [OF this, of d1] have u2: "undisturbed {} d1 d'" by (simp add: links)
  have "obeys grows (foldA (link_participants persons) (run_events run d1) (events_linked stats))"
    by (rule growing.obeys_fold) (rule link_participants_grows)
  from obeysD [OF this, of d1] have g: "grows d1 d'" by (simp add: links)
  have ids: "map mention_id (run_mentions run d') = map mention_id ?ms"
    using run_mentions_ids [OF u1] run_mentions_ids [OF u2] by metis
  then have len: "length (run_mentions run d') = length ?ms" by (metis length_map)
  obtain z where again: "foldA (resolve_each C) (run_mentions run d') ([], start_stats (length ?ms)) d' = (Inr (persons, z), d')"
    and alike: "counts_alike (start_stats (length ?ms)) stats (start_stats (length ?ms)) z"
    using all_again [OF first assms(1) ms u2 _ ids] by blast
  have "\<forall>e \<in> set (run_events run d1). linked_event persons e d'"
    using fold_settles [where Done = "linked_event persons", OF link_participants_settles growing.state_order_axioms
      link_participants_grows linked_event_grows links] .
  moreover have "run_events run d' = run_events run d1" using g by (simp add: run_events_def grows_def)
  ultimately have "foldA (link_participants persons) (run_events run d') (events_linked z) d' = (Inr (events_linked z), d')"
    using link_participants_again by (intro fold_idle) simp
  then have "resolve_run_session C run d' = (Inr (z\<lparr>events_linked := events_linked z\<rparr>), d')"
    unfolding run_session_parts using again len by auto
  then show ?thesis using alike s
    by (auto simp: resolve_extraction_run_def transaction_def counts_alike_def start_stats_def)
qed

theorem resolving_a_run_again_changes_nothing_witness:
  "\<exists>z. resolve_extraction_run sample_config 0 sample_applied = (Inr z, sample_applied) \<and> new_persons_created z = 0 \<and>
     mentions_resolved z = 1"
proof -
  have "distinct (map mention_id (mention_rows sample_extracted))" by code_simp
  moreover obtain s where s: "resolve_extraction_run sample_config 0 sample_extracted = (Inr s, sample_applied)" "mentions_resolved s = 1"
  proof -
    have "filter (\<lambda>m. mention_run m = 0 \<and> mention_type m = PERSON) (mention_rows sample_extracted) = [sample_row]" by code_simp
    moreover obtain o' where "resolve_mention sample_config sample_row sample_extracted = (Inr (Some o'), sample_applied)"
      "outcome_person o' = Some 0"
      using sample_resolution by blast
    ultimately have "\<exists>s. resolve_extraction_run sample_config 0 sample_extracted = (Inr s, sample_applied) \<and> mentions_resolved s = 1"
      by (simp add: resolve_extraction_run_def transaction_def resolve_run_session_def readS_def bindA_def resolve_each_def
        sample_applied_rows returnA_def count_outcome_def)
    then show thesis using that by blast
  qed
  ultimately show ?thesis using resolving_a_run_again_changes_nothing [of sample_extracted sample_config 0 s sample_applied] by fastforce
qed

end
