(* ===== verification/Union_Find.thy ===== *)
theory Union_Find
  imports Prelude
begin

text \<open>
  The forest of parents that \<open>grouping.py: surname_roots\<close> and \<open>disputes.py: merge_decided\<close>
  keep: a dictionary from an item to its parent, a root being its own. Both write the same
  \<open>find\<close>, a loop that halves the path it walks; each has its own choice of which root is kept.
  \<open>forest p r\<close> says that \<open>p\<close> is such a forest and \<open>r\<close> tells the root of every item.
\<close>

section \<open>The loop\<close>

text \<open>
  \<open>None\<close> is a \<open>KeyError\<close>, or a loop that does not end: \<open>find_root_spec\<close> excludes both.
\<close>

partial_function (option) find_root :: "('a \<rightharpoonup> 'a) \<Rightarrow> 'a \<Rightarrow> ('a \<times> ('a \<rightharpoonup> 'a)) option" where
  "find_root parent item =
     (case parent item of
        None \<Rightarrow> None
      | Some up \<Rightarrow>
          if up = item then Some (item, parent)
          else (case parent up of
                  None \<Rightarrow> None
                | Some higher \<Rightarrow> find_root (parent(item \<mapsto> higher)) higher))"

declare find_root.simps [code]

section \<open>Forests and their roots\<close>

text \<open>\<open>d\<close> is the depth of an item: a parent other than the item itself is higher.\<close>

definition forest_by :: "('a \<rightharpoonup> 'a) \<Rightarrow> ('a \<Rightarrow> 'a) \<Rightarrow> ('a \<Rightarrow> nat) \<Rightarrow> bool" where
  "forest_by p r d \<longleftrightarrow>
     (\<forall>x y. p x = Some y \<longrightarrow> y \<in> dom p \<and> r y = r x \<and> (if y = x then r x = x else d y < d x))"

definition forest :: "('a \<rightharpoonup> 'a) \<Rightarrow> ('a \<Rightarrow> 'a) \<Rightarrow> bool" where
  "forest p r \<longleftrightarrow> (\<exists>d. forest_by p r d)"

lemma forest_byD:
  assumes "forest_by p r d" and "p x = Some y"
  shows "y \<in> dom p" and "r y = r x" and "y = x \<Longrightarrow> r x = x" and "y \<noteq> x \<Longrightarrow> d y < d x"
proof -
  have "y \<in> dom p \<and> r y = r x \<and> (if y = x then r x = x else d y < d x)"
    using assms unfolding forest_by_def by blast
  then show "y \<in> dom p" and "r y = r x" and "y = x \<Longrightarrow> r x = x" and "y \<noteq> x \<Longrightarrow> d y < d x"
    by (simp_all split: if_splits)
qed

lemma forest_by_root: "forest_by p r d \<Longrightarrow> x \<in> dom p \<Longrightarrow> p (r x) = Some (r x)"
proof (induction "d x" arbitrary: x rule: less_induct)
  case less
  obtain y where y: "p x = Some y" using less.prems(2) by blast
  note facts = forest_byD [OF less.prems(1) y]
  show ?case
  proof (cases "y = x")
    case True
    then show ?thesis using facts(3) y by simp
  next
    case False
    then show ?thesis using less.hyps [OF facts(4) less.prems(1) facts(1)] facts(2) by simp
  qed
qed

lemma forest_root: "forest p r \<Longrightarrow> x \<in> dom p \<Longrightarrow> p (r x) = Some (r x)"
  by (auto simp: forest_def dest: forest_by_root)

lemma forest_root_idem:
  assumes "forest p r" and "x \<in> dom p"
  shows "r x \<in> dom p" and "r (r x) = r x"
proof -
  have root: "p (r x) = Some (r x)" by (rule forest_root [OF assms])
  then show "r x \<in> dom p" by blast
  show "r (r x) = r x" using assms(1) root forest_byD(3) unfolding forest_def by metis
qed

lemma forest_root_iff: "forest p r \<Longrightarrow> x \<in> dom p \<Longrightarrow> r x = x \<longleftrightarrow> p x = Some x"
  by (metis forest_root forest_def forest_byD(3))

lemma forest_empty: "forest Map.empty r"
  by (simp add: forest_def forest_by_def)

text \<open>A new item is its own root.\<close>

lemma forest_insert:
  assumes "forest p r" and "x \<notin> dom p"
  shows "forest (p(x \<mapsto> x)) (r(x := x))"
proof -
  obtain d where d: "forest_by p r d" using assms(1) by (auto simp: forest_def)
  have "forest_by (p(x \<mapsto> x)) (r(x := x)) d"
    unfolding forest_by_def
  proof (intro allI impI)
    fix a b
    assume ab: "(p(x \<mapsto> x)) a = Some b"
    show "b \<in> dom (p(x \<mapsto> x)) \<and> (r(x := x)) b = (r(x := x)) a \<and>
      (if b = a then (r(x := x)) a = a else d b < d a)"
    proof (cases "a = x")
      case True
      then show ?thesis using ab by simp
    next
      case False
      then have "p a = Some b" using ab by simp
      then show ?thesis using forest_byD [OF d, of a b] assms(2) False by auto
    qed
  qed
  then show ?thesis by (auto simp: forest_def)
qed

text \<open>One root put under another: every item of the first now has the second as its root.\<close>

lemma forest_link:
  assumes f: "forest p r" and keep: "p keep = Some keep" and dropped: "p drop' = Some drop'"
    and "keep \<noteq> drop'"
  shows "forest (p(drop' \<mapsto> keep)) (\<lambda>z. if r z = drop' then keep else r z)"
proof -
  obtain d where d: "forest_by p r d" using f by (auto simp: forest_def)
  have roots: "r keep = keep" "r drop' = drop'"
    using forest_byD(3) [OF d keep] forest_byD(3) [OF d dropped] by simp_all
  let ?d = "\<lambda>z. if r z = drop' then d z + d keep + 1 else d z"
  have "forest_by (p(drop' \<mapsto> keep)) (\<lambda>z. if r z = drop' then keep else r z) ?d"
    unfolding forest_by_def
  proof (intro allI impI)
    fix a b
    assume ab: "(p(drop' \<mapsto> keep)) a = Some b"
    let ?r = "\<lambda>z. if r z = drop' then keep else r z"
    show "b \<in> dom (p(drop' \<mapsto> keep)) \<and> ?r b = ?r a \<and> (if b = a then ?r a = a else ?d b < ?d a)"
    proof (cases "a = drop'")
      case True
      then show ?thesis using ab roots assms(2,4) by auto
    next
      case False
      then have p: "p a = Some b" using ab by simp
      have "b = a \<Longrightarrow> r a \<noteq> drop'" using forest_byD(3) [OF d p] False by auto
      then show ?thesis using forest_byD [OF d p] by auto
    qed
  qed
  then show ?thesis by (auto simp: forest_def)
qed

section \<open>What \<open>find\<close> returns\<close>

text \<open>It ends, returns the root, and the halved paths keep every root.\<close>

lemma find_root_by:
  "forest_by p r d \<Longrightarrow> x \<in> dom p \<Longrightarrow>
   \<exists>p'. find_root p x = Some (r x, p') \<and> forest_by p' r d \<and> dom p' = dom p"
proof (induction "d x" arbitrary: p x rule: less_induct)
  case less
  obtain y where y: "p x = Some y" using less.prems(2) by blast
  note fy = forest_byD [OF less.prems(1) y]
  show ?case
  proof (cases "y = x")
    case True
    then show ?thesis using y fy(3) less.prems(1) by (subst find_root.simps) simp
  next
    case False
    obtain g where g: "p y = Some g" using fy(1) by blast
    note fg = forest_byD [OF less.prems(1) g]
    have "g = y \<or> d g < d y" using fg(4) by blast
    then have dg: "d g < d x" using fy(4) [OF False] by auto
    then have gx: "g \<noteq> x" by blast
    let ?p = "p(x \<mapsto> g)"
    have doms: "dom ?p = dom p" using less.prems(2) by auto
    have ok: "forest_by ?p r d"
      unfolding forest_by_def
    proof (intro allI impI)
      fix a b
      assume ab: "?p a = Some b"
      show "b \<in> dom ?p \<and> r b = r a \<and> (if b = a then r a = a else d b < d a)"
      proof (cases "a = x")
        case True
        then show ?thesis using ab fg(1,2) fy(2) dg gx doms by auto
      next
        case False
        then have "p a = Some b" using ab by simp
        then show ?thesis using forest_byD [OF less.prems(1), of a b] doms by auto
      qed
    qed
    have "g \<in> dom ?p" using fg(1) doms by simp
    from less.hyps [OF dg ok this] obtain p' where
      p': "find_root ?p g = Some (r g, p')" "forest_by p' r d" "dom p' = dom ?p" by blast
    have "find_root p x = find_root ?p g"
      using y g False by (subst find_root.simps) simp
    then show ?thesis using p' fy(2) fg(2) doms by simp
  qed
qed

lemma find_root_spec:
  assumes "forest p r" and "x \<in> dom p"
  obtains p' where "find_root p x = Some (r x, p')" and "forest p' r" and "dom p' = dom p"
  using assms find_root_by [of p r _ x] unfolding forest_def by blast

section \<open>Union\<close>

text \<open>
  Two items get one root: of the roots found, \<open>first\<close> says whether the first one is kept.
\<close>

definition union_by :: "('a \<Rightarrow> 'a \<Rightarrow> bool) \<Rightarrow> 'a \<Rightarrow> 'a \<Rightarrow> ('a \<rightharpoonup> 'a) \<Rightarrow> ('a \<rightharpoonup> 'a) option" where
  "union_by first left right parent =
     (case find_root parent left of
        None \<Rightarrow> None
      | Some (l, parent1) \<Rightarrow>
          (case find_root parent1 right of
             None \<Rightarrow> None
           | Some (r, parent2) \<Rightarrow>
               Some (if l = r then parent2
                     else if first l r then parent2(r \<mapsto> l) else parent2(l \<mapsto> r))))"

definition joined_roots :: "('a \<Rightarrow> 'a \<Rightarrow> bool) \<Rightarrow> 'a \<Rightarrow> 'a \<Rightarrow> ('a \<Rightarrow> 'a) \<Rightarrow> 'a \<Rightarrow> 'a" where
  "joined_roots first a b r z =
     (if r a = r b then r z
      else if first (r a) (r b) then (if r z = r b then r a else r z)
      else (if r z = r a then r b else r z))"

lemma union_by_spec:
  assumes f: "forest p r" and a: "a \<in> dom p" and b: "b \<in> dom p"
  obtains p' where "union_by first a b p = Some p'" and "forest p' (joined_roots first a b r)" and "dom p' = dom p"
proof -
  obtain p1 where p1: "find_root p a = Some (r a, p1)" "forest p1 r" "dom p1 = dom p"
    by (rule find_root_spec [OF f a])
  have "b \<in> dom p1" using b p1(3) by simp
  then obtain p2 where p2: "find_root p1 b = Some (r b, p2)" "forest p2 r" "dom p2 = dom p1"
    by (rule find_root_spec [OF p1(2)])
  have doms: "dom p2 = dom p" using p1(3) p2(3) by simp
  have roots: "p2 (r a) = Some (r a)" "p2 (r b) = Some (r b)"
    using forest_root [OF p2(2)] a b doms by simp_all
  show thesis
  proof (cases "r a = r b")
    case True
    then have "joined_roots first a b r = r" by (simp add: joined_roots_def fun_eq_iff)
    then show thesis using that [of p2] True p1(1) p2(1,2) doms by (simp add: union_by_def)
  next
    case False
    show thesis
    proof (cases "first (r a) (r b)")
      case True
      have "forest (p2(r b \<mapsto> r a)) (joined_roots first a b r)"
        using forest_link [OF p2(2) roots False] False True by (simp add: joined_roots_def [abs_def])
      moreover have "dom (p2(r b \<mapsto> r a)) = dom p" using roots(2) doms by auto
      ultimately show thesis
        using that [of "p2(r b \<mapsto> r a)"] False True p1(1) p2(1) by (simp add: union_by_def)
    next
      case second: False
      have "forest (p2(r a \<mapsto> r b)) (joined_roots first a b r)"
        using forest_link [OF p2(2) roots(2,1)] False second by (simp add: joined_roots_def [abs_def])
      moreover have "dom (p2(r a \<mapsto> r b)) = dom p" using roots(1) doms by auto
      ultimately show thesis
        using that [of "p2(r a \<mapsto> r b)"] False second p1(1) p2(1) by (simp add: union_by_def)
    qed
  qed
qed

lemma joined_roots_same: "joined_roots first a b r a = joined_roots first a b r b"
  by (simp add: joined_roots_def)

lemma joined_roots_cong: "r x = r y \<Longrightarrow> joined_roots first a b r x = joined_roots first a b r y"
  by (simp add: joined_roots_def)

text \<open>A new root stays linked to its items, whatever equivalence links \<open>a\<close> and \<open>b\<close>.\<close>

lemma joined_roots_linked:
  assumes "sym C" "trans C" and "(a, b) \<in> C" and "(a, r a) \<in> C" "(b, r b) \<in> C" "(z, r z) \<in> C"
  shows "(z, joined_roots first a b r z) \<in> C"
proof -
  have "(r a, a) \<in> C" by (rule symD [OF assms(1,4)])
  then have "(r a, b) \<in> C" using assms(3) by (rule transD [OF assms(2)])
  then have ab: "(r a, r b) \<in> C" using assms(5) by (rule transD [OF assms(2)])
  then have "(r b, r a) \<in> C" by (rule symD [OF assms(1)])
  note ab = ab this
  have "(z, y) \<in> C" if "(r z, y) \<in> C" for y using assms(6) that by (rule transD [OF assms(2)])
  then show ?thesis using assms(6) ab by (auto simp: joined_roots_def)
qed

section \<open>Reading every root\<close>

text \<open>The roots at the end of a run of \<open>find\<close>s are those at its start.\<close>

fun find_roots :: "('a \<rightharpoonup> 'a) \<Rightarrow> 'a list \<Rightarrow> (('a \<times> 'a) list \<times> ('a \<rightharpoonup> 'a)) option" where
  "find_roots parent [] = Some ([], parent)"
| "find_roots parent (x # xs) =
     (case find_root parent x of
        None \<Rightarrow> None
      | Some (found, parent') \<Rightarrow>
          map_option (\<lambda>(roots, rest). ((x, found) # roots, rest)) (find_roots parent' xs))"

lemma find_roots_spec:
  "forest p r \<Longrightarrow> set xs \<subseteq> dom p \<Longrightarrow>
   \<exists>p'. find_roots p xs = Some (map (\<lambda>x. (x, r x)) xs, p') \<and> forest p' r \<and> dom p' = dom p"
proof (induction xs arbitrary: p)
  case (Cons x xs)
  obtain p' where p': "find_root p x = Some (r x, p')" "forest p' r" "dom p' = dom p"
    using find_root_spec [OF Cons.prems(1), of x] Cons.prems(2) by (metis list.set_intros(1) subsetD)
  then show ?case using Cons.IH [OF p'(2)] Cons.prems(2) by auto
qed simp

end
