(* ===== verification/Name_Frequency.thy ===== *)
theory Name_Frequency
  imports Prelude
begin

text \<open>
  \<open>processing/extraction/name_frequency.py\<close>: the two lists of given names the grouping of
  mentions asks for a gender, and the lookup. The lists are the source's, in the letters of
  \<^const>\<open>ru\<close>.
\<close>

definition MALE_NAMES :: "ustr list" where
  "MALE_NAMES = map ru [
    ''avgust'', ''avdej'', ''avraam'', ''agafon'', ''azar'', ''akakij'', ''akim'',
    ''aleksandr'', ''aleksej'', ''amvrosij'', ''anatolij'', ''andrej'', ''andron'', ''antip'',
    ''anton'', ''apollon'', ''arkadij'', ''arsenij'', ''artem'', ''artQm'', ''artemij'',
    ''arhip'', ''afanasij'', ''bogdan'', ''boris'', ''bronislav'', ''vadim'', ''valentin'',
    ''valerij'', ''vasilij'', ''veniamin'', ''viktor'', ''vitalij'', ''vladimir'',
    ''vladislav'', ''vladlen'', ''vlas'', ''vsevolod'', ''vACeslav'', ''gavriil'',
    ''gennadij'', ''georgij'', ''gerasim'', ''german'', ''gleb'', ''gordej'', ''grigorij'',
    ''david'', ''daniil'', ''danila'', ''demqAn'', ''denis'', ''dmitrij'', ''evgenij'',
    ''evdokim'', ''evsej'', ''egor'', ''efim'', ''efrem'', ''zahar'', ''ivan'', ''ignat'',
    ''ignatij'', ''igorq'', ''illarion'', ''illiA'', ''ilqA'', ''innokentij'', ''iosif'',
    ''isaak'', ''isaakij'', ''kazimir'', ''kapiton'', ''kim'', ''kirill'', ''kliment'',
    ''kondrat'', ''konstantin'', ''kornej'', ''kuzqma'', ''lavr'', ''lavrentij'', ''lazarq'',
    ''lev'', ''leonid'', ''leontij'', ''luka'', ''luCa'', ''makar'', ''maksim'', ''marat'',
    ''mark'', ''martin'', ''matvej'', ''mefodij'', ''miron'', ''miroslav'', ''mitrofan'',
    ''mihail'', ''moisej'', ''nazar'', ''naum'', ''nestor'', ''nikita'', ''nikifor'',
    ''nikolaj'', ''nikon'', ''oleg'', ''oskar'', ''osip'', ''ostap'', ''pavel'', ''pankrat'',
    ''pantelejmon'', ''pQtr'', ''petr'', ''platon'', ''prohor'', ''radomir'', ''radovan'',
    ''roman'', ''rostislav'', ''ruslan'', ''savva'', ''savelij'', ''samson'', ''samuil'',
    ''svetozar'', ''svAtoslav'', ''semQn'', ''semen'', ''serafim'', ''sergej'', ''sidor'',
    ''sozon'', ''sofron'', ''spartak'', ''stanislav'', ''stepan'', ''taras'', ''timofej'',
    ''timur'', ''tihon'', ''trofim'', ''faddej'', ''fQdor'', ''fedor'', ''fedos'', ''fedot'',
    ''feliks'', ''feodosij'', ''feoktist'', ''feofan'', ''filaret'', ''filimon'', ''filipp'',
    ''flor'', ''foma'', ''hariton'', ''harlampij'', ''hristofor'', ''Eduard'', ''Emmanuil'',
    ''Emilq'', ''Erik'', ''Uvenalij'', ''Ulian'', ''Ulij'', ''Urij'', ''Akov'', ''An'',
    ''Aromir'', ''Aroslav'']"

definition FEMALE_NAMES :: "ustr list" where
  "FEMALE_NAMES = map ru [
    ''avgusta'', ''avrora'', ''agafiA'', ''agafqA'', ''agnessa'', ''agniA'', ''agrippina'',
    ''ada'', ''adelina'', ''aida'', ''aksinqA'', ''alevtina'', ''aleksandra'', ''alQna'',
    ''alena'', ''alina'', ''alisa'', ''aliA'', ''alla'', ''alqbina'', ''amaliA'',
    ''anastasiA'', ''angelina'', ''anisqA'', ''anna'', ''antonina'', ''anfisa'', ''arina'',
    ''baZena'', ''valentina'', ''valeriA'', ''vanda'', ''vassa'', ''vera'', ''veronika'',
    ''viktoriA'', ''vitalina'', ''vitaliA'', ''vladimira'', ''vladislava'', ''vlasta'',
    ''galina'', ''gelena'', ''genrietta'', ''georgina'', ''glafira'', ''glikeriA'', ''grejsa'',
    ''dala'', ''dana'', ''darina'', ''darqA'', ''diana'', ''dina'', ''dinara'', ''domnika'',
    ''dominika'', ''dorofeA'', ''eva'', ''evgeniA'', ''evdokiA'', ''evlampiA'', ''evpraksiA'',
    ''ekaterina'', ''elena'', ''elizaveta'', ''emeliA'', ''Zanna'', ''zara'', ''zlata'',
    ''zoA'', ''ida'', ''izolqda'', ''ilona'', ''inga'', ''inna'', ''ioanna'', ''irina'',
    ''iA'', ''jolanta'', ''klavdiA'', ''klara'', ''klarisa'', ''kleopatra'', ''konkordiA'',
    ''korina'', ''kristina'', ''kseniA'', ''lada'', ''larisa'', ''lidiA'', ''liliA'', ''lina'',
    ''liA'', ''lora'', ''majA'', ''margarita'', ''marianna'', ''marietta'', ''marina'',
    ''mariA'', ''marta'', ''marfa'', ''melaniA'', ''milica'', ''miroslava'', ''mirra'',
    ''miA'', ''nadeZda'', ''naina'', ''nana'', ''nataliA'', ''natalqA'', ''neonila'', ''nika'',
    ''nina'', ''ninelq'', ''nonna'', ''oksana'', ''olesA'', ''oliviA'', ''olimpiada'',
    ''olina'', ''olqga'', ''pelageA'', ''pelagiA'', ''pinna'', ''polina'', ''praskovqA'',
    ''raisa'', ''regina'', ''renata'', ''rimma'', ''rina'', ''rodislava'', ''roza'',
    ''roksana'', ''ruslana'', ''rufina'', ''sara'', ''svetlana'', ''svAtoslava'', ''serafima'',
    ''simona'', ''soneA'', ''sofqA'', ''sofiA'', ''stella'', ''sulamifq'', ''taisiA'',
    ''taisqA'', ''tama'', ''tamara'', ''tatqAna'', ''tverdislava'', ''teona'', ''teodora'',
    ''teoza'', ''tiana'', ''trofima'', ''ulqAna'', ''ustinqA'', ''faina'', ''fevronqA'',
    ''fevroniA'', ''fedora'', ''fQkla'', ''fekla'', ''feodosiA'', ''feodotiA'', ''fillida'',
    ''filiA'', ''flora'', ''florentina'', ''foma'', ''hava'', ''haritina'', ''Ella'',
    ''Elqvira'', ''EmiliA'', ''Emma'', ''Ester'', ''UliA'', ''UniA'', ''Adviga'', ''Ana'',
    ''Anina'', ''Aroslava'']"

datatype gender = Masc | Femn

text \<open>\<open>fold_yo\<close> is \<open>.replace\<close> of the letter yo by ye.\<close>

definition fold_yo :: "ustr \<Rightarrow> ustr" where
  "fold_yo t = map (\<lambda>c. if c = 1105 then 1077 else c) t"

definition lookup_gender :: "unicode \<Rightarrow> ustr \<Rightarrow> gender option" where
  "lookup_gender u name =
     (let normalised = fold_yo (lower_text u name) in
      if normalised \<in> set MALE_NAMES \<and> normalised \<in> set FEMALE_NAMES then None
      else if normalised \<in> set MALE_NAMES then Some Masc
      else if normalised \<in> set FEMALE_NAMES then Some Femn
      else None)"

lemma fold_yo_length [simp]: "length (fold_yo t) = length t"
  by (simp add: fold_yo_def)

lemma fold_yo_twice [simp]: "fold_yo (fold_yo t) = fold_yo t"
  by (simp add: fold_yo_def)

end
