(* ===== verification/Surname_Roots.thy ===== *)
theory Surname_Roots
  imports Union_Find Name_Frequency
begin

text \<open>
  \<open>processing/identity/grouping.py\<close>, the words: what a surname may be without the case
  ending it carries, and \<open>surname_roots\<close>, which gathers the surnames that share such a base
  with a union-find. A Python set has no order one may rely on: \<open>set_order\<close>, a parameter,
  is the order in which an iteration meets its elements.
\<close>

section \<open>Words and their bases\<close>

definition CASE_ENDINGS :: "ustr list" where
  "CASE_ENDINGS = map ru [''a'', ''A'', ''u'', ''U'', ''e'', ''om'', ''em'', ''ym'', ''im'', ''oj'', ''ej'', ''y'', ''i'']"

definition SOFT_ADJECTIVE_ENDINGS :: "ustr list" where
  "SOFT_ADJECTIVE_ENDINGS = map ru [''ij'', ''ego'', ''emu'', ''AA'', ''UU'']"

definition HARD_ADJECTIVE_ENDINGS :: "ustr list" where
  "HARD_ADJECTIVE_ENDINGS = map ru [''yj'', ''ogo'', ''omu'', ''aA'', ''uU'']"

definition PLURAL_OF :: "ustr list" where
  "PLURAL_OF = map ru [''ovyh'', ''evyh'', ''inyh'', ''ynyh'']"

definition MIN_STEM :: nat where
  "MIN_STEM = 3"

definition fold_word :: "unicode \<Rightarrow> ustr \<Rightarrow> ustr" where
  "fold_word u word = fold_yo (lower_text u (strip word))"

definition stem_without :: "ustr \<Rightarrow> ustr \<Rightarrow> ustr list" where
  "stem_without surname ending =
     (let stem = take (length surname - length ending) surname in
      if ends_with surname ending \<and> MIN_STEM \<le> length stem then [stem] else [])"

definition bases :: "ustr \<Rightarrow> ustr list" where
  "bases surname = unique (
     surname
     # concat (map (stem_without surname) (CASE_ENDINGS @ HARD_ADJECTIVE_ENDINGS @ [ru ''q'']))
     @ map (\<lambda>stem. stem @ ru ''q'') (concat (map (stem_without surname) SOFT_ADJECTIVE_ENDINGS))
     @ (if list_ex (ends_with surname) PLURAL_OF \<and> MIN_STEM \<le> length surname - 2
        then [take (length surname - 2) surname] else []))"

lemma bases_self [simp]: "surname \<in> set (bases surname)"
  by (simp add: bases_def)

lemma bases_not_Nil [simp]: "bases surname \<noteq> []"
  by (simp add: bases_def)

lemma bases_distinct [simp]: "distinct (bases surname)"
  unfolding bases_def by (rule distinct_unique)

section \<open>The groups of surnames\<close>

text \<open>The order of \<open>sorted(\<dots>, key=lambda item: (len(item), item))\<close>.\<close>

definition shorter :: "ustr \<Rightarrow> ustr \<Rightarrow> bool" where
  "shorter a b \<longleftrightarrow> (length a, a) \<le> (length b, b)"

definition setdefault :: "'k \<Rightarrow> 'v \<Rightarrow> ('k \<rightharpoonup> 'v) \<Rightarrow> ('k \<rightharpoonup> 'v)" where
  "setdefault k v d = (case d k of None \<Rightarrow> d(k \<mapsto> v) | Some _ \<Rightarrow> d)"

definition union_shorter :: "ustr \<Rightarrow> ustr \<Rightarrow> (ustr \<rightharpoonup> ustr) \<Rightarrow> (ustr \<rightharpoonup> ustr) option" where
  "union_shorter left right parent = union_by shorter left right parent"

fun union_bases :: "ustr \<Rightarrow> ustr list \<Rightarrow> (ustr \<rightharpoonup> ustr) \<Rightarrow> (ustr \<rightharpoonup> ustr) option" where
  "union_bases surname [] parent = Some parent"
| "union_bases surname (b # bs) parent =
     (case union_shorter surname b (setdefault b b parent) of
        None \<Rightarrow> None
      | Some parent' \<Rightarrow> union_bases surname bs parent')"

fun union_surnames ::
  "(ustr list \<Rightarrow> ustr list) \<Rightarrow> ustr list \<Rightarrow> (ustr \<rightharpoonup> ustr) \<Rightarrow> (ustr \<rightharpoonup> ustr) option" where
  "union_surnames set_order [] parent = Some parent"
| "union_surnames set_order (s # ss) parent =
     (case union_bases s (set_order (bases s)) (setdefault s s parent) of
        None \<Rightarrow> None
      | Some parent' \<Rightarrow> union_surnames set_order ss parent')"

definition surname_roots ::
  "(ustr list \<Rightarrow> ustr list) \<Rightarrow> ustr list \<Rightarrow> (ustr, ustr) dict option" where
  "surname_roots set_order surnames =
     (case union_surnames set_order (set_order (unique surnames)) Map.empty of
        None \<Rightarrow> None
      | Some parent \<Rightarrow> map_option fst (find_roots parent (set_order (unique surnames))))"

text \<open>What an iteration over a set is: each element once, in some order.\<close>

definition iterates_sets :: "(ustr list \<Rightarrow> ustr list) \<Rightarrow> bool" where
  "iterates_sets set_order \<longleftrightarrow> (\<forall>xs. distinct xs \<longrightarrow> mset (set_order xs) = mset xs)"

lemma iterates_sets_set: "iterates_sets set_order \<Longrightarrow> distinct xs \<Longrightarrow> set (set_order xs) = set xs"
  unfolding iterates_sets_def by (metis mset_eq_setD)

section \<open>The declension a surname belongs to\<close>

text \<open>
  The reference: surnames and bases linked by \<open>has the base\<close>, in both directions, any
  number of times.
\<close>

definition base_link :: "ustr set \<Rightarrow> (ustr \<times> ustr) set" where
  "base_link S = {(s, b). s \<in> S \<and> b \<in> set (bases s)} \<union> {(b, s). s \<in> S \<and> b \<in> set (bases s)}"

definition declension :: "ustr set \<Rightarrow> ustr \<Rightarrow> ustr set" where
  "declension S s = {b. (s, b) \<in> (base_link S)\<^sup>*}"

definition shortest_of :: "ustr set \<Rightarrow> ustr \<Rightarrow> bool" where
  "shortest_of B b \<longleftrightarrow> b \<in> B \<and> (\<forall>c \<in> B. shorter b c)"

lemma shorter_refl [simp]: "shorter a a"
  by (simp add: shorter_def)

lemma shorter_trans: "shorter a b \<Longrightarrow> shorter b c \<Longrightarrow> shorter a c"
  unfolding shorter_def by (rule order_trans)

lemma shorter_antisym: "shorter a b \<Longrightarrow> shorter b a \<Longrightarrow> a = b"
  unfolding shorter_def by (drule (1) order_antisym) simp

lemma shorter_total: "\<not> shorter a b \<Longrightarrow> shorter b a"
  unfolding shorter_def by (simp only: not_le less_imp_le)

lemma shortest_unique: "shortest_of B a \<Longrightarrow> shortest_of B b \<Longrightarrow> a = b"
  unfolding shortest_of_def by (blast intro: shorter_antisym)

lemma base_link_sym: "sym ((base_link S)\<^sup>*)"
  by (rule sym_rtrancl) (auto simp: base_link_def sym_def)

lemma declension_eq_iff: "declension S a = declension S b \<longleftrightarrow> (a, b) \<in> (base_link S)\<^sup>*"
proof
  show "declension S a = declension S b \<Longrightarrow> (a, b) \<in> (base_link S)\<^sup>*"
    unfolding declension_def by blast
  show "(a, b) \<in> (base_link S)\<^sup>* \<Longrightarrow> declension S a = declension S b"
    unfolding declension_def by (blast intro: rtrancl_trans symD [OF base_link_sym])
qed

lemma declension_of_member: "b \<in> declension S a \<Longrightarrow> declension S a = declension S b"
  unfolding declension_eq_iff by (simp add: declension_def)

section \<open>The union-find finds the declensions\<close>

text \<open>
  The invariant: a forest whose roots are linked to their items and at most as long, over
  the items \<open>D\<close> met so far.
\<close>

definition roots_within :: "(ustr \<times> ustr) set \<Rightarrow> (ustr \<rightharpoonup> ustr) \<Rightarrow> (ustr \<Rightarrow> ustr) \<Rightarrow> bool" where
  "roots_within C p r \<longleftrightarrow> forest p r \<and> (\<forall>x \<in> dom p. (x, r x) \<in> C \<and> shorter (r x) x)"

text \<open>What a step keeps of the roots: items of one root stay so.\<close>

definition coarser :: "ustr set \<Rightarrow> (ustr \<Rightarrow> ustr) \<Rightarrow> (ustr \<Rightarrow> ustr) \<Rightarrow> bool" where
  "coarser D r r' \<longleftrightarrow> (\<forall>x \<in> D. \<forall>y \<in> D. r x = r y \<longrightarrow> r' x = r' y)"

lemma coarser_trans: "coarser D r r' \<Longrightarrow> coarser E r' r'' \<Longrightarrow> D \<subseteq> E \<Longrightarrow> coarser D r r''"
  unfolding coarser_def by blast

lemma coarserD: "coarser D r r' \<Longrightarrow> x \<in> D \<Longrightarrow> y \<in> D \<Longrightarrow> r x = r y \<Longrightarrow> r' x = r' y"
  unfolding coarser_def by blast

lemma setdefault_roots:
  assumes "roots_within C p r" and "refl C"
  obtains r' where "roots_within C (setdefault b b p) r'" and "dom (setdefault b b p) = insert b (dom p)"
    and "coarser (dom p) r r'"
proof (cases "p b")
  case None
  let ?r = "r(b := b)"
  have fresh: "b \<notin> dom p" using None by blast
  have "forest (p(b \<mapsto> b)) ?r"
    using assms(1) fresh by (simp add: roots_within_def forest_insert)
  moreover have "(x, ?r x) \<in> C \<and> shorter (?r x) x" if "x \<in> insert b (dom p)" for x
    using that assms fresh by (auto simp: roots_within_def refl_on_def)
  moreover have "coarser (dom p) r ?r"
    unfolding coarser_def
  proof (intro ballI impI)
    fix x y assume "x \<in> dom p" "y \<in> dom p" "r x = r y"
    then show "?r x = ?r y" using fresh by (metis fun_upd_other)
  qed
  ultimately show thesis using that [of ?r] None by (simp add: setdefault_def roots_within_def)
next
  case (Some v)
  then show thesis using that [of r] assms by (auto simp: setdefault_def coarser_def)
qed

lemma union_shorter_roots:
  assumes ok: "roots_within C p r" and a: "a \<in> dom p" and b: "b \<in> dom p" and ab: "(a, b) \<in> C"
    and C: "sym C" "trans C"
  obtains p' r' where "union_shorter a b p = Some p'" and "roots_within C p' r'"
    and "dom p' = dom p" and "coarser (dom p) r r'" and "r' a = r' b"
proof -
  have f: "forest p r" using ok by (simp add: roots_within_def)
  have near: "(x, r x) \<in> C" "shorter (r x) x" if "x \<in> dom p" for x
    using ok that by (auto simp: roots_within_def)
  let ?r = "joined_roots shorter a b r"
  obtain p' where p': "union_by shorter a b p = Some p'" "forest p' ?r" "dom p' = dom p"
    by (rule union_by_spec [OF f a b])
  have "(x, ?r x) \<in> C" if "x \<in> dom p" for x
    by (rule joined_roots_linked [OF C ab near(1) [OF a] near(1) [OF b] near(1) [OF that]])
  moreover have "shorter (?r x) x" if "x \<in> dom p" for x
    using near(2) [OF that] shorter_total [of "r a" "r b"] by (auto simp: joined_roots_def intro: shorter_trans)
  ultimately have "roots_within C p' ?r" using p'(2,3) by (simp add: roots_within_def)
  moreover have "coarser (dom p) r ?r" unfolding coarser_def by (blast intro: joined_roots_cong)
  ultimately show thesis
    using that [of p' ?r] p'(1,3) joined_roots_same [of shorter a b r] by (simp add: union_shorter_def)
qed

lemma union_bases_roots:
  assumes "roots_within C p r" and "s \<in> dom p" and "\<forall>b \<in> set bs. (s, b) \<in> C"
    and C: "refl C" "sym C" "trans C"
  shows "\<exists>p' r'. union_bases s bs p = Some p' \<and> roots_within C p' r' \<and> dom p' = dom p \<union> set bs \<and>
    coarser (dom p) r r' \<and> (\<forall>b \<in> set bs. r' b = r' s)"
  using assms(1-3)
proof (induction bs arbitrary: p r)
  case Nil
  then show ?case by (auto simp: coarser_def)
next
  case (Cons b bs)
  obtain r1 where r1: "roots_within C (setdefault b b p) r1"
    "dom (setdefault b b p) = insert b (dom p)" "coarser (dom p) r r1"
    by (rule setdefault_roots [OF Cons.prems(1) C(1), of b])
  have "s \<in> dom (setdefault b b p)" "b \<in> dom (setdefault b b p)" "(s, b) \<in> C"
    using Cons.prems r1(2) by simp_all
  from union_shorter_roots [OF r1(1) this C(2,3)] obtain p2 r2 where
    p2: "union_shorter s b (setdefault b b p) = Some p2" "roots_within C p2 r2"
    "dom p2 = insert b (dom p)" "coarser (insert b (dom p)) r1 r2" "r2 s = r2 b"
    unfolding r1(2) by blast
  have "s \<in> dom p2" "\<forall>b \<in> set bs. (s, b) \<in> C" using Cons.prems(2,3) p2(3) by simp_all
  from Cons.IH [OF p2(2) this] obtain p3 r3 where
    p3: "union_bases s bs p2 = Some p3" "roots_within C p3 r3"
    "dom p3 = dom p2 \<union> set bs" "coarser (dom p2) r2 r3" "\<forall>b \<in> set bs. r3 b = r3 s"
    by (elim exE conjE) (rule that)
  have "coarser (dom p) r r2" by (rule coarser_trans [OF r1(3) p2(4)]) blast
  then have "coarser (dom p) r r3" by (rule coarser_trans [OF _ p3(4)]) (unfold p2(3), blast)
  moreover have "r3 b = r3 s"
    by (rule coarserD [OF p3(4)]) (simp_all add: p2(3) p2(5) [symmetric] Cons.prems(2))
  moreover have "dom p3 = dom p \<union> set (b # bs)" using p2(3) p3(3) by simp
  moreover have "union_bases s (b # bs) p = Some p3" using p2(1) p3(1) by simp
  ultimately show ?case using p3(2,5) by (intro exI [of _ p3] exI [of _ r3]) simp
qed

lemma union_surnames_roots:
  assumes "roots_within C p r" and "\<forall>s \<in> set ss. \<forall>b \<in> set (bases s). (s, b) \<in> C"
    and order: "iterates_sets set_order" and C: "refl C" "sym C" "trans C"
  shows "\<exists>p' r'. union_surnames set_order ss p = Some p' \<and> roots_within C p' r' \<and>
    dom p' = dom p \<union> set (concat (map bases ss)) \<and> coarser (dom p) r r' \<and>
    (\<forall>s \<in> set ss. \<forall>b \<in> set (bases s). r' b = r' s)"
  using assms(1,2)
proof (induction ss arbitrary: p r)
  case Nil
  then show ?case by (auto simp: coarser_def)
next
  case (Cons s ss)
  have bs: "set (set_order (bases s)) = set (bases s)"
    by (rule iterates_sets_set [OF order]) simp
  obtain r1 where r1: "roots_within C (setdefault s s p) r1"
    "dom (setdefault s s p) = insert s (dom p)" "coarser (dom p) r r1"
    by (rule setdefault_roots [OF Cons.prems(1) C(1), of s])
  have "s \<in> dom (setdefault s s p)" "\<forall>b \<in> set (set_order (bases s)). (s, b) \<in> C"
    using r1(2) bs Cons.prems(2) by simp_all
  from union_bases_roots [OF r1(1) this C] obtain p2 r2 where
    p2: "union_bases s (set_order (bases s)) (setdefault s s p) = Some p2" "roots_within C p2 r2"
    "dom p2 = insert s (dom p) \<union> set (bases s)" "coarser (insert s (dom p)) r1 r2"
    "\<forall>b \<in> set (bases s). r2 b = r2 s"
    unfolding r1(2) bs by (elim exE conjE) (rule that)
  have "\<forall>s \<in> set ss. \<forall>b \<in> set (bases s). (s, b) \<in> C" using Cons.prems(2) by simp
  from Cons.IH [OF p2(2) this] obtain p3 r3 where
    p3: "union_surnames set_order ss p2 = Some p3" "roots_within C p3 r3"
    "dom p3 = dom p2 \<union> set (concat (map bases ss))" "coarser (dom p2) r2 r3"
    "\<forall>s \<in> set ss. \<forall>b \<in> set (bases s). r3 b = r3 s"
    by (elim exE conjE) (rule that)
  have "coarser (dom p) r r2" by (rule coarser_trans [OF r1(3) p2(4)]) blast
  then have "coarser (dom p) r r3" by (rule coarser_trans [OF _ p3(4)]) (unfold p2(3), blast)
  moreover have own: "\<forall>b \<in> set (bases s). r3 b = r3 s"
  proof
    fix b assume b: "b \<in> set (bases s)"
    have "r2 b = r2 s" using p2(5) b by blast
    then show "r3 b = r3 s" using b by (intro coarserD [OF p3(4)]) (simp_all add: p2(3))
  qed
  moreover have "dom p3 = dom p \<union> set (concat (map bases (s # ss)))"
  proof -
    have "insert s (dom p) \<union> set (bases s) = dom p \<union> set (bases s)" using bases_self [of s] by blast
    then show ?thesis unfolding p3(3) p2(3) by (simp only: list.map concat.simps set_append Un_assoc)
  qed
  moreover have "union_surnames set_order (s # ss) p = Some p3" using p2(1) p3(1) by simp
  moreover have "\<forall>t \<in> set (s # ss). \<forall>b \<in> set (bases t). r3 b = r3 t"
    using own p3(5) unfolding list.set by blast
  ultimately show ?case using p3(2) by (intro exI [of _ p3] exI [of _ r3] conjI)
qed

lemma roots_of_surnames:
  assumes order: "iterates_sets set_order"
  obtains r where "surname_roots set_order surnames = Some (map (\<lambda>s. (s, r s)) (set_order (unique surnames)))"
    and "\<And>s. s \<in> set surnames \<Longrightarrow> shortest_of (declension (set surnames) s) (r s)"
proof -
  let ?S = "set surnames" and ?order = "set_order (unique surnames)"
  let ?C = "(base_link ?S)\<^sup>*"
  have C: "refl ?C" "sym ?C" "trans ?C"
    by (simp_all add: refl_rtrancl base_link_sym trans_rtrancl)
  have S: "set ?order = ?S" using iterates_sets_set [OF order] by simp
  have linked: "\<forall>s \<in> set ?order. \<forall>b \<in> set (bases s). (s, b) \<in> ?C"
    unfolding S base_link_def by blast
  have "roots_within ?C Map.empty id" by (simp add: roots_within_def forest_empty)
  from union_surnames_roots [OF this linked order C]
  obtain p r where p: "union_surnames set_order ?order Map.empty = Some p" "roots_within ?C p r"
    "dom p = dom (Map.empty :: ustr \<rightharpoonup> ustr) \<union> set (concat (map bases ?order))"
    "\<forall>s \<in> set ?order. \<forall>b \<in> set (bases s). r b = r s"
    by (elim exE conjE) (rule that)
  have in_dom: "?S \<subseteq> dom p" using p(3) bases_self unfolding S [symmetric] by fastforce
  have "surname_roots set_order surnames = Some (map (\<lambda>s. (s, r s)) ?order)"
    using find_roots_spec [of p r ?order] p(1,2) in_dom S
    by (auto simp: surname_roots_def roots_within_def)
  moreover have "shortest_of (declension ?S s) (r s)" if s: "s \<in> ?S" for s
  proof -
    have same: "r b = r s \<and> b \<in> dom p" if "(s, b) \<in> ?C" for b
      using that
    proof (induction rule: rtrancl_induct)
      case base
      then show ?case using s in_dom by blast
    next
      case (step b c)
      then obtain t where t: "t \<in> ?S" "b \<in> set (bases t)" "c \<in> set (bases t)"
        unfolding base_link_def using bases_self by blast
      have "c \<in> dom p" using t(1,3) p(3) unfolding S [symmetric] by auto
      moreover have "r b = r t" "r c = r t" using t p(4) unfolding S by blast+
      ultimately show ?case using step.IH by simp
    qed
    have "shorter (r s) b" if "(s, b) \<in> ?C" for b
      using same [OF that] p(2) by (metis roots_within_def)
    moreover have "(s, r s) \<in> ?C" using p(2) in_dom s by (auto simp: roots_within_def)
    ultimately show ?thesis by (simp add: shortest_of_def declension_def)
  qed
  ultimately show thesis by (rule that)
qed

end
