(* ===== verification/Person_Grouping.thy ===== *)
theory Person_Grouping
  imports Surname_Roots
begin

text \<open>
  \<open>processing/identity/grouping.py\<close>, \<open>group_mentions\<close>: person mentions gathered into
  entities by given name, declension of the surname, patronymic and the region of a registry
  card. The local dictionaries of the function are the record \<open>grouping\<close>; a \<open>KeyError\<close> or an
  \<open>IndexError\<close> is \<open>None\<close>. A \<open>defaultdict\<close> that is never iterated is a total function.
\<close>

section \<open>Mentions and entities\<close>

record person_mention =
  pm_id :: nat
  pm_article :: nat
  pm_first :: "ustr option"
  pm_last :: "ustr option"
  pm_patronymic :: "ustr option"
  pm_region :: "ustr option"
  pm_surface :: "ustr option"

type_synonym counter = "(ustr, nat) dict"

record entity =
  en_key :: ustr
  en_name :: ustr
  en_mentions :: "nat list"
  en_variants :: counter
  en_gender :: "string option"
  en_source :: string
  en_patronymic :: "ustr option"
  en_regions :: counter
  en_region_tag :: "ustr option"

definition REGION_SEP :: ustr where
  "REGION_SEP = [32, 183, 32]"

definition count_of :: "counter \<Rightarrow> ustr \<Rightarrow> nat" where
  "count_of c k = (case dict_get c k of None \<Rightarrow> 0 | Some n \<Rightarrow> n)"

definition count_up :: "ustr \<Rightarrow> nat \<Rightarrow> counter \<Rightarrow> counter" where
  "count_up k n c = dict_set k (count_of c k + n) c"

text \<open>\<open>Counter.most_common()\<close>: by count, equal counts in insertion order.\<close>

definition most_common :: "counter \<Rightarrow> counter" where
  "most_common c = sort_key (\<lambda>(_, n). - int n) c"

text \<open>\<open>str | None\<close>: is it a text that is not empty, and the text or the empty one.\<close>

definition given :: "ustr option \<Rightarrow> bool" where
  "given t \<longleftrightarrow> t \<noteq> None \<and> t \<noteq> Some []"

definition or_empty :: "ustr option \<Rightarrow> ustr" where
  "or_empty t = (case t of None \<Rightarrow> [] | Some x \<Rightarrow> x)"

definition set_add :: "'a \<Rightarrow> 'a list \<Rightarrow> 'a list" where
  "set_add x xs = (if x \<in> set xs then xs else xs @ [x])"

section \<open>Words of a name\<close>

definition is_initial :: "ustr option \<Rightarrow> bool" where
  "is_initial first_name = (case first_name of None \<Rightarrow> True
     | Some t \<Rightarrow> length (rev (dropWhile (\<lambda>c. c = 46) (rev t))) \<le> 1)"

text \<open>The shortest, then alphabetically first, of a list that is not empty.\<close>

definition shortest :: "ustr list \<Rightarrow> ustr" where
  "shortest ts = hd (sort_key (\<lambda>t. (length t, t)) ts)"

definition patronymic_key :: "unicode \<Rightarrow> ustr \<Rightarrow> ustr" where
  "patronymic_key u patronymic = shortest (bases (fold_word u patronymic))"

definition share_base :: "ustr \<Rightarrow> ustr \<Rightarrow> bool" where
  "share_base a b \<longleftrightarrow> list_ex (\<lambda>x. x \<in> set (bases b)) (bases a)"

definition cleaned :: "unicode \<Rightarrow> person_mention \<Rightarrow> person_mention" where
  "cleaned u m =
     (if given (pm_first m) \<and> given (pm_last m)
         \<and> share_base (fold_word u (or_empty (pm_first m))) (fold_word u (or_empty (pm_last m)))
      then m\<lparr>pm_first := None, pm_patronymic := None\<rparr> else m)"

definition display :: "person_mention \<Rightarrow> ustr" where
  "display m =
     (if given (pm_surface m) \<and> strip (or_empty (pm_surface m)) \<noteq> []
      then join_text space (words (or_empty (pm_surface m)))
      else join_text space (filter (\<lambda>t. t \<noteq> [])
             (map (\<lambda>t. strip (or_empty t)) [pm_first m, pm_patronymic m, pm_last m])))"

text \<open>\<open>str.partition\<close> at the region separator.\<close>

fun split_region :: "ustr \<Rightarrow> ustr \<times> ustr option" where
  "split_region [] = ([], None)"
| "split_region (c # cs) =
     (if starts_with (c # cs) REGION_SEP then ([], Some (drop (length REGION_SEP) (c # cs)))
      else (case split_region cs of (name, region) \<Rightarrow> (c # name, region)))"

definition split_key :: "ustr \<Rightarrow> ustr \<times> ustr option" where
  "split_key key = split_region key"

text \<open>\<open>t.rsplit(\" \", 1)[1]\<close>: what follows the last blank.\<close>

definition after_last_blank :: "ustr \<Rightarrow> ustr option" where
  "after_last_blank t =
     (if 32 \<in> set t then Some (rev (takeWhile (\<lambda>c. c \<noteq> 32) (rev t))) else None)"

definition NOMINATIVE_TAILS :: "ustr list" where
  "NOMINATIVE_TAILS = map ru [''q'', ''ij'', ''yj'', ''aA'', ''AA'']"

definition VOWELS :: "ustr" where
  "VOWELS = ru ''aeQiouyEUA''"

text \<open>\<open>max(\<dots>, key=\<dots>)\<close> of a list that is not empty: the first of the greatest.\<close>

fun first_max :: "('a \<Rightarrow> nat) \<Rightarrow> 'a \<Rightarrow> 'a list \<Rightarrow> 'a" where
  "first_max f best [] = best"
| "first_max f best (x # xs) = first_max f (if f best < f x then x else best) xs"

definition nominative_surname :: "unicode \<Rightarrow> ustr \<Rightarrow> ustr \<Rightarrow> counter \<Rightarrow> ustr option" where
  "nominative_surname u first key forms =
     (case after_last_blank (fst (split_key key)) of
        None \<Rightarrow> None
      | Some stem \<Rightarrow>
          (case filter (\<lambda>form. list_ex (ends_with (fold_word u form)) NOMINATIVE_TAILS
                  \<and> stem \<in> set (bases (fold_word u form))) (dict_keys forms) of
             form # others \<Rightarrow> Some (first_max (count_of forms) form others)
           | [] \<Rightarrow>
               (case sort_key (\<lambda>(form, n). (length form, - int n, form)) forms of
                  [] \<Rightarrow> None
                | (surname, _) # _ \<Rightarrow>
                    (if length (unique (map (fold_word u) (dict_keys forms))) > 1
                        \<and> fold_word u surname \<noteq> stem
                        \<and> lookup_gender u first = Some Masc
                        \<and> starts_with (fold_word u surname) stem
                     then (if stem = [] then None
                           else if List.last stem \<notin> set VOWELS then Some (take (length stem) surname)
                           else Some surname)
                     else Some surname))))"

section \<open>The grouping\<close>

record grouping =
  gr_entities :: "(ustr, entity) dict"
  gr_surnames :: "ustr \<Rightarrow> counter"
  gr_firsts :: "ustr \<Rightarrow> counter"
  gr_patronymics :: "ustr \<Rightarrow> counter"
  gr_in_article :: "nat \<times> ustr \<Rightarrow> ustr list"
  gr_with_patronymic :: "nat \<times> ustr \<times> ustr \<Rightarrow> ustr list"
  gr_region_seen :: "(ustr \<times> nat) list"
  gr_regional :: "ustr \<Rightarrow> ustr list"

definition no_groups :: grouping where
  "no_groups = \<lparr>gr_entities = [], gr_surnames = (\<lambda>_. []), gr_firsts = (\<lambda>_. []),
     gr_patronymics = (\<lambda>_. []), gr_in_article = (\<lambda>_. []), gr_with_patronymic = (\<lambda>_. []),
     gr_region_seen = [], gr_regional = (\<lambda>_. [])\<rparr>"

definition new_entity :: "ustr \<Rightarrow> ustr option \<Rightarrow> ustr option \<Rightarrow> entity" where
  "new_entity key patronymic region = \<lparr>en_key = key, en_name = [], en_mentions = [],
     en_variants = [], en_gender = None, en_source = ''rules'', en_patronymic = patronymic,
     en_regions = [], en_region_tag = region\<rparr>"

text \<open>The inner function \<open>add\<close>.\<close>

definition add_mention ::
  "ustr \<Rightarrow> person_mention \<Rightarrow> ustr option \<Rightarrow> ustr option \<Rightarrow> grouping \<Rightarrow> grouping" where
  "add_mention key m patronymic region g =
     (let e = (case dict_get (gr_entities g) key of
                 Some e \<Rightarrow> e | None \<Rightarrow> new_entity key patronymic region);
          e1 = e\<lparr>en_mentions := en_mentions e @ [pm_id m],
                 en_variants := count_up (display m) 1 (en_variants e)\<rparr>;
          counted = given (pm_region m) \<and> (key, pm_article m) \<notin> set (gr_region_seen g);
          e2 = (if counted
                then e1\<lparr>en_regions := count_up (or_empty (pm_region m)) 1 (en_regions e1)\<rparr> else e1)
      in g\<lparr>gr_entities := dict_set key e2 (gr_entities g),
           gr_region_seen := (if counted then gr_region_seen g @ [(key, pm_article m)]
                              else gr_region_seen g)\<rparr>)"

definition mention_order :: "person_mention \<Rightarrow> bool \<times> bool" where
  "mention_order m = (strip (or_empty (pm_patronymic m)) = [], \<not> given (pm_region m))"

definition plain_key :: "ustr \<Rightarrow> ustr \<Rightarrow> ustr" where
  "plain_key first stem = first @ space @ stem"

definition full_key :: "ustr \<Rightarrow> ustr \<Rightarrow> ustr \<Rightarrow> ustr" where
  "full_key first patronymic stem = first @ space @ patronymic @ space @ stem"

text \<open>
  The choice of the key of a full name: the key, its patronymic and region, and the
  dictionaries the choice updates. First with a patronymic, then without.
\<close>

definition key_with_patronymic ::
  "unicode \<Rightarrow> ustr \<Rightarrow> ustr \<Rightarrow> person_mention \<Rightarrow> grouping
     \<Rightarrow> ustr \<times> ustr option \<times> ustr option \<times> grouping" where
  "key_with_patronymic u first stem m g =
     (let written = strip (or_empty (pm_patronymic m));
          patronymic = patronymic_key u written;
          name = full_key first patronymic stem;
          (key, region, g1) =
            (if given (pm_region m) then
               let region = strip (or_empty (pm_region m));
                   key = name @ REGION_SEP @ fold_word u region
               in (key, Some region,
                   g\<lparr>gr_regional := (gr_regional g)(name := set_add key (gr_regional g name))\<rparr>)
             else
               let cards = gr_regional g name in
               (if length cards = 1 then hd cards else name, None, g));
          region' = (case dict_get (gr_entities g1) key of
                       Some e \<Rightarrow> en_region_tag e | None \<Rightarrow> region);
          place = (pm_article m, first, stem);
          g2 = g1\<lparr>gr_with_patronymic :=
                    (gr_with_patronymic g1)(place := set_add key (gr_with_patronymic g1 place)),
                  gr_patronymics :=
                    (gr_patronymics g1)(key := count_up written 1 (gr_patronymics g1 key))\<rparr>
      in (key, Some patronymic, region', g2))"

definition key_without_patronymic ::
  "ustr \<Rightarrow> ustr \<Rightarrow> person_mention \<Rightarrow> grouping \<Rightarrow> ustr \<times> ustr option \<times> ustr option \<times> grouping"
  where
  "key_without_patronymic first stem m g =
     (let named = gr_with_patronymic g (pm_article m, first, stem);
          key = (if length named = 1 then hd named else plain_key first stem)
      in (case dict_get (gr_entities g) key of
            Some e \<Rightarrow> (key, en_patronymic e, en_region_tag e, g)
          | None \<Rightarrow> (key, None, None, g)))"

definition key_of_full ::
  "unicode \<Rightarrow> ustr \<Rightarrow> ustr \<Rightarrow> person_mention \<Rightarrow> grouping
     \<Rightarrow> ustr \<times> ustr option \<times> ustr option \<times> grouping" where
  "key_of_full u first stem m g =
     (if strip (or_empty (pm_patronymic m)) \<noteq> [] then key_with_patronymic u first stem m g
      else key_without_patronymic first stem m g)"

text \<open>One full name: the forms it is written in, and its entity under every form of its surname.\<close>

definition note_forms ::
  "ustr \<Rightarrow> ustr list \<Rightarrow> person_mention \<Rightarrow> grouping \<Rightarrow> grouping" where
  "note_forms key forms m g =
     g\<lparr>gr_surnames := (gr_surnames g)(key :=
          count_up (strip (or_empty (pm_last m))) 1 (gr_surnames g key)),
       gr_firsts := (gr_firsts g)(key :=
          count_up (strip (or_empty (pm_first m))) 1 (gr_firsts g key)),
       gr_in_article := (\<lambda>(article, form).
          if article = pm_article m \<and> form \<in> set forms
          then set_add key (gr_in_article g (article, form)) else gr_in_article g (article, form))\<rparr>"

definition group_full ::
  "unicode \<Rightarrow> (ustr, (ustr, ustr) dict) dict \<Rightarrow> person_mention \<Rightarrow> grouping \<Rightarrow> grouping option" where
  "group_full u roots m g =
     (let first = fold_word u (or_empty (pm_first m));
          surname = fold_word u (or_empty (pm_last m)) in
      case dict_get roots first of
        None \<Rightarrow> None
      | Some of_first \<Rightarrow>
          (case dict_get of_first surname of
             None \<Rightarrow> None
           | Some stem \<Rightarrow>
               (case key_of_full u first stem m g of
                  (key, patronymic, region, g1) \<Rightarrow>
                    Some (note_forms key (bases surname @ [stem]) m
                            (add_mention key m patronymic region g1)))))"

fun group_fulls ::
  "unicode \<Rightarrow> (ustr, (ustr, ustr) dict) dict \<Rightarrow> person_mention list \<Rightarrow> grouping \<Rightarrow> grouping option"
  where
  "group_fulls u roots [] g = Some g"
| "group_fulls u roots (m # ms) g =
     (case group_full u roots m g of None \<Rightarrow> None | Some g' \<Rightarrow> group_fulls u roots ms g')"

text \<open>A surname alone, or with an initial.\<close>

definition bare_candidates :: "unicode \<Rightarrow> person_mention \<Rightarrow> grouping \<Rightarrow> ustr list" where
  "bare_candidates u m g =
     (let found = unique (concat (map (\<lambda>b. gr_in_article g (pm_article m, b))
                    (bases (fold_word u (or_empty (pm_last m)))))) in
      if given (pm_first m)
      then filter (\<lambda>key. starts_with key (take 1 (fold_word u (or_empty (pm_first m))))) found
      else found)"

definition group_bare :: "unicode \<Rightarrow> person_mention \<Rightarrow> grouping \<Rightarrow> grouping option" where
  "group_bare u m g =
     (case bare_candidates u m g of
        [key] \<Rightarrow>
          (case dict_get (gr_entities g) key of
             None \<Rightarrow> None
           | Some e \<Rightarrow>
               (let g1 = add_mention key m (en_patronymic e) (en_region_tag e) g in
                Some (g1\<lparr>gr_surnames := (gr_surnames g1)(key :=
                        count_up (strip (or_empty (pm_last m))) 1 (gr_surnames g1 key))\<rparr>)))
      | _ \<Rightarrow> Some g)"

fun group_bares :: "unicode \<Rightarrow> nat list \<Rightarrow> person_mention list \<Rightarrow> grouping \<Rightarrow> grouping option" where
  "group_bares u full_ids [] g = Some g"
| "group_bares u full_ids (m # ms) g =
     (if pm_id m \<in> set full_ids \<or> \<not> given (pm_last m) then group_bares u full_ids ms g
      else (case group_bare u m g of None \<Rightarrow> None | Some g' \<Rightarrow> group_bares u full_ids ms g'))"

definition name_entity :: "unicode \<Rightarrow> grouping \<Rightarrow> ustr \<Rightarrow> entity \<Rightarrow> entity option" where
  "name_entity u g key e =
     (case most_common (gr_firsts g key) of
        [] \<Rightarrow> None
      | (first, _) # _ \<Rightarrow>
          (case nominative_surname u first key (gr_surnames g key) of
             None \<Rightarrow> None
           | Some surname \<Rightarrow>
               (let patronymic = (case most_common (gr_patronymics g key) of
                      [] \<Rightarrow> [] | (form, _) # _ \<Rightarrow> space @ form) in
                Some (e\<lparr>en_name := first @ patronymic @ space @ surname\<rparr>))))"

fun name_entities :: "unicode \<Rightarrow> grouping \<Rightarrow> (ustr, entity) dict \<Rightarrow> entity list option" where
  "name_entities u g [] = Some []"
| "name_entities u g ((key, e) # es) =
     (case name_entity u g key e of
        None \<Rightarrow> None
      | Some e' \<Rightarrow> map_option (\<lambda>rest. e' # rest) (name_entities u g es))"

definition by_mentions :: "entity list \<Rightarrow> entity list" where
  "by_mentions es = sort_key (\<lambda>e. (- int (length (en_mentions e)), en_key e)) es"

definition is_full :: "person_mention \<Rightarrow> bool" where
  "is_full m \<longleftrightarrow> given (pm_last m) \<and> \<not> is_initial (pm_first m)"

text \<open>The surnames of each given name, and their declensions.\<close>

definition surnames_of :: "unicode \<Rightarrow> person_mention list \<Rightarrow> ustr \<Rightarrow> ustr list" where
  "surnames_of u full first = unique (map (\<lambda>m. fold_word u (or_empty (pm_last m)))
     (filter (\<lambda>m. fold_word u (or_empty (pm_first m)) = first) full))"

fun roots_by_first ::
  "(ustr list \<Rightarrow> ustr list) \<Rightarrow> (ustr \<Rightarrow> ustr list) \<Rightarrow> ustr list \<Rightarrow> (ustr, (ustr, ustr) dict) dict option"
  where
  "roots_by_first set_order surnames [] = Some []"
| "roots_by_first set_order surnames (first # rest) =
     (case surname_roots set_order (surnames first) of
        None \<Rightarrow> None
      | Some roots \<Rightarrow>
          map_option (\<lambda>later. (first, roots) # later) (roots_by_first set_order surnames rest))"

definition group_mentions ::
  "unicode \<Rightarrow> (ustr list \<Rightarrow> ustr list) \<Rightarrow> person_mention list \<Rightarrow> entity list option" where
  "group_mentions u set_order mentions =
     (let ms = map (cleaned u) mentions;
          full = filter is_full ms;
          firsts = unique (map (\<lambda>m. fold_word u (or_empty (pm_first m))) full) in
      case roots_by_first set_order (surnames_of u full) firsts of
        None \<Rightarrow> None
      | Some roots \<Rightarrow>
          (case group_fulls u roots (sort_key mention_order full) no_groups of
             None \<Rightarrow> None
           | Some g \<Rightarrow>
               (case group_bares u (map pm_id full) ms g of
                  None \<Rightarrow> None
                | Some g' \<Rightarrow> map_option by_mentions (name_entities u g' (gr_entities g')))))"

end
