(* ===== verification/Person_Merging.thy ===== *)
theory Person_Merging
  imports Person_Grouping
begin

text \<open>
  The rest of \<open>processing/identity/grouping.py\<close>: names a model or the dictionary gave, and
  the entities of one person merged. An \<open>Entity\<close> that a loop changes in place is a value
  of a dictionary here; \<open>attach_aliases\<close> shares the \<open>regions\<close> of its argument, which its only
  caller drops, and sharing is not modelled.
\<close>

section \<open>Entities that absorb others\<close>

definition counter_update :: "counter \<Rightarrow> counter \<Rightarrow> counter" where
  "counter_update c d = fold (\<lambda>(k, n). count_up k n) d c"

definition absorb :: "entity \<Rightarrow> entity \<Rightarrow> entity" where
  "absorb target e = target\<lparr>en_mentions := en_mentions target @ en_mentions e,
     en_variants := counter_update (en_variants target) (en_variants e),
     en_regions := counter_update (en_regions target) (en_regions e)\<rparr>"

text \<open>\<open>del d[k]\<close>, \<open>d.pop(k)\<close>.\<close>

definition dict_del :: "'k \<Rightarrow> ('k, 'v) dict \<Rightarrow> ('k, 'v) dict" where
  "dict_del k d = filter (\<lambda>(k', _). k' \<noteq> k) d"

definition dict_values :: "('k, 'v) dict \<Rightarrow> 'v list" where
  "dict_values d = map snd d"

text \<open>\<open>{entity.key: entity for entity in entities}\<close>.\<close>

definition entities_by_key :: "entity list \<Rightarrow> (ustr, entity) dict" where
  "entities_by_key es = fold (\<lambda>e. dict_set (en_key e) e) es []"

section \<open>Names\<close>

record given_name =
  gn_nominative :: ustr
  gn_gender :: string
  gn_is_person :: bool
  gn_source :: string

definition PATRONYMIC_ENDINGS :: "ustr list" where
  "PATRONYMIC_ENDINGS = map ru [''viC'', ''vna'', ''iCna'']"

definition repeats_a_word :: "unicode \<Rightarrow> ustr \<Rightarrow> ustr list \<Rightarrow> bool" where
  "repeats_a_word u w ws \<longleftrightarrow>
     46 \<notin> set w \<and> list_ex (\<lambda>other. share_base (fold_word u w) (fold_word u other)) ws"

definition without_repeated_words :: "unicode \<Rightarrow> ustr \<Rightarrow> ustr" where
  "without_repeated_words u name =
     join_text space (fold (\<lambda>w kept. if repeats_a_word u w kept then kept else kept @ [w]) (words name) [])"

definition is_patronymic :: "unicode \<Rightarrow> ustr \<Rightarrow> bool" where
  "is_patronymic u w \<longleftrightarrow> list_ex (ends_with (lower_text u w)) PATRONYMIC_ENDINGS"

definition given_name_first :: "unicode \<Rightarrow> ustr \<Rightarrow> ustr" where
  "given_name_first u name =
     (let ws = words name in
      if length ws < 2 \<or> list_ex (\<lambda>w. 46 \<in> set w) ws then join_text space ws
      else
        let has_patronymic = (length ws = 3 \<and> is_patronymic u (ws ! 2));
            given = (if has_patronymic then ws ! 1 else List.last ws) in
        if lookup_gender u (ws ! 0) \<noteq> None \<or> lookup_gender u given = None then join_text space ws
        else if has_patronymic then join_text space [ws ! 1, ws ! 2, ws ! 0]
        else join_text space (List.last ws # butlast ws))"

definition name_key :: "unicode \<Rightarrow> ustr \<Rightarrow> ustr" where
  "name_key u name = join_text space (map (fold_word u) (words name))"

definition without_patronymic :: "ustr \<Rightarrow> ustr" where
  "without_patronymic name =
     (let ws = words name in
      if length ws > 2 then join_text space [ws ! 0, List.last ws] else name)"

section \<open>Applying the names a model gave\<close>

text \<open>The name, key, gender and source of one entity; \<open>None\<close> as a reading is no answer.\<close>

definition renamed ::
  "unicode \<Rightarrow> entity \<Rightarrow> given_name option \<Rightarrow> ustr \<times> ustr \<times> string option \<times> string" where
  "renamed u e answer =
     (let region = (case en_region_tag e of
            Some tag \<Rightarrow> if tag = [] then [] else REGION_SEP @ fold_word u tag | None \<Rightarrow> []);
          by_rules =
            (let name = without_repeated_words u (given_name_first u (en_name e)) in
             (name, if name = en_name e then en_key e else name_key u name @ region,
              en_gender e, en_source e)) in
      case answer of
        None \<Rightarrow> by_rules
      | Some reading \<Rightarrow>
          if strip (gn_nominative reading) = [] then by_rules
          else
            let name = given_name_first u (gn_nominative reading);
                ws = words name;
                kept = (if en_patronymic e = None then without_patronymic name
                        else if length ws < 3 \<and> \<not> list_ex (\<lambda>w. 46 \<in> set w) ws
                        then join_text space (take 1 ws @ butlast (tl (words (en_name e))) @ drop 1 ws)
                        else name);
                final = without_repeated_words u kept
            in (final, name_key u final @ region,
                if gn_gender reading = ''unknown'' then None else Some (gn_gender reading),
                gn_source reading))"

definition apply_name ::
  "unicode \<Rightarrow> (ustr, given_name) dict \<Rightarrow> entity \<Rightarrow> (ustr, entity) dict \<Rightarrow> (ustr, entity) dict" where
  "apply_name u names e merged =
     (let answer = dict_get names (en_key e) in
      if (case answer of Some reading \<Rightarrow> \<not> gn_is_person reading | None \<Rightarrow> False) then merged
      else
        case renamed u e answer of (name, key, gender, source) \<Rightarrow>
          (case dict_get merged key of
             None \<Rightarrow> dict_set key (e\<lparr>en_key := key, en_name := name, en_gender := gender,
                                     en_source := source\<rparr>) merged
           | Some target \<Rightarrow> dict_set key (absorb target e) merged))"

definition apply_names ::
  "unicode \<Rightarrow> (ustr, given_name) dict \<Rightarrow> entity list \<Rightarrow> entity list" where
  "apply_names u names es =
     by_mentions (dict_values (fold (apply_name u names) (by_mentions es) []))"

section \<open>Mentions that are no person of the news\<close>

definition KIN :: "ustr list" where
  "KIN = map ru [''Zena'', ''Zeny'', ''Zene'', ''Zenu'', ''Zenoj'',
     ''muZ'', ''muZa'', ''muZu'', ''muZem'',
     ''vdova'', ''vdovy'', ''vdove'', ''vdovu'', ''vdovoj'',
     ''syn'', ''syna'', ''synu'', ''synom'',
     ''doCq'', ''doCeri'', ''doCerqU'', ''matq'', ''materi'', ''materqU'',
     ''mama'', ''mamy'', ''mame'', ''mamu'', ''otec'', ''otca'', ''otcu'', ''otcom'',
     ''papa'', ''papy'', ''pape'', ''brat'', ''brata'', ''bratu'', ''bratom'',
     ''sestra'', ''sestry'', ''sestre'', ''sestru'', ''sestroj'']"

definition declined_given_name :: "unicode \<Rightarrow> ustr \<Rightarrow> bool" where
  "declined_given_name u w =
     (let stem = butlast w in
      list_ex (\<lambda>base. base \<noteq> w \<and> lookup_gender u base \<noteq> None)
        (stem # map (\<lambda>ending. stem @ ru ending) [''a'', ''A'', ''j'', ''q'']))"

definition kinship :: "unicode \<Rightarrow> person_mention \<Rightarrow> bool" where
  "kinship u m =
     (let ws = words (display m) in
      2 \<le> length ws \<and> fold_word u (ws ! 0) \<in> set KIN \<and> declined_given_name u (ws ! 1))"

definition SENTENCE_END :: ustr where
  "SENTENCE_END = [46, 33, 63, 8230, 187, 34, 8221, 41]"

text \<open>
  The regular expression of what may follow a byline, read as the texts that may be left
  after a match: \<open>rests p t\<close> after one or more characters of a class.
\<close>

fun rests :: "(int \<Rightarrow> bool) \<Rightarrow> ustr \<Rightarrow> ustr list" where
  "rests p [] = []"
| "rests p (c # cs) = (if p c then cs # rests p cs else [])"

definition upper_ru :: "int \<Rightarrow> bool" where
  "upper_ru c \<longleftrightarrow> (1040 \<le> c \<and> c \<le> 1071) \<or> c = 1025"

definition lower_ru :: "int \<Rightarrow> bool" where
  "lower_ru c \<longleftrightarrow> (1072 \<le> c \<and> c \<le> 1103) \<or> c = 1105"

definition city_word :: "(int \<Rightarrow> bool) \<Rightarrow> ustr \<Rightarrow> ustr list" where
  "city_word initial t = (case t of [] \<Rightarrow> []
     | c # cs \<Rightarrow> if initial c then rests (\<lambda>c. lower_ru c \<or> c = 45) cs else [])"

definition next_city_word :: "ustr \<Rightarrow> ustr list" where
  "next_city_word t = (case t of [] \<Rightarrow> []
     | c # cs \<Rightarrow> if c \<in> {32, 9, 45} then city_word (\<lambda>c. upper_ru c \<or> lower_ru c) cs else [])"

definition after_city :: "ustr \<Rightarrow> ustr list" where
  "after_city t = (case t of [] \<Rightarrow> []
     | c # cs \<Rightarrow>
         if c = 44 then
           let one = concat (map (city_word upper_ru)
                       (cs # rests (\<lambda>c. c = 32 \<or> c = 9) cs));
               two = concat (map next_city_word one);
               three = concat (map next_city_word two)
           in one @ two @ three
         else [])"

definition byline_end :: "ustr \<Rightarrow> bool" where
  "byline_end t \<longleftrightarrow> list_ex (list_all is_space) (t # after_city t)"

definition rstrip :: "(int \<Rightarrow> bool) \<Rightarrow> ustr \<Rightarrow> ustr" where
  "rstrip p t = rev (dropWhile p (rev t))"

definition byline :: "ustr \<Rightarrow> ustr \<Rightarrow> ustr \<Rightarrow> bool" where
  "byline surface before after =
     (if \<not> byline_end after \<or> \<not> (2 \<le> length (words surface) \<and> length (words surface) \<le> 3) then False
      else
        let line_start = rstrip (\<lambda>c. c = 32 \<or> c = 9) before in
        if \<not> ends_with line_start [10] then False
        else
          let text_before = rstrip is_space line_start in
          text_before \<noteq> [] \<and> List.last text_before \<in> set SENTENCE_END)"

section \<open>Two words, the order swapped\<close>

text \<open>A \<open>frozenset\<close> of words: sorted, each once.\<close>

definition word_set :: "ustr list \<Rightarrow> ustr list" where
  "word_set ws = sort (unique ws)"

definition merge_swap ::
  "entity \<Rightarrow> (ustr, entity) dict \<times> (ustr list \<times> ustr, ustr) dict
     \<Rightarrow> (ustr, entity) dict \<times> (ustr list \<times> ustr, ustr) dict" where
  "merge_swap e state =
     (let (merged, by_words) = state;
          (name_part, region) = split_key (en_key e);
          place = (word_set (words name_part), or_empty region);
          pair = (length (words name_part) = 2 \<and> words name_part ! 0 \<noteq> words name_part ! 1) in
      case (if pair then dict_get by_words place else None) of
        None \<Rightarrow> (dict_set (en_key e) e merged,
                 if pair then dict_set place (en_key e) by_words else by_words)
      | Some target_key \<Rightarrow>
          (case dict_get merged target_key of
             None \<Rightarrow> (merged, by_words)
           | Some target \<Rightarrow> (dict_set target_key (absorb target e) merged, by_words)))"

definition merge_swapped :: "entity list \<Rightarrow> entity list" where
  "merge_swapped es = by_mentions (dict_values (fst (fold merge_swap (by_mentions es) ([], []))))"

section \<open>A surname alone\<close>

definition full_named :: "entity \<Rightarrow> bool" where
  "full_named e \<longleftrightarrow> 2 \<le> length (words (en_name e))"

definition articles_of :: "(nat, nat) dict \<Rightarrow> entity \<Rightarrow> nat list" where
  "articles_of article_of e = unique (concat (map (\<lambda>m. case dict_get article_of m of
     None \<Rightarrow> [] | Some a \<Rightarrow> [a]) (en_mentions e)))"

text \<open>The keys of the entities whose surname has a base \<open>b\<close> and that an article names.\<close>

definition keys_in_article :: "unicode \<Rightarrow> (nat, nat) dict \<Rightarrow> entity list \<Rightarrow> nat \<Rightarrow> ustr \<Rightarrow> ustr list" where
  "keys_in_article u article_of es article b =
     map en_key (filter (\<lambda>e. full_named e \<and> article \<in> set (articles_of article_of e)
       \<and> b \<in> set (bases (fold_word u (List.last (words (en_name e)))))) es)"

definition bare_targets :: "unicode \<Rightarrow> (nat, nat) dict \<Rightarrow> entity list \<Rightarrow> ustr \<Rightarrow> nat \<Rightarrow> ustr list" where
  "bare_targets u article_of es surname mention =
     (case dict_get article_of mention of
        None \<Rightarrow> []
      | Some article \<Rightarrow>
          unique (concat (map (keys_in_article u article_of es article) (bases (fold_word u surname)))))"

text \<open>One mention of a bare entity: moved to the one full name, or kept.\<close>

definition move_mention ::
  "(nat \<Rightarrow> ustr list) \<Rightarrow> nat \<Rightarrow> (ustr, entity) dict \<times> nat list \<Rightarrow> (ustr, entity) dict \<times> nat list" where
  "move_mention targets mention state =
     (let (merged, kept) = state in
      case targets mention of
        [key] \<Rightarrow>
          (case dict_get merged key of
             Some e \<Rightarrow> (dict_set key (e\<lparr>en_mentions := en_mentions e @ [mention]\<rparr>) merged, kept)
           | None \<Rightarrow> (merged, kept))
      | _ \<Rightarrow> (merged, kept @ [mention]))"

definition attach_one ::
  "unicode \<Rightarrow> (nat, nat) dict \<Rightarrow> entity list \<Rightarrow> entity \<Rightarrow> (ustr, entity) dict \<Rightarrow> (ustr, entity) dict" where
  "attach_one u article_of es e merged =
     (case words (en_name e) of
        [surname] \<Rightarrow>
          (let (merged', kept) =
             fold (move_mention (bare_targets u article_of es surname)) (en_mentions e) (merged, []) in
           if kept \<noteq> [] then
             (case dict_get merged' (en_key e) of
                Some b \<Rightarrow> dict_set (en_key e) (b\<lparr>en_mentions := kept\<rparr>) merged'
              | None \<Rightarrow> merged')
           else dict_del (en_key e) merged')
      | _ \<Rightarrow> merged)"

definition attach_bare :: "unicode \<Rightarrow> (nat, nat) dict \<Rightarrow> entity list \<Rightarrow> entity list" where
  "attach_bare u article_of es =
     by_mentions (dict_values (fold (attach_one u article_of es) es (entities_by_key es)))"

section \<open>A pseudonym in brackets\<close>

definition keys_of_mentions :: "entity list \<Rightarrow> (nat, ustr) dict" where
  "keys_of_mentions es = fold (\<lambda>e. fold (\<lambda>m. dict_set m (en_key e)) (en_mentions e)) es []"

definition attach_alias ::
  "nat \<times> nat \<Rightarrow> (ustr, entity) dict \<times> (nat, ustr) dict \<Rightarrow> (ustr, entity) dict \<times> (nat, ustr) dict" where
  "attach_alias pair state =
     (let (by_key, key_of) = state in
      case (dict_get key_of (fst pair), dict_get key_of (snd pair)) of
        (Some source, Some target) \<Rightarrow>
          if source = target then state
          else
            (case (dict_get by_key source, dict_get by_key target) of
               (Some moved, Some e) \<Rightarrow>
                 (dict_set target (absorb e moved) (dict_del source by_key),
                  fold (\<lambda>m. dict_set m target) (en_mentions moved) key_of)
             | _ \<Rightarrow> state)
      | _ \<Rightarrow> state)"

definition attach_aliases :: "(nat \<times> nat) list \<Rightarrow> entity list \<Rightarrow> entity list" where
  "attach_aliases aliases es =
     by_mentions (dict_values (fst (fold attach_alias aliases (entities_by_key es, keys_of_mentions es))))"

section \<open>Names already in the nominative\<close>

definition ambiguous_given :: "unicode \<Rightarrow> ustr \<Rightarrow> bool" where
  "ambiguous_given u given_word \<longleftrightarrow> lookup_gender u given_word = Some Femn \<and>
     (lookup_gender u (butlast given_word) = Some Masc
      \<or> lookup_gender u (butlast given_word @ ru ''j'') = Some Masc)"

definition ends_in :: "ustr \<Rightarrow> string list \<Rightarrow> bool" where
  "ends_in t endings \<longleftrightarrow> list_ex (\<lambda>ending. ends_with t (ru ending)) endings"

text \<open>One reading: the given name and the surname at these places of the words.\<close>

definition nominative_reading :: "unicode \<Rightarrow> ustr list \<Rightarrow> nat \<times> nat \<Rightarrow> given_name option" where
  "nominative_reading u ws places =
     (let (given_at, surname_at) = places in
      if given_at = 1 \<and> length ws = 2 then None
      else
        let given_word = ws ! given_at; surname = ws ! surname_at;
            gender = lookup_gender u given_word;
            rest = map (\<lambda>i. ws ! i) (filter (\<lambda>i. i \<noteq> given_at \<and> i \<noteq> surname_at) [0..<length ws]);
            folded = lower_text u surname in
        if gender = None \<or> ambiguous_given u given_word then None
        else if rest \<noteq> [] \<and> \<not> is_patronymic u (hd rest) then None
        else if is_patronymic u surname \<or> ends_in folded [''y'', ''yh'', ''ih''] then None
        else if gender = Some Masc \<and> ends_in folded [''a'', ''A'', ''u'', ''U'', ''om'', ''ym'', ''oj''] then None
        else if gender = Some Femn \<and> ends_in folded [''oj'', ''uU'', ''u'', ''U''] then None
        else Some \<lparr>gn_nominative = join_text space (given_word # rest @ [surname]),
                   gn_gender = (if gender = Some Masc then ''male'' else ''female''),
                   gn_is_person = True, gn_source = ''rules''\<rparr>)"

definition nominative_form :: "unicode \<Rightarrow> ustr \<Rightarrow> given_name option" where
  "nominative_form u form =
     (let ws = words form in
      if (length ws \<noteq> 2 \<and> length ws \<noteq> 3) \<or> list_ex (\<lambda>w. 46 \<in> set w) ws then None
      else
        case nominative_reading u ws (0, length ws - 1) of
          Some reading \<Rightarrow> Some reading
        | None \<Rightarrow> nominative_reading u ws (1, 0))"

end
