(* ===== verification/Identity_Decisions.thy ===== *)
theory Identity_Decisions
  imports Person_Merging Union_Find
begin

text \<open>
  \<open>processing/identity/disputes.py\<close>, \<open>overrides.py\<close>, \<open>removals.py\<close> and the unnamed
  figurants of \<open>collector.py\<close>: what people decided about entities, kept by key, and applied
  again at every rebuild. Operations that may raise a \<open>KeyError\<close> return an option.
\<close>

section \<open>Keys of earlier rebuilds\<close>

definition pair_keys :: "ustr \<Rightarrow> ustr \<Rightarrow> ustr \<times> ustr" where
  "pair_keys a b = (if a \<le> b then (a, b) else (b, a))"

definition stem_key :: "ustr \<Rightarrow> ustr \<times> ustr option" where
  "stem_key key =
     (let (name, region) = split_key key; ws = words name in
      (join_text space (if ws = [] then [] else butlast ws @ [shortest (bases (List.last ws))]), region))"

text \<open>\<open>KeyIndex(keys).today(key)\<close>. The index is the list of known keys, each once.\<close>

definition today :: "ustr list \<Rightarrow> ustr \<Rightarrow> ustr option" where
  "today known key =
     (if key \<in> set known then Some key
      else
        let (stem, region) = stem_key key;
            same_stem = filter (\<lambda>k. fst (stem_key k) = stem) known in
        (case filter (\<lambda>k. snd (split_key k) = region) same_stem of
           [found] \<Rightarrow> Some found
         | _ # _ \<Rightarrow> None
         | [] \<Rightarrow> (case (if region = None then same_stem else []) of
                    [found] \<Rightarrow> Some found
                  | _ \<Rightarrow> None)))"

definition resolve_keys :: "(ustr \<times> ustr) list \<Rightarrow> ustr list \<Rightarrow> (ustr \<times> ustr) list" where
  "resolve_keys pairs keys =
     (let known = unique keys in
      concat (map (\<lambda>(a, b). case (today known a, today known b) of
          (Some left, Some right) \<Rightarrow> if left \<noteq> right then [pair_keys left right] else []
        | _ \<Rightarrow> []) pairs))"

section \<open>The pairs to decide\<close>

record entity_ref =
  ref_id :: nat
  ref_key :: ustr
  ref_name :: ustr
  ref_count :: nat

datatype pair_kind = PATRONYMIC | SIMILAR | NAME_PATRONYMIC | REGION

record dispute =
  dis_kind :: pair_kind
  dis_left :: entity_ref
  dis_right :: entity_ref

definition dispute_keys :: "dispute \<Rightarrow> ustr \<times> ustr" where
  "dispute_keys p = pair_keys (ref_key (dis_left p)) (ref_key (dis_right p))"

definition MIN_SPELLED :: nat where
  "MIN_SPELLED = 7"

definition ending_differs :: "ustr \<Rightarrow> ustr \<Rightarrow> bool" where
  "ending_differs a b =
     (let (short, long) = (if length a \<le> length b then (a, b) else (b, a)) in
      a \<noteq> b \<and> 3 \<le> length short \<and> length long - length short \<le> 2 \<and> starts_with long (butlast short))"

definition respelled :: "ustr \<Rightarrow> ustr \<Rightarrow> bool" where
  "respelled a b \<longleftrightarrow> length a = length b \<and> MIN_SPELLED \<le> length a
     \<and> length (filter (\<lambda>(x, y). x \<noteq> y) (zip a b)) = 1"

definition similar_given :: "ustr \<Rightarrow> ustr \<Rightarrow> bool" where
  "similar_given a b \<longleftrightarrow> ending_differs a b \<or> respelled a b"

definition gender_of_name :: "unicode \<Rightarrow> ustr \<Rightarrow> gender option" where
  "gender_of_name u name = (case words name of w # _ \<Rightarrow> lookup_gender u w | [] \<Rightarrow> None)"

definition key_words :: "ustr \<Rightarrow> ustr list" where
  "key_words key = words (fst (split_key key))"

text \<open>A \<open>defaultdict(list)\<close> filled by a loop: the groups in the order of their first element.\<close>

definition group_by :: "('a \<Rightarrow> 'k) \<Rightarrow> 'a list \<Rightarrow> 'a list list" where
  "group_by f xs = map (\<lambda>k. filter (\<lambda>x. f x = k) xs) (unique (map f xs))"

definition two_values :: "'a option \<Rightarrow> 'a option \<Rightarrow> bool" where
  "two_values a b \<longleftrightarrow> a \<noteq> None \<and> b \<noteq> None \<and> a \<noteq> b"

definition middle_words :: "ustr list \<Rightarrow> ustr list option" where
  "middle_words ws = (let middle = butlast (tl ws) in if middle = [] then None else Some middle)"

definition bare_and_full :: "entity_ref list \<Rightarrow> (entity_ref \<times> entity_ref) list" where
  "bare_and_full refs =
     concat (map (\<lambda>left. map (\<lambda>right. (left, right))
         (filter (\<lambda>e. length (key_words (ref_key e)) > 2) refs))
       (filter (\<lambda>e. length (key_words (ref_key e)) = 2) refs))"

definition region_pairs :: "entity_ref list \<Rightarrow> (entity_ref \<times> entity_ref) list" where
  "region_pairs refs =
     (let full = filter (\<lambda>e. length (key_words (ref_key e)) > 2) refs in
      concat (map (\<lambda>left. map (\<lambda>right. (left, right))
         (filter (\<lambda>right. fst (split_key (ref_key left)) = fst (split_key (ref_key right))
             \<and> snd (split_key (ref_key left)) = None \<and> snd (split_key (ref_key right)) \<noteq> None) full)) full))"

definition similar_refs :: "unicode \<Rightarrow> entity_ref \<Rightarrow> entity_ref \<Rightarrow> bool" where
  "similar_refs u left right =
     (let l = key_words (ref_key left); r = key_words (ref_key right) in
      similar_given (hd l) (hd r)
      \<and> \<not> two_values (gender_of_name u (ref_name left)) (gender_of_name u (ref_name right))
      \<and> \<not> two_values (middle_words l) (middle_words r)
      \<and> \<not> two_values (snd (split_key (ref_key left))) (snd (split_key (ref_key right))))"

fun similar_pairs :: "unicode \<Rightarrow> entity_ref list \<Rightarrow> (entity_ref \<times> entity_ref) list" where
  "similar_pairs u [] = []"
| "similar_pairs u (left # refs) =
     map (\<lambda>right. (left, right)) (filter (similar_refs u left) refs) @ similar_pairs u refs"

definition dispute_of :: "pair_kind \<Rightarrow> entity_ref \<times> entity_ref \<Rightarrow> dispute" where
  "dispute_of kind p = \<lparr>dis_kind = kind, dis_left = fst p, dis_right = snd p\<rparr>"

definition find_pairs :: "unicode \<Rightarrow> entity_ref list \<Rightarrow> (ustr \<times> ustr) list \<Rightarrow> dispute list" where
  "find_pairs u entities decided =
     (let decided_keys = resolve_keys decided (map ref_key entities);
          wordy = filter (\<lambda>e. 2 \<le> length (key_words (ref_key e))) entities;
          by_first_two = group_by (\<lambda>e. (key_words (ref_key e) ! 0, key_words (ref_key e) ! 1)) wordy;
          by_name = group_by (\<lambda>e. (key_words (ref_key e) ! 0, List.last (key_words (ref_key e)))) wordy;
          by_surname = group_by (\<lambda>e. List.last (key_words (ref_key e))) wordy;
          for_person = concat (map (\<lambda>refs. map (dispute_of NAME_PATRONYMIC) (bare_and_full refs)) by_first_two);
          of_names = concat (map (\<lambda>refs.
              filter (\<lambda>p. dispute_keys p \<notin> set (map dispute_keys for_person))
                (map (dispute_of PATRONYMIC) (bare_and_full refs))
              @ map (dispute_of REGION) (region_pairs refs)) by_name);
          alike = concat (map (\<lambda>refs. map (dispute_of SIMILAR) (similar_pairs u refs)) by_surname)
      in sort_key (\<lambda>p. (- int (ref_count (dis_left p) + ref_count (dis_right p)), dispute_keys p))
           (filter (\<lambda>p. dispute_keys p \<notin> set decided_keys) (for_person @ of_names @ alike)))"

section \<open>Decided pairs merged at a rebuild\<close>

definition keeps_first :: "ustr \<times> nat \<Rightarrow> ustr \<times> nat \<Rightarrow> bool" where
  "keeps_first a b \<longleftrightarrow>
     (length (words (fst b)), snd b, fst a) \<le> (length (words (fst a)), snd a, fst b)"

text \<open>One decided pair: the root that names the merged entity stays.\<close>

definition union_decided ::
  "(ustr \<Rightarrow> nat) \<Rightarrow> ustr \<times> ustr \<Rightarrow> (ustr \<rightharpoonup> ustr) \<Rightarrow> (ustr \<rightharpoonup> ustr) option" where
  "union_decided mentions pair parent =
     union_by (\<lambda>a b. keeps_first (a, mentions a) (b, mentions b)) (fst pair) (snd pair) parent"

fun union_all_decided ::
  "(ustr \<Rightarrow> nat) \<Rightarrow> (ustr \<times> ustr) list \<Rightarrow> (ustr \<rightharpoonup> ustr) \<Rightarrow> (ustr \<rightharpoonup> ustr) option" where
  "union_all_decided mentions [] parent = Some parent"
| "union_all_decided mentions (p # ps) parent =
     (case union_decided mentions p parent of
        None \<Rightarrow> None
      | Some parent' \<Rightarrow> union_all_decided mentions ps parent')"

definition absorb_decided :: "entity \<Rightarrow> entity \<Rightarrow> entity" where
  "absorb_decided target e =
     (absorb target e)\<lparr>en_gender := (case en_gender target of
        Some g \<Rightarrow> if g = [] then en_gender e else Some g | None \<Rightarrow> en_gender e)\<rparr>"

fun absorb_into_roots ::
  "(ustr \<times> ustr) list \<Rightarrow> (ustr, entity) dict \<Rightarrow> (ustr, entity) dict \<Rightarrow> (ustr, entity) dict option" where
  "absorb_into_roots [] by_key merged = Some merged"
| "absorb_into_roots ((key, found) # rest) by_key merged =
     (case (dict_get merged found, dict_get by_key key) of
        (Some target, Some e) \<Rightarrow>
          absorb_into_roots rest by_key
            (if found = key then merged else dict_set found (absorb_decided target e) merged)
      | _ \<Rightarrow> None)"

definition merge_decided :: "entity list \<Rightarrow> (ustr \<times> ustr) list \<Rightarrow> entity list option" where
  "merge_decided es same =
     (let by_key = entities_by_key es;
          keys = dict_keys by_key;
          mentions = (\<lambda>k. case dict_get by_key k of Some e \<Rightarrow> length (en_mentions e) | None \<Rightarrow> 0);
          parent = (\<lambda>k. if k \<in> set keys then Some k else None) in
      case union_all_decided mentions (resolve_keys same keys) parent of
        None \<Rightarrow> None
      | Some parent1 \<Rightarrow>
          (case find_roots parent1 keys of
             None \<Rightarrow> None
           | Some (roots1, parent2) \<Rightarrow>
               (case find_roots parent2 keys of
                  None \<Rightarrow> None
                | Some (roots2, _) \<Rightarrow>
                    let merged = filter (\<lambda>(k, _). (k, k) \<in> set roots1) by_key in
                    map_option (\<lambda>d. by_mentions (dict_values d)) (absorb_into_roots roots2 by_key merged))))"

section \<open>Corrected names\<close>

definition MAX_NAME :: nat where
  "MAX_NAME = 200"

definition clean_name :: "unicode \<Rightarrow> ustr \<Rightarrow> ustr" where
  "clean_name u name = take MAX_NAME (given_name_first u (join_text space (words name)))"

definition overridden_names :: "ustr list \<Rightarrow> (ustr, ustr) dict \<Rightarrow> (ustr, ustr) dict" where
  "overridden_names keys overrides =
     fold (\<lambda>(key, name) names. case today (unique keys) key of
       None \<Rightarrow> names | Some k \<Rightarrow> dict_set k name names) overrides []"

definition absorb_renamed :: "unicode \<Rightarrow> (ustr, ustr) dict \<Rightarrow> ustr \<Rightarrow> (ustr, entity) dict \<Rightarrow> (ustr, entity) dict" where
  "absorb_renamed u names key by_key =
     (case (dict_get names key, dict_get by_key key) of
        (Some _, Some e) \<Rightarrow>
          (let region = (case snd (split_key key) of
                 Some r \<Rightarrow> if r = [] then [] else REGION_SEP @ r | None \<Rightarrow> []);
               target_key = name_key u (en_name e) @ region in
           if target_key = key then by_key
           else (case dict_get by_key target_key of
                   None \<Rightarrow> by_key
                 | Some target \<Rightarrow> dict_del key (dict_set target_key (absorb target e) by_key)))
      | _ \<Rightarrow> by_key)"

definition apply_overrides :: "unicode \<Rightarrow> entity list \<Rightarrow> (ustr, ustr) dict \<Rightarrow> entity list" where
  "apply_overrides u es overrides =
     (let names = overridden_names (map en_key es) overrides;
          renamed = map (\<lambda>e. case dict_get names (en_key e) of
             Some name \<Rightarrow> e\<lparr>en_name := name, en_source := ''manual''\<rparr> | None \<Rightarrow> e) es in
      by_mentions (dict_values
        (fold (absorb_renamed u names) (map en_key renamed) (entities_by_key renamed))))"

section \<open>Removed entities\<close>

definition without_removed :: "entity list \<Rightarrow> ustr list \<Rightarrow> entity list" where
  "without_removed es removed =
     (let known = unique (map en_key es);
          gone = concat (map (\<lambda>key. case today known key of Some k \<Rightarrow> [k] | None \<Rightarrow> []) removed)
      in filter (\<lambda>e. en_key e \<notin> set gone) es)"

section \<open>Unnamed figurants an operator identified\<close>

record identified_figurant =
  fig_key :: ustr
  fig_resolution :: string
  fig_existing_key :: "ustr option"
  fig_name :: "ustr option"
  fig_gender :: "string option"

definition identified_entity :: "ustr \<Rightarrow> ustr \<Rightarrow> string option \<Rightarrow> entity" where
  "identified_entity key name gender = \<lparr>en_key = key, en_name = name, en_mentions = [],
     en_variants = [(name, 1)], en_gender = gender, en_source = ''operator'', en_patronymic = None,
     en_regions = [], en_region_tag = None\<rparr>"

text \<open>One figurant: its person, found or made, and the evidence for the person.\<close>

definition resolve_figurant ::
  "unicode \<Rightarrow> identified_figurant \<Rightarrow> (ustr, entity) dict \<times> (ustr, identified_figurant list) dict
     \<Rightarrow> (ustr, entity) dict \<times> (ustr, identified_figurant list) dict" where
  "resolve_figurant u f state =
     (let (by_key, evidence) = state;
          noted = (\<lambda>key. dict_set key ((case dict_get evidence key of Some fs \<Rightarrow> fs | None \<Rightarrow> []) @ [f]) evidence) in
      if fig_resolution f = ''existing_person'' then
        (case today (dict_keys by_key) (or_empty (fig_existing_key f)) of
           None \<Rightarrow> state
         | Some key \<Rightarrow> (by_key, noted key))
      else
        let name = given_name_first u (strip (or_empty (fig_name f))); key = name_key u name in
        if name = [] then state
        else
          (case dict_get by_key key of
             None \<Rightarrow> (dict_set key (identified_entity key name (fig_gender f)) by_key, noted key)
           | Some e \<Rightarrow>
               ((if en_gender e = None then dict_set key (e\<lparr>en_gender := fig_gender f\<rparr>) by_key else by_key),
                noted key)))"

definition apply_unnamed_resolutions ::
  "unicode \<Rightarrow> entity list \<Rightarrow> identified_figurant list
     \<Rightarrow> entity list \<times> (ustr, identified_figurant list) dict" where
  "apply_unnamed_resolutions u es identified =
     (let (by_key, evidence) = fold (resolve_figurant u) identified (entities_by_key es, []) in
      (by_mentions (dict_values by_key), evidence))"

end
