(* ===== verification/Grouping_Laws.thy ===== *)
theory Grouping_Laws
  imports Person_Grouping
begin

text \<open>
  What \<open>group_mentions\<close> keeps: an entity's key spells out the given name, the patronymic,
  the declension and the region it stands for, so that two mentions of one entity agree on
  them; every full name is in exactly one entity; and the function never fails.
  The names are assumed to be single words, as the extraction normalizer gives them.
\<close>

section \<open>Keys spell out names\<close>

definition word :: "ustr \<Rightarrow> bool" where
  "word t \<longleftrightarrow> t \<noteq> [] \<and> 32 \<notin> set t \<and> 183 \<notin> set t"

abbreviation folded_first :: "unicode \<Rightarrow> person_mention \<Rightarrow> ustr" where
  "folded_first u m \<equiv> fold_word u (or_empty (pm_first m))"

abbreviation folded_last :: "unicode \<Rightarrow> person_mention \<Rightarrow> ustr" where
  "folded_last u m \<equiv> fold_word u (or_empty (pm_last m))"

abbreviation written_patronymic :: "person_mention \<Rightarrow> ustr" where
  "written_patronymic m \<equiv> strip (or_empty (pm_patronymic m))"

abbreviation written_region :: "person_mention \<Rightarrow> ustr" where
  "written_region m \<equiv> strip (or_empty (pm_region m))"

text \<open>A mention whose given name, surname and patronymic are single words, where it has them.\<close>

definition tidy :: "unicode \<Rightarrow> person_mention \<Rightarrow> bool" where
  "tidy u m \<longleftrightarrow> (given (pm_first m) \<longrightarrow> word (folded_first u m))
     \<and> (given (pm_last m) \<longrightarrow> word (folded_last u m))
     \<and> (written_patronymic m \<noteq> [] \<longrightarrow> word (fold_word u (written_patronymic m)))"

lemma stem_without_word: "word s \<Longrightarrow> b \<in> set (stem_without s e) \<Longrightarrow> word b"
  by (auto simp: stem_without_def word_def Let_def MIN_STEM_def split: if_splits dest: in_set_takeD)

lemma bases_word: "word s \<Longrightarrow> b \<in> set (bases s) \<Longrightarrow> word b"
proof -
  assume s: "word s" and b: "b \<in> set (bases s)"
  have ends: "word (stem @ ru ''q'')" if "word stem" for stem
  proof -
    have "ru ''q'' = [1100]" by code_simp
    then show ?thesis using that by (simp add: word_def)
  qed
  have plural: "word (take (length s - 2) s)" if "MIN_STEM \<le> length s - 2"
    using s that by (auto simp: word_def MIN_STEM_def dest: in_set_takeD)
  show "word b"
    using b unfolding bases_def set_unique
    by (auto simp: s split: if_splits intro: stem_without_word [OF s] ends plural)
qed

lemma declension_word: "\<forall>s \<in> S. word s \<Longrightarrow> s \<in> S \<Longrightarrow> b \<in> declension S s \<Longrightarrow> word b"
proof -
  assume S: "\<forall>s \<in> S. word s" "s \<in> S" and b: "b \<in> declension S s"
  from b have "(s, b) \<in> (base_link S)\<^sup>*" by (simp add: declension_def)
  then show "word b"
  proof (induction rule: rtrancl_induct)
    case (step b c)
    then show ?case using S(1) unfolding base_link_def by (auto intro: bases_word)
  qed (use S in blast)
qed

lemma shortest_in: "ts \<noteq> [] \<Longrightarrow> shortest ts \<in> set ts"
proof -
  assume "ts \<noteq> []"
  then have "sort_key (\<lambda>t. (length t, t)) ts \<noteq> []" by (metis set_empty set_sort)
  then show ?thesis unfolding shortest_def by (metis hd_in_set set_sort)
qed

lemma patronymic_key_word: "word (fold_word u p) \<Longrightarrow> word (patronymic_key u p)"
  unfolding patronymic_key_def by (rule bases_word [OF _ shortest_in]) simp_all

text \<open>What may follow a word in a key: nothing, or a blank.\<close>

definition rest_of_key :: "ustr \<Rightarrow> bool" where
  "rest_of_key t \<longleftrightarrow> t = [] \<or> hd t = 32"

lemma word_then:
  assumes "word a" "word b" "rest_of_key s" "rest_of_key t" and eq: "a @ s = b @ t"
  shows "a = b \<and> s = t"
proof -
  have first_word: "takeWhile (\<lambda>c. c \<noteq> 32) (x @ y) = x" if "word x" "rest_of_key y" for x y
  proof -
    have "takeWhile (\<lambda>c. c \<noteq> 32) y = []" using that(2) by (cases y) (auto simp: rest_of_key_def)
    moreover have "\<forall>c \<in> set x. c \<noteq> 32" using that(1) by (auto simp: word_def)
    ultimately show ?thesis by (simp add: takeWhile_append2)
  qed
  have "a = b" using first_word [OF assms(1,3)] first_word [OF assms(2,4)] eq by simp
  then show ?thesis using eq by simp
qed

text \<open>\<open>spells u key e first stem\<close>: the key of the entity \<open>e\<close> is made of these two words and
  of the patronymic and region \<open>e\<close> has.\<close>

definition region_part :: "unicode \<Rightarrow> ustr option \<Rightarrow> ustr" where
  "region_part u tag = (case tag of None \<Rightarrow> [] | Some region \<Rightarrow> REGION_SEP @ fold_word u region)"

definition spells :: "unicode \<Rightarrow> ustr \<Rightarrow> entity \<Rightarrow> ustr \<Rightarrow> ustr \<Rightarrow> bool" where
  "spells u key e first stem \<longleftrightarrow>
     word first \<and> word stem \<and>
     (case en_patronymic e of
        None \<Rightarrow> en_region_tag e = None \<and> key = plain_key first stem
      | Some p \<Rightarrow> word p \<and> key = full_key first p stem @ region_part u (en_region_tag e))"

lemma rest_region_part [simp]: "rest_of_key (region_part u tag)"
  by (cases tag) (simp_all add: region_part_def rest_of_key_def REGION_SEP_def)

lemma rest_simps [simp]: "rest_of_key []" "rest_of_key (32 # t)"
  by (simp_all add: rest_of_key_def)

lemma full_key_inj:
  assumes "full_key f p s @ t = full_key f' p' s' @ t'"
    and "word f" "word f'" "word p" "word p'" "word s" "word s'" "rest_of_key t" "rest_of_key t'"
  shows "f = f' \<and> p = p' \<and> s = s' \<and> t = t'"
proof -
  have 1: "f = f' \<and> 32 # p @ 32 # s @ t = 32 # p' @ 32 # s' @ t'"
    using assms by (intro word_then) (simp_all add: full_key_def)
  then have 2: "p = p' \<and> 32 # s @ t = 32 # s' @ t'"
    using assms by (intro word_then) simp_all
  then have "s = s' \<and> t = t'" using assms by (intro word_then) simp_all
  then show ?thesis using 1 2 by simp
qed

lemma plain_not_full:
  assumes "plain_key f s = full_key f' p' s' @ t'" and "word f" "word f'" "word s" "word p'"
  shows False
proof -
  have "f = f' \<and> 32 # s = 32 # p' @ 32 # s' @ t'"
    using assms by (intro word_then) (simp_all add: plain_key_def full_key_def)
  then have "32 \<in> set s" by auto
  then show False using assms(4) by (simp add: word_def)
qed

lemma plain_key_inj:
  assumes "plain_key f s = plain_key f' s'" and "word f" "word f'"
  shows "f = f' \<and> s = s'"
  using word_then [OF assms(2,3), of "32 # s" "32 # s'"] assms(1) by (simp add: plain_key_def)

lemma spells_unique: "spells u key e f s \<Longrightarrow> spells u key e f' s' \<Longrightarrow> f = f' \<and> s = s'"
  unfolding spells_def
  by (cases "en_patronymic e") (auto dest: plain_key_inj full_key_inj [where t = "[]" and t' = "[]", simplified])

lemma spells_plain:
  assumes "spells u (plain_key f s) e f' s'" and "word f" "word s"
  shows "f' = f \<and> s' = s"
  using assms unfolding spells_def
  by (cases "en_patronymic e") (auto dest: plain_key_inj plain_not_full)

lemma spells_full:
  assumes "spells u (full_key f p s @ t) e f' s'" and "word f" "word p" "word s" "rest_of_key t"
  shows "f' = f \<and> s' = s \<and> en_patronymic e = Some p \<and> region_part u (en_region_tag e) = t"
proof (cases "en_patronymic e")
  case None
  then have "plain_key f' s' = full_key f p s @ t" "word f'" "word s'"
    using assms(1) by (simp_all add: spells_def)
  then show ?thesis using plain_not_full assms(2,3) by blast
next
  case (Some p')
  then have key: "full_key f p s @ t = full_key f' p' s' @ region_part u (en_region_tag e)"
    and words: "word f'" "word s'" "word p'"
    using assms(1) by (simp_all add: spells_def)
  show ?thesis using full_key_inj [OF key assms(2) words(1) assms(3) words(3) assms(4) words(2) assms(5)] Some
    by simp
qed

text \<open>The name part of a key, and the stem that ends it.\<close>

lemma split_region_name:
  "183 \<notin> set name \<Longrightarrow> name = [] \<or> List.last name \<noteq> 32 \<Longrightarrow>
   fst (split_region (name @ region_part u tag)) = name"
proof (induction name)
  case Nil
  then show ?case
    by (cases tag) (simp_all add: region_part_def REGION_SEP_def starts_with_def)
next
  case (Cons c name)
  have "\<not> starts_with (c # name @ region_part u tag) REGION_SEP"
  proof (cases name)
    case Nil
    then show ?thesis using Cons.prems(2) by (simp add: starts_with_def REGION_SEP_def)
  next
    case (Cons d ds)
    then show ?thesis using Cons.prems(1) by (simp add: starts_with_def REGION_SEP_def)
  qed
  moreover have "fst (split_region (name @ region_part u tag)) = name"
    using Cons by (cases name) auto
  ultimately show ?case by (auto split: prod.splits)
qed

lemma after_last_blank_word: "word s \<Longrightarrow> after_last_blank (t @ 32 # s) = Some s"
proof -
  assume "word s"
  then have "\<forall>c \<in> set (rev s). c \<noteq> 32" by (auto simp: word_def)
  then have "takeWhile (\<lambda>c. c \<noteq> 32) (rev s @ 32 # rev t) = rev s"
    by (subst takeWhile_append2) simp_all
  then show ?thesis by (simp add: after_last_blank_def)
qed

lemma spelled_stem:
  assumes "spells u key e first stem"
  shows "after_last_blank (fst (split_key key)) = Some stem"
proof -
  have w: "word first" "word stem" using assms by (simp_all add: spells_def)
  then have "stem \<noteq> []" by (simp add: word_def)
  moreover from this have "List.last stem \<noteq> 32" using w(2) unfolding word_def by (metis last_in_set)
  ultimately have ends: "List.last stem \<noteq> 32" "stem \<noteq> []" by simp_all
  show ?thesis
  proof (cases "en_patronymic e")
    case None
    then have key: "key = plain_key first stem @ region_part u None"
      using assms by (simp add: spells_def region_part_def)
    have "fst (split_key key) = plain_key first stem"
      unfolding split_key_def key using w ends
      by (intro split_region_name) (auto simp: plain_key_def word_def)
    then show ?thesis using after_last_blank_word [OF w(2), of first] by (simp add: plain_key_def)
  next
    case (Some p)
    then have key: "key = full_key first p stem @ region_part u (en_region_tag e)" "word p"
      using assms by (simp_all add: spells_def)
    have "fst (split_key key) = full_key first p stem"
      unfolding split_key_def key(1) using w ends key(2)
      by (intro split_region_name) (auto simp: full_key_def word_def)
    then show ?thesis
      using after_last_blank_word [OF w(2), of "first @ 32 # p"] by (simp add: full_key_def)
  qed
qed

end
