(* ===== verification/Grouping_Invariant.thy ===== *)
theory Grouping_Invariant
  imports Grouping_Laws "HOL-Library.Sublist"
begin

text \<open>
  The invariant of the two loops of \<open>group_mentions\<close> and the final naming of the entities.
\<close>

section \<open>The mentions of the entities\<close>

definition mentions_in :: "(ustr, entity) dict \<Rightarrow> nat list" where
  "mentions_in es = concat (map (\<lambda>(_, e). en_mentions e) es)"

definition mentions_at :: "(ustr, entity) dict \<Rightarrow> ustr \<Rightarrow> nat list" where
  "mentions_at es k = (case dict_get es k of None \<Rightarrow> [] | Some e \<Rightarrow> en_mentions e)"

lemma mentions_in_set:
  "en_mentions e = mentions_at es k @ [i] \<Longrightarrow>
   mset (mentions_in (dict_set k e es)) = add_mset i (mset (mentions_in es))"
  by (induction es) (auto simp: mentions_in_def mentions_at_def dict_get_def split: if_splits)

lemma dict_get_in: "dict_get d k = Some v \<Longrightarrow> (k, v) \<in> set d"
  unfolding dict_get_def by (rule map_of_SomeD)

lemma mentions_in_at: "dict_get es k = Some e \<Longrightarrow> i \<in> set (en_mentions e) \<Longrightarrow> i \<in> set (mentions_in es)"
  using dict_get_in [of es k e] by (force simp: mentions_in_def)

lemma dict_set_nonempty [simp]: "dict_set k v d \<noteq> []"
  by (induction d) (auto split: if_splits)

section \<open>The invariant\<close>

text \<open>\<open>stem_of\<close>: the declension of a mention's surname.\<close>

definition fits :: "unicode \<Rightarrow> (person_mention \<Rightarrow> ustr) \<Rightarrow> person_mention \<Rightarrow> ustr \<Rightarrow> entity \<Rightarrow> bool" where
  "fits u stem_of m k e \<longleftrightarrow>
     spells u k e (folded_first u m) (stem_of m)
     \<and> (written_patronymic m \<noteq> [] \<longrightarrow>
          en_patronymic e = Some (patronymic_key u (written_patronymic m)))
     \<and> (written_patronymic m \<noteq> [] \<and> given (pm_region m) \<longrightarrow>
          region_part u (en_region_tag e) = REGION_SEP @ fold_word u (written_region m))"

definition sound_entity ::
  "unicode \<Rightarrow> (person_mention \<Rightarrow> ustr) \<Rightarrow> person_mention list \<Rightarrow> grouping \<Rightarrow> ustr \<Rightarrow> entity \<Rightarrow> bool" where
  "sound_entity u stem_of full g k e \<longleftrightarrow>
     en_key e = k \<and> (\<exists>f s. spells u k e f s) \<and> gr_firsts g k \<noteq> [] \<and> gr_surnames g k \<noteq> []
     \<and> (\<forall>m \<in> set full. pm_id m \<in> set (en_mentions e) \<longrightarrow> fits u stem_of m k e)"

definition sound_indexes :: "unicode \<Rightarrow> grouping \<Rightarrow> bool" where
  "sound_indexes u g \<longleftrightarrow>
     (\<forall>n k. k \<in> set (gr_regional g n) \<longrightarrow>
        dict_get (gr_entities g) k \<noteq> None \<and> (\<exists>x. k = n @ REGION_SEP @ x))
     \<and> (\<forall>a f s k. k \<in> set (gr_with_patronymic g (a, f, s)) \<longrightarrow>
          (\<exists>e. dict_get (gr_entities g) k = Some e \<and> spells u k e f s))
     \<and> (\<forall>p k. k \<in> set (gr_in_article g p) \<longrightarrow> dict_get (gr_entities g) k \<noteq> None)"

definition sound_groups ::
  "unicode \<Rightarrow> (person_mention \<Rightarrow> ustr) \<Rightarrow> person_mention list \<Rightarrow> grouping \<Rightarrow> bool" where
  "sound_groups u stem_of full g \<longleftrightarrow>
     distinct (dict_keys (gr_entities g))
     \<and> (\<forall>k e. dict_get (gr_entities g) k = Some e \<longrightarrow> sound_entity u stem_of full g k e)
     \<and> sound_indexes u g"

lemma sound_groups_empty: "sound_groups u stem_of [] no_groups"
  by (simp add: sound_groups_def sound_indexes_def no_groups_def dict_keys_def dict_get_def)

lemma sound_entityD:
  "sound_groups u stem_of full g \<Longrightarrow> dict_get (gr_entities g) k = Some e \<Longrightarrow> sound_entity u stem_of full g k e"
  by (simp add: sound_groups_def)

text \<open>What adding a mention does to the entities.\<close>

definition base_entity :: "grouping \<Rightarrow> ustr \<Rightarrow> ustr option \<Rightarrow> ustr option \<Rightarrow> entity" where
  "base_entity g key p region = (case dict_get (gr_entities g) key of
     Some e \<Rightarrow> e | None \<Rightarrow> new_entity key p region)"

lemma add_mention_entities:
  obtains e where "gr_entities (add_mention key m p region g) = dict_set key e (gr_entities g)"
    and "en_key e = en_key (base_entity g key p region)"
    and "en_patronymic e = en_patronymic (base_entity g key p region)"
    and "en_region_tag e = en_region_tag (base_entity g key p region)"
    and "en_mentions e = mentions_at (gr_entities g) key @ [pm_id m]"
  by (rule that [of "the (dict_get (gr_entities (add_mention key m p region g)) key)"])
    (simp_all add: add_mention_def base_entity_def mentions_at_def new_entity_def Let_def dict_get_set
      split: option.splits)

lemma add_mention_rest [simp]:
  "gr_surnames (add_mention key m p region g) = gr_surnames g"
  "gr_firsts (add_mention key m p region g) = gr_firsts g"
  "gr_patronymics (add_mention key m p region g) = gr_patronymics g"
  "gr_in_article (add_mention key m p region g) = gr_in_article g"
  "gr_with_patronymic (add_mention key m p region g) = gr_with_patronymic g"
  "gr_regional (add_mention key m p region g) = gr_regional g"
  by (simp_all add: add_mention_def Let_def)

lemma note_forms_rest [simp]:
  "gr_entities (note_forms key forms m g) = gr_entities g"
  "gr_with_patronymic (note_forms key forms m g) = gr_with_patronymic g"
  "gr_regional (note_forms key forms m g) = gr_regional g"
  by (simp_all add: note_forms_def)

lemma spells_cong:
  "en_patronymic e = en_patronymic e' \<Longrightarrow> en_region_tag e = en_region_tag e' \<Longrightarrow>
   spells u k e f s = spells u k e' f s"
  by (simp add: spells_def split: option.splits)

lemma fits_cong:
  "en_patronymic e = en_patronymic e' \<Longrightarrow> en_region_tag e = en_region_tag e' \<Longrightarrow>
   fits u stem_of m k e = fits u stem_of m k e'"
  using spells_cong [of e e'] by (simp add: fits_def)

lemma set_set_add [simp]: "set (set_add x xs) = insert x (set xs)"
  by (auto simp: set_add_def)

section \<open>The key of a full name fits it\<close>

text \<open>What the choice of a key changes in the indexes.\<close>

definition indexes_for :: "unicode \<Rightarrow> ustr \<Rightarrow> ustr \<Rightarrow> person_mention \<Rightarrow> ustr \<Rightarrow> grouping \<Rightarrow> grouping \<Rightarrow> bool" where
  "indexes_for u first stem m key g g' \<longleftrightarrow>
     gr_entities g' = gr_entities g \<and> gr_surnames g' = gr_surnames g \<and> gr_firsts g' = gr_firsts g
     \<and> gr_in_article g' = gr_in_article g
     \<and> (\<forall>n k. k \<in> set (gr_regional g' n) \<longrightarrow>
          k \<in> set (gr_regional g n) \<or> (k = key \<and> (\<exists>x. k = n @ REGION_SEP @ x)))
     \<and> (\<forall>p k. k \<in> set (gr_with_patronymic g' p) \<longrightarrow>
          k \<in> set (gr_with_patronymic g p) \<or> (k = key \<and> p = (pm_article m, first, stem)))"

lemma dropWhile_prefix: "dropWhile P (x @ z) = x @ z \<Longrightarrow> dropWhile P x = x"
proof (cases x)
  case (Cons a xs)
  assume whole: "dropWhile P (x @ z) = x @ z"
  have "\<not> P a"
  proof
    assume "P a"
    then have "length (x @ z) \<le> length (xs @ z)"
      using length_dropWhile_le [of P "xs @ z"] whole by (simp add: Cons)
    then show False by (simp add: Cons)
  qed
  then show ?thesis by (simp add: Cons)
qed simp

lemma strip_strip [simp]: "strip (strip t) = strip t"
proof -
  define d where "d = dropWhile is_space t"
  define r where "r = dropWhile is_space (rev d)"
  have "rev d = takeWhile is_space (rev d) @ r" by (simp add: r_def)
  then have d: "d = rev r @ rev (takeWhile is_space (rev d))" by (metis rev_append rev_rev_ident)
  have "dropWhile is_space d = d" by (simp add: d_def dropWhile_idem)
  then have "dropWhile is_space (rev r) = rev r" using d by (metis dropWhile_prefix)
  moreover have "dropWhile is_space r = r" by (simp add: r_def dropWhile_idem)
  ultimately show ?thesis by (simp add: strip_def flip: d_def r_def)
qed

lemma fold_word_strip [simp]: "fold_word u (strip t) = fold_word u t"
  by (simp add: fold_word_def)

lemma new_entity_fields [simp]:
  "en_patronymic (new_entity k p r) = p" "en_region_tag (new_entity k p r) = r" "en_key (new_entity k p r) = k"
  by (simp_all add: new_entity_def)

lemma REGION_SEP_rest [simp]: "rest_of_key (REGION_SEP @ t)"
  by (simp add: REGION_SEP_def)

lemma key_with_patronymic_fits:
  assumes sound: "sound_groups u stem_of full g" and tidy: "tidy u m" "word (folded_first u m)"
    and stem: "word (stem_of m)" and p: "written_patronymic m \<noteq> []"
    and choice: "key_with_patronymic u (folded_first u m) (stem_of m) m g = (key, patronymic, region, g')"
  shows "fits u stem_of m key (base_entity g key patronymic region)"
    and "indexes_for u (folded_first u m) (stem_of m) m key g g'"
proof -
  let ?f = "folded_first u m" and ?s = "stem_of m"
  let ?p = "patronymic_key u (written_patronymic m)"
  let ?name = "full_key ?f ?p ?s"
  have wp: "word ?p" using tidy(1) p by (intro patronymic_key_word) (simp add: tidy_def)
  have found: "fits u stem_of m (?name @ t) e"
    if e: "dict_get (gr_entities g) (?name @ t) = Some e" and t: "rest_of_key t"
      and region: "given (pm_region m) \<Longrightarrow> t = REGION_SEP @ fold_word u (written_region m)" for t e
  proof -
    obtain f s where spelled: "spells u (?name @ t) e f s"
      using sound_entityD [OF sound e] by (auto simp: sound_entity_def)
    from spells_full [OF this tidy(2) wp stem t] spelled show ?thesis
      using region by (auto simp: fits_def)
  qed
  show "fits u stem_of m key (base_entity g key patronymic region)"
  proof (cases "given (pm_region m)")
    case True
    let ?t = "REGION_SEP @ fold_word u (written_region m)"
    have key: "key = ?name @ ?t" and patronymic: "patronymic = Some ?p"
      and region: "dict_get (gr_entities g) key = None \<Longrightarrow> region = Some (written_region m)"
      using choice True by (auto simp: key_with_patronymic_def Let_def split: option.splits)
    show ?thesis
    proof (cases "dict_get (gr_entities g) key")
      case None
      then show ?thesis
        using key patronymic region tidy(2) wp stem
        by (simp add: base_entity_def fits_def spells_def region_part_def)
    next
      case (Some e)
      then show ?thesis using found [of ?t e] key by (simp add: base_entity_def)
    qed
  next
    case False
    let ?cards = "gr_regional g ?name"
    have key: "key = (if length ?cards = 1 then hd ?cards else ?name)" and patronymic: "patronymic = Some ?p"
      and region: "dict_get (gr_entities g) key = None \<Longrightarrow> region = None"
      using choice False by (auto simp: key_with_patronymic_def Let_def split: option.splits if_splits)
    have card: "dict_get (gr_entities g) key \<noteq> None \<and> (\<exists>x. key = ?name @ REGION_SEP @ x)"
      if "length ?cards = 1"
    proof -
      have "key \<in> set ?cards" using key that by (cases ?cards) auto
      then show ?thesis using sound by (simp add: sound_groups_def sound_indexes_def)
    qed
    show ?thesis
    proof (cases "dict_get (gr_entities g) key")
      case None
      then have "key = ?name" using card key by auto
      then show ?thesis
        using None patronymic region False tidy(2) wp stem
        by (simp add: base_entity_def fits_def spells_def region_part_def)
    next
      case (Some e)
      obtain t where "key = ?name @ t" "rest_of_key t"
        using card key by (cases "length ?cards = 1") (auto intro: that [of "[]"])
      then show ?thesis using found [of t e] Some False by (simp add: base_entity_def)
    qed
  qed
  show "indexes_for u ?f ?s m key g g'"
    using choice
    by (auto simp: key_with_patronymic_def Let_def indexes_for_def split: if_splits)
qed

lemma key_without_patronymic_fits:
  assumes sound: "sound_groups u stem_of full g" and first: "word (folded_first u m)"
    and stem: "word (stem_of m)" and p: "written_patronymic m = []"
    and choice: "key_without_patronymic (folded_first u m) (stem_of m) m g = (key, patronymic, region, g')"
  shows "fits u stem_of m key (base_entity g key patronymic region)"
    and "indexes_for u (folded_first u m) (stem_of m) m key g g'"
proof -
  let ?f = "folded_first u m" and ?s = "stem_of m"
  let ?named = "gr_with_patronymic g (pm_article m, ?f, ?s)"
  have g': "g' = g" and key: "key = (if length ?named = 1 then hd ?named else plain_key ?f ?s)"
    and new: "dict_get (gr_entities g) key = None \<Longrightarrow> patronymic = None \<and> region = None"
    using choice by (auto simp: key_without_patronymic_def Let_def split: option.splits)
  have named: "\<exists>e. dict_get (gr_entities g) key = Some e \<and> spells u key e ?f ?s" if "length ?named = 1"
  proof -
    have "key \<in> set ?named" using key that by (cases ?named) auto
    then show ?thesis using sound by (simp add: sound_groups_def sound_indexes_def)
  qed
  show "fits u stem_of m key (base_entity g key patronymic region)"
  proof (cases "dict_get (gr_entities g) key")
    case None
    then have "key = plain_key ?f ?s" using key named by auto
    then show ?thesis using None new first stem p by (simp add: base_entity_def fits_def spells_def)
  next
    case (Some e)
    have "spells u key e ?f ?s"
    proof (cases "length ?named = 1")
      case True
      then show ?thesis using named Some by auto
    next
      case False
      then have key: "key = plain_key ?f ?s" using key by simp
      obtain f s where spelled: "spells u key e f s"
        using sound_entityD [OF sound Some] by (auto simp: sound_entity_def)
      then have "f = ?f \<and> s = ?s" using spells_plain first stem unfolding key by blast
      then show ?thesis using spelled by simp
    qed
    then show ?thesis using Some p by (simp add: base_entity_def fits_def)
  qed
  show "indexes_for u ?f ?s m key g g'" unfolding g' by (simp add: indexes_for_def)
qed

lemma key_of_full_fits:
  assumes "sound_groups u stem_of full g" "tidy u m" "word (folded_first u m)" "word (stem_of m)"
    and "key_of_full u (folded_first u m) (stem_of m) m g = (key, patronymic, region, g')"
  shows "fits u stem_of m key (base_entity g key patronymic region)"
    and "indexes_for u (folded_first u m) (stem_of m) m key g g'"
  using key_with_patronymic_fits [OF assms(1-4)] key_without_patronymic_fits [OF assms(1,3,4)] assms(5)
  unfolding key_of_full_def by (metis (no_types, lifting))+

section \<open>The loop over the full names\<close>

text \<open>\<open>stems\<close>: what the dictionary of declensions holds for a mention.\<close>

definition stem_known ::
  "unicode \<Rightarrow> (ustr, (ustr, ustr) dict) dict \<Rightarrow> (person_mention \<Rightarrow> ustr) \<Rightarrow> person_mention \<Rightarrow> bool" where
  "stem_known u roots stem_of m \<longleftrightarrow>
     (\<exists>d. dict_get roots (folded_first u m) = Some d
        \<and> dict_get d (folded_last u m) = Some (stem_of m)) \<and> word (stem_of m)"

lemma sound_add_full:
  assumes sound: "sound_groups u stem_of full g"
    and fits: "fits u stem_of m key (base_entity g key patronymic region)"
    and indexes: "indexes_for u (folded_first u m) (stem_of m) m key g g1"
    and old: "set (mentions_in (gr_entities g)) \<subseteq> pm_id ` set full" and new: "pm_id m \<notin> pm_id ` set full"
    and g'_def: "g' = note_forms key forms m (add_mention key m patronymic region g1)"
  shows "sound_groups u stem_of (full @ [m]) g'"
    and "mset (mentions_in (gr_entities g')) = add_mset (pm_id m) (mset (mentions_in (gr_entities g)))"
proof -
  let ?es = "gr_entities g" and ?base = "base_entity g key patronymic region"
  have same: "gr_entities g1 = ?es" "gr_surnames g1 = gr_surnames g" "gr_firsts g1 = gr_firsts g"
    "gr_in_article g1 = gr_in_article g"
    using indexes by (simp_all add: indexes_for_def)
  have base: "base_entity g1 key patronymic region = ?base" by (simp add: base_entity_def same(1))
  obtain e where e: "gr_entities g' = dict_set key e ?es" "en_key e = en_key ?base"
    "en_patronymic e = en_patronymic ?base" "en_region_tag e = en_region_tag ?base"
    "en_mentions e = mentions_at ?es key @ [pm_id m]"
    by (rule add_mention_entities [of key m patronymic region g1])
      (simp_all add: g'_def same(1) base)
  show "mset (mentions_in (gr_entities g')) = add_mset (pm_id m) (mset (mentions_in ?es))"
    unfolding e(1) by (rule mentions_in_set [OF e(5)])
  have key: "en_key e = key" and all_fit: "i \<in> set full \<Longrightarrow> pm_id i \<in> set (mentions_at ?es key) \<Longrightarrow> fits u stem_of i key e" for i
  proof -
    show "en_key e = key"
      using e(2) sound_entityD [OF sound, of key]
      by (auto simp: base_entity_def sound_entity_def split: option.splits)
    assume i: "i \<in> set full" "pm_id i \<in> set (mentions_at ?es key)"
    then obtain b where b: "dict_get ?es key = Some b" "pm_id i \<in> set (en_mentions b)"
      by (cases "dict_get ?es key") (simp_all add: mentions_at_def)
    then have "fits u stem_of i key b" using sound_entityD [OF sound b(1)] i(1) by (simp add: sound_entity_def)
    moreover have "fits u stem_of i key e = fits u stem_of i key b"
      using b(1) e(3,4) by (intro fits_cong) (simp_all add: base_entity_def)
    ultimately show "fits u stem_of i key e" by simp
  qed
  have fits_e: "fits u stem_of m key e" using fits fits_cong [OF e(3,4)] by blast
  have get: "dict_get (gr_entities g') k = (if k = key then Some e else dict_get ?es k)" for k
    unfolding e(1) by (rule dict_get_set)
  have forms: "gr_firsts g' k = (if k = key then gr_firsts g' key else gr_firsts g k)"
    "gr_surnames g' k = (if k = key then gr_surnames g' key else gr_surnames g k)"
    "gr_firsts g' key \<noteq> []" "gr_surnames g' key \<noteq> []" for k
    by (auto simp: g'_def note_forms_def count_up_def same)
  have entity: "sound_entity u stem_of (full @ [m]) g' k b" if b: "dict_get (gr_entities g') k = Some b" for k b
  proof (cases "k = key")
    case True
    then have "b = e" using b get by simp
    have "fits u stem_of i key e" if i: "i \<in> set (full @ [m])" "pm_id i \<in> set (en_mentions e)" for i
    proof (cases "i \<in> set full")
      case True
      then have "pm_id i \<noteq> pm_id m" using new by (metis image_eqI)
      then show ?thesis using all_fit True i(2) e(5) by simp
    next
      case False
      then show ?thesis using fits_e i(1) by simp
    qed
    then show ?thesis
      using True \<open>b = e\<close> key forms(3,4) fits_e by (auto simp: sound_entity_def fits_def)
  next
    case False
    then have b: "dict_get ?es k = Some b" using b get by simp
    have "pm_id m \<notin> set (en_mentions b)" using mentions_in_at [OF b] old new by blast
    then show ?thesis
      using sound_entityD [OF sound b] False forms(1,2) [of k] by (simp add: sound_entity_def)
  qed
  have "sound_indexes u g'"
    unfolding sound_indexes_def
  proof (intro conjI allI impI)
    fix n k assume "k \<in> set (gr_regional g' n)"
    then have "k \<in> set (gr_regional g n) \<or> k = key \<and> (\<exists>x. k = n @ REGION_SEP @ x)"
      using indexes by (simp add: g'_def indexes_for_def)
    then show "dict_get (gr_entities g') k \<noteq> None" "\<exists>x. k = n @ REGION_SEP @ x"
      using sound by (auto simp: get sound_groups_def sound_indexes_def)
  next
    fix a f s k assume "k \<in> set (gr_with_patronymic g' (a, f, s))"
    then have "k \<in> set (gr_with_patronymic g1 (a, f, s))" by (simp add: g'_def)
    then have "k \<in> set (gr_with_patronymic g (a, f, s)) \<or> k = key \<and> f = folded_first u m \<and> s = stem_of m"
      using indexes unfolding indexes_for_def by blast
    then show "\<exists>b. dict_get (gr_entities g') k = Some b \<and> spells u k b f s"
    proof
      assume "k \<in> set (gr_with_patronymic g (a, f, s))"
      then obtain b where b: "dict_get ?es k = Some b" "spells u k b f s"
        using sound unfolding sound_groups_def sound_indexes_def by blast
      show ?thesis
      proof (cases "k = key")
        case True
        then have "spells u k e f s = spells u k b f s"
          using b(1) e(3,4) by (intro spells_cong) (simp_all add: base_entity_def)
        then show ?thesis using b(2) True get by simp
      next
        case False
        then show ?thesis using b get by simp
      qed
    next
      assume "k = key \<and> f = folded_first u m \<and> s = stem_of m"
      then show ?thesis using fits_e get by (simp add: fits_def)
    qed
  next
    fix p k assume "k \<in> set (gr_in_article g' p)"
    then have "k = key \<or> k \<in> set (gr_in_article g p)"
      by (auto simp: g'_def note_forms_def same split: if_splits prod.splits)
    moreover have "k \<in> set (gr_in_article g p) \<Longrightarrow> dict_get ?es k \<noteq> None"
      using sound unfolding sound_groups_def sound_indexes_def by blast
    ultimately show "dict_get (gr_entities g') k \<noteq> None" by (auto simp: get)
  qed
  then show "sound_groups u stem_of (full @ [m]) g'"
    using entity sound e(1) by (simp add: sound_groups_def distinct_dict_set)
qed

lemma group_full_sound:
  assumes sound: "sound_groups u stem_of full g" and ids: "mset (mentions_in (gr_entities g)) = mset (map pm_id full)"
    and m: "tidy u m" "word (folded_first u m)" "stem_known u roots stem_of m" "pm_id m \<notin> pm_id ` set full"
  obtains g' where "group_full u roots m g = Some g'" and "sound_groups u stem_of (full @ [m]) g'"
    and "mset (mentions_in (gr_entities g')) = mset (map pm_id (full @ [m]))"
proof -
  obtain d where d: "dict_get roots (folded_first u m) = Some d" "dict_get d (folded_last u m) = Some (stem_of m)"
    and stem: "word (stem_of m)" using m(3) by (auto simp: stem_known_def)
  obtain key p region g1 where choice: "key_of_full u (folded_first u m) (stem_of m) m g = (key, p, region, g1)"
    by (metis prod_cases4)
  note fit = key_of_full_fits [OF sound m(1,2) stem choice]
  let ?g = "note_forms key (bases (folded_last u m) @ [stem_of m]) m (add_mention key m p region g1)"
  have "set (mentions_in (gr_entities g)) \<subseteq> pm_id ` set full"
    using mset_eq_setD [OF ids] by simp
  note added = sound_add_full [OF sound fit this m(4) refl, of "bases (folded_last u m) @ [stem_of m]"]
  have "group_full u roots m g = Some ?g"
    by (simp add: group_full_def d choice Let_def)
  then show thesis using that [of ?g] added ids by simp
qed

lemma group_fulls_sound:
  "sound_groups u stem_of full g \<Longrightarrow> mset (mentions_in (gr_entities g)) = mset (map pm_id full) \<Longrightarrow>
   distinct (map pm_id (full @ ms)) \<Longrightarrow>
   \<forall>m \<in> set ms. tidy u m \<and> word (folded_first u m) \<and> stem_known u roots stem_of m \<Longrightarrow>
   \<exists>g'. group_fulls u roots ms g = Some g' \<and> sound_groups u stem_of (full @ ms) g'
     \<and> mset (mentions_in (gr_entities g')) = mset (map pm_id (full @ ms))"
proof (induction ms arbitrary: full g)
  case (Cons m ms)
  have "tidy u m" "word (folded_first u m)" "stem_known u roots stem_of m" "pm_id m \<notin> pm_id ` set full"
    using Cons.prems(3,4) by auto
  from group_full_sound [OF Cons.prems(1,2) this] obtain g1 where g1:
    "group_full u roots m g = Some g1" "sound_groups u stem_of (full @ [m]) g1"
    "mset (mentions_in (gr_entities g1)) = mset (map pm_id (full @ [m]))" .
  have "distinct (map pm_id ((full @ [m]) @ ms))"
    "\<forall>m \<in> set ms. tidy u m \<and> word (folded_first u m) \<and> stem_known u roots stem_of m"
    using Cons.prems(3,4) by simp_all
  from Cons.IH [OF g1(2,3) this] g1(1) show ?case by simp
qed simp

section \<open>The loop over bare surnames\<close>

lemma bare_candidates_known:
  assumes "sound_groups u stem_of full g" and "key \<in> set (bare_candidates u m g)"
  obtains e where "dict_get (gr_entities g) key = Some e"
proof -
  obtain p where "key \<in> set (gr_in_article g p)"
    using assms(2) unfolding bare_candidates_def Let_def by (auto split: if_splits)
  then have "dict_get (gr_entities g) key \<noteq> None"
    using assms(1) unfolding sound_groups_def sound_indexes_def by blast
  then show thesis using that by blast
qed

text \<open>A mention that is none of the full names leaves them where they are.\<close>

lemma sound_add_bare:
  assumes sound: "sound_groups u stem_of full g" and known: "dict_get (gr_entities g) key = Some b"
    and new: "pm_id m \<notin> pm_id ` set full"
    and g'_def: "g' = (add_mention key m p region g)\<lparr>gr_surnames := (gr_surnames g)(key := forms)\<rparr>"
    and forms: "forms \<noteq> []"
  shows "sound_groups u stem_of full g'"
    and "mset (mentions_in (gr_entities g')) = add_mset (pm_id m) (mset (mentions_in (gr_entities g)))"
proof -
  let ?es = "gr_entities g"
  obtain e where e: "gr_entities g' = dict_set key e ?es" "en_key e = en_key b"
    "en_patronymic e = en_patronymic b" "en_region_tag e = en_region_tag b"
    "en_mentions e = mentions_at ?es key @ [pm_id m]"
    by (rule add_mention_entities [of key m p region g])
      (simp_all add: g'_def base_entity_def known)
  show "mset (mentions_in (gr_entities g')) = add_mset (pm_id m) (mset (mentions_in ?es))"
    unfolding e(1) by (rule mentions_in_set [OF e(5)])
  have get: "dict_get (gr_entities g') k = (if k = key then Some e else dict_get ?es k)" for k
    unfolding e(1) by (rule dict_get_set)
  have same: "gr_regional g' = gr_regional g" "gr_with_patronymic g' = gr_with_patronymic g"
    "gr_in_article g' = gr_in_article g" "gr_firsts g' = gr_firsts g"
    by (simp_all add: g'_def)
  have "sound_entity u stem_of full g' k c" if c: "dict_get (gr_entities g') k = Some c" for k c
  proof (cases "k = key")
    case True
    have b: "sound_entity u stem_of full g key b" by (rule sound_entityD [OF sound known])
    have "c = e" using c get True by simp
    have "pm_id i \<in> set (en_mentions b)" if "i \<in> set full" "pm_id i \<in> set (en_mentions e)" for i
    proof -
      have "pm_id i \<noteq> pm_id m" using that(1) new by (metis image_eqI)
      then show ?thesis using that(2) e(5) known by (simp add: mentions_at_def)
    qed
    then show ?thesis
      using b True \<open>c = e\<close> e(2) forms fits_cong [OF e(3,4)] spells_cong [OF e(3,4)]
      by (simp add: sound_entity_def g'_def)
  next
    case False
    then show ?thesis
      using sound_entityD [OF sound, of k c] c get by (simp add: sound_entity_def g'_def)
  qed
  moreover have "sound_indexes u g'"
  proof -
    have old: "sound_indexes u g" using sound by (simp add: sound_groups_def)
    have "\<exists>c. dict_get (gr_entities g') k = Some c \<and> spells u k c f s"
      if "k \<in> set (gr_with_patronymic g (a, f, s))" for k a f s
    proof -
      obtain c where c: "dict_get ?es k = Some c" "spells u k c f s"
        using old \<open>k \<in> _\<close> unfolding sound_indexes_def by blast
      then show ?thesis using get known spells_cong [OF e(3,4)] by (cases "k = key") auto
    qed
    moreover have "dict_get ?es k \<noteq> None \<Longrightarrow> dict_get (gr_entities g') k \<noteq> None" for k
      by (simp add: get)
    ultimately show ?thesis
      using old unfolding sound_indexes_def same by blast
  qed
  ultimately show "sound_groups u stem_of full g'"
    using sound e(1) by (simp add: sound_groups_def distinct_dict_set)
qed

lemma group_bare_sound:
  assumes sound: "sound_groups u stem_of full g" and new: "pm_id m \<notin> pm_id ` set full"
  obtains g' where "group_bare u m g = Some g'" and "sound_groups u stem_of full g'"
    and "mset (mentions_in (gr_entities g')) = mset (mentions_in (gr_entities g))
      \<or> mset (mentions_in (gr_entities g')) = add_mset (pm_id m) (mset (mentions_in (gr_entities g)))"
proof (cases "\<exists>key. bare_candidates u m g = [key]")
  case True
  then obtain key where key: "bare_candidates u m g = [key]" ..
  then obtain b where b: "dict_get (gr_entities g) key = Some b"
    using bare_candidates_known [OF sound, of key m] by auto
  have nonempty: "count_up k n c \<noteq> []" for k n c by (simp add: count_up_def)
  show thesis
    by (rule that [OF _ sound_add_bare(1) [OF sound b new refl nonempty]
          disjI2 [OF sound_add_bare(2) [OF sound b new refl nonempty]]])
      (simp add: group_bare_def key b Let_def)
next
  case False
  then have "group_bare u m g = Some g" by (auto simp: group_bare_def split: list.splits)
  then show thesis using that sound by blast
qed

lemma group_bares_sound:
  "sound_groups u stem_of full g \<Longrightarrow>
   \<exists>g' placed. group_bares u (map pm_id full) ms g = Some g' \<and> sound_groups u stem_of full g'
     \<and> mset (mentions_in (gr_entities g')) = mset (mentions_in (gr_entities g)) + mset (map pm_id placed)
     \<and> subseq placed ms \<and> pm_id ` set placed \<inter> pm_id ` set full = {}"
proof (induction ms arbitrary: g)
  case Nil
  then show ?case by (intro exI [of _ g] exI [of _ "[]"]) simp
next
  case (Cons m ms)
  show ?case
  proof (cases "pm_id m \<in> set (map pm_id full) \<or> \<not> given (pm_last m)")
    case True
    then have step: "group_bares u (map pm_id full) (m # ms) g = group_bares u (map pm_id full) ms g" by simp
    from Cons.IH [OF Cons.prems] show ?thesis unfolding step by (blast intro: list_emb_Cons)
  next
    case False
    then have new: "pm_id m \<notin> pm_id ` set full" by simp
    from group_bare_sound [OF Cons.prems new] obtain g1 where g1:
      "group_bare u m g = Some g1" "sound_groups u stem_of full g1"
      "mset (mentions_in (gr_entities g1)) = mset (mentions_in (gr_entities g))
       \<or> mset (mentions_in (gr_entities g1)) = add_mset (pm_id m) (mset (mentions_in (gr_entities g)))" .
    from Cons.IH [OF g1(2)] obtain g2 placed where g2:
      "group_bares u (map pm_id full) ms g1 = Some g2" "sound_groups u stem_of full g2"
      "mset (mentions_in (gr_entities g2)) = mset (mentions_in (gr_entities g1)) + mset (map pm_id placed)"
      "subseq placed ms" "pm_id ` set placed \<inter> pm_id ` set full = {}" by (elim exE conjE) (rule that)
    have step: "group_bares u (map pm_id full) (m # ms) g = Some g2" using False g1(1) g2(1) by simp
    from g1(3) show ?thesis
    proof
      assume "mset (mentions_in (gr_entities g1)) = mset (mentions_in (gr_entities g))"
      then show ?thesis
        using step g2 by (intro exI [of _ g2] exI [of _ placed]) (simp add: list_emb_Cons)
    next
      assume "mset (mentions_in (gr_entities g1)) = add_mset (pm_id m) (mset (mentions_in (gr_entities g)))"
      then show ?thesis
        using step g2 new by (intro exI [of _ g2] exI [of _ "m # placed"]) simp
    qed
  qed
qed

section \<open>Naming the entities\<close>

lemma most_common_nonempty: "c \<noteq> [] \<Longrightarrow> most_common c \<noteq> []"
  unfolding most_common_def by (metis set_empty set_sort)

lemma sort_key_nonempty: "xs \<noteq> [] \<Longrightarrow> sort_key f xs \<noteq> []"
  by (metis set_empty set_sort)

lemma nominative_surname_defined:
  assumes "spells u key e first stem" and "forms \<noteq> []"
  shows "nominative_surname u name key forms \<noteq> None"
proof -
  have "stem \<noteq> []" using assms(1) by (simp add: spells_def word_def)
  moreover obtain form n others where "sort_key (\<lambda>(form, n). (length form, - int n, form)) forms = (form, n) # others"
  proof (cases "sort_key (\<lambda>(form, n). (length form, - int n, form)) forms")
    case Nil
    then show thesis using sort_key_nonempty [OF assms(2)] by blast
  next
    case (Cons x xs)
    then show thesis using that by (cases x) simp
  qed
  ultimately show ?thesis
    unfolding nominative_surname_def spelled_stem [OF assms(1)] by (simp split: list.split)
qed

text \<open>Only the name of an entity changes.\<close>

lemma name_entity_named:
  assumes "sound_entity u stem_of full g k e"
  obtains name where "name_entity u g k e = Some (e\<lparr>en_name := name\<rparr>)"
proof -
  obtain first n others where first: "most_common (gr_firsts g k) = (first, n) # others"
    using most_common_nonempty [of "gr_firsts g k"] assms
    by (cases "most_common (gr_firsts g k)") (auto simp: sound_entity_def)
  obtain f s where "spells u k e f s" using assms by (auto simp: sound_entity_def)
  moreover have "gr_surnames g k \<noteq> []" using assms by (simp add: sound_entity_def)
  ultimately obtain surname where "nominative_surname u first k (gr_surnames g k) = Some surname"
    using nominative_surname_defined [of u k e f s "gr_surnames g k" first] by blast
  then show thesis using that first by (simp add: name_entity_def Let_def)
qed

lemma name_entities_named:
  "\<forall>(k, e) \<in> set es. sound_entity u stem_of full g k e \<Longrightarrow>
   \<exists>named. name_entities u g es = Some named
     \<and> list_all2 (\<lambda>(k, e) e'. \<exists>name. e' = e\<lparr>en_name := name\<rparr>) es named"
proof (induction es)
  case (Cons entry es)
  obtain k e where entry: "entry = (k, e)" by fastforce
  with Cons.prems have "sound_entity u stem_of full g k e" by auto
  then obtain name where name: "name_entity u g k e = Some (e\<lparr>en_name := name\<rparr>)"
    by (rule name_entity_named)
  from Cons show ?case by (auto simp: entry name)
qed simp

end
