(* ===== verification/Identity_Laws.thy ===== *)
theory Identity_Laws
  imports Identity_Decisions Grouping_Invariant
begin

text \<open>
  What every step of a rebuild owes the list of entities: keys stay distinct and no mention
  appears that was not there, or twice. The contract is the locale \<open>regrouping\<close>; every step
  of the rebuild is an instance, and instances compose.
\<close>

section \<open>Dictionaries of entities\<close>

definition mention_ids_of :: "entity list \<Rightarrow> nat list" where
  "mention_ids_of es = concat (map en_mentions es)"

definition keyed :: "(ustr, entity) dict \<Rightarrow> bool" where
  "keyed d \<longleftrightarrow> distinct (dict_keys d) \<and> (\<forall>(k, e) \<in> set d. en_key e = k)"

lemma keyed_empty [simp]: "keyed []"
  by (simp add: keyed_def dict_keys_def)

lemma keyed_set: "keyed d \<Longrightarrow> en_key e = k \<Longrightarrow> keyed (dict_set k e d)"
  using set_dict_set [of k e d] unfolding keyed_def by (auto intro: distinct_dict_set)

lemma dict_keys_del: "dict_keys (dict_del k d) = filter (\<lambda>x. x \<noteq> k) (dict_keys d)"
  by (induction d) (auto simp: dict_keys_def dict_del_def)

lemma keyed_del: "keyed d \<Longrightarrow> keyed (dict_del k d)"
  unfolding keyed_def by (auto simp: dict_keys_del) (auto simp: dict_del_def)

lemma keyed_get: "keyed d \<Longrightarrow> dict_get d k = Some e \<Longrightarrow> en_key e = k"
  by (auto simp: keyed_def dest: dict_get_in)

lemma keyed_values: "keyed d \<Longrightarrow> map en_key (dict_values d) = dict_keys d"
  by (auto simp: keyed_def dict_values_def dict_keys_def)

lemma mentions_in_values: "mention_ids_of (dict_values d) = mentions_in d"
  by (auto simp: mention_ids_of_def dict_values_def mentions_in_def comp_def split_def)

lemma mentions_in_replace:
  "mset (mentions_in (dict_set k e d)) + mset (mentions_at d k) = mset (mentions_in d) + mset (en_mentions e)"
  by (induction d) (auto simp: mentions_in_def mentions_at_def dict_get_def)

lemma mentions_in_delete:
  "distinct (dict_keys d) \<Longrightarrow> mset (mentions_in (dict_del k d)) + mset (mentions_at d k) = mset (mentions_in d)"
proof (induction d)
  case (Cons x d)
  obtain k' e where x: "x = (k', e)" by fastforce
  show ?case
  proof (cases "k' = k")
    case True
    then have "k \<notin> fst ` set d" using Cons.prems by (simp add: x dict_keys_def)
    then have "dict_del k d = d" by (force simp: dict_del_def intro: filter_True)
    then show ?thesis by (simp add: x True dict_del_def mentions_in_def mentions_at_def dict_get_def)
  next
    case False
    then show ?thesis
      using Cons by (simp add: x dict_del_def mentions_in_def mentions_at_def dict_get_def dict_keys_def)
  qed
qed (simp add: mentions_in_def mentions_at_def dict_get_def dict_del_def)

lemma mentions_in_del_subset: "mset (mentions_in (dict_del k d)) \<subseteq># mset (mentions_in d)"
  by (induction d) (auto simp: mentions_in_def dict_del_def intro: subset_mset.add_mono subset_mset.order_trans)

lemma dict_set_new: "k \<notin> set (dict_keys d) \<Longrightarrow> dict_set k v d = d @ [(k, v)]"
  by (induction d) (auto simp: dict_keys_def)

lemma fold_entities_by_key:
  "distinct (map en_key es) \<Longrightarrow> set (map en_key es) \<inter> set (dict_keys d) = {} \<Longrightarrow>
   fold (\<lambda>e. dict_set (en_key e) e) es d = d @ map (\<lambda>e. (en_key e, e)) es"
  by (induction es arbitrary: d) (auto simp: dict_set_new dict_keys_def)

lemma entities_by_key_distinct:
  "distinct (map en_key es) \<Longrightarrow> entities_by_key es = map (\<lambda>e. (en_key e, e)) es"
  using fold_entities_by_key [of es "[]"] by (simp add: entities_by_key_def dict_keys_def)

lemma keyed_entities_by_key:
  assumes "distinct (map en_key es)"
  shows "keyed (entities_by_key es)" and "mentions_in (entities_by_key es) = mention_ids_of es"
    and "dict_keys (entities_by_key es) = map en_key es"
  using assms
  by (auto simp: entities_by_key_distinct keyed_def dict_keys_def mentions_in_def mention_ids_of_def comp_def)

lemma by_mentions_keys [simp]: "distinct (map en_key (by_mentions es)) = distinct (map en_key es)"
  unfolding by_mentions_def by (rule mset_eq_imp_distinct_iff) simp

lemma mset_mention_ids: "mset (mention_ids_of es) = \<Sum>\<^sub># (image_mset (\<lambda>e. mset (en_mentions e)) (mset es))"
  by (induction es) (simp_all add: mention_ids_of_def)

lemma by_mentions_ids [simp]: "mset (mention_ids_of (by_mentions es)) = mset (mention_ids_of es)"
  unfolding mset_mention_ids by (simp add: by_mentions_def)

lemma absorb_fields [simp]:
  "en_key (absorb t e) = en_key t" "en_mentions (absorb t e) = en_mentions t @ en_mentions e"
  by (simp_all add: absorb_def)

lemma distinct_submultiset:
  assumes "mset xs \<subseteq># mset ys" and "distinct ys"
  shows "distinct xs"
  unfolding distinct_count_atmost_1
proof
  fix a
  have "count (mset xs) a \<le> count (mset ys) a" by (rule mset_subset_eq_count [OF assms(1)])
  moreover have "count (mset ys) a \<le> 1" using assms(2) by (simp add: distinct_count_atmost_1)
  ultimately show "count (mset xs) a = (if a \<in> set xs then 1 else 0)"
    by (metis count_mset_0_iff le_antisym le_trans less_one linorder_not_less)
qed

section \<open>The contract of a step\<close>

locale regrouping =
  fixes regroup :: "entity list \<Rightarrow> entity list"
  assumes keys_distinct: "distinct (map en_key es) \<Longrightarrow> distinct (map en_key (regroup es))"
    and mentions_kept: "distinct (map en_key es) \<Longrightarrow>
      mset (mention_ids_of (regroup es)) \<subseteq># mset (mention_ids_of es)"
begin

text \<open>No mention twice, none from elsewhere.\<close>

lemma regroup_disjoint:
  assumes "distinct (map en_key es)" and "distinct (mention_ids_of es)"
  shows "distinct (mention_ids_of (regroup es))" and "set (mention_ids_of (regroup es)) \<subseteq> set (mention_ids_of es)"
proof -
  note sub = mentions_kept [OF assms(1)]
  show "set (mention_ids_of (regroup es)) \<subseteq> set (mention_ids_of es)"
    using set_mset_mono [OF sub] by simp
  show "distinct (mention_ids_of (regroup es))" by (rule distinct_submultiset [OF sub assms(2)])
qed

end

section \<open>Steps over a dictionary\<close>

lemma mentions_in_put:
  assumes "mset (en_mentions x) = mset (mentions_at d k) + M"
  shows "mset (mentions_in (dict_set k x d)) = mset (mentions_in d) + M"
  using mentions_in_replace [of k x d] assms by simp

lemma mentions_at_simps:
  "dict_get d k = None \<Longrightarrow> mentions_at d k = []"
  "dict_get d k = Some e \<Longrightarrow> mentions_at d k = en_mentions e"
  by (simp_all add: mentions_at_def)

text \<open>What one step of a loop over entities may add to a dictionary: that entity's mentions.\<close>

definition takes_in :: "(entity \<Rightarrow> (ustr, entity) dict \<Rightarrow> (ustr, entity) dict) \<Rightarrow> bool" where
  "takes_in f \<longleftrightarrow> (\<forall>e d. keyed d \<longrightarrow> keyed (f e d) \<and>
     mset (mentions_in (f e d)) \<subseteq># mset (mentions_in d) + mset (en_mentions e))"

lemma takes_in_fold:
  assumes "takes_in f" and "keyed d"
  shows "keyed (fold f es d) \<and> mset (mentions_in (fold f es d)) \<subseteq># mset (mentions_in d) + mset (mention_ids_of es)"
  using assms(2)
proof (induction es arbitrary: d)
  case (Cons e es)
  have step: "keyed (f e d)" "mset (mentions_in (f e d)) \<subseteq># mset (mentions_in d) + mset (en_mentions e)"
    using assms(1) Cons.prems by (simp_all add: takes_in_def)
  have "mset (mentions_in (fold f es (f e d))) \<subseteq># mset (mentions_in (f e d)) + mset (mention_ids_of es)"
    using Cons.IH [OF step(1)] by blast
  also have "\<dots> \<subseteq># (mset (mentions_in d) + mset (en_mentions e)) + mset (mention_ids_of es)"
    using step(2) by (rule subset_mset.add_right_mono)
  finally show ?case using Cons.IH [OF step(1)] by (simp add: mention_ids_of_def add.assoc)
qed (simp add: mention_ids_of_def)

lemma takes_in_regrouping:
  assumes "takes_in f"
  shows "regrouping (\<lambda>es. by_mentions (dict_values (fold f (by_mentions es) [])))"
proof
  fix es :: "entity list" assume "distinct (map en_key es)"
  note finished = takes_in_fold [OF assms keyed_empty, of "by_mentions es"]
  show "distinct (map en_key (by_mentions (dict_values (fold f (by_mentions es) []))))"
    using finished by (simp add: keyed_values keyed_def)
  show "mset (mention_ids_of (by_mentions (dict_values (fold f (by_mentions es) [])))) \<subseteq># mset (mention_ids_of es)"
    using finished by (simp add: mentions_in_values mentions_in_def)
qed

lemma takes_in_apply_name: "takes_in (apply_name u names)"
  unfolding takes_in_def
proof (intro allI impI)
  fix e d assume d: "keyed d"
  obtain name key gender source where r: "renamed u e (dict_get names (en_key e)) = (name, key, gender, source)"
    by (metis prod_cases4)
  show "keyed (apply_name u names e d) \<and>
    mset (mentions_in (apply_name u names e d)) \<subseteq># mset (mentions_in d) + mset (en_mentions e)"
  proof (cases "case dict_get names (en_key e) of Some reading \<Rightarrow> \<not> gn_is_person reading | None \<Rightarrow> False")
    case True
    then show ?thesis using d by (simp add: apply_name_def Let_def)
  next
    case False
    then show ?thesis
      using d keyed_get [OF d, of key]
      by (cases "dict_get d key")
        (simp_all add: apply_name_def Let_def r keyed_set mentions_at_simps
          mentions_in_put [where M = "mset (en_mentions e)"])
  qed
qed

lemma merge_swap_fold:
  assumes "keyed (fst state)"
  shows "keyed (fst (fold merge_swap es state)) \<and>
    mset (mentions_in (fst (fold merge_swap es state))) \<subseteq># mset (mentions_in (fst state)) + mset (mention_ids_of es)"
  using assms
proof (induction es arbitrary: state)
  case (Cons e es)
  obtain d w where state: "state = (d, w)" by fastforce
  have d: "keyed d" using Cons.prems state by simp
  have own: "mset (mentions_in (dict_set (en_key e) e d)) \<subseteq># mset (mentions_in d) + mset (en_mentions e)"
    using mentions_in_replace [of "en_key e" e d] by (metis mset_subset_eq_add_left)
  have step: "keyed (fst (merge_swap e state))"
    "mset (mentions_in (fst (merge_swap e state))) \<subseteq># mset (mentions_in d) + mset (en_mentions e)"
    using d own keyed_get [OF d]
    by (auto simp: merge_swap_def state Let_def keyed_set mentions_at_simps
        mentions_in_put [where M = "mset (en_mentions e)"] split: option.split prod.split)
  have "mset (mentions_in (fst (fold merge_swap es (merge_swap e state))))
      \<subseteq># mset (mentions_in (fst (merge_swap e state))) + mset (mention_ids_of es)"
    using Cons.IH [OF step(1)] by blast
  also have "\<dots> \<subseteq># (mset (mentions_in d) + mset (en_mentions e)) + mset (mention_ids_of es)"
    using step(2) by (rule subset_mset.add_right_mono)
  finally show ?case using Cons.IH [OF step(1)] by (simp add: state mention_ids_of_def add.assoc)
qed (simp add: mention_ids_of_def)

interpretation naming: regrouping "apply_names u names" for u names
proof -
  show "regrouping (apply_names u names)"
    using takes_in_regrouping [OF takes_in_apply_name] by (simp add: apply_names_def [abs_def])
qed

interpretation swapping: regrouping merge_swapped
proof
  fix es :: "entity list" assume "distinct (map en_key es)"
  have finished: "keyed (fst (fold merge_swap (by_mentions es) ([], [])))"
    "mset (mentions_in (fst (fold merge_swap (by_mentions es) ([], [])))) \<subseteq># mset (mention_ids_of es)"
    using merge_swap_fold [of "([], [])" "by_mentions es"] by (simp_all add: mentions_in_def)
  show "distinct (map en_key (merge_swapped es))"
    using finished(1) by (simp add: merge_swapped_def keyed_values keyed_def)
  show "mset (mention_ids_of (merge_swapped es)) \<subseteq># mset (mention_ids_of es)"
    using finished(2) by (simp add: merge_swapped_def mentions_in_values)
qed

text \<open>Steps that start from all the entities by key.\<close>

lemma regrouping_by_key:
  assumes "\<And>es. distinct (map en_key es) \<Longrightarrow> keyed (f es)"
    and "\<And>es. distinct (map en_key es) \<Longrightarrow> mset (mentions_in (f es)) \<subseteq># mset (mention_ids_of es)"
  shows "regrouping (\<lambda>es. by_mentions (dict_values (f es)))"
  by unfold_locales (use assms in \<open>auto simp: keyed_values mentions_in_values keyed_def\<close>)

lemma absorb_into:
  assumes d: "keyed d" and moved: "dict_get d source = Some e" and target: "dict_get d target = Some t"
    and "source \<noteq> target"
  shows "keyed (dict_set target (absorb t e) (dict_del source d))"
    and "mset (mentions_in (dict_set target (absorb t e) (dict_del source d))) = mset (mentions_in d)"
    and "keyed (dict_del source (dict_set target (absorb t e) d))"
    and "mset (mentions_in (dict_del source (dict_set target (absorb t e) d))) = mset (mentions_in d)"
proof -
  have t: "en_key (absorb t e) = target" using keyed_get [OF d target] by simp
  show "keyed (dict_set target (absorb t e) (dict_del source d))"
    by (rule keyed_set [OF keyed_del [OF d] t])
  show "keyed (dict_del source (dict_set target (absorb t e) d))"
    by (rule keyed_del [OF keyed_set [OF d t]])
  have get_del: "dict_get (dict_del source d) target = Some t"
    using target assms(4) by (induction d) (auto simp: dict_get_def dict_del_def)
  have "distinct (dict_keys d)" using d by (simp add: keyed_def)
  from mentions_in_delete [OF this, of source]
  have "mset (mentions_in (dict_del source d)) + mset (en_mentions e) = mset (mentions_in d)"
    by (simp add: mentions_at_simps moved)
  moreover have "mset (mentions_in (dict_set target (absorb t e) (dict_del source d)))
      = mset (mentions_in (dict_del source d)) + mset (en_mentions e)"
    by (rule mentions_in_put) (simp add: mentions_at_simps get_del)
  ultimately show "mset (mentions_in (dict_set target (absorb t e) (dict_del source d))) = mset (mentions_in d)"
    by simp
  let ?d = "dict_set target (absorb t e) d"
  have "distinct (dict_keys ?d)" using keyed_set [OF d t] by (simp add: keyed_def)
  from mentions_in_delete [OF this, of source]
  have "mset (mentions_in (dict_del source ?d)) + mset (en_mentions e) = mset (mentions_in ?d)"
    using moved assms(4) by (simp add: mentions_at_simps dict_get_set)
  moreover have "mset (mentions_in ?d) = mset (mentions_in d) + mset (en_mentions e)"
    by (rule mentions_in_put) (simp add: mentions_at_simps target)
  ultimately show "mset (mentions_in (dict_del source ?d)) = mset (mentions_in d)" by simp
qed

lemma attach_alias_fold:
  assumes "keyed (fst state)"
  shows "keyed (fst (fold attach_alias pairs state)) \<and>
    mset (mentions_in (fst (fold attach_alias pairs state))) = mset (mentions_in (fst state))"
  using assms
proof (induction pairs arbitrary: state)
  case (Cons p pairs)
  obtain d w where state: "state = (d, w)" by fastforce
  have d: "keyed d" using Cons.prems state by simp
  have "keyed (fst (attach_alias p state))" "mset (mentions_in (fst (attach_alias p state))) = mset (mentions_in d)"
    using d absorb_into [OF d]
    by (auto simp: attach_alias_def state Let_def split: option.split)
  then show ?case using Cons.IH [of "attach_alias p state"] state by simp
qed simp

interpretation aliasing: regrouping "attach_aliases aliases" for aliases
proof -
  have "regrouping (\<lambda>es. by_mentions (dict_values (fst (fold attach_alias aliases
      (entities_by_key es, keys_of_mentions es)))))"
    using attach_alias_fold keyed_entities_by_key by (intro regrouping_by_key) simp_all
  then show "regrouping (attach_aliases aliases)" by (simp add: attach_aliases_def [abs_def])
qed

lemma absorb_renamed_fold:
  assumes "keyed d"
  shows "keyed (fold (absorb_renamed u names) ks d) \<and>
    mset (mentions_in (fold (absorb_renamed u names) ks d)) = mset (mentions_in d)"
  using assms
proof (induction ks arbitrary: d)
  case (Cons k ks)
  have "keyed (absorb_renamed u names k d)" "mset (mentions_in (absorb_renamed u names k d)) = mset (mentions_in d)"
    using Cons.prems absorb_into(3,4) [OF Cons.prems]
    by (auto simp: absorb_renamed_def Let_def split: option.split)
  then show ?case using Cons.IH [of "absorb_renamed u names k d"] by simp
qed simp

interpretation overriding: regrouping "\<lambda>es. apply_overrides u es overrides" for u overrides
proof -
  let ?named = "\<lambda>es. map (\<lambda>e. case dict_get (overridden_names (map en_key es) overrides) (en_key e) of
      Some name \<Rightarrow> e\<lparr>en_name := name, en_source := ''manual''\<rparr> | None \<Rightarrow> e) es"
  have keys: "map en_key (?named es) = map en_key es" and ids: "mention_ids_of (?named es) = mention_ids_of es" for es
    by (auto simp: mention_ids_of_def comp_def split: option.split intro!: arg_cong [where f = concat])
  have "regrouping (\<lambda>es. by_mentions (dict_values (fold
      (absorb_renamed u (overridden_names (map en_key es) overrides)) (map en_key (?named es))
      (entities_by_key (?named es)))))"
  proof (rule regrouping_by_key)
    fix es :: "entity list" assume "distinct (map en_key es)"
    then have "distinct (map en_key (?named es))" by (simp only: keys)
    note start = keyed_entities_by_key [OF this]
    show "keyed (fold (absorb_renamed u (overridden_names (map en_key es) overrides)) (map en_key (?named es))
        (entities_by_key (?named es)))"
      using absorb_renamed_fold [OF start(1)] by blast
    show "mset (mentions_in (fold (absorb_renamed u (overridden_names (map en_key es) overrides))
        (map en_key (?named es)) (entities_by_key (?named es)))) \<subseteq># mset (mention_ids_of es)"
      using absorb_renamed_fold [OF start(1)] by (simp add: start(2) ids)
  qed
  then show "regrouping (\<lambda>es. apply_overrides u es overrides)" by (simp add: apply_overrides_def Let_def)
qed

lemma mention_ids_filter: "mset (mention_ids_of (filter P es)) \<subseteq># mset (mention_ids_of es)"
proof (induction es)
  case (Cons e es)
  then show ?case
    by (cases "P e") (simp_all add: mention_ids_of_def subset_mset.add_increasing)
qed (simp add: mention_ids_of_def)

interpretation removing: regrouping "\<lambda>es. without_removed es removed" for removed
proof
  fix es :: "entity list"
  show "mset (mention_ids_of (without_removed es removed)) \<subseteq># mset (mention_ids_of es)"
    by (simp add: without_removed_def Let_def mention_ids_filter)
  assume "distinct (map en_key es)"
  then show "distinct (map en_key (without_removed es removed))"
    by (simp add: without_removed_def Let_def distinct_map_filter)
qed

lemma resolve_figurant_fold:
  assumes "keyed (fst state)"
  shows "keyed (fst (fold (resolve_figurant u) fs state)) \<and>
    mset (mentions_in (fst (fold (resolve_figurant u) fs state))) = mset (mentions_in (fst state))"
  using assms
proof (induction fs arbitrary: state)
  case (Cons f fs)
  obtain d w where state: "state = (d, w)" by fastforce
  have d: "keyed d" using Cons.prems state by simp
  have none: "mset (mentions_in (dict_set k x d)) = mset (mentions_in d)" if "mset (en_mentions x) = mset (mentions_at d k)" for k x
    using mentions_in_put [where M = "{#}"] that by simp
  have "keyed (fst (resolve_figurant u f state))"
    "mset (mentions_in (fst (resolve_figurant u f state))) = mset (mentions_in d)"
    using d keyed_get [OF d]
    by (auto simp: resolve_figurant_def state Let_def identified_entity_def keyed_set mentions_at_simps none
        split: option.split)
  then show ?case using Cons.IH [of "resolve_figurant u f state"] state by simp
qed simp

interpretation figurants: regrouping "\<lambda>es. fst (apply_unnamed_resolutions u es identified)" for u identified
proof -
  have "regrouping (\<lambda>es. by_mentions (dict_values (fst (fold (resolve_figurant u) identified
      (entities_by_key es, [])))))"
    using resolve_figurant_fold keyed_entities_by_key by (intro regrouping_by_key) simp_all
  then show "regrouping (\<lambda>es. fst (apply_unnamed_resolutions u es identified))"
    by (simp add: apply_unnamed_resolutions_def split_def Let_def)
qed

end
