(* ===== verification/Identity_Merges.thy ===== *)
theory Identity_Merges
  imports Identity_Laws Surname_Roots
begin

text \<open>
  The two steps of a rebuild whose account of the mentions takes more than one entity at a
  time: bare surnames handed over mention by mention (\<open>attach_bare\<close>), and the pairs people
  decided to be one person, merged by union-find (\<open>merge_decided\<close>).
\<close>

section \<open>Bare surnames\<close>

lemma move_mention_fold:
  assumes "keyed d" and "\<And>m. m \<in> set ms \<Longrightarrow> own \<notin> set (targets m)"
  shows "keyed (fst (fold (move_mention targets) ms (d, kept))) \<and>
    mentions_at (fst (fold (move_mention targets) ms (d, kept))) own = mentions_at d own \<and>
    dict_keys (fst (fold (move_mention targets) ms (d, kept))) = dict_keys d \<and>
    mset (mentions_in (fst (fold (move_mention targets) ms (d, kept)))) + mset (snd (fold (move_mention targets) ms (d, kept)))
      \<subseteq># mset (mentions_in d) + mset kept + mset ms"
  using assms
proof (induction ms arbitrary: d kept)
  case (Cons m ms)
  obtain d1 kept1 where step: "move_mention targets m (d, kept) = (d1, kept1)" by fastforce
  have "keyed d1 \<and> mentions_at d1 own = mentions_at d own \<and> dict_keys d1 = dict_keys d \<and>
    mset (mentions_in d1) + mset kept1 \<subseteq># add_mset m (mset (mentions_in d) + mset kept)"
  proof (cases "\<exists>key e. targets m = [key] \<and> dict_get d key = Some e")
    case True
    then obtain key e where key: "targets m = [key]" "dict_get d key = Some e" by blast
    let ?e = "e\<lparr>en_mentions := en_mentions e @ [m]\<rparr>"
    have d1: "d1 = dict_set key ?e d" "kept1 = kept"
      using step key by (simp_all add: move_mention_def)
    have "key \<noteq> own" using Cons.prems(2) [of m] key(1) by auto
    then have "mentions_at d1 own = mentions_at d own" by (simp add: d1 mentions_at_def dict_get_set)
    moreover have "keyed d1" unfolding d1
      by (rule keyed_set [OF Cons.prems(1)]) (simp add: keyed_get [OF Cons.prems(1) key(2)])
    moreover have "dict_keys d1 = dict_keys d"
      using key(2) dict_get_None [of d key] by (simp add: d1 dict_keys_set)
    moreover have "mset (mentions_in d1) = mset (mentions_in d) + mset [m]"
      unfolding d1 by (rule mentions_in_put) (simp add: mentions_at_simps key(2))
    ultimately show ?thesis by (simp add: d1(2))
  next
    case False
    then have "d1 = d \<and> (kept1 = kept \<or> kept1 = kept @ [m])"
      using step by (auto simp: move_mention_def split: list.splits option.splits)
    then show ?thesis using Cons.prems(1) by auto
  qed
  then have one: "keyed d1" "mentions_at d1 own = mentions_at d own" "dict_keys d1 = dict_keys d"
    "mset (mentions_in d1) + mset kept1 \<subseteq># add_mset m (mset (mentions_in d) + mset kept)" by blast+
  have rest: "\<And>m. m \<in> set ms \<Longrightarrow> own \<notin> set (targets m)" using Cons.prems(2) by simp
  let ?final = "fold (move_mention targets) ms (d1, kept1)"
  have ih: "keyed (fst ?final) \<and> mentions_at (fst ?final) own = mentions_at d1 own \<and>
    dict_keys (fst ?final) = dict_keys d1 \<and>
    mset (mentions_in (fst ?final)) + mset (snd ?final) \<subseteq># mset (mentions_in d1) + mset kept1 + mset ms"
    by (rule Cons.IH [OF one(1)]) (rule rest)
  have "mset (mentions_in d1) + mset kept1 + mset ms
      \<subseteq># add_mset m (mset (mentions_in d) + mset kept) + mset ms"
    by (rule subset_mset.add_right_mono [OF one(4)])
  then have bound: "mset (mentions_in d1) + mset kept1 + mset ms \<subseteq># mset (mentions_in d) + mset kept + mset (m # ms)"
    by simp
  have folded: "fold (move_mention targets) (m # ms) (d, kept) = fold (move_mention targets) ms (d1, kept1)"
    by (simp add: step)
  show ?case
    unfolding folded
  proof (intro conjI)
    show "keyed (fst (fold (move_mention targets) ms (d1, kept1)))" using ih by (elim conjE)
    show "mentions_at (fst (fold (move_mention targets) ms (d1, kept1))) own = mentions_at d own"
      using ih one(2) by (elim conjE) simp
    show "dict_keys (fst (fold (move_mention targets) ms (d1, kept1))) = dict_keys d"
      using ih one(3) by (elim conjE) simp
    show "mset (mentions_in (fst (fold (move_mention targets) ms (d1, kept1))))
        + mset (snd (fold (move_mention targets) ms (d1, kept1))) \<subseteq># mset (mentions_in d) + mset kept + mset (m # ms)"
      using ih by (elim conjE) (rule subset_mset.order_trans [OF _ bound])
  qed
qed simp

lemma bare_targets_full:
  "key \<in> set (bare_targets u article_of es surname m) \<Longrightarrow> \<exists>e \<in> set es. en_key e = key \<and> full_named e"
  by (auto simp: bare_targets_def keys_in_article_def split: option.splits)

text \<open>
  The loop: while a bare entity waits for its turn, the dictionary holds it as it was.
\<close>

lemma attach_one_fold:
  assumes "distinct (map en_key es)" and "set todo \<subseteq> set es" and "distinct (map en_key todo)" and "keyed d"
    and "\<And>e. e \<in> set todo \<Longrightarrow> \<not> full_named e \<Longrightarrow> mentions_at d (en_key e) = en_mentions e"
  shows "keyed (fold (attach_one u article_of es) todo d) \<and>
    mset (mentions_in (fold (attach_one u article_of es) todo d)) \<subseteq># mset (mentions_in d)"
  using assms(2-)
proof (induction todo arbitrary: d)
  case (Cons e todo)
  let ?d1 = "attach_one u article_of es e d"
  have "keyed ?d1 \<and> mset (mentions_in ?d1) \<subseteq># mset (mentions_in d) \<and>
    (\<forall>x \<in> set todo. \<not> full_named x \<longrightarrow> mentions_at ?d1 (en_key x) = mentions_at d (en_key x))"
  proof (cases "\<exists>surname. words (en_name e) = [surname]")
    case False
    then have "?d1 = d" by (auto simp: attach_one_def split: list.split)
    then show ?thesis using Cons.prems(3) by simp
  next
    case True
    then obtain surname where surname: "words (en_name e) = [surname]" ..
    let ?targets = "bare_targets u article_of es surname" and ?k = "en_key e"
    obtain d2 kept where moved: "fold (move_mention ?targets) (en_mentions e) (d, []) = (d2, kept)" by fastforce
    have bare: "\<not> full_named e" by (simp add: full_named_def surname)
    have not_bare: "en_key x \<notin> set (?targets m)" if x: "x \<in> set es" "\<not> full_named x" for x m
    proof
      assume "en_key x \<in> set (?targets m)"
      then obtain y where "y \<in> set es" "en_key y = en_key x" "full_named y" using bare_targets_full by blast
      then show False using x assms(1) by (metis distinct_map inj_onD)
    qed
    have e: "e \<in> set es" using Cons.prems(1) by simp
    note account = move_mention_fold [OF Cons.prems(3), of "en_mentions e" _ ?targets "[]", unfolded moved fst_conv snd_conv]
    have d2: "keyed d2" "mentions_at d2 ?k = en_mentions e" "dict_keys d2 = dict_keys d"
      "mset (mentions_in d2) + mset kept \<subseteq># mset (mentions_in d) + mset (en_mentions e)"
      using account [of ?k] not_bare [OF e bare] Cons.prems(4) [of e] bare by simp_all
    have others: "mentions_at d2 (en_key x) = mentions_at d (en_key x)" if "x \<in> set todo" "\<not> full_named x" for x
      using account [of "en_key x"] not_bare [of x] that Cons.prems(1) by auto
    have different: "en_key x \<noteq> ?k" if "x \<in> set todo" for x
      using Cons.prems(2) that by (auto simp: image_iff)
    show ?thesis
    proof (cases "kept = []")
      case True
      then have d1: "?d1 = dict_del ?k d2" by (simp add: attach_one_def surname moved)
      have del: "mset (mentions_in (dict_del ?k d2)) + mset (en_mentions e) = mset (mentions_in d2)"
        using mentions_in_delete [of d2 ?k] d2(1,2) by (simp add: keyed_def)
      have "mset (mentions_in (dict_del ?k d2)) + mset (en_mentions e) \<subseteq># mset (mentions_in d) + mset (en_mentions e)"
        unfolding del using d2(4) True by simp
      moreover have "mentions_at (dict_del ?k d2) k = mentions_at d2 k" if "k \<noteq> ?k" for k
        using that by (induction d2) (auto simp: mentions_at_def dict_get_def dict_del_def)
      ultimately show ?thesis using d1 keyed_del [OF d2(1)] others different by simp
    next
      case kept: False
      show ?thesis
      proof (cases "dict_get d2 ?k")
        case None
        then have "?d1 = d2" using kept by (simp add: attach_one_def surname moved)
        moreover have "en_mentions e = []" using d2(2) None by (simp add: mentions_at_simps)
        moreover have "mset (mentions_in d2) \<subseteq># mset (mentions_in d2) + mset kept" by simp
        ultimately show ?thesis
          using d2(1,4) others by (metis add.right_neutral mset.simps(1) subset_mset.order_trans)
      next
        case (Some b)
        let ?b = "b\<lparr>en_mentions := kept\<rparr>"
        have d1: "?d1 = dict_set ?k ?b d2" using kept Some by (simp add: attach_one_def surname moved)
        have replace: "mset (mentions_in (dict_set ?k ?b d2)) + mset (en_mentions e) = mset (mentions_in d2) + mset kept"
          using mentions_in_replace [of ?k ?b d2] d2(2) by simp
        have "mset (mentions_in (dict_set ?k ?b d2)) + mset (en_mentions e) \<subseteq># mset (mentions_in d) + mset (en_mentions e)"
          unfolding replace by (rule d2(4))
        moreover have "keyed (dict_set ?k ?b d2)"
          by (rule keyed_set [OF d2(1)]) (simp add: keyed_get [OF d2(1) Some])
        moreover have "mentions_at (dict_set ?k ?b d2) k = mentions_at d2 k" if "k \<noteq> ?k" for k
          using that by (simp add: mentions_at_def dict_get_set)
        ultimately show ?thesis using d1 others different by simp
      qed
    qed
  qed
  then have one: "keyed ?d1" "mset (mentions_in ?d1) \<subseteq># mset (mentions_in d)"
    "\<And>x. x \<in> set todo \<Longrightarrow> \<not> full_named x \<Longrightarrow> mentions_at ?d1 (en_key x) = mentions_at d (en_key x)" by blast+
  have "keyed (fold (attach_one u article_of es) todo ?d1) \<and>
    mset (mentions_in (fold (attach_one u article_of es) todo ?d1)) \<subseteq># mset (mentions_in ?d1)"
    using Cons.prems by (intro Cons.IH) (simp_all add: one)
  then show ?case using one(2) by (auto intro: subset_mset.order_trans)
qed simp

interpretation attaching: regrouping "attach_bare u article_of" for u article_of
proof -
  have "keyed (fold (attach_one u article_of es) es (entities_by_key es)) \<and>
    mset (mentions_in (fold (attach_one u article_of es) es (entities_by_key es))) \<subseteq># mset (mention_ids_of es)"
    if d: "distinct (map en_key es)" for es
  proof -
    have "mentions_at (entities_by_key es) (en_key e) = en_mentions e" if "e \<in> set es" for e
    proof -
      have "map_of (map (\<lambda>e. (en_key e, e)) es) (en_key e) = Some e"
        using d that by (intro map_of_is_SomeI) (simp_all add: comp_def)
      then show ?thesis using entities_by_key_distinct [OF d] by (simp add: mentions_at_def dict_get_def)
    qed
    then show ?thesis
      using attach_one_fold [OF d order_refl d keyed_entities_by_key(1) [OF d], of u article_of]
      by (simp add: keyed_entities_by_key(2) [OF d])
  qed
  then have "regrouping (\<lambda>es. by_mentions (dict_values (fold (attach_one u article_of es) es (entities_by_key es))))"
    by (intro regrouping_by_key) blast+
  then show "regrouping (attach_bare u article_of)" by (simp add: attach_bare_def [abs_def])
qed

section \<open>Decided pairs\<close>

text \<open>The reference: keys linked by a decided pair, in both directions, any number of times.\<close>

definition decided_link :: "(ustr \<times> ustr) list \<Rightarrow> (ustr \<times> ustr) set" where
  "decided_link pairs = (set pairs \<union> (set pairs)\<inverse>)\<^sup>*"

lemma decided_link_equiv: "refl (decided_link pairs)" "sym (decided_link pairs)" "trans (decided_link pairs)"
  unfolding decided_link_def
  by (simp_all add: refl_rtrancl trans_rtrancl sym_rtrancl sym_Un_converse)

lemma resolve_keys_known:
  "(a, b) \<in> set (resolve_keys pairs keys) \<Longrightarrow> a \<in> set keys \<and> b \<in> set keys"
proof -
  have first: "x \<in> set xs" if "filter P xs = x # ys" for P :: "ustr \<Rightarrow> bool" and x xs ys
    using that by (metis filter_is_subset list.set_intros(1) subsetD)
  have today_known: "k \<in> set known" if "today known key = Some k" for known key k
    using that by (auto simp: today_def Let_def split: if_splits list.splits prod.splits dest!: first)
  show "(a, b) \<in> set (resolve_keys pairs keys) \<Longrightarrow> a \<in> set keys \<and> b \<in> set keys"
    by (auto simp: resolve_keys_def Let_def pair_keys_def dest!: today_known today_known [OF sym]
        split: option.splits if_splits)
qed

text \<open>The forest after all the pairs: its roots tell exactly the linked keys apart.\<close>

lemma union_all_decided_roots:
  assumes "forest p r" and "\<forall>(a, b) \<in> set pairs. a \<in> dom p \<and> b \<in> dom p"
    and "\<forall>x \<in> dom p. (x, r x) \<in> C" and "set pairs \<subseteq> C" and C: "sym C" "trans C"
  shows "\<exists>p' r'. union_all_decided mentions pairs p = Some p' \<and> forest p' r' \<and> dom p' = dom p \<and>
    (\<forall>x \<in> dom p. (x, r' x) \<in> C) \<and> (\<forall>x y. r x = r y \<longrightarrow> r' x = r' y) \<and> (\<forall>(a, b) \<in> set pairs. r' a = r' b)"
  using assms(1-4)
proof (induction pairs arbitrary: p r)
  case Nil
  then show ?case by auto
next
  case (Cons q pairs)
  obtain a b where q: "q = (a, b)" by fastforce
  let ?first = "\<lambda>a b. keeps_first (a, mentions a) (b, mentions b)"
  let ?r = "joined_roots ?first a b r"
  have dom: "a \<in> dom p" "b \<in> dom p" and ab: "(a, b) \<in> C"
    using Cons.prems(2,4) q by simp_all
  obtain p1 where p1: "union_by ?first a b p = Some p1" "forest p1 ?r" "dom p1 = dom p"
    by (rule union_by_spec [OF Cons.prems(1) dom])
  have linked: "\<forall>x \<in> dom p1. (x, ?r x) \<in> C"
    using p1(3) Cons.prems(3) dom by (intro ballI joined_roots_linked [OF C ab]) simp_all
  have known: "\<forall>(x, y) \<in> set pairs. x \<in> dom p1 \<and> y \<in> dom p1"
    using Cons.prems(2) p1(3) by simp
  have sub: "set pairs \<subseteq> C" using Cons.prems(4) by simp
  obtain p2 r2 where p2: "union_all_decided mentions pairs p1 = Some p2" "forest p2 r2" "dom p2 = dom p1"
    "\<forall>x \<in> dom p1. (x, r2 x) \<in> C" "\<forall>x y. ?r x = ?r y \<longrightarrow> r2 x = r2 y" "\<forall>(a, b) \<in> set pairs. r2 a = r2 b"
    using Cons.IH [OF p1(2) known linked sub] by (elim exE conjE) (rule that)
  have "r2 a = r2 b" using p2(5) joined_roots_same [of ?first a b r] by blast
  moreover have "\<forall>x y. r x = r y \<longrightarrow> r2 x = r2 y" using p2(5) joined_roots_cong [of r] by blast
  moreover have "union_all_decided mentions (q # pairs) p = Some p2"
    using p1(1) p2(1) by (simp add: q union_decided_def)
  moreover have "\<forall>(a, b) \<in> set (q # pairs). r2 a = r2 b"
    using p2(6) \<open>r2 a = r2 b\<close> unfolding q list.set by blast
  ultimately show ?case
    using p2(2,3,4) unfolding p1(3) by (intro exI [of _ p2] exI [of _ r2] conjI)
qed

text \<open>The entities of a class gathered under its root.\<close>

lemma absorb_into_roots_spec:
  assumes "keyed merged" and "\<forall>k \<in> set ks. r k \<in> set (dict_keys merged) \<and> k \<in> set (dict_keys by_key)"
  shows "\<exists>d. absorb_into_roots (map (\<lambda>k. (k, r k)) ks) by_key merged = Some d \<and> keyed d \<and>
    dict_keys d = dict_keys merged \<and>
    (\<forall>k. set (mentions_at d k) = set (mentions_at merged k)
       \<union> (\<Union>x \<in> {x \<in> set ks. r x = k \<and> x \<noteq> k}. set (mentions_at by_key x))) \<and>
    mset (mentions_in d) = mset (mentions_in merged)
       + mset (concat (map (mentions_at by_key) (filter (\<lambda>x. r x \<noteq> x) ks)))"
  using assms
proof (induction ks arbitrary: merged)
  case Nil
  then show ?case by simp
next
  case (Cons x ks)
  have x: "r x \<in> set (dict_keys merged)" "x \<in> set (dict_keys by_key)" using Cons.prems(2) by simp_all
  obtain target where target: "dict_get merged (r x) = Some target"
    using x(1) dict_get_None [of merged "r x"] by auto
  obtain e where e: "dict_get by_key x = Some e" using x(2) dict_get_None [of by_key x] by auto
  show ?case
  proof (cases "r x = x")
    case True
    then have step: "absorb_into_roots (map (\<lambda>k. (k, r k)) (x # ks)) by_key merged =
        absorb_into_roots (map (\<lambda>k. (k, r k)) ks) by_key merged"
      using target e by simp
    have same: "{y \<in> set (x # ks). r y = k \<and> y \<noteq> k} = {y \<in> set ks. r y = k \<and> y \<noteq> k}" for k
      using True by auto
    have "filter (\<lambda>y. r y \<noteq> y) (x # ks) = filter (\<lambda>y. r y \<noteq> y) ks" using True by simp
    then show ?thesis unfolding step same using Cons.IH [OF Cons.prems(1)] Cons.prems(2) by simp
  next
    case False
    let ?t = "absorb_decided target e" and ?d1 = "dict_set (r x) (absorb_decided target e) merged"
    have t: "en_key ?t = r x" "en_mentions ?t = en_mentions target @ en_mentions e"
      using keyed_get [OF Cons.prems(1) target] by (simp_all add: absorb_decided_def)
    have step: "absorb_into_roots (map (\<lambda>k. (k, r k)) (x # ks)) by_key merged =
        absorb_into_roots (map (\<lambda>k. (k, r k)) ks) by_key ?d1"
      using target e False by simp
    have keys: "dict_keys ?d1 = dict_keys merged" using x(1) by (simp add: dict_keys_set)
    have d1: "keyed ?d1" by (rule keyed_set [OF Cons.prems(1) t(1)])
    obtain d where d: "absorb_into_roots (map (\<lambda>k. (k, r k)) ks) by_key ?d1 = Some d" "keyed d"
      "dict_keys d = dict_keys ?d1"
      "\<forall>k. set (mentions_at d k) = set (mentions_at ?d1 k)
         \<union> (\<Union>x \<in> {x \<in> set ks. r x = k \<and> x \<noteq> k}. set (mentions_at by_key x))"
      "mset (mentions_in d) = mset (mentions_in ?d1)
         + mset (concat (map (mentions_at by_key) (filter (\<lambda>x. r x \<noteq> x) ks)))"
    proof -
      have "\<forall>k \<in> set ks. r k \<in> set (dict_keys ?d1) \<and> k \<in> set (dict_keys by_key)"
        using Cons.prems(2) keys by simp
      from Cons.IH [OF d1 this] show thesis by (elim exE conjE) (rule that)
    qed
    have put: "mset (mentions_in ?d1) = mset (mentions_in merged) + mset (mentions_at by_key x)"
      by (rule mentions_in_put) (simp add: t(2) mentions_at_simps target e)
    have at: "mentions_at ?d1 k = (if k = r x then mentions_at merged k @ mentions_at by_key x else mentions_at merged k)" for k
      by (simp add: mentions_at_def dict_get_set target e t(2))
    have "set (mentions_at d k) = set (mentions_at merged k)
       \<union> (\<Union>y \<in> {y \<in> set (x # ks). r y = k \<and> y \<noteq> k}. set (mentions_at by_key y))" for k
      unfolding spec [OF d(4), of k] at using False by auto
    moreover have "mset (mentions_in d) = mset (mentions_in merged)
       + mset (concat (map (mentions_at by_key) (filter (\<lambda>x. r x \<noteq> x) (x # ks))))"
      using d(5) put False by simp
    ultimately show ?thesis unfolding step using d(1,2,3) keys by (intro exI [of _ d]) simp
  qed
qed

lemma merge_decided_runs:
  fixes es :: "entity list"
  assumes keys: "distinct (map en_key es)"
    and link_def: "link = decided_link (resolve_keys same (map en_key es))"
  obtains r d where "merge_decided es same = Some (by_mentions (dict_values d))" and "keyed d"
    and "dict_keys d = filter (\<lambda>k. r k = k) (map en_key es)"
    and "\<And>k. k \<in> set (map en_key es) \<Longrightarrow> r k \<in> set (map en_key es) \<and> r (r k) = r k"
    and "\<And>k k'. k \<in> set (map en_key es) \<Longrightarrow> k' \<in> set (map en_key es) \<Longrightarrow> r k = r k' \<longleftrightarrow> (k, k') \<in> link"
    and "\<And>k. r k = k \<Longrightarrow> k \<in> set (map en_key es) \<Longrightarrow>
      set (mentions_at d k) = (\<Union>x \<in> {x \<in> set (map en_key es). r x = k}. set (mentions_at (entities_by_key es) x))"
    and "mset (mentions_in d) = mset (mention_ids_of es)"
proof -
  let ?by_key = "entities_by_key es" and ?keys = "map en_key es"
  let ?pairs = "resolve_keys same ?keys"
  let ?parent = "\<lambda>k. if k \<in> set ?keys then Some k else None"
  let ?mentions = "\<lambda>k. case dict_get ?by_key k of Some e \<Rightarrow> length (en_mentions e) | None \<Rightarrow> 0"
  note start = keyed_entities_by_key [OF keys]
  have dom: "dom ?parent = set ?keys" by (auto split: if_splits)
  have "forest_by ?parent id (\<lambda>_. 0)" by (auto simp: forest_by_def split: if_splits)
  then have forest0: "forest ?parent id" unfolding forest_def by blast
  have C: "refl link" "sym link" "trans link" unfolding link_def by (rule decided_link_equiv)+
  have sub: "set ?pairs \<subseteq> link" unfolding link_def decided_link_def by blast
  obtain p1 r where p1: "union_all_decided ?mentions ?pairs ?parent = Some p1" "forest p1 r" "dom p1 = dom ?parent"
    "\<forall>x \<in> dom ?parent. (x, r x) \<in> link" "\<forall>(a, b) \<in> set ?pairs. r a = r b"
  proof -
    have known: "\<forall>(a, b) \<in> set ?pairs. a \<in> dom ?parent \<and> b \<in> dom ?parent"
      unfolding dom using resolve_keys_known by blast
    have own: "\<forall>x \<in> dom ?parent. (x, id x) \<in> link" using C(1) by (simp add: refl_on_def)
    from union_all_decided_roots [OF forest0 known own sub C(2,3), of ?mentions] show thesis
      by (elim exE conjE) (rule that)
  qed
  have doms: "set ?keys \<subseteq> dom p1" using p1(3) dom by simp
  obtain p2 where p2: "find_roots p1 ?keys = Some (map (\<lambda>x. (x, r x)) ?keys, p2)" "forest p2 r" "dom p2 = dom p1"
    using find_roots_spec [OF p1(2) doms] by blast
  obtain p3 where p3: "find_roots p2 ?keys = Some (map (\<lambda>x. (x, r x)) ?keys, p3)"
    using find_roots_spec [OF p2(2), of ?keys] doms p2(3) by auto
  let ?merged = "filter (\<lambda>(k, _). (k, k) \<in> set (map (\<lambda>x. (x, r x)) ?keys)) ?by_key"
  have merged: "?merged = filter (\<lambda>(k, _). r k = k) ?by_key"
    by (rule filter_cong) (auto simp: entities_by_key_distinct [OF keys])
  have merged_keys: "dict_keys ?merged = filter (\<lambda>k. r k = k) ?keys"
    unfolding merged by (simp add: entities_by_key_distinct [OF keys] dict_keys_def filter_map comp_def)
  have "distinct (dict_keys ?merged)" unfolding merged_keys using keys by simp
  then have keyed: "keyed ?merged" using start(1) unfolding keyed_def by auto
  have inside: "r k \<in> set ?keys \<and> r (r k) = r k" if "k \<in> set ?keys" for k
    using forest_root_idem [OF p1(2), of k] that p1(3) dom by simp
  have known: "\<forall>k \<in> set ?keys. r k \<in> set (dict_keys ?merged) \<and> k \<in> set (dict_keys ?by_key)"
    unfolding merged_keys start(3) using inside by simp
  obtain d where d: "absorb_into_roots (map (\<lambda>k. (k, r k)) ?keys) ?by_key ?merged = Some d" "keyed d"
    "dict_keys d = dict_keys ?merged"
    "\<forall>k. set (mentions_at d k) = set (mentions_at ?merged k)
       \<union> (\<Union>x \<in> {x \<in> set ?keys. r x = k \<and> x \<noteq> k}. set (mentions_at ?by_key x))"
    "mset (mentions_in d) = mset (mentions_in ?merged)
       + mset (concat (map (mentions_at ?by_key) (filter (\<lambda>x. r x \<noteq> x) ?keys)))"
    using absorb_into_roots_spec [OF keyed known] by (elim exE conjE) (rule that)
  have run: "merge_decided es same = Some (by_mentions (dict_values d))"
    using p1(1) p2(1) p3 d(1) by (simp add: merge_decided_def Let_def start(3))
  have "r k = r k' \<longleftrightarrow> (k, k') \<in> link" if k: "k \<in> set ?keys" "k' \<in> set ?keys" for k k'
  proof
    assume eq: "r k = r k'"
    have "(k, r k) \<in> link" "(k', r k') \<in> link" using p1(4) k unfolding dom by blast+
    then show "(k, k') \<in> link" using eq C(2,3) by (metis symD transD)
  next
    assume "(k, k') \<in> link"
    then show "r k = r k'"
      unfolding link_def decided_link_def
    proof (induction rule: rtrancl_induct)
      case (step b c)
      then have "r b = r c" using p1(5) by auto
      then show ?case using step.IH by simp
    qed simp
  qed
  moreover have "set (mentions_at d k) = (\<Union>x \<in> {x \<in> set ?keys. r x = k}. set (mentions_at ?by_key x))"
    if k: "r k = k" "k \<in> set ?keys" for k
  proof -
    have "mentions_at ?merged k = mentions_at ?by_key k"
    proof -
      have "map_of (filter (\<lambda>(k, _). r k = k) xs) k = map_of xs k" for xs :: "(ustr, entity) dict"
        using k(1) by (induction xs) auto
      then show ?thesis unfolding merged by (simp add: mentions_at_def dict_get_def)
    qed
    then show ?thesis unfolding spec [OF d(4), of k] using k by auto
  qed
  moreover have "mset (mentions_in d) = mset (mention_ids_of es)"
  proof -
    have own: "mentions_at ?by_key (en_key e) = en_mentions e" if "e \<in> set es" for e
    proof -
      have "map_of (map (\<lambda>e. (en_key e, e)) es) (en_key e) = Some e"
        using keys that by (intro map_of_is_SomeI) (simp_all add: comp_def)
      then show ?thesis using entities_by_key_distinct [OF keys] by (simp add: mentions_at_def dict_get_def)
    qed
    have in_merged: "mentions_in ?merged = concat (map en_mentions (filter (\<lambda>e. r (en_key e) = en_key e) es))"
      unfolding merged mentions_in_def by (simp add: entities_by_key_distinct [OF keys] filter_map comp_def)
    have rest: "concat (map (mentions_at ?by_key) (filter (\<lambda>x. r x \<noteq> x) ?keys))
        = concat (map en_mentions (filter (\<lambda>e. r (en_key e) \<noteq> en_key e) es))"
      using own by (auto simp: filter_map comp_def intro!: arg_cong [where f = concat])
    have split: "mset (concat (map en_mentions (filter P xs))) + mset (concat (map en_mentions (filter (\<lambda>e. \<not> P e) xs)))
        = mset (concat (map en_mentions xs))" for P and xs :: "entity list"
      by (induction xs) auto
    show ?thesis unfolding d(5) in_merged rest mention_ids_of_def by (rule split)
  qed
  ultimately show thesis using that [OF run d(2) _ inside] d(3) merged_keys by simp
qed

lemma keyed_entry: "keyed d \<Longrightarrow> e \<in> set (dict_values d) \<longleftrightarrow> dict_get d (en_key e) = Some e"
  by (force simp: keyed_def dict_values_def dict_get_def dict_keys_def)

lemma entities_by_key_at:
  assumes "distinct (map en_key es)" and "e \<in> set es"
  shows "mentions_at (entities_by_key es) (en_key e) = en_mentions e"
proof -
  have "map_of (map (\<lambda>e. (en_key e, e)) es) (en_key e) = Some e"
    using assms by (intro map_of_is_SomeI) (simp_all add: comp_def)
  then show ?thesis using entities_by_key_distinct [OF assms(1)] by (simp add: mentions_at_def dict_get_def)
qed

text \<open>Of the entities one root stands for, exactly one is left.\<close>

lemma one_per_root:
  assumes "keyed d" and "dict_keys d = filter (\<lambda>k. r k = k) keys" and "r k \<in> set keys" and "r (r k) = r k"
  shows "\<exists>!e. e \<in> set (dict_values d) \<and> en_key e = r k"
proof -
  have "r k \<in> set (dict_keys d)" using assms(2-4) by simp
  then obtain e where e: "dict_get d (r k) = Some e" using dict_get_None [of d] by fastforce
  have "en_key e = r k" by (rule keyed_get [OF assms(1) e])
  then show ?thesis using e keyed_entry [OF assms(1)] by (intro ex1I [of _ e]) auto
qed


text \<open>
  C10. \<open>merge_decided\<close> refines its reference: of the entities whose keys decided pairs link,
  directly or through others, exactly one is left, and it holds the mentions of them all.
\<close>

theorem decided_pairs_are_merged:
  fixes es :: "entity list"
  assumes keys: "distinct (map en_key es)"
  shows "\<exists>es'. merge_decided es same = Some es' \<and>
    (\<forall>e \<in> set es. \<exists>!e'. e' \<in> set es' \<and>
       (en_key e, en_key e') \<in> decided_link (resolve_keys same (map en_key es))) \<and>
    (\<forall>e' \<in> set es'. set (en_mentions e') =
       (\<Union>e \<in> {e \<in> set es. (en_key e, en_key e') \<in> decided_link (resolve_keys same (map en_key es))}.
          set (en_mentions e)))"
proof (rule merge_decided_runs [OF keys refl, of same])
  fix r d
  let ?keys = "map en_key es" and ?link = "decided_link (resolve_keys same (map en_key es))"
  assume run: "merge_decided es same = Some (by_mentions (dict_values d))" and d: "keyed d"
    and d_keys: "dict_keys d = filter (\<lambda>k. r k = k) ?keys"
    and root: "\<And>k. k \<in> set ?keys \<Longrightarrow> r k \<in> set ?keys \<and> r (r k) = r k"
    and link: "\<And>k k'. k \<in> set ?keys \<Longrightarrow> k' \<in> set ?keys \<Longrightarrow> r k = r k' \<longleftrightarrow> (k, k') \<in> ?link"
    and held: "\<And>k. r k = k \<Longrightarrow> k \<in> set ?keys \<Longrightarrow>
      set (mentions_at d k) = (\<Union>x \<in> {x \<in> set ?keys. r x = k}. set (mentions_at (entities_by_key es) x))"
  have key_of: "r (en_key e') = en_key e' \<and> en_key e' \<in> set ?keys" if "e' \<in> set (dict_values d)" for e'
  proof -
    have "en_key e' \<in> set (dict_keys d)" using that keyed_values [OF d] by (metis image_eqI image_set)
    then show ?thesis by (simp add: d_keys)
  qed
  have one: "\<exists>!e'. e' \<in> set (dict_values d) \<and> (en_key e, en_key e') \<in> ?link" if e: "e \<in> set es" for e
  proof -
    have k: "en_key e \<in> set ?keys" using e by simp
    have "e' \<in> set (dict_values d) \<and> (en_key e, en_key e') \<in> ?link \<longleftrightarrow>
        e' \<in> set (dict_values d) \<and> en_key e' = r (en_key e)" for e'
      using link [OF k] key_of [of e'] by metis
    then show ?thesis using one_per_root [OF d d_keys] root [OF k] by simp
  qed
  have "set (en_mentions e') = (\<Union>e \<in> {e \<in> set es. (en_key e, en_key e') \<in> ?link}. set (en_mentions e))"
    if e': "e' \<in> set (dict_values d)" for e'
  proof -
    let ?k = "en_key e'"
    note k = key_of [OF e']
    have "set (en_mentions e') = set (mentions_at d ?k)" using e' keyed_entry [OF d] by (simp add: mentions_at_simps)
    also have "\<dots> = (\<Union>x \<in> {x \<in> set ?keys. r x = ?k}. set (mentions_at (entities_by_key es) x))"
      using held k by blast
    also have "{x \<in> set ?keys. r x = ?k} = en_key ` {e \<in> set es. (en_key e, ?k) \<in> ?link}"
      using link [of _ ?k] k by auto
    also have "(\<Union>x \<in> \<dots>. set (mentions_at (entities_by_key es) x))
        = (\<Union>e \<in> {e \<in> set es. (en_key e, ?k) \<in> ?link}. set (en_mentions e))"
      using entities_by_key_at [OF keys] by simp
    finally show ?thesis .
  qed
  then show ?thesis using run one by (intro exI [of _ "by_mentions (dict_values d)"]) (simp add: by_mentions_def)
qed

definition ranav :: "string \<Rightarrow> nat \<Rightarrow> entity" where
  "ranav key m = (new_entity (ru key) None None)\<lparr>en_name := ru key, en_mentions := [m]\<rparr>"

definition ranavs :: "entity list" where
  "ranavs = [ranav ''igorq ranav'' 1, ranav ''igorq aleksandroviC ranav'' 2, ranav ''anna ranava'' 3]"

theorem decided_pairs_are_merged_witness:
  "\<exists>es'. merge_decided ranavs [(ru ''igorq ranav'', ru ''igorq aleksandroviC ranav'')] = Some es' \<and>
    (\<forall>e \<in> set ranavs. \<exists>!e'. e' \<in> set es' \<and>
       (en_key e, en_key e') \<in> decided_link (resolve_keys [(ru ''igorq ranav'', ru ''igorq aleksandroviC ranav'')] (map en_key ranavs))) \<and>
    (\<forall>e' \<in> set es'. set (en_mentions e') =
       (\<Union>e \<in> {e \<in> set ranavs. (en_key e, en_key e') \<in>
            decided_link (resolve_keys [(ru ''igorq ranav'', ru ''igorq aleksandroviC ranav'')] (map en_key ranavs))}.
          set (en_mentions e)))"
proof (rule decided_pairs_are_merged)
  have "map en_key ranavs = [ru ''igorq ranav'', ru ''igorq aleksandroviC ranav'', ru ''anna ranava'']"
    by (simp add: ranavs_def ranav_def)
  moreover have "distinct [ru ''igorq ranav'', ru ''igorq aleksandroviC ranav'', ru ''anna ranava'']"
    by code_simp
  ultimately show "distinct (map en_key ranavs)" by simp
qed

end
