(* ===== verification/Namesakes.thy ===== *)
theory Namesakes
  imports Grouping_Invariant
begin

text \<open>
  The properties of \<open>grouping.py\<close>: the surnames' declensions, no two people in one entity,
  and every full name in exactly one.
\<close>

section \<open>The declensions of every given name\<close>

lemma roots_by_first_known:
  assumes "iterates_sets set_order"
  obtains rr where "\<And>firsts. roots_by_first set_order surnames firsts =
      Some (map (\<lambda>f. (f, map (\<lambda>s. (s, rr f s)) (set_order (unique (surnames f))))) firsts)"
    and "\<And>f s. s \<in> set (surnames f) \<Longrightarrow> shortest_of (declension (set (surnames f)) s) (rr f s)"
proof -
  have "\<exists>r. surname_roots set_order (surnames f) = Some (map (\<lambda>s. (s, r s)) (set_order (unique (surnames f))))
    \<and> (\<forall>s \<in> set (surnames f). shortest_of (declension (set (surnames f)) s) (r s))" for f
    by (rule roots_of_surnames [OF assms, of "surnames f"], rule exI, rule conjI, assumption) blast
  then obtain rr where rr: "\<And>f. surname_roots set_order (surnames f) =
      Some (map (\<lambda>s. (s, rr f s)) (set_order (unique (surnames f))))
    \<and> (\<forall>s \<in> set (surnames f). shortest_of (declension (set (surnames f)) s) (rr f s))"
    by metis
  have "roots_by_first set_order surnames firsts =
      Some (map (\<lambda>f. (f, map (\<lambda>s. (s, rr f s)) (set_order (unique (surnames f))))) firsts)" for firsts
    using rr by (induction firsts) simp_all
  then show thesis using that rr by blast
qed

lemma dict_get_map_key: "dict_get (map (\<lambda>x. (x, f x)) xs) x = (if x \<in> set xs then Some (f x) else None)"
  by (induction xs) (auto simp: dict_get_def)

definition full_names :: "unicode \<Rightarrow> person_mention list \<Rightarrow> person_mention list" where
  "full_names u mentions = filter is_full (map (cleaned u) mentions)"

lemma cleaned_id [simp]: "pm_id (cleaned u m) = pm_id m"
  by (simp add: cleaned_def)

lemma cleaned_tidy: "tidy u m \<Longrightarrow> tidy u (cleaned u m)"
  by (simp add: cleaned_def tidy_def given_def or_empty_def strip_def)

lemma is_full_given: "is_full m \<Longrightarrow> given (pm_first m) \<and> given (pm_last m)"
  by (auto simp: is_full_def is_initial_def given_def split: option.splits)

lemma full_name_words:
  assumes "\<forall>m \<in> set mentions. tidy u m" and "m \<in> set (full_names u mentions)"
  shows "tidy u m" and "word (folded_first u m)" and "word (folded_last u m)"
proof -
  show t: "tidy u m" using assms by (auto simp: full_names_def intro: cleaned_tidy)
  have "is_full m" using assms(2) by (simp add: full_names_def)
  then show "word (folded_first u m)" "word (folded_last u m)"
    using t by (auto simp: tidy_def dest: is_full_given)
qed

lemma distinct_full_ids: "distinct (map pm_id mentions) \<Longrightarrow> distinct (map pm_id (full_names u mentions))"
proof -
  assume "distinct (map pm_id mentions)"
  then have "distinct (map pm_id (map (cleaned u) mentions))" by (simp add: comp_def)
  then show ?thesis unfolding full_names_def by (rule distinct_map_filter)
qed

lemma placed_ids:
  assumes "distinct (map pm_id mentions)" and "subseq placed (map (cleaned u) mentions)"
  shows "distinct (map pm_id placed)" and "set (map pm_id placed) \<subseteq> pm_id ` set mentions"
proof -
  have "subseq (map pm_id placed) (map pm_id mentions)"
    using subseq_map [OF assms(2), of pm_id] by (simp add: comp_def)
  then obtain N where N: "map pm_id placed = nths (map pm_id mentions) N" by (auto simp: subseq_conv_nths)
  then show "distinct (map pm_id placed)" using assms(1) by simp
  show "set (map pm_id placed) \<subseteq> pm_id ` set mentions"
    unfolding N using set_nths_subset [of "map pm_id mentions" N] by simp
qed

section \<open>The whole function\<close>

lemma group_mentions_sound:
  assumes order: "iterates_sets set_order" and ids: "distinct (map pm_id mentions)"
    and tidy: "\<forall>m \<in> set mentions. tidy u m"
  obtains es g stem_of placed where "group_mentions u set_order mentions = Some es"
    and "sound_groups u stem_of (sort_key mention_order (full_names u mentions)) g"
    and "\<And>e. e \<in> set es \<Longrightarrow> \<exists>k b. dict_get (gr_entities g) k = Some b \<and> en_mentions e = en_mentions b"
    and "distinct (map en_key es)"
    and "mset (concat (map en_mentions es)) = mset (map pm_id (full_names u mentions)) + mset (map pm_id placed)"
    and "subseq placed (map (cleaned u) mentions)"
    and "pm_id ` set placed \<inter> pm_id ` set (full_names u mentions) = {}"
    and "\<And>m. m \<in> set (full_names u mentions) \<Longrightarrow>
      shortest_of (declension (set (surnames_of u (full_names u mentions) (folded_first u m))) (folded_last u m))
        (stem_of m)"
proof -
  let ?full = "full_names u mentions"
  let ?sorted = "sort_key mention_order ?full"
  let ?firsts = "unique (map (folded_first u) ?full)"
  obtain rr where roots: "roots_by_first set_order (surnames_of u ?full) ?firsts =
      Some (map (\<lambda>f. (f, map (\<lambda>s. (s, rr f s)) (set_order (unique (surnames_of u ?full f))))) ?firsts)"
    and shortest: "\<And>f s. s \<in> set (surnames_of u ?full f) \<Longrightarrow>
      shortest_of (declension (set (surnames_of u ?full f)) s) (rr f s)"
    by (rule roots_by_first_known [OF order, of "surnames_of u ?full"]) (rule that)
  let ?roots = "map (\<lambda>f. (f, map (\<lambda>s. (s, rr f s)) (set_order (unique (surnames_of u ?full f))))) ?firsts"
  define stem_of where "stem_of = (\<lambda>m. rr (folded_first u m) (folded_last u m))"
  have surname: "folded_last u m \<in> set (surnames_of u ?full (folded_first u m))" if "m \<in> set ?full" for m
    using that by (auto simp: surnames_of_def)
  have stems: "shortest_of (declension (set (surnames_of u ?full (folded_first u m))) (folded_last u m)) (stem_of m)"
    if "m \<in> set ?full" for m
    unfolding stem_of_def by (rule shortest [OF surname [OF that]])
  have known: "stem_known u ?roots stem_of m" if m: "m \<in> set ?full" for m
  proof -
    have "\<forall>s \<in> set (surnames_of u ?full (folded_first u m)). word s"
      using full_name_words(3) [OF tidy] by (auto simp: surnames_of_def)
    moreover have "stem_of m \<in> declension (set (surnames_of u ?full (folded_first u m))) (folded_last u m)"
      using stems [OF m] by (simp add: shortest_of_def)
    ultimately have "word (stem_of m)" using declension_word surname [OF m] by blast
    moreover have "set (set_order (unique (surnames_of u ?full (folded_first u m))))
        = set (surnames_of u ?full (folded_first u m))"
      using iterates_sets_set [OF order distinct_unique] by simp
    ultimately show ?thesis
      using m surname [OF m] by (simp add: stem_known_def dict_get_map_key stem_of_def)
  qed
  have "distinct (map pm_id ?sorted)"
    using distinct_full_ids [OF ids, of u] by (metis distinct_map distinct_sort set_sort)
  moreover have "\<forall>m \<in> set ?sorted. tidy u m \<and> word (folded_first u m) \<and> stem_known u ?roots stem_of m"
    using full_name_words [OF tidy] known by simp
  ultimately obtain g1 where g1: "group_fulls u ?roots ?sorted no_groups = Some g1"
    "sound_groups u stem_of ?sorted g1" "mset (mentions_in (gr_entities g1)) = mset (map pm_id ?sorted)"
    using group_fulls_sound [OF sound_groups_empty, of ?sorted u ?roots stem_of]
    by (auto simp: no_groups_def mentions_in_def)
  have ids_sorted: "mset (map pm_id ?sorted) = mset (map pm_id ?full)" by simp
  obtain g2 placed where g2: "group_bares u (map pm_id ?sorted) (map (cleaned u) mentions) g1 = Some g2"
    "sound_groups u stem_of ?sorted g2"
    "mset (mentions_in (gr_entities g2)) = mset (mentions_in (gr_entities g1)) + mset (map pm_id placed)"
    "subseq placed (map (cleaned u) mentions)" "pm_id ` set placed \<inter> pm_id ` set ?sorted = {}"
    using group_bares_sound [OF g1(2), of "map (cleaned u) mentions"] by (elim exE conjE) (rule that)
  have bares_cong: "group_bares u xs ms g = group_bares u ys ms g" if "set xs = set ys" for xs ys ms g
    using that by (induction ms arbitrary: g) (simp_all split: option.split)
  have bares: "group_bares u (map pm_id ?full) (map (cleaned u) mentions) g1 = Some g2"
    using g2(1) bares_cong [of "map pm_id ?sorted" "map pm_id ?full"] by simp
  have keys: "distinct (dict_keys (gr_entities g2))"
    and entities: "\<And>k e. dict_get (gr_entities g2) k = Some e \<Longrightarrow> sound_entity u stem_of ?sorted g2 k e"
    using g2(2) by (simp_all add: sound_groups_def)
  have get: "dict_get (gr_entities g2) k = Some e" if "(k, e) \<in> set (gr_entities g2)" for k e
    using that keys by (simp add: dict_get_def dict_keys_def)
  have "\<forall>(k, e) \<in> set (gr_entities g2). sound_entity u stem_of ?sorted g2 k e"
    using get entities by blast
  then obtain named where named: "name_entities u g2 (gr_entities g2) = Some named"
    "list_all2 (\<lambda>(k, e) e'. \<exists>name. e' = e\<lparr>en_name := name\<rparr>) (gr_entities g2) named"
    using name_entities_named by blast
  have same: "map en_mentions named = map (\<lambda>(_, e). en_mentions e) (gr_entities g2)"
    using named(2) by (induction rule: list_all2_induct) auto
  have "map en_key named = map (\<lambda>(_, e). en_key e) (gr_entities g2)"
    using named(2) by (induction rule: list_all2_induct) auto
  also have "\<dots> = dict_keys (gr_entities g2)"
    using get entities by (auto simp: dict_keys_def sound_entity_def)
  finally have spelled: "map en_key named = dict_keys (gr_entities g2)" .
  have "mset (map en_key (by_mentions named)) = mset (dict_keys (gr_entities g2))"
    unfolding spelled [symmetric] by (simp add: by_mentions_def)
  then have "distinct (map en_key (by_mentions named))"
    using mset_eq_imp_distinct_iff keys by blast
  show thesis
  proof (rule that [of "by_mentions named" stem_of g2 placed])
    show "distinct (map en_key (by_mentions named))" by fact
    show "group_mentions u set_order mentions = Some (by_mentions named)"
      using roots g1(1) bares named(1)
      by (simp add: group_mentions_def Let_def flip: full_names_def)
    show "sound_groups u stem_of ?sorted g2" by (rule g2(2))
    show "\<exists>k b. dict_get (gr_entities g2) k = Some b \<and> en_mentions e = en_mentions b" if "e \<in> set (by_mentions named)" for e
    proof -
      have "e \<in> set named" using that by (simp add: by_mentions_def)
      then have "en_mentions e \<in> set (map (\<lambda>(_, e). en_mentions e) (gr_entities g2))"
        unfolding same [symmetric] by simp
      then show ?thesis using get by auto
    qed
    have "mset (concat (map en_mentions (by_mentions named))) = mset (concat (map en_mentions named))"
      unfolding by_mentions_def mset_concat by (simp add: mset_map [symmetric] del: mset_map) (simp add: sum_mset_sum_list [symmetric])
    also have "\<dots> = mset (mentions_in (gr_entities g2))" by (simp add: same mentions_in_def)
    finally show "mset (concat (map en_mentions (by_mentions named))) = mset (map pm_id ?full) + mset (map pm_id placed)"
      using g2(3) g1(3) ids_sorted by simp
  qed (use g2(4,5) stems in simp_all)
qed

section \<open>Properties\<close>

text \<open>Two full names an entity may hold together.\<close>

definition same_person :: "unicode \<Rightarrow> person_mention list \<Rightarrow> person_mention \<Rightarrow> person_mention \<Rightarrow> bool" where
  "same_person u full m m' \<longleftrightarrow>
     folded_first u m = folded_first u m'
     \<and> declension (set (surnames_of u full (folded_first u m))) (folded_last u m)
       = declension (set (surnames_of u full (folded_first u m))) (folded_last u m')
     \<and> (written_patronymic m \<noteq> [] \<and> written_patronymic m' \<noteq> [] \<longrightarrow>
          patronymic_key u (written_patronymic m) = patronymic_key u (written_patronymic m'))
     \<and> (written_patronymic m \<noteq> [] \<and> written_patronymic m' \<noteq> [] \<and> given (pm_region m) \<and> given (pm_region m') \<longrightarrow>
          fold_word u (written_region m) = fold_word u (written_region m'))"

lemma fits_same_person:
  assumes "fits u stem_of m k e" and "fits u stem_of m' k e"
    and "shortest_of (declension (set (surnames_of u full (folded_first u m))) (folded_last u m)) (stem_of m)"
    and "shortest_of (declension (set (surnames_of u full (folded_first u m'))) (folded_last u m')) (stem_of m')"
  shows "same_person u full m m'"
proof -
  have names: "folded_first u m = folded_first u m'" "stem_of m = stem_of m'"
    using assms(1,2) spells_unique unfolding fits_def by blast+
  let ?S = "set (surnames_of u full (folded_first u m))"
  have "stem_of m \<in> declension ?S (folded_last u m)" "stem_of m \<in> declension ?S (folded_last u m')"
    using assms(3,4) names by (simp_all add: shortest_of_def)
  then have "declension ?S (folded_last u m) = declension ?S (stem_of m)"
    "declension ?S (folded_last u m') = declension ?S (stem_of m)"
    by (blast dest: declension_of_member)+
  then show ?thesis
    using assms(1,2) names unfolding same_person_def fits_def by auto
qed


text \<open>
  Every full name is in exactly one entity, no mention is in two, and an entity holds
  mentions only.
\<close>

theorem each_full_name_in_one_entity:
  assumes "iterates_sets set_order" and "distinct (map pm_id mentions)" and "\<forall>m \<in> set mentions. tidy u m"
  shows "\<exists>es. group_mentions u set_order mentions = Some es \<and>
    distinct (concat (map en_mentions es)) \<and>
    pm_id ` set (full_names u mentions) \<subseteq> set (concat (map en_mentions es)) \<and>
    set (concat (map en_mentions es)) \<subseteq> pm_id ` set mentions"
proof (rule group_mentions_sound [OF assms])
  fix es :: "entity list" and g :: grouping and stem_of and placed :: "person_mention list"
  let ?full = "full_names u mentions" and ?ids = "concat (map en_mentions es)"
  assume run: "group_mentions u set_order mentions = Some es"
    and ids: "mset ?ids = mset (map pm_id ?full) + mset (map pm_id placed)"
    and placed: "subseq placed (map (cleaned u) mentions)" "pm_id ` set placed \<inter> pm_id ` set ?full = {}"
  note bare = placed_ids [OF assms(2) placed(1)]
  have "distinct (map pm_id placed)" by (rule bare(1))
  moreover have "set (map pm_id placed) \<subseteq> pm_id ` set mentions" by (rule bare(2))
  moreover have same: "mset ?ids = mset (map pm_id ?full @ map pm_id placed)" using ids by simp
  moreover have "pm_id ` set ?full \<subseteq> pm_id ` set mentions"
    by (force simp: full_names_def)
  moreover have "distinct (map pm_id ?full @ map pm_id placed)"
    using distinct_full_ids [OF assms(2), of u] placed(2) calculation(1) by auto
  then have "distinct ?ids" using mset_eq_imp_distinct_iff [OF same] by blast
  moreover have "set ?ids = pm_id ` set ?full \<union> pm_id ` set placed"
    using mset_eq_setD [OF same] by simp
  ultimately show ?thesis using run by auto
qed

text \<open>A run of the example: two cards of two regions, and the news with a declined surname.\<close>

definition popov :: "nat \<Rightarrow> nat \<Rightarrow> string \<Rightarrow> string \<Rightarrow> string \<Rightarrow> person_mention" where
  "popov i article surname patronymic region = \<lparr>pm_id = i, pm_article = article, pm_first = Some (ru ''denis''),
     pm_last = Some (ru surname),
     pm_patronymic = (if patronymic = [] then None else Some (ru patronymic)),
     pm_region = (if region = [] then None else Some (ru region)), pm_surface = None\<rparr>"

definition popovs :: "person_mention list" where
  "popovs = [popov 1 1 ''popov'' ''vladimiroviC'' ''kursk'', popov 2 2 ''popov'' ''vladimiroviC'' ''kubanq'',
     popov 3 2 ''popova'' [] []]"

lemma popovs_tidy: "list_all (tidy russian) popovs"
  by code_simp

lemma identity_iterates_sets: "iterates_sets (\<lambda>xs. xs)"
  by (simp add: iterates_sets_def)


theorem each_full_name_in_one_entity_witness:
  "\<exists>es. group_mentions russian (\<lambda>xs. xs) popovs = Some es \<and>
    distinct (concat (map en_mentions es)) \<and>
    pm_id ` set (full_names russian popovs) \<subseteq> set (concat (map en_mentions es)) \<and>
    set (concat (map en_mentions es)) \<subseteq> pm_id ` set popovs"
  by (rule each_full_name_in_one_entity [OF identity_iterates_sets])
    (use popovs_tidy in \<open>simp_all add: popovs_def popov_def list_all_iff\<close>)

text \<open>
  C27. \<open>surname_roots\<close>, whatever the order in which Python iterates its sets: the union-find
  ends and maps every surname to the shortest, then alphabetically first, word of its
  declension, the reference closure of \<open>share a base\<close>.
\<close>

theorem surname_roots_find_declensions:
  assumes "iterates_sets set_order"
  shows "\<exists>roots. surname_roots set_order surnames = Some roots \<and> set (dict_keys roots) = set surnames \<and>
    (\<forall>s \<in> set surnames. \<exists>b. dict_get roots s = Some b \<and> shortest_of (declension (set surnames) s) b)"
proof (rule roots_of_surnames [OF assms, of surnames])
  fix r
  assume run: "surname_roots set_order surnames = Some (map (\<lambda>s. (s, r s)) (set_order (unique surnames)))"
    and "\<And>s. s \<in> set surnames \<Longrightarrow> shortest_of (declension (set surnames) s) (r s)"
  moreover have "set (set_order (unique surnames)) = set surnames"
    using iterates_sets_set [OF assms distinct_unique] by simp
  ultimately show ?thesis by (simp add: dict_get_map_key dict_keys_def image_image)
qed

theorem surname_roots_find_declensions_witness:
  "\<exists>roots. surname_roots (\<lambda>xs. xs) [ru ''moora'', ru ''mooru'', ru ''popov''] = Some roots \<and>
    set (dict_keys roots) = set [ru ''moora'', ru ''mooru'', ru ''popov''] \<and>
    (\<forall>s \<in> set [ru ''moora'', ru ''mooru'', ru ''popov'']. \<exists>b. dict_get roots s = Some b \<and>
       shortest_of (declension (set [ru ''moora'', ru ''mooru'', ru ''popov'']) s) b)"
  by (rule surname_roots_find_declensions [OF identity_iterates_sets])

text \<open>
  Why single words: of a surname that ends in a blank and a one-letter ending the stem ends in
  the blank, \<open>rsplit\<close> finds nothing after it, and \<open>root[-1]\<close> raises an \<open>IndexError\<close>.
\<close>

lemma surname_with_a_blank_fails:
  "group_mentions russian (\<lambda>xs. xs) [popov 1 1 ''van i'' [] [], popov 2 2 ''van e'' [] []] = None"
  by code_simp

end
