(* ===== verification/Identity_Rebuild.thy ===== *)
theory Identity_Rebuild
  imports Identity_Merges Namesakes
begin

text \<open>
  \<open>processing/identity/collector.py\<close>, \<open>EntityCollector.run\<close> up to the writing of the tables:
  the mentions read, grouped, named, merged as people decided, corrected and removed. The
  rows of the text windows, the answers of the model batch by batch, in the order they come,
  and the kept decisions are arguments; \<open>asked\<close> says how a batch was answered.
\<close>

section \<open>Mentions\<close>

record mention_source =
  ms_id :: nat
  ms_article :: nat
  ms_published :: "nat option"
  ms_first :: "ustr option"
  ms_last :: "ustr option"
  ms_patronymic :: "ustr option"
  ms_surface :: ustr
  ms_quote :: "ustr option"
  ms_region :: "ustr option"
  ms_before :: "ustr option"
  ms_after :: "ustr option"

definition collected :: "mention_source list \<Rightarrow> mention_source list" where
  "collected rows =
     filter (\<lambda>r. \<not> byline (ms_surface r) (or_empty (ms_before r)) (or_empty (ms_after r))) rows"

definition mention_of :: "mention_source \<Rightarrow> person_mention" where
  "mention_of r = \<lparr>pm_id = ms_id r, pm_article = ms_article r, pm_first = ms_first r,
     pm_last = ms_last r, pm_patronymic = ms_patronymic r, pm_region = ms_region r,
     pm_surface = Some (ms_surface r)\<rparr>"

section \<open>Names from the cache, the rules and the model\<close>

definition MAX_FORMS :: nat where
  "MAX_FORMS = 8"

definition BATCH_SIZE :: nat where
  "BATCH_SIZE = 50"

definition forms_of :: "entity \<Rightarrow> ustr list" where
  "forms_of e = map fst (take MAX_FORMS (most_common (en_variants e)))"

text \<open>The cache: by the hash of the forms (\<open>by_forms\<close>, a parameter), else by the entity's key.\<close>

definition cached_names ::
  "(ustr list \<Rightarrow> ustr) \<Rightarrow> (ustr, given_name) dict \<Rightarrow> entity list \<Rightarrow> (ustr, given_name) dict" where
  "cached_names by_forms records es =
     fold (\<lambda>e names. case (case dict_get records (by_forms (forms_of e)) of
             None \<Rightarrow> dict_get records (en_key e) | Some answer \<Rightarrow> Some answer) of
         None \<Rightarrow> names | Some answer \<Rightarrow> dict_set (en_key e) answer names) es []"

definition ruled_names ::
  "unicode \<Rightarrow> entity list \<Rightarrow> (ustr, given_name) dict \<Rightarrow> (ustr, given_name) dict" where
  "ruled_names u es names =
     fold (\<lambda>e names.
         if dict_get names (en_key e) = None \<and> length (forms_of e) = 1 then
           (case nominative_form u (hd (forms_of e)) of
              None \<Rightarrow> names | Some reading \<Rightarrow> dict_set (en_key e) reading names)
         else names) es names"

fun chunks :: "nat \<Rightarrow> 'a list \<Rightarrow> 'a list list" where
  "chunks n xs = (if xs = [] \<or> n = 0 then [] else take n xs # chunks n (drop n xs))"

declare chunks.simps [simp del]

text \<open>A batch was answered (by position), left unasked, failed, or raised something else.\<close>

datatype batch_answer =
    Answered "(nat, given_name) dict"
  | Unasked
  | Normalizer_failed
  | Other_error

record naming_result =
  nr_names :: "(ustr, given_name) dict"
  nr_asked :: nat
  nr_failures :: nat
  nr_unasked :: nat

definition take_answer :: "entity list \<Rightarrow> nat \<times> given_name \<Rightarrow> (ustr, given_name) dict \<Rightarrow> (ustr, given_name) dict" where
  "take_answer batch answer names =
     dict_set (en_key (batch ! fst answer))
       ((snd answer)\<lparr>gn_nominative := strip (gn_nominative (snd answer)), gn_source := ''model''\<rparr>) names"

fun take_batches :: "(entity list \<times> batch_answer) list \<Rightarrow> naming_result \<Rightarrow> naming_result option" where
  "take_batches [] n = Some n"
| "take_batches ((batch, Unasked) # rest) n =
     take_batches rest (n\<lparr>nr_unasked := nr_unasked n + length batch\<rparr>)"
| "take_batches ((batch, Normalizer_failed) # rest) n =
     take_batches rest (n\<lparr>nr_failures := nr_failures n + length batch\<rparr>)"
| "take_batches ((batch, Other_error) # rest) n = None"
| "take_batches ((batch, Answered answers) # rest) n =
     (if list_ex (\<lambda>(position, _). length batch \<le> position) answers then None
      else take_batches rest (n\<lparr>nr_names := fold (take_answer batch) answers (nr_names n),
       nr_asked := nr_asked n + length answers,
       nr_failures := nr_failures n + (length batch - length answers)\<rparr>))"

text \<open>
  \<open>EntityCollector._names\<close>; no normalizer (\<open>ask = None\<close>), or none missing, asks nothing.
\<close>

definition names_of ::
  "unicode \<Rightarrow> (ustr list \<Rightarrow> ustr) \<Rightarrow> (ustr, given_name) dict
     \<Rightarrow> (entity list list \<Rightarrow> (entity list \<times> batch_answer) list) option
     \<Rightarrow> entity list \<Rightarrow> naming_result option" where
  "names_of u by_forms records ask es =
     (let names = ruled_names u es (cached_names by_forms records es);
          missing = filter (\<lambda>e. dict_get names (en_key e) = None) es;
          start = \<lparr>nr_names = names, nr_asked = 0, nr_failures = 0, nr_unasked = 0\<rparr> in
      case ask of
        None \<Rightarrow> Some start
      | Some send \<Rightarrow> if missing = [] then Some start
                     else take_batches (send (chunks BATCH_SIZE missing)) start)"

section \<open>The rebuild\<close>

text \<open>What the database and the downstream hold for a rebuild.\<close>

record kept_decisions =
  kd_same :: "(ustr \<times> ustr) list"
  kd_overrides :: "(ustr, ustr) dict"
  kd_aliases :: "(nat \<times> nat) list"
  kd_figurants :: "identified_figurant list"
  kd_removed :: "ustr list"

definition after_names ::
  "unicode \<Rightarrow> kept_decisions \<Rightarrow> (nat, nat) dict \<Rightarrow> (ustr, given_name) dict \<Rightarrow> entity list
     \<Rightarrow> (entity list \<times> (ustr, identified_figurant list) dict) option" where
  "after_names u kept articles names es =
     (case merge_decided (merge_swapped (apply_names u names es)) (kd_same kept) of
        None \<Rightarrow> None
      | Some merged \<Rightarrow>
          (case apply_unnamed_resolutions u
              (attach_bare u articles (attach_aliases (kd_aliases kept)
                (apply_overrides u merged (kd_overrides kept)))) (kd_figurants kept) of
             (final, evidence) \<Rightarrow> Some (without_removed final (kd_removed kept), evidence)))"

definition rebuild ::
  "unicode \<Rightarrow> (ustr list \<Rightarrow> ustr list) \<Rightarrow> (entity list \<Rightarrow> naming_result option) \<Rightarrow> kept_decisions
     \<Rightarrow> mention_source list \<Rightarrow> (entity list \<times> (ustr, identified_figurant list) dict) option" where
  "rebuild u set_order name_step kept rows =
     (let mentions = map mention_of (collected rows);
          articles = fold (\<lambda>m. dict_set (pm_id m) (pm_article m)) mentions [] in
      case group_mentions u set_order (filter (\<lambda>m. \<not> kinship u m) mentions) of
        None \<Rightarrow> None
      | Some es \<Rightarrow>
          (case name_step es of
             None \<Rightarrow> None
           | Some naming \<Rightarrow> after_names u kept articles (nr_names naming) es))"

section \<open>What the steps keep, together\<close>

lemma mergeable_step:
  fixes es :: "entity list"
  assumes "distinct (map en_key es)" and "merge_decided es same = Some es'"
  shows "distinct (map en_key es')" and "mset (mention_ids_of es') = mset (mention_ids_of es)"
  by (rule merge_decided_runs [OF assms(1) refl, of same];
      use assms(2) in \<open>simp add: keyed_values keyed_def mentions_in_values\<close>)+

lemma after_names_disjoint:
  fixes es :: "entity list"
  assumes keys: "distinct (map en_key es)" and run: "after_names u kept articles names es = Some (es', evidence)"
  shows "distinct (map en_key es')" and "mset (mention_ids_of es') \<subseteq># mset (mention_ids_of es)"
proof -
  let ?named = "merge_swapped (apply_names u names es)"
  obtain merged where merged: "merge_decided ?named (kd_same kept) = Some merged"
    using run by (auto simp: after_names_def split: option.splits)
  let ?fixed = "apply_overrides u merged (kd_overrides kept)"
  let ?aliased = "attach_aliases (kd_aliases kept) ?fixed"
  let ?bare = "attach_bare u articles ?aliased"
  let ?joined = "fst (apply_unnamed_resolutions u ?bare (kd_figurants kept))"
  have es': "es' = without_removed ?joined (kd_removed kept)"
    using run merged by (auto simp: after_names_def split: prod.splits)
  have k1: "distinct (map en_key (apply_names u names es))" by (rule naming.keys_distinct [OF keys])
  have k2: "distinct (map en_key ?named)" by (rule swapping.keys_distinct [OF k1])
  note k3 = mergeable_step [OF k2 merged]
  have k4: "distinct (map en_key ?fixed)" by (rule overriding.keys_distinct [OF k3(1)])
  have k5: "distinct (map en_key ?aliased)" by (rule aliasing.keys_distinct [OF k4])
  have k6: "distinct (map en_key ?bare)" by (rule attaching.keys_distinct [OF k5])
  have k7: "distinct (map en_key ?joined)" by (rule figurants.keys_distinct [OF k6])
  show "distinct (map en_key es')" unfolding es' by (rule removing.keys_distinct [OF k7])
  have "mset (mention_ids_of es') \<subseteq># mset (mention_ids_of ?joined)"
    unfolding es' by (rule removing.mentions_kept [OF k7])
  also have "\<dots> \<subseteq># mset (mention_ids_of ?bare)" by (rule figurants.mentions_kept [OF k6])
  also have "\<dots> \<subseteq># mset (mention_ids_of ?aliased)" by (rule attaching.mentions_kept [OF k5])
  also have "\<dots> \<subseteq># mset (mention_ids_of ?fixed)" by (rule aliasing.mentions_kept [OF k4])
  also have "\<dots> \<subseteq># mset (mention_ids_of merged)" by (rule overriding.mentions_kept [OF k3(1)])
  also have "\<dots> \<subseteq># mset (mention_ids_of ?named)" using k3(2) by simp
  also have "\<dots> \<subseteq># mset (mention_ids_of (apply_names u names es))" by (rule swapping.mentions_kept [OF k1])
  also have "\<dots> \<subseteq># mset (mention_ids_of es)" by (rule naming.mentions_kept [OF keys])
  finally show "mset (mention_ids_of es') \<subseteq># mset (mention_ids_of es)" .
qed

lemma after_names_total:
  fixes es :: "entity list"
  assumes "distinct (map en_key es)"
  shows "after_names u kept articles names es \<noteq> None"
proof -
  have "distinct (map en_key (merge_swapped (apply_names u names es)))"
    by (intro swapping.keys_distinct naming.keys_distinct assms)
  then obtain merged where "merge_decided (merge_swapped (apply_names u names es)) (kd_same kept) = Some merged"
    by (rule merge_decided_runs [OF _ refl]) blast
  then show ?thesis by (simp add: after_names_def split: prod.split)
qed

lemma grouped_disjoint:
  assumes "iterates_sets set_order" and "distinct (map pm_id mentions)" and "\<forall>m \<in> set mentions. tidy u m"
  obtains es where "group_mentions u set_order mentions = Some es" and "distinct (map en_key es)"
    and "distinct (mention_ids_of es)" and "set (mention_ids_of es) \<subseteq> pm_id ` set mentions"
proof (rule group_mentions_sound [OF assms])
  fix es :: "entity list" and g stem_of and placed :: "person_mention list"
  let ?full = "full_names u mentions"
  assume run: "group_mentions u set_order mentions = Some es" "distinct (map en_key es)"
    and ids: "mset (concat (map en_mentions es)) = mset (map pm_id ?full) + mset (map pm_id placed)"
    and placed: "subseq placed (map (cleaned u) mentions)" "pm_id ` set placed \<inter> pm_id ` set ?full = {}"
  note bare = placed_ids [OF assms(2) placed(1)]
  have same: "mset (mention_ids_of es) = mset (map pm_id ?full @ map pm_id placed)"
    using ids by (simp add: mention_ids_of_def)
  have "distinct (map pm_id ?full @ map pm_id placed)"
    using distinct_full_ids [OF assms(2), of u] placed(2) bare(1) by auto
  then have "distinct (mention_ids_of es)" using mset_eq_imp_distinct_iff [OF same] by blast
  moreover have "set (mention_ids_of es) \<subseteq> pm_id ` set mentions"
  proof -
    have "pm_id ` set ?full \<subseteq> pm_id ` set mentions" by (force simp: full_names_def)
    then show ?thesis using mset_eq_setD [OF same] bare(2) by auto
  qed
  ultimately show thesis using that run by blast
qed

text \<open>What a rebuild starts from, whatever names and decisions follow.\<close>

lemma rebuild_grouped:
  assumes "iterates_sets set_order" and "distinct (map ms_id rows)" and "\<forall>r \<in> set rows. tidy u (mention_of r)"
  obtains es articles where "\<forall>name_step kept. rebuild u set_order name_step kept rows =
      (case name_step es of None \<Rightarrow> None | Some naming \<Rightarrow> after_names u kept articles (nr_names naming) es)"
    and "distinct (map en_key es)" and "distinct (mention_ids_of es)"
    and "set (mention_ids_of es) \<subseteq> ms_id ` set (collected rows)"
proof -
  let ?mentions = "map mention_of (collected rows)"
  let ?people = "filter (\<lambda>m. \<not> kinship u m) ?mentions"
  let ?articles = "fold (\<lambda>m. dict_set (pm_id m) (pm_article m)) ?mentions []"
  have ids: "map pm_id ?mentions = map ms_id (collected rows)" by (simp add: mention_of_def)
  have "distinct (map ms_id (collected rows))"
    unfolding collected_def by (rule distinct_map_filter [OF assms(2)])
  then have "distinct (map pm_id ?people)" using distinct_map_filter [of pm_id ?mentions] by (simp only: ids)
  moreover have "\<forall>m \<in> set ?people. tidy u m" using assms(3) by (auto simp: collected_def)
  ultimately obtain es where es: "group_mentions u set_order ?people = Some es" "distinct (map en_key es)"
    "distinct (mention_ids_of es)" "set (mention_ids_of es) \<subseteq> pm_id ` set ?people"
    by (rule grouped_disjoint [OF assms(1)])
  show thesis
  proof (rule that [where es = es and articles = ?articles])
    show "\<forall>name_step kept. rebuild u set_order name_step kept rows =
      (case name_step es of None \<Rightarrow> None | Some naming \<Rightarrow> after_names u kept ?articles (nr_names naming) es)"
      by (simp add: rebuild_def es(1) Let_def)
    have "set (mention_ids_of es) \<subseteq> pm_id ` set ?mentions" using es(4) by auto
    then show "set (mention_ids_of es) \<subseteq> ms_id ` set (collected rows)" using ids by (metis image_set)
  qed (fact es(2,3))+
qed

lemma rebuild_disjoint:
  assumes "iterates_sets set_order" and "distinct (map ms_id rows)" and "\<forall>r \<in> set rows. tidy u (mention_of r)"
    and run: "rebuild u set_order name_step kept rows = Some (es', evidence)"
  shows "distinct (map en_key es')" and "distinct (concat (map en_mentions es'))"
    and "set (concat (map en_mentions es')) \<subseteq> ms_id ` set (collected rows)"
proof -
  obtain es articles where es: "\<forall>name_step kept. rebuild u set_order name_step kept rows =
      (case name_step es of None \<Rightarrow> None | Some naming \<Rightarrow> after_names u kept articles (nr_names naming) es)"
    "distinct (map en_key es)" "distinct (mention_ids_of es)"
    "set (mention_ids_of es) \<subseteq> ms_id ` set (collected rows)"
    by (rule rebuild_grouped [OF assms(1-3)]) (rule that)
  obtain naming :: naming_result where "after_names u kept articles (nr_names naming) es = Some (es', evidence)"
    using run es(1) by (auto split: option.splits)
  note kept = after_names_disjoint [OF es(2) this]
  show "distinct (map en_key es')" by (rule kept(1))
  show "distinct (concat (map en_mentions es'))"
    using distinct_submultiset [OF kept(2) es(3)] by (simp add: mention_ids_of_def)
  have "set (mention_ids_of es') \<subseteq> set (mention_ids_of es)" using set_mset_mono [OF kept(2)] by simp
  then show "set (concat (map en_mentions es')) \<subseteq> ms_id ` set (collected rows)"
    using es(4) unfolding mention_ids_of_def by blast
qed

lemma rebuild_returns:
  assumes "iterates_sets set_order" and "distinct (map ms_id rows)"
    and "\<forall>r \<in> set rows. tidy u (mention_of r)" and "\<forall>es. name_step es \<noteq> None"
  shows "\<exists>es evidence. rebuild u set_order name_step kept rows = Some (es, evidence)"
proof (rule rebuild_grouped [OF assms(1-3)])
  fix es articles
  assume es: "\<forall>name_step kept. rebuild u set_order name_step kept rows =
      (case name_step es of None \<Rightarrow> None | Some naming \<Rightarrow> after_names u kept articles (nr_names naming) es)"
    and "distinct (map en_key es)"
  then have "rebuild u set_order name_step kept rows \<noteq> None"
    using after_names_total assms(4) by (auto split: option.split)
  then show ?thesis by auto
qed


definition popov_source :: "person_mention \<Rightarrow> mention_source" where
  "popov_source m = \<lparr>ms_id = pm_id m, ms_article = pm_article m, ms_published = None, ms_first = pm_first m,
     ms_last = pm_last m, ms_patronymic = pm_patronymic m, ms_surface = display m, ms_quote = None,
     ms_region = pm_region m, ms_before = None, ms_after = None\<rparr>"

definition nothing_decided :: kept_decisions where
  "nothing_decided = \<lparr>kd_same = [], kd_overrides = [], kd_aliases = [], kd_figurants = [], kd_removed = []\<rparr>"

lemma popov_sources_tidy: "list_all (tidy russian \<circ> mention_of) (map popov_source popovs)"
  by code_simp

lemma no_model_names: "names_of u by_forms records None es \<noteq> None"
  by (simp add: names_of_def Let_def)

lemma popov_ids_distinct: "distinct (map ms_id (map popov_source popovs))"
  by (simp add: popovs_def popov_def popov_source_def)


end
