(* ===== verification/Identity_Tables.thy ===== *)
theory Identity_Tables
  imports Identity_Rebuild
begin

text \<open>
  The tables of the canonical identity and the operations that write them: the end of
  \<open>EntityCollector.run\<close>, \<open>disputes.py\<close> (merge, decide, merge the clear pairs, reset),
  \<open>overrides.py\<close> and \<open>removals.py\<close>. Foreign keys of a group cascade. What the stages after
  identity keep of a group (\<open>IdentityDownstream\<close>) is a state of its own with a parameter
  \<open>followers\<close>; of an article only whether it is stored and its date are read. A row number is
  never given twice.
\<close>

section \<open>The tables\<close>

record group_row =
  group_id :: nat
  group_key :: ustr
  group_name :: ustr
  group_variants :: counter
  group_mention_count :: nat
  group_article_count :: nat
  group_event_types :: "(string, nat) dict"
  group_last_published :: "nat option"
  group_gender :: "string option"
  group_source :: string
  group_regions :: counter

record charge_row =
  charge_group :: nat
  charge_event :: nat
  charge_article :: ustr
  charge_other_targets :: nat
  charge_quote :: ustr

record role_row =
  role_group :: nat
  role_name :: string
  role_kind :: "string option"
  role_method :: string
  role_reason :: ustr
  role_quote :: ustr

record pair_decision =
  pair_of :: "ustr \<times> ustr"
  pair_verdict :: string
  pair_source :: string

record 'd identity_db =
  groups :: "group_row list"
  group_mentions_rows :: "(nat \<times> nat) list"
  group_figurants :: "(nat \<times> ustr) list"
  charges :: "charge_row list"
  roles :: "role_row list"
  decisions :: "pair_decision list"
  overrides :: "(ustr, ustr) dict"
  removals :: "(ustr, ustr) dict"
  next_group :: nat
  downstream :: 'd

text \<open>\<open>session.delete\<close> of a group: the rows that point to it go with it.\<close>

definition without_group :: "nat \<Rightarrow> 'd identity_db \<Rightarrow> 'd identity_db" where
  "without_group i db = db\<lparr>
     groups := filter (\<lambda>g. group_id g \<noteq> i) (groups db),
     group_mentions_rows := filter (\<lambda>(g, _). g \<noteq> i) (group_mentions_rows db),
     group_figurants := filter (\<lambda>(g, _). g \<noteq> i) (group_figurants db),
     charges := filter (\<lambda>c. charge_group c \<noteq> i) (charges db),
     roles := filter (\<lambda>r. role_group r \<noteq> i) (roles db)\<rparr>"

definition group_with_key :: "ustr \<Rightarrow> 'd identity_db \<Rightarrow> group_row option" where
  "group_with_key key db = find (\<lambda>g. group_key g = key) (groups db)"

definition mentions_of_group :: "nat \<Rightarrow> 'd identity_db \<Rightarrow> nat list" where
  "mentions_of_group i db = map snd (filter (\<lambda>(g, _). g = i) (group_mentions_rows db))"

section \<open>Merging two groups\<close>

definition role_rank :: "string \<Rightarrow> nat option" where
  "role_rank role = map_of [(''figurant'', 3), (''possible'', 2), (''mentioned'', 1), (''unclear'', 0)] role"

definition stronger_role :: "string \<Rightarrow> string \<Rightarrow> bool" where
  "stronger_role a b \<longleftrightarrow> (case (role_rank a, role_rank b) of (Some x, Some y) \<Rightarrow> y < x | _ \<Rightarrow> False)"

definition sum_counters :: "counter \<Rightarrow> counter \<Rightarrow> counter" where
  "sum_counters a b = most_common (counter_update (counter_update [] a) b)"

text \<open>\<open>Counter(a) + Counter(b)\<close>: positive counts only.\<close>

definition add_events :: "(string, nat) dict \<Rightarrow> (string, nat) dict \<Rightarrow> (string, nat) dict" where
  "add_events a b =
     filter (\<lambda>(_, n). 0 < n)
       (map (\<lambda>(k, n). (k, n + (case dict_get b k of Some m \<Rightarrow> m | None \<Rightarrow> 0))) a
        @ filter (\<lambda>(k, _). k \<notin> set (dict_keys a)) b)"

text \<open>
  The articles of a list of mentions that are still stored, with their dates: \<open>article_of\<close>
  is the extraction's, \<open>published\<close> the ingestion's (\<open>None\<close> when the article is gone).
\<close>

record articles_view =
  article_of_mention :: "nat \<Rightarrow> nat option"
  published_at_of :: "nat \<Rightarrow> nat option option"

definition published_of :: "articles_view \<Rightarrow> nat list \<Rightarrow> nat option list" where
  "published_of view ms =
     concat (map (\<lambda>a. case published_at_of view a of None \<Rightarrow> [] | Some d \<Rightarrow> [d])
       (unique (concat (map (\<lambda>m. case article_of_mention view m of None \<Rightarrow> [] | Some a \<Rightarrow> [a]) ms))))"

definition latest :: "nat option list \<Rightarrow> nat option" where
  "latest dates = (case concat (map (\<lambda>d. case d of None \<Rightarrow> [] | Some x \<Rightarrow> [x]) dates) of
     [] \<Rightarrow> None | d # ds \<Rightarrow> Some (fold max ds d))"

definition kept_of :: "group_row \<Rightarrow> group_row \<Rightarrow> group_row \<times> group_row" where
  "kept_of a b = (if keeps_first (group_key a, group_mention_count a) (group_key b, group_mention_count b)
     then (a, b) else (b, a))"

text \<open>The role of the kept group: the stronger of the two.\<close>

definition merged_roles :: "nat \<Rightarrow> nat \<Rightarrow> role_row list \<Rightarrow> role_row list" where
  "merged_roles keep drop' rs =
     (case (find (\<lambda>r. role_group r = drop') rs, find (\<lambda>r. role_group r = keep) rs) of
        (Some dropped, None) \<Rightarrow> update_rows (\<lambda>r. role_group r = drop') (\<lambda>r. r\<lparr>role_group := keep\<rparr>) rs
      | (Some dropped, Some kept) \<Rightarrow>
          if stronger_role (role_name dropped) (role_name kept)
          then update_rows (\<lambda>r. role_group r = drop') (\<lambda>r. r\<lparr>role_group := keep\<rparr>)
                 (filter (\<lambda>r. role_group r \<noteq> keep) rs)
          else rs
      | _ \<Rightarrow> rs)"

text \<open>The kept group's row, \<open>ms\<close> being its mentions now.\<close>

definition merged_row :: "articles_view \<Rightarrow> nat list \<Rightarrow> group_row \<Rightarrow> group_row \<Rightarrow> group_row" where
  "merged_row view ms keep dropped =
     (let dates = published_of view ms in
      keep\<lparr>group_variants := sum_counters (group_variants keep) (group_variants dropped),
           group_regions := sum_counters (group_regions keep) (group_regions dropped),
           group_event_types := add_events (group_event_types keep) (group_event_types dropped),
           group_gender := (case group_gender keep of
               Some g \<Rightarrow> if g = [] then group_gender dropped else Some g
             | None \<Rightarrow> group_gender dropped),
           group_mention_count := length ms,
           group_article_count := length dates,
           group_last_published := latest dates\<rparr>)"

definition merge_groups ::
  "articles_view \<Rightarrow> (nat \<Rightarrow> nat \<Rightarrow> 'd \<Rightarrow> 'd) \<Rightarrow> group_row \<Rightarrow> group_row \<Rightarrow> 'd identity_db \<Rightarrow> 'd identity_db" where
  "merge_groups view followers a b db =
     (let (keep, dropped) = kept_of a b; k = group_id keep; d = group_id dropped;
          links = map (\<lambda>(g, m). (if g = d then k else g, m)) (group_mentions_rows db);
          row = merged_row view (map snd (filter (\<lambda>(g, _). g = k) links)) keep dropped
      in without_group d (db\<lparr>
           group_mentions_rows := links,
           charges := update_rows (\<lambda>c. charge_group c = d) (\<lambda>c. c\<lparr>charge_group := k\<rparr>) (charges db),
           downstream := followers k d (downstream db),
           roles := merged_roles k d (roles db),
           groups := update_rows (\<lambda>g. group_id g = k) (\<lambda>_. row) (groups db)\<rparr>))"

section \<open>Decisions\<close>

definition SAME :: string where "SAME = ''same''"
definition DIFFERENT :: string where "DIFFERENT = ''different''"
definition MANUAL :: string where "MANUAL = ''manual''"
definition BY_RF :: string where "BY_RF = ''rf''"
definition BY_REGION :: string where "BY_REGION = ''region''"

definition record_decision :: "ustr \<times> ustr \<Rightarrow> string \<Rightarrow> string \<Rightarrow> pair_decision list \<Rightarrow> pair_decision list" where
  "record_decision keys verdict source ds =
     (if list_ex (\<lambda>d. pair_of d = keys) ds
      then update_rows (\<lambda>d. pair_of d = keys) (\<lambda>d. d\<lparr>pair_verdict := verdict, pair_source := source\<rparr>) ds
      else ds @ [\<lparr>pair_of = keys, pair_verdict = verdict, pair_source = source\<rparr>])"

text \<open>\<open>Inl\<close> is the \<open>ValueError\<close> of an unknown decision; else the id of the merged group, if any.\<close>

definition decide_pair ::
  "articles_view \<Rightarrow> (nat \<Rightarrow> nat \<Rightarrow> 'd \<Rightarrow> 'd) \<Rightarrow> ustr \<Rightarrow> ustr \<Rightarrow> string \<Rightarrow> string
     \<Rightarrow> 'd identity_db \<Rightarrow> (string + nat option) \<times> 'd identity_db" where
  "decide_pair view followers first second verdict source db =
     (if verdict \<noteq> SAME \<and> verdict \<noteq> DIFFERENT then (Inl (''unknown decision: '' @ verdict), db)
      else
        let keys = pair_keys first second;
            db1 = db\<lparr>decisions := record_decision keys verdict source (decisions db)\<rparr> in
        if verdict \<noteq> SAME then (Inr None, db1)
        else
          (case filter (\<lambda>g. group_key g = fst keys \<or> group_key g = snd keys) (groups db1) of
             [a, b] \<Rightarrow> (Inr (Some (group_id (fst (kept_of a b)))), merge_groups view followers a b db1)
           | _ \<Rightarrow> (Inr None, db1)))"

definition ref_of_group :: "group_row \<Rightarrow> entity_ref" where
  "ref_of_group g = \<lparr>ref_id = group_id g, ref_key = group_key g, ref_name = group_name g,
     ref_count = group_mention_count g\<rparr>"

definition only_respelled :: "dispute \<Rightarrow> bool" where
  "only_respelled p = (\<not> ending_differs (hd (key_words (ref_key (dis_left p)))) (hd (key_words (ref_key (dis_right p)))))"

definition clear_source :: "nat list \<Rightarrow> (nat \<Rightarrow> nat) \<Rightarrow> dispute \<Rightarrow> string option" where
  "clear_source listed seen p =
     (let l = ref_id (dis_left p); r = ref_id (dis_right p) in
      if 1 < seen l \<or> 1 < seen r then None
      else if dis_kind p = SIMILAR \<and> only_respelled p then None
      else if l \<in> set listed \<or> r \<in> set listed then Some BY_RF
      else if dis_kind p = PATRONYMIC then Some BY_REGION
      else None)"

definition merge_clear_pairs ::
  "unicode \<Rightarrow> articles_view \<Rightarrow> (nat \<Rightarrow> nat \<Rightarrow> 'd \<Rightarrow> 'd) \<Rightarrow> nat list \<Rightarrow> 'd identity_db
     \<Rightarrow> (string, nat) dict \<times> 'd identity_db" where
  "merge_clear_pairs u view followers listed db =
     (let pairs = filter (\<lambda>p. dis_kind p \<noteq> NAME_PATRONYMIC)
            (find_pairs u (map ref_of_group (groups db)) (map pair_of (decisions db)));
          sides = concat (map (\<lambda>p. [ref_id (dis_left p), ref_id (dis_right p)]) pairs);
          seen = (\<lambda>i. length (filter (\<lambda>j. j = i) sides)) in
      fold (\<lambda>p (merged, db). case clear_source listed seen p of
          None \<Rightarrow> (merged, db)
        | Some source \<Rightarrow>
            (dict_set source ((case dict_get merged source of Some n \<Rightarrow> n | None \<Rightarrow> 0) + 1) merged,
             snd (decide_pair view followers (ref_key (dis_left p)) (ref_key (dis_right p)) SAME source db)))
        pairs ([], db))"

definition reset_decisions :: "'d identity_db \<Rightarrow> nat \<times> 'd identity_db" where
  "reset_decisions db = (length (decisions db), db\<lparr>decisions := []\<rparr>)"

section \<open>Corrections and removals\<close>

definition correct_name ::
  "unicode \<Rightarrow> articles_view \<Rightarrow> (nat \<Rightarrow> nat \<Rightarrow> 'd \<Rightarrow> 'd) \<Rightarrow> group_row \<Rightarrow> ustr
     \<Rightarrow> 'd identity_db \<Rightarrow> (string + ustr) \<times> 'd identity_db" where
  "correct_name u view followers g name db =
     (let cleaned = clean_name u name in
      if cleaned = [] then (Inl ''an empty name'', db)
      else
        let g' = g\<lparr>group_name := cleaned, group_source := MANUAL\<rparr>;
            db1 = db\<lparr>overrides := dict_set (group_key g) cleaned (overrides db),
                     groups := update_rows (\<lambda>x. group_id x = group_id g) (\<lambda>_. g') (groups db)\<rparr>;
            region = (case snd (split_key (group_key g)) of
                Some r \<Rightarrow> if r = [] then [] else REGION_SEP @ r | None \<Rightarrow> []) in
        (case find (\<lambda>x. group_key x = name_key u cleaned @ region \<and> group_id x \<noteq> group_id g) (groups db1) of
           None \<Rightarrow> (Inr cleaned, db1)
         | Some other \<Rightarrow> (Inr cleaned, merge_groups view followers g' other db1)))"

definition remove_group :: "group_row \<Rightarrow> 'd identity_db \<Rightarrow> 'd identity_db" where
  "remove_group g db =
     without_group (group_id g) (db\<lparr>removals := dict_set (group_key g) (group_name g) (removals db)\<rparr>)"

definition restore_group :: "ustr \<Rightarrow> 'd identity_db \<Rightarrow> bool \<times> 'd identity_db" where
  "restore_group key db =
     (case dict_get (removals db) key of
        None \<Rightarrow> (False, db)
      | Some _ \<Rightarrow> (True, db\<lparr>removals := dict_del key (removals db)\<rparr>))"

section \<open>Writing a rebuild\<close>

text \<open>
  The rows of one entity: \<open>published\<close>, \<open>articles\<close> and \<open>events\<close> are what the rebuild read of its
  mentions, \<open>figurant_facts\<close> the article, event type and date of an identified figurant.
\<close>

record mention_facts =
  fact_published :: "nat \<Rightarrow> nat option"
  fact_article :: "nat \<Rightarrow> nat"
  fact_events :: "nat \<Rightarrow> string list"
  figurant_facts :: "ustr \<Rightarrow> nat \<times> string \<times> nat option"

definition count_events :: "string list \<Rightarrow> (string, nat) dict" where
  "count_events kinds = map (\<lambda>k. (k, length (filter (\<lambda>x. x = k) kinds))) (unique kinds)"

definition group_of_entity ::
  "mention_facts \<Rightarrow> nat \<Rightarrow> entity \<Rightarrow> identified_figurant list \<Rightarrow> group_row" where
  "group_of_entity facts i e figurants =
     (let unnamed = map (\<lambda>f. figurant_facts facts (fig_key f)) figurants in
      \<lparr>group_id = i, group_key = en_key e, group_name = en_name e,
       group_variants = most_common (en_variants e),
       group_mention_count = length (en_mentions e),
       group_article_count = length (unique (map (fact_article facts) (en_mentions e) @ map fst unnamed)),
       group_event_types = count_events (concat (map (fact_events facts) (en_mentions e))
          @ map (\<lambda>(_, event, _). event) unnamed),
       group_last_published = latest (map (fact_published facts) (en_mentions e)
          @ map (\<lambda>(_, _, date). date) unnamed),
       group_gender = en_gender e, group_source = en_source e,
       group_regions = most_common (en_regions e)\<rparr>)"

fun write_groups ::
  "mention_facts \<Rightarrow> (ustr, identified_figurant list) dict \<Rightarrow> entity list \<Rightarrow> 'd identity_db \<Rightarrow> 'd identity_db" where
  "write_groups facts evidence [] db = db"
| "write_groups facts evidence (e # es) db =
     (let figurants = (case dict_get evidence (en_key e) of Some fs \<Rightarrow> fs | None \<Rightarrow> []);
          i = next_group db in
      write_groups facts evidence es (db\<lparr>
        groups := groups db @ [group_of_entity facts i e figurants],
        group_mentions_rows := group_mentions_rows db @ map (\<lambda>m. (i, m)) (en_mentions e),
        group_figurants := group_figurants db @ map (\<lambda>f. (i, fig_key f)) figurants,
        next_group := Suc i\<rparr>))"

text \<open>
  The writing transaction: every group is deleted with what hangs on it (the downstream's
  rows too, \<open>forget\<close>), the new ones written, then the charges read anew (\<open>charges_of\<close>).
\<close>

definition write_rebuild ::
  "mention_facts \<Rightarrow> ('d \<Rightarrow> 'd) \<Rightarrow> ('d identity_db \<Rightarrow> charge_row list)
     \<Rightarrow> entity list \<Rightarrow> (ustr, identified_figurant list) dict \<Rightarrow> 'd identity_db \<Rightarrow> 'd identity_db" where
  "write_rebuild facts forget charges_of es evidence db =
     (let empty = db\<lparr>groups := [], group_mentions_rows := [], group_figurants := [], charges := [],
            roles := [], downstream := forget (downstream db)\<rparr>;
          written = write_groups facts evidence es empty
      in written\<lparr>charges := charges_of written\<rparr>)"

end
