(* ===== verification/Identity_Consistency.thy ===== *)
theory Identity_Consistency
  imports Identity_Tables
begin

text \<open>
  The invariant of the identity's tables, kept by every operation that writes them: unique
  keys, no row that points to a group that is gone, no mention in two groups, and counts
  that are right.
\<close>

section \<open>The invariant\<close>

definition group_ids :: "'d identity_db \<Rightarrow> nat set" where
  "group_ids db = group_id ` set (groups db)"

definition rows_ok :: "'d identity_db \<Rightarrow> bool" where
  "rows_ok db \<longleftrightarrow> distinct (map group_id (groups db)) \<and> distinct (map group_key (groups db))
     \<and> (\<forall>i \<in> group_ids db. i < next_group db)"

definition links_ok :: "'d identity_db \<Rightarrow> bool" where
  "links_ok db \<longleftrightarrow> distinct (map snd (group_mentions_rows db))
     \<and> fst ` set (group_mentions_rows db) \<subseteq> group_ids db
     \<and> fst ` set (group_figurants db) \<subseteq> group_ids db
     \<and> charge_group ` set (charges db) \<subseteq> group_ids db
     \<and> role_group ` set (roles db) \<subseteq> group_ids db \<and> distinct (map role_group (roles db))"

definition counts_ok :: "'d identity_db \<Rightarrow> bool" where
  "counts_ok db \<longleftrightarrow> (\<forall>g \<in> set (groups db). group_mention_count g = length (mentions_of_group (group_id g) db))"

definition decisions_ok :: "'d identity_db \<Rightarrow> bool" where
  "decisions_ok db \<longleftrightarrow> distinct (map pair_of (decisions db))
     \<and> (\<forall>d \<in> set (decisions db). fst (pair_of d) \<le> snd (pair_of d))
     \<and> distinct (dict_keys (overrides db)) \<and> distinct (dict_keys (removals db))"

definition identity_ok :: "'d identity_db \<Rightarrow> bool" where
  "identity_ok db \<longleftrightarrow> rows_ok db \<and> links_ok db \<and> counts_ok db \<and> decisions_ok db"

lemmas identity_parts = rows_ok_def links_ok_def counts_ok_def decisions_ok_def group_ids_def

text \<open>A change that leaves the groups and what points to them alone.\<close>

lemma identity_ok_cong:
  assumes "groups db' = groups db" "group_mentions_rows db' = group_mentions_rows db"
    "group_figurants db' = group_figurants db" "charges db' = charges db" "roles db' = roles db"
    "next_group db' = next_group db"
  shows "rows_ok db' = rows_ok db" "links_ok db' = links_ok db" "counts_ok db' = counts_ok db"
  using assms by (simp_all add: identity_parts mentions_of_group_def)

section \<open>A group deleted\<close>

lemma without_group_fields [simp]:
  "groups (without_group i db) = filter (\<lambda>g. group_id g \<noteq> i) (groups db)"
  "group_mentions_rows (without_group i db) = filter (\<lambda>(g, _). g \<noteq> i) (group_mentions_rows db)"
  "group_figurants (without_group i db) = filter (\<lambda>(g, _). g \<noteq> i) (group_figurants db)"
  "charges (without_group i db) = filter (\<lambda>c. charge_group c \<noteq> i) (charges db)"
  "roles (without_group i db) = filter (\<lambda>r. role_group r \<noteq> i) (roles db)"
  "decisions (without_group i db) = decisions db" "overrides (without_group i db) = overrides db"
  "removals (without_group i db) = removals db" "next_group (without_group i db) = next_group db"
  by (simp_all add: without_group_def)

lemma without_group_rows: "rows_ok db \<Longrightarrow> rows_ok (without_group i db)"
  by (auto simp: identity_parts intro: distinct_map_filter)

lemma without_group_links: "links_ok db \<Longrightarrow> links_ok (without_group i db)"
  by (auto simp: identity_parts intro: distinct_map_filter)

lemma without_group_mentions: "j \<noteq> i \<Longrightarrow> mentions_of_group j (without_group i db) = mentions_of_group j db"
  by (auto simp: mentions_of_group_def intro!: arg_cong [where f = "map snd"] filter_cong)

lemma without_group_ok: "identity_ok db \<Longrightarrow> identity_ok (without_group i db)"
  using without_group_rows without_group_links
  by (auto simp: identity_ok_def counts_ok_def decisions_ok_def without_group_mentions)

section \<open>Two groups merged\<close>

lemma kept_of_cases: "kept_of a b = (a, b) \<or> kept_of a b = (b, a)"
  by (simp add: kept_of_def)

text \<open>The order of the two does not matter: the database may return them in any.\<close>

lemma kept_of_commute: "group_key a \<noteq> group_key b \<Longrightarrow> kept_of a b = kept_of b a"
  by (auto simp: kept_of_def keeps_first_def)

lemma merged_roles_ok:
  assumes "distinct (map role_group rs)" and "k \<noteq> d"
  shows "distinct (map role_group (filter (\<lambda>r. role_group r \<noteq> d) (merged_roles k d rs)))"
    and "role_group ` set (filter (\<lambda>r. role_group r \<noteq> d) (merged_roles k d rs)) \<subseteq> insert k (role_group ` set rs)"
proof -
  let ?moved = "update_rows (\<lambda>r. role_group r = d) (\<lambda>r. r\<lparr>role_group := k\<rparr>)"
  have moved: "distinct (map role_group (?moved xs))" if "distinct (map role_group xs)" "k \<notin> role_group ` set xs" for xs
  proof -
    have "map role_group (?moved xs) = map (\<lambda>i. if i = d then k else i) (map role_group xs)"
      by (simp add: update_rows_def)
    moreover have "inj_on (\<lambda>i. if i = d then k else i) (set (map role_group xs))"
      using that(2) by (auto simp: inj_on_def)
    ultimately show ?thesis using that(1) by (simp only: distinct_map)
  qed
  have "distinct (map role_group (merged_roles k d rs))"
    unfolding merged_roles_def using assms(1)
    by (auto split: option.split simp: find_None_iff distinct_map_filter intro!: moved)
  then show "distinct (map role_group (filter (\<lambda>r. role_group r \<noteq> d) (merged_roles k d rs)))"
    by (rule distinct_map_filter)
  show "role_group ` set (filter (\<lambda>r. role_group r \<noteq> d) (merged_roles k d rs)) \<subseteq> insert k (role_group ` set rs)"
    by (auto simp: merged_roles_def set_update_rows split: option.splits if_splits)
qed

lemma merge_groups_ok:
  assumes ok: "identity_ok db" and a: "a \<in> set (groups db)" and b: "b \<in> set (groups db)"
    and "group_id a \<noteq> group_id b"
  shows "identity_ok (merge_groups view followers a b db)"
proof -
  obtain keep dropped where kept: "kept_of a b = (keep, dropped)" by fastforce
  then have sides: "keep \<in> set (groups db)" "dropped \<in> set (groups db)" "group_id keep \<noteq> group_id dropped"
    using kept_of_cases [of a b] assms by auto
  let ?k = "group_id keep" and ?d = "group_id dropped"
  let ?links = "map (\<lambda>(g, m). (if g = ?d then ?k else g, m)) (group_mentions_rows db)"
  define db' where "db' = merge_groups view followers a b db"
  define keep' where "keep' = merged_row view (map snd (filter (\<lambda>(g, _). g = ?k) ?links)) keep dropped"
  have keep': "group_id keep' = ?k" "group_key keep' = group_key keep"
    "group_mention_count keep' = length (map snd (filter (\<lambda>(g, _). g = ?k) ?links))"
    by (simp_all add: keep'_def merged_row_def Let_def)
  have groups: "groups db' = filter (\<lambda>g. group_id g \<noteq> ?d) (update_rows (\<lambda>g. group_id g = ?k) (\<lambda>_. keep') (groups db))"
    by (simp add: db'_def merge_groups_def kept keep'_def Let_def)
  have fields: "group_mentions_rows db' = filter (\<lambda>(g, _). g \<noteq> ?d) ?links"
    "group_figurants db' = filter (\<lambda>(g, _). g \<noteq> ?d) (group_figurants db)"
    "charges db' = filter (\<lambda>c. charge_group c \<noteq> ?d)
       (update_rows (\<lambda>c. charge_group c = ?d) (\<lambda>c. c\<lparr>charge_group := ?k\<rparr>) (charges db))"
    "roles db' = filter (\<lambda>r. role_group r \<noteq> ?d) (merged_roles ?k ?d (roles db))"
    "decisions db' = decisions db" "overrides db' = overrides db" "removals db' = removals db"
    "next_group db' = next_group db"
    by (simp_all add: db'_def merge_groups_def kept Let_def)
  have rows: "distinct (map group_id (groups db))" "distinct (map group_key (groups db))"
    using ok by (simp_all add: identity_ok_def rows_ok_def)
  have key_of_keep: "group_key r = group_key keep" if "r \<in> set (groups db)" "group_id r = ?k" for r
    using distinct_map_eq [OF rows(1) that(1) sides(1)] that(2) by simp
  have keys: "map group_key (update_rows (\<lambda>g. group_id g = ?k) (\<lambda>_. keep') (groups db)) = map group_key (groups db)"
    using key_of_keep by (auto simp: update_rows_def keep'(2))
  have ids: "map group_id (update_rows (\<lambda>g. group_id g = ?k) (\<lambda>_. keep') (groups db)) = map group_id (groups db)"
    by (rule map_update_rows) (simp add: keep'(1))
  have group_ids: "group_ids db' = group_ids db - {?d}"
  proof -
    have "group_id ` set (filter (\<lambda>g. group_id g \<noteq> ?d) xs) = group_id ` set xs - {?d}" for xs :: "group_row list" by auto
    moreover have "group_id ` set (update_rows (\<lambda>g. group_id g = ?k) (\<lambda>_. keep') (groups db)) = group_id ` set (groups db)"
      using arg_cong [OF ids, of set] by simp
    ultimately show ?thesis unfolding group_ids_def groups by (simp only:)
  qed
  have all_links: "?links = filter (\<lambda>(g, _). g \<noteq> ?d) ?links"
    using sides(3) by (intro filter_True [symmetric]) (auto split: if_splits)
  have k_in: "?k \<in> group_ids db'" using sides unfolding group_ids by (simp add: group_ids_def)
  have "rows_ok db'"
    using ok keys ids rows unfolding identity_ok_def rows_ok_def groups fields group_ids
    by (auto intro!: distinct_map_filter)
  moreover have "links_ok db'"
  proof -
    have links: "links_ok db" using ok by (simp add: identity_ok_def)
    have snds: "map snd ?links = map snd (group_mentions_rows db)" by (induction "group_mentions_rows db") auto
    have "distinct (map snd (group_mentions_rows db'))"
      unfolding fields(1) all_links [symmetric] snds using links by (simp add: links_ok_def)
    moreover have "fst ` set (group_mentions_rows db') \<subseteq> group_ids db'"
    proof
      fix x assume "x \<in> fst ` set (group_mentions_rows db')"
      then obtain g m where g: "(g, m) \<in> set (group_mentions_rows db)" "x = (if g = ?d then ?k else g)"
        unfolding fields(1) by auto
      have "g \<in> group_ids db" using links g(1) by (force simp: links_ok_def)
      then show "x \<in> group_ids db'" using k_in g(2) unfolding group_ids by (cases "g = ?d") simp_all
    qed
    moreover have "fst ` set (group_figurants db') \<subseteq> group_ids db'"
    proof
      fix x assume "x \<in> fst ` set (group_figurants db')"
      then obtain f where "(x, f) \<in> set (group_figurants db)" "x \<noteq> ?d" unfolding fields(2) by auto
      then show "x \<in> group_ids db'" using links unfolding group_ids links_ok_def by force
    qed
    moreover have "charge_group ` set (charges db') \<subseteq> group_ids db'"
    proof
      fix x assume "x \<in> charge_group ` set (charges db')"
      then obtain c where c: "c \<in> set (charges db)" "x = (if charge_group c = ?d then ?k else charge_group c)"
        unfolding fields(3) by (auto simp: set_update_rows)
      have "charge_group c \<in> group_ids db" using links c(1) by (force simp: links_ok_def)
      then show "x \<in> group_ids db'" using k_in c(2) unfolding group_ids by (cases "charge_group c = ?d") simp_all
    qed
    moreover have "role_group ` set (roles db') \<subseteq> group_ids db'"
    proof
      fix x assume x: "x \<in> role_group ` set (roles db')"
      then have "x \<noteq> ?d" unfolding fields(4) by auto
      have "distinct (map role_group (roles db))" using links by (simp add: links_ok_def)
      then have "x \<in> insert ?k (role_group ` set (roles db))"
        using merged_roles_ok(2) [OF _ sides(3), of "roles db"] x unfolding fields(4) by blast
      then show "x \<in> group_ids db'"
        using links k_in \<open>x \<noteq> ?d\<close> unfolding group_ids links_ok_def by blast
    qed
    ultimately show ?thesis
      using merged_roles_ok(1) [OF _ sides(3), of "roles db"] links unfolding links_ok_def fields(4) by blast
  qed
  moreover have "counts_ok db'"
    unfolding counts_ok_def
  proof
    fix g assume g: "g \<in> set (groups db')"
    then have gd: "group_id g \<noteq> ?d" by (simp add: groups)
    have of_g: "mentions_of_group (group_id g) db' = map snd (filter (\<lambda>(x, _). x = group_id g) ?links)"
      unfolding mentions_of_group_def fields(1) all_links [symmetric] ..
    show "group_mention_count g = length (mentions_of_group (group_id g) db')"
    proof (cases "group_id g = ?k")
      case True
      then have "g = keep'" using g by (auto simp: groups set_update_rows split: if_splits)
      then show ?thesis using of_g keep'(1,3) by simp
    next
      case False
      then have old: "g \<in> set (groups db)" using g keep'(1) by (auto simp: groups set_update_rows split: if_splits)
      have "map snd (filter (\<lambda>(x, _). x = group_id g) ?links) = mentions_of_group (group_id g) db"
        unfolding mentions_of_group_def
      proof -
        have "map snd (filter (\<lambda>(x, _). x = group_id g) (map (\<lambda>(g, m). (if g = ?d then ?k else g, m)) xs))
            = map snd (filter (\<lambda>(x, _). x = group_id g) xs)" for xs :: "(nat \<times> nat) list"
          using False gd by (induction xs) (auto split: if_splits)
        then show "map snd (filter (\<lambda>(x, _). x = group_id g) ?links)
            = map snd (filter (\<lambda>(x, _). x = group_id g) (group_mentions_rows db))" .
      qed
      then show ?thesis using ok old of_g by (simp add: identity_ok_def counts_ok_def)
    qed
  qed
  moreover have "decisions_ok db'" using ok by (simp add: identity_ok_def decisions_ok_def fields)
  ultimately show ?thesis unfolding db'_def identity_ok_def by blast
qed

text \<open>
  The figurants an operator identified as the dropped group's person are not among what a
  merge carries over: their rows go with the group.
\<close>

lemma merge_forgets_figurants:
  assumes "kept_of a b = (keep, dropped)"
  shows "(g, f) \<in> set (group_figurants (merge_groups view followers a b db)) \<longleftrightarrow>
    g \<noteq> group_id dropped \<and> (g, f) \<in> set (group_figurants db)"
  by (auto simp: merge_groups_def assms Let_def)

section \<open>Every operation\<close>

lemma record_decision_ok:
  assumes "distinct (map pair_of ds)" and "\<forall>d \<in> set ds. fst (pair_of d) \<le> snd (pair_of d)" and "fst keys \<le> snd keys"
  shows "distinct (map pair_of (record_decision keys verdict source ds))"
    and "\<forall>d \<in> set (record_decision keys verdict source ds). fst (pair_of d) \<le> snd (pair_of d)"
proof -
  have "map pair_of (update_rows (\<lambda>d. pair_of d = keys) (\<lambda>d. d\<lparr>pair_verdict := verdict, pair_source := source\<rparr>) ds)
      = map pair_of ds"
    by (rule map_update_rows) simp
  then show "distinct (map pair_of (record_decision keys verdict source ds))"
    using assms(1) by (auto simp: record_decision_def list_ex_iff)
  show "\<forall>d \<in> set (record_decision keys verdict source ds). fst (pair_of d) \<le> snd (pair_of d)"
    using assms(2,3) by (auto simp: record_decision_def set_update_rows)
qed

lemma record_decision_nonempty: "record_decision keys verdict source ds \<noteq> []"
  by (cases ds) (simp_all add: record_decision_def)

lemma pair_keys_ordered: "fst (pair_keys a b) \<le> snd (pair_keys a b)"
  by (auto simp: pair_keys_def)

lemma decide_pair_ok:
  assumes "identity_ok db"
  shows "identity_ok (snd (decide_pair view followers a b verdict source db))"
proof (cases "verdict \<noteq> SAME \<and> verdict \<noteq> DIFFERENT")
  case True
  then show ?thesis using assms by (simp add: decide_pair_def)
next
  case False
  let ?db = "db\<lparr>decisions := record_decision (pair_keys a b) verdict source (decisions db)\<rparr>"
  have "decisions_ok ?db"
    using assms record_decision_ok [OF _ _ pair_keys_ordered, of "decisions db"]
    by (simp add: identity_ok_def decisions_ok_def)
  then have ok: "identity_ok ?db"
    using assms identity_ok_cong [of ?db db] by (simp add: identity_ok_def)
  let ?found = "filter (\<lambda>g. group_key g = fst (pair_keys a b) \<or> group_key g = snd (pair_keys a b)) (groups ?db)"
  have "identity_ok (merge_groups view followers x y ?db)" if xy: "?found = [x, y]" for x y
  proof (rule merge_groups_ok [OF ok])
    have "x \<in> set ?found" "y \<in> set ?found" unfolding xy by simp_all
    then show "x \<in> set (groups ?db)" "y \<in> set (groups ?db)" by simp_all
    have "distinct (map group_id (groups ?db))" using ok by (simp add: identity_ok_def rows_ok_def)
    then have "distinct (map group_id ?found)" by (rule distinct_map_filter)
    then show "group_id x \<noteq> group_id y" unfolding xy by simp
  qed
  then show ?thesis
    using False ok by (auto simp: decide_pair_def Let_def split: list.split)
qed

lemma merge_clear_pairs_ok:
  assumes "identity_ok db"
  shows "identity_ok (snd (merge_clear_pairs u view followers listed db))"
proof -
  have "identity_ok (snd (fold (\<lambda>p (merged, db). case clear_source listed seen p of
          None \<Rightarrow> (merged, db)
        | Some source \<Rightarrow>
            (dict_set source ((case dict_get merged source of Some n \<Rightarrow> n | None \<Rightarrow> 0) + 1) merged,
             snd (decide_pair view followers (ref_key (dis_left p)) (ref_key (dis_right p)) SAME source db)))
        pairs (m, db)))" for seen pairs m
    using assms
  proof (induction pairs arbitrary: m db)
    case (Cons p pairs)
    show ?case
    proof (cases "clear_source listed seen p")
      case None
      then show ?thesis using Cons by simp
    next
      case (Some source)
      then show ?thesis using Cons.IH decide_pair_ok [OF Cons.prems] by simp
    qed
  qed simp
  then show ?thesis by (simp add: merge_clear_pairs_def Let_def)
qed

lemma correct_name_ok:
  assumes ok: "identity_ok db" and g: "g \<in> set (groups db)"
  shows "identity_ok (snd (correct_name u view followers g name db))"
proof (cases "clean_name u name = []")
  case True
  then show ?thesis using ok by (simp add: correct_name_def)
next
  case False
  let ?cleaned = "clean_name u name"
  let ?g = "g\<lparr>group_name := ?cleaned, group_source := MANUAL\<rparr>"
  let ?groups = "update_rows (\<lambda>x. group_id x = group_id g) (\<lambda>_. ?g) (groups db)"
  let ?db = "db\<lparr>overrides := dict_set (group_key g) ?cleaned (overrides db), groups := ?groups\<rparr>"
  have only: "x = g" if "x \<in> set (groups db)" "group_id x = group_id g" for x
    using ok g that distinct_map_eq by (fastforce simp: identity_ok_def rows_ok_def)
  have same: "map group_id ?groups = map group_id (groups db)" "map group_key ?groups = map group_key (groups db)"
    using only by (auto simp: update_rows_def)
  have counts: "counts_ok ?db"
    using ok g by (auto simp: identity_ok_def counts_ok_def mentions_of_group_def set_update_rows)
  have "group_ids ?db = group_ids db" using arg_cong [OF same(1), of set] by (simp add: group_ids_def)
  then have "rows_ok ?db" "links_ok ?db" "decisions_ok ?db"
    using ok same by (simp_all add: identity_ok_def rows_ok_def links_ok_def decisions_ok_def distinct_dict_set)
  then have ok': "identity_ok ?db" using counts by (simp add: identity_ok_def)
  have "identity_ok (merge_groups view followers ?g other ?db)"
    if other: "find (\<lambda>x. group_key x = k \<and> group_id x \<noteq> group_id g) (groups ?db) = Some other" for k other
  proof (rule merge_groups_ok [OF ok'])
    show "?g \<in> set (groups ?db)" using g by (force simp: set_update_rows)
    show "other \<in> set (groups ?db)" using find_first [OF other] by simp
    show "group_id ?g \<noteq> group_id other" using find_first [OF other] by simp
  qed
  then show ?thesis using False ok' by (simp add: correct_name_def Let_def split: option.split)
qed

lemma remove_group_ok: "identity_ok db \<Longrightarrow> identity_ok (remove_group g db)"
  unfolding remove_group_def
  by (rule without_group_ok)
    (use identity_ok_cong [of "db\<lparr>removals := dict_set (group_key g) (group_name g) (removals db)\<rparr>" db]
      in \<open>simp add: identity_ok_def decisions_ok_def distinct_dict_set\<close>)

lemma restore_group_ok: "identity_ok db \<Longrightarrow> identity_ok (snd (restore_group key db))"
  using identity_ok_cong [of "db\<lparr>removals := dict_del key (removals db)\<rparr>" db]
  by (auto simp: restore_group_def identity_ok_def decisions_ok_def dict_keys_del split: option.split)

lemma reset_decisions_ok: "identity_ok db \<Longrightarrow> identity_ok (snd (reset_decisions db))"
  using identity_ok_cong [of "db\<lparr>decisions := []\<rparr>" db]
  by (simp add: reset_decisions_def identity_ok_def decisions_ok_def)

text \<open>The rows of a rebuild, written entity by entity.\<close>

lemma write_groups_ok:
  assumes "identity_ok db" and "distinct (map group_key (groups db) @ map en_key es)"
    and "distinct (map snd (group_mentions_rows db) @ concat (map en_mentions es))"
  shows "identity_ok (write_groups facts evidence es db)"
  using assms
proof (induction es arbitrary: db)
  case (Cons e es)
  let ?figurants = "case dict_get evidence (en_key e) of Some fs \<Rightarrow> fs | None \<Rightarrow> []"
  let ?i = "next_group db"
  let ?db = "db\<lparr>groups := groups db @ [group_of_entity facts ?i e ?figurants],
        group_mentions_rows := group_mentions_rows db @ map (\<lambda>m. (?i, m)) (en_mentions e),
        group_figurants := group_figurants db @ map (\<lambda>f. (?i, fig_key f)) ?figurants,
        next_group := Suc ?i\<rparr>"
  have row: "group_id (group_of_entity facts ?i e fs) = ?i" "group_key (group_of_entity facts ?i e fs) = en_key e"
    "group_mention_count (group_of_entity facts ?i e fs) = length (en_mentions e)" for fs
    by (simp_all add: group_of_entity_def Let_def)
  have fresh: "?i \<notin> group_ids db" using Cons.prems(1) by (auto simp: identity_ok_def rows_ok_def)
  have ids: "group_ids ?db = insert ?i (group_ids db)" by (simp add: group_ids_def row)
  have "rows_ok ?db"
    using Cons.prems(1,2) fresh
    by (auto simp: identity_ok_def rows_ok_def ids row group_ids_def less_Suc_eq)
  moreover have "links_ok ?db"
    using Cons.prems(1,3) unfolding identity_ok_def links_ok_def ids
    by (auto simp: comp_def image_image)
  moreover have "counts_ok ?db"
  proof -
    have no_links: "(?i, m) \<notin> set (group_mentions_rows db)" for m
      using Cons.prems(1) fresh by (force simp: identity_ok_def links_ok_def)
    have "mentions_of_group g ?db = (if g = ?i then en_mentions e else mentions_of_group g db)" for g
      using no_links by (auto simp: mentions_of_group_def filter_empty_conv comp_def)
    moreover have "group_id g \<noteq> ?i" if "g \<in> set (groups db)" for g
      using fresh that unfolding group_ids_def by (metis imageI)
    ultimately show ?thesis
      using Cons.prems(1) by (simp add: identity_ok_def counts_ok_def row)
  qed
  moreover have "decisions_ok ?db" using Cons.prems(1) by (simp add: identity_ok_def decisions_ok_def)
  ultimately have ok: "identity_ok ?db" unfolding identity_ok_def by blast
  have "write_groups facts evidence (e # es) db = write_groups facts evidence es ?db" by (simp add: Let_def)
  moreover have "distinct (map group_key (groups ?db) @ map en_key es)" using Cons.prems(2) row by auto
  moreover have "distinct (map snd (group_mentions_rows ?db) @ concat (map en_mentions es))"
    using Cons.prems(3) by (auto simp: comp_def)
  ultimately show ?case using Cons.IH [OF ok] by simp
qed simp

lemma write_rebuild_ok:
  assumes "identity_ok db" and "distinct (map en_key es)" and "distinct (concat (map en_mentions es))"
    and "\<And>w. charge_group ` set (charges_of w) \<subseteq> group_ids w"
  shows "identity_ok (write_rebuild facts forget charges_of es evidence db)"
proof -
  let ?empty = "db\<lparr>groups := [], group_mentions_rows := [], group_figurants := [], charges := [],
            roles := [], downstream := forget (downstream db)\<rparr>"
  let ?w = "write_groups facts evidence es ?empty"
  have "identity_ok ?empty" using assms(1) by (simp add: identity_ok_def identity_parts)
  then have w: "identity_ok ?w" using assms(2,3) by (intro write_groups_ok) simp_all
  have "group_ids (?w\<lparr>charges := charges_of ?w\<rparr>) = group_ids ?w" by (simp add: group_ids_def)
  then have "identity_ok (?w\<lparr>charges := charges_of ?w\<rparr>)"
    using w assms(4) [of ?w]
    by (simp add: identity_ok_def rows_ok_def links_ok_def counts_ok_def decisions_ok_def mentions_of_group_def)
  then show ?thesis by (simp add: write_rebuild_def Let_def)
qed

section \<open>Reachable states\<close>

text \<open>
  What the program does to these tables. A rebuild writes what \<open>rebuild\<close> returned for
  collected mentions with ids of their own; the charges it reads anew are of written groups.
  The roles are the next step's: rows of groups that exist, one per group.
\<close>

definition empty_identity :: "'d \<Rightarrow> 'd identity_db" where
  "empty_identity d = \<lparr>groups = [], group_mentions_rows = [], group_figurants = [], charges = [], roles = [],
     decisions = [], overrides = [], removals = [], next_group = 1, downstream = d\<rparr>"

inductive identity_step :: "'d identity_db \<Rightarrow> 'd identity_db \<Rightarrow> bool" where
  rebuilt: "iterates_sets set_order \<Longrightarrow> distinct (map ms_id rows) \<Longrightarrow>
     \<forall>r \<in> set rows. tidy u (mention_of r) \<Longrightarrow>
     rebuild u set_order name_step kept rows = Some (es, evidence) \<Longrightarrow>
     (\<And>w. charge_group ` set (charges_of w) \<subseteq> group_ids w) \<Longrightarrow>
     identity_step db (write_rebuild facts forget charges_of es evidence db)"
| decided: "identity_step db (snd (decide_pair view followers a b verdict source db))"
| clear_merged: "identity_step db (snd (merge_clear_pairs u view followers listed db))"
| reset: "identity_step db (snd (reset_decisions db))"
| corrected: "g \<in> set (groups db) \<Longrightarrow> identity_step db (snd (correct_name u view followers g name db))"
| removed: "g \<in> set (groups db) \<Longrightarrow> identity_step db (remove_group g db)"
| restored: "identity_step db (snd (restore_group key db))"
| roles_found: "distinct (map role_group rs) \<Longrightarrow> role_group ` set rs \<subseteq> group_ids db \<Longrightarrow>
     identity_step db (db\<lparr>roles := rs\<rparr>)"

lemma identity_step_ok: "identity_step db db' \<Longrightarrow> identity_ok db \<Longrightarrow> identity_ok db'"
proof (induction rule: identity_step.induct)
  case (rebuilt set_order rows u name_step kept es evidence charges_of db facts forget)
  then show ?case using rebuild_disjoint [OF rebuilt(1-4)] by (intro write_rebuild_ok) simp_all
next
  case (roles_found rs db)
  have "group_ids (db\<lparr>roles := rs\<rparr>) = group_ids db" by (simp add: group_ids_def)
  then show ?case
    using roles_found
    by (simp add: identity_ok_def rows_ok_def links_ok_def counts_ok_def decisions_ok_def mentions_of_group_def)
qed (simp_all add: decide_pair_ok merge_clear_pairs_ok reset_decisions_ok correct_name_ok remove_group_ok restore_group_ok)


text \<open>A run: the rebuild of the example, then a decision, a correction and a removal.\<close>

definition popov_facts :: mention_facts where
  "popov_facts = \<lparr>fact_published = (\<lambda>_. None), fact_article = (\<lambda>m. m), fact_events = (\<lambda>_. []),
     figurant_facts = (\<lambda>_. (0, [], None))\<rparr>"


end
