(* ===== verification/Evidence_Windows.thy ===== *)
theory Evidence_Windows
  imports Prelude
begin

text \<open>
  The text that is evidence about one person
  (\<open>court-analysis: analysis/persecution/classification_service.py\<close>): sentences and clauses,
  the windows around a person's own mentions and events, and what they never reach into.
  A span is a pair of offsets, the second one past its last character.
\<close>

section \<open>Patterns\<close>

text \<open>
  A compiled pattern, tried where a text begins: the length of its match there. \<open>finditer\<close>
  takes the matches from the left, each where the one before ended; \<open>i\<close> is the offset at
  which the text begins.
\<close>

type_synonym span = "nat \<times> nat"
type_synonym pattern = "ustr \<Rightarrow> nat option"

function finditer :: "pattern \<Rightarrow> nat \<Rightarrow> ustr \<Rightarrow> span list" where
  "finditer p i [] = []"
| "finditer p i (c # cs) =
     (case p (c # cs) of
        None \<Rightarrow> finditer p (Suc i) cs
      | Some n \<Rightarrow> (i, i + n) # finditer p (i + n) (drop (n - 1) cs))"
  by pat_completeness auto
termination by (relation "measure (\<lambda>(_, _, t). length t)") auto

text \<open>\<open>pattern.finditer(text, pos, endpos)\<close>.\<close>

definition finditer_in :: "pattern \<Rightarrow> ustr \<Rightarrow> nat \<Rightarrow> nat \<Rightarrow> span list" where
  "finditer_in p t pos endpos = finditer p pos (drop pos (take endpos t))"

locale matching =
  fixes p :: pattern
  assumes consumes: "p t = Some n \<Longrightarrow> 0 < n \<and> n \<le> length t"
begin

lemma finditer_in_order:
  "sorted_wrt (\<lambda>x y. snd x \<le> fst y) (finditer p i t) \<and>
   (\<forall>(a, b) \<in> set (finditer p i t). i \<le> a \<and> a < b \<and> b \<le> i + length t)"
proof (induction t arbitrary: i rule: length_induct)
  case (1 t)
  show ?case
  proof (cases t)
    case (Cons c cs)
    show ?thesis
    proof (cases "p (c # cs)")
      case None
      then have "finditer p i t = finditer p (Suc i) cs" by (simp add: Cons)
      with 1 [rule_format, of cs "Suc i"] show ?thesis by (fastforce simp: Cons)
    next
      case (Some n)
      have n: "0 < n \<and> n \<le> Suc (length cs)" using consumes [OF Some] by simp
      have "finditer p i t = (i, i + n) # finditer p (i + n) (drop (n - 1) cs)" by (simp add: Cons Some)
      with 1 [rule_format, of "drop (n - 1) cs" "i + n"] n show ?thesis by (fastforce simp: Cons)
    qed
  qed simp
qed

lemma finditer_in_bounds:
  assumes "(a, b) \<in> set (finditer_in p t pos endpos)"
  shows "pos \<le> a \<and> a < b \<and> b \<le> endpos"
proof -
  have "finditer p pos (drop pos (take endpos t)) = [] \<or> pos \<le> endpos"
    by (cases "pos \<le> endpos") simp_all
  then show ?thesis
    using assms finditer_in_order [of pos "drop pos (take endpos t)"] by (fastforce simp: finditer_in_def)
qed

end

text \<open>\<open>[.!?\<dots>]+[\<guillemotright>")]*\s+\<close>: the three classes share no character, so the longest runs decide.\<close>

definition ends_sentence :: "int \<Rightarrow> bool" where
  "ends_sentence c \<longleftrightarrow> c \<in> {46, 33, 63, 8230}"

definition closes_quote :: "int \<Rightarrow> bool" where
  "closes_quote c \<longleftrightarrow> c \<in> {187, 34, 41}"

definition sentence_end :: pattern where
  "sentence_end t =
     (let stops = length (takeWhile ends_sentence t);
          closers = length (takeWhile closes_quote (drop stops t));
          blanks = length (takeWhile is_space (drop (stops + closers) t))
      in if stops = 0 \<or> blanks = 0 then None else Some (stops + closers + blanks))"

text \<open>
  A letter as \<open>re.IGNORECASE\<close> compares it: its lower case, and the old Slavonic variants the
  \<open>re\<close> module counts as the letters of the conjunctions.
\<close>

definition re_fold :: "unicode \<Rightarrow> int \<Rightarrow> int" where
  "re_fold u c =
     (let c' = (case lower_text u [c] of [d] \<Rightarrow> d | _ \<Rightarrow> c)
      in if c' = 7296 then 1074 else if c' = 7297 then 1076 else if c' = 7298 then 1086
         else if c' = 7299 then 1089 else if c' = 7300 \<or> c' = 7301 then 1090 else c')"

definition conjunctions :: "ustr list" where
  "conjunctions = map ru [''a'', ''no'', ''i'', ''odnako'', ''togda kak'', ''v to vremA kak'', ''pri Etom'']"

definition folded_prefix :: "unicode \<Rightarrow> ustr \<Rightarrow> ustr \<Rightarrow> bool" where
  "folded_prefix u w t \<longleftrightarrow> length w \<le> length t \<and> map (re_fold u) (take (length w) t) = w"

text \<open>After a comma: blanks, a conjunction, a blank.\<close>

definition joining_clause :: "unicode \<Rightarrow> ustr \<Rightarrow> nat option" where
  "joining_clause u t =
     (let blanks = length (takeWhile is_space t); rest = drop blanks t in
      map_option (\<lambda>w. blanks + length w + 1)
        (find (\<lambda>w. folded_prefix u w rest \<and> length w < length rest \<and> is_space (rest ! length w)) conjunctions))"

definition is_dash :: "int \<Rightarrow> bool" where
  "is_dash c \<longleftrightarrow> c \<in> {8212, 8211, 45}"

fun clause_boundary :: "unicode \<Rightarrow> pattern" where
  "clause_boundary u [] = None"
| "clause_boundary u (c # t) =
     (if c = 59 \<or> c = 58 then Some 1
      else if is_space c
      then (case t of d # e # _ \<Rightarrow> if is_dash d \<and> is_space e then Some 3 else None | _ \<Rightarrow> None)
      else if c = 44 then map_option Suc (joining_clause u t)
      else None)"

lemma run_lengths:
  "length (takeWhile P t) + length (takeWhile Q (drop (length (takeWhile P t)) t)) \<le> length t"
  using length_takeWhile_le [of Q "drop (length (takeWhile P t)) t"] length_takeWhile_le [of P t] by simp

interpretation sentences: matching sentence_end
proof unfold_locales
  fix t n assume "sentence_end t = Some n"
  moreover have "length (takeWhile is_space (drop k t)) \<le> length t - k" for k
    using length_takeWhile_le [of is_space "drop k t"] by simp
  moreover have "length (takeWhile ends_sentence t) + length (takeWhile closes_quote (drop (length (takeWhile ends_sentence t)) t)) \<le> length t"
    by (rule run_lengths)
  ultimately show "0 < n \<and> n \<le> length t"
    by (auto simp: sentence_end_def Let_def split: if_splits) (metis le_diff_conv2 add.commute)
qed

lemma joining_clause_length:
  assumes "joining_clause u t = Some n"
  shows "n \<le> length t"
proof -
  let ?blanks = "length (takeWhile is_space t)"
  obtain w where w: "find (\<lambda>w. folded_prefix u w (drop ?blanks t) \<and> length w < length (drop ?blanks t) \<and>
      is_space (drop ?blanks t ! length w)) conjunctions = Some w" "n = ?blanks + length w + 1"
    using assms unfolding joining_clause_def Let_def map_option_eq_Some by blast
  then have "length w < length (drop ?blanks t)" unfolding find_Some_iff by blast
  then show ?thesis using w(2) by simp
qed

interpretation clauses: matching "clause_boundary u" for u
proof unfold_locales
  fix t n assume "clause_boundary u t = Some n"
  then show "0 < n \<and> n \<le> length t"
    by (cases "(u, t)" rule: clause_boundary.cases)
      (auto split: if_splits list.splits dest: joining_clause_length)
qed

section \<open>Sentences\<close>

fun sentence_in :: "nat \<Rightarrow> span list \<Rightarrow> nat \<Rightarrow> nat \<Rightarrow> span" where
  "sentence_in offset [] start n = (start, n)"
| "sentence_in offset ((_, b) # ms) start n =
     (if b \<le> offset then sentence_in offset ms b n else (start, b))"

definition sentence_bounds :: "ustr \<Rightarrow> nat \<Rightarrow> span" where
  "sentence_bounds t offset = sentence_in offset (finditer sentence_end 0 t) 0 (length t)"

lemma sentence_in_bounds:
  assumes "sorted_wrt (\<lambda>x y. snd x \<le> fst y) ms" and "\<forall>(a, b) \<in> set ms. start \<le> a \<and> a < b \<and> b \<le> n"
    and "start \<le> offset" and "offset < n"
  shows "start \<le> fst (sentence_in offset ms start n) \<and> fst (sentence_in offset ms start n) \<le> offset \<and>
    offset < snd (sentence_in offset ms start n) \<and> snd (sentence_in offset ms start n) \<le> n"
  using assms
proof (induction ms arbitrary: start)
  case (Cons m ms)
  obtain a b where m: "m = (a, b)" by fastforce
  show ?case
  proof (cases "b \<le> offset")
    case True
    have "\<forall>(x, y) \<in> set ms. b \<le> x \<and> x < y \<and> y \<le> n" using Cons.prems(1,2) m by fastforce
    then show ?thesis using Cons.IH [of b] Cons.prems m True by fastforce
  qed (use Cons.prems m in auto)
qed simp

lemma sentence_in_same:
  assumes "sorted_wrt (\<lambda>x y. snd x \<le> fst y) ms" and "\<forall>(a, b) \<in> set ms. start \<le> a \<and> a < b \<and> b \<le> n"
    and "start \<le> offset" and "offset < n"
    and "fst (sentence_in offset ms start n) \<le> other" and "other < snd (sentence_in offset ms start n)"
  shows "sentence_in other ms start n = sentence_in offset ms start n"
  using assms
proof (induction ms arbitrary: start)
  case (Cons m ms)
  obtain a b where m: "m = (a, b)" by fastforce
  show ?case
  proof (cases "b \<le> offset")
    case True
    have ms: "sorted_wrt (\<lambda>x y. snd x \<le> fst y) ms" "\<forall>(x, y) \<in> set ms. b \<le> x \<and> x < y \<and> y \<le> n"
      using Cons.prems(1,2) m by fastforce+
    have "b \<le> fst (sentence_in offset ms b n)" using sentence_in_bounds [OF ms True Cons.prems(4)] by simp
    then have "b \<le> other" using Cons.prems(5) m True by simp
    then show ?thesis using Cons.IH [OF ms True Cons.prems(4)] Cons.prems(5,6) m True by simp
  qed (use Cons.prems m in auto)
qed simp

text \<open>The sentences part the text: an offset is in its own, and whatever is in it has the same one.\<close>

lemma sentence_bounds_around:
  assumes "offset < length t"
  shows "fst (sentence_bounds t offset) \<le> offset" "offset < snd (sentence_bounds t offset)"
    "snd (sentence_bounds t offset) \<le> length t"
  using sentence_in_bounds [of "finditer sentence_end 0 t" 0 "length t" offset] assms
    sentences.finditer_in_order [of 0 t] by (auto simp: sentence_bounds_def)

lemma sentence_bounds_same:
  assumes "offset < length t" and "fst (sentence_bounds t offset) \<le> other" and "other < snd (sentence_bounds t offset)"
  shows "sentence_bounds t other = sentence_bounds t offset"
  using sentence_in_same [of "finditer sentence_end 0 t" 0 "length t" offset other] assms
    sentences.finditer_in_order [of 0 t] by (auto simp: sentence_bounds_def)

lemma sentences_apart:
  assumes "a < length t" and "b < length t" and differ: "sentence_bounds t a \<noteq> sentence_bounds t b" and "a < b"
  shows "snd (sentence_bounds t a) \<le> fst (sentence_bounds t b)"
proof (rule ccontr)
  let ?c = "fst (sentence_bounds t b)"
  assume cut: "\<not> ?thesis"
  note at_a = sentence_bounds_around [OF assms(1)] and at_b = sentence_bounds_around [OF assms(2)]
  have "\<not> ?c \<le> a"
  proof
    assume "?c \<le> a"
    moreover have "a < snd (sentence_bounds t b)" using at_b(2) assms(4) by linarith
    ultimately show False using sentence_bounds_same [OF assms(2)] differ by blast
  qed
  then have "fst (sentence_bounds t a) \<le> ?c" using at_a(1) by linarith
  then have "sentence_bounds t ?c = sentence_bounds t a"
    using sentence_bounds_same [OF assms(1)] cut by (meson not_le)
  moreover have "?c < snd (sentence_bounds t b)" using at_b by linarith
  then have "sentence_bounds t ?c = sentence_bounds t b"
    using sentence_bounds_same [OF assms(2)] by blast
  ultimately show False using differ by metis
qed

section \<open>Windows\<close>

text \<open>
  \<open>_narrow_shared_spans\<close>: a span that holds another person's mention gives way to the
  person's own mentions inside it, if there are any.
\<close>

definition inside_span :: "span \<Rightarrow> span \<Rightarrow> bool" where
  "inside_span outer inner \<longleftrightarrow> fst outer \<le> fst inner \<and> snd inner \<le> snd outer"

definition narrow_shared_spans :: "span list \<Rightarrow> span list \<Rightarrow> span list \<Rightarrow> span list" where
  "narrow_shared_spans spans own others =
     concat (map (\<lambda>sp.
       let inside = filter (inside_span sp) own in
       if list_ex (inside_span sp) others \<and> inside \<noteq> [] then inside else [sp]) spans)"

text \<open>How one other mention cuts the window around the span \<open>(start, end)\<close>.\<close>

definition stop_before :: "unicode \<Rightarrow> ustr \<Rightarrow> span \<Rightarrow> span \<Rightarrow> span \<Rightarrow> span" where
  "stop_before u t sp other window =
     (let own = sentence_bounds t (fst sp); its = sentence_bounds t (fst other) in
      if its = own then
        (if snd sp \<le> fst other then
           (case finditer_in (clause_boundary u) t (snd sp) (fst other) of
              [] \<Rightarrow> window
            | b # _ \<Rightarrow> (fst window, min (snd window) (fst b)))
         else if snd other \<le> fst sp then
           (case finditer_in (clause_boundary u) t (snd other) (fst sp) of
              [] \<Rightarrow> window
            | bs \<Rightarrow> (max (fst window) (snd (last bs)), snd window))
         else window)
      else if fst other < fst sp then (max (fst window) (snd its), snd window)
      else (fst window, min (snd window) (fst its)))"

definition window_around :: "unicode \<Rightarrow> ustr \<Rightarrow> nat \<Rightarrow> span list \<Rightarrow> span \<Rightarrow> span" where
  "window_around u t width others sp =
     fold (stop_before u t sp) others (fst sp - width, min (length t) (snd sp + width))"

fun merge_spans :: "span list \<Rightarrow> span list" where
  "merge_spans (x # y # zs) =
     (if fst y \<le> snd x then merge_spans ((fst x, max (snd x) (snd y)) # zs)
      else x # merge_spans (y # zs))"
| "merge_spans xs = xs"

definition merge_windows :: "unicode \<Rightarrow> ustr \<Rightarrow> nat \<Rightarrow> span list \<Rightarrow> span list \<Rightarrow> span list" where
  "merge_windows u t width spans others =
     merge_spans (sort (filter (\<lambda>x. fst x < snd x) (map (window_around u t width others) spans)))"

lemma span_le: "(x :: span) \<le> y \<longleftrightarrow> fst x < fst y \<or> fst x = fst y \<and> snd x \<le> snd y"
  by (cases x; cases y) auto

lemma sorted_merged:
  fixes x y :: span
  assumes "sorted (x # y # zs)"
  shows "sorted ((fst x, max (snd x) (snd y)) # zs)"
proof -
  have "(fst x, max (snd x) (snd y)) \<le> z" if "z \<in> set zs" for z
  proof -
    have "x \<le> z" "y \<le> z" "x \<le> y" using assms that by auto
    then show ?thesis unfolding span_le by (auto simp: max_def)
  qed
  then show ?thesis using assms by simp
qed

text \<open>The characters a list of spans covers; merging keeps them.\<close>

definition covered :: "span list \<Rightarrow> nat set" where
  "covered xs = (\<Union>x \<in> set xs. {fst x..<snd x})"

lemma covered_simps [simp]:
  "covered [] = {}" "covered (x # xs) = {fst x..<snd x} \<union> covered xs"
  by (simp_all add: covered_def)

abbreviation proper_spans :: "span list \<Rightarrow> bool" where
  "proper_spans xs \<equiv> list_all (\<lambda>x. fst x < snd x) xs"

lemma proper_merged: "proper_spans (x # y # zs) \<Longrightarrow> proper_spans ((fst x, max (snd x) (snd y)) # zs)"
  by (simp add: less_max_iff_disj)

lemma covered_merge_spans:
  "sorted xs \<Longrightarrow> proper_spans xs \<Longrightarrow> covered (merge_spans xs) = covered xs"
proof (induction xs rule: merge_spans.induct)
  case (1 x y zs)
  show ?case
  proof (cases "fst y \<le> snd x")
    case True
    have "covered (merge_spans (x # y # zs)) = covered ((fst x, max (snd x) (snd y)) # zs)"
      using "1.IH"(1) [OF True sorted_merged [OF "1.prems"(1)] proper_merged [OF "1.prems"(2)]] True by simp
    moreover have "x \<le> y" using "1.prems"(1) by simp
    then have "{fst x..<max (snd x) (snd y)} = {fst x..<snd x} \<union> {fst y..<snd y}"
      using True unfolding span_le by (auto simp only: atLeastLessThan_iff less_max_iff_disj)
    ultimately show ?thesis by auto
  next
    case False
    have "covered (merge_spans (y # zs)) = covered (y # zs)"
      using "1.IH"(2) [OF False] "1.prems" by simp
    then show ?thesis using False by simp
  qed
qed simp_all

text \<open>What is left is apart: each window ends before the next begins.\<close>

lemma merge_spans_from:
  "sorted xs \<Longrightarrow> proper_spans xs \<Longrightarrow> y \<in> set (merge_spans xs) \<Longrightarrow>
   fst (hd xs) \<le> fst y \<and> fst y < snd y \<and> (\<exists>x \<in> set xs. snd y = snd x)"
proof (induction xs rule: merge_spans.induct)
  case (1 x z zs)
  show ?case
  proof (cases "fst z \<le> snd x")
    case True
    have "y \<in> set (merge_spans ((fst x, max (snd x) (snd z)) # zs))" using "1.prems"(3) True by simp
    from "1.IH"(1) [OF True sorted_merged [OF "1.prems"(1)] proper_merged [OF "1.prems"(2)] this]
    show ?thesis by (cases "snd x \<le> snd z") (auto simp: max_def)
  next
    case False
    have "fst x \<le> fst z" using "1.prems"(1) by (auto simp: span_le)
    moreover have "y = x \<or> y \<in> set (merge_spans (z # zs))" using "1.prems"(3) False by simp
    ultimately show ?thesis using "1.IH"(2) [OF False] "1.prems"(1,2) by force
  qed
qed auto

lemma merge_spans_apart:
  "sorted xs \<Longrightarrow> proper_spans xs \<Longrightarrow> sorted_wrt (\<lambda>x y. snd x < fst y) (merge_spans xs)"
proof (induction xs rule: merge_spans.induct)
  case (1 x z zs)
  show ?case
  proof (cases "fst z \<le> snd x")
    case True
    show ?thesis
      using "1.IH"(1) [OF True sorted_merged [OF "1.prems"(1)] proper_merged [OF "1.prems"(2)]] True by simp
  next
    case False
    have "snd x < fst y" if "y \<in> set (merge_spans (z # zs))" for y
      using merge_spans_from [of "z # zs" y] "1.prems" that False by simp
    then show ?thesis using "1.IH"(2) [OF False] "1.prems" False by simp
  qed
qed simp_all

section \<open>What a window never reaches\<close>

text \<open>
  A character stays off another mention: it is not in that mention's sentence, or, in a shared
  sentence with a clause boundary between them, it is on this person's side of the mention.
\<close>

definition clause_between :: "unicode \<Rightarrow> ustr \<Rightarrow> nat \<Rightarrow> nat \<Rightarrow> bool" where
  "clause_between u t a b \<longleftrightarrow> finditer_in (clause_boundary u) t a b \<noteq> []"

definition stays_off :: "unicode \<Rightarrow> ustr \<Rightarrow> span \<Rightarrow> span \<Rightarrow> nat \<Rightarrow> bool" where
  "stays_off u t sp other p \<longleftrightarrow>
     (if sentence_bounds t (fst other) \<noteq> sentence_bounds t (fst sp)
      then p < fst (sentence_bounds t (fst other)) \<or> snd (sentence_bounds t (fst other)) \<le> p
      else (snd sp \<le> fst other \<and> clause_between u t (snd sp) (fst other) \<longrightarrow> p < fst other) \<and>
           (fst other < snd sp \<and> snd other \<le> fst sp \<and> clause_between u t (snd other) (fst sp) \<longrightarrow> snd other \<le> p))"

lemma stop_before_shrinks:
  "fst w \<le> fst (stop_before u t sp other w) \<and> snd (stop_before u t sp other w) \<le> snd w"
  by (auto simp: stop_before_def Let_def split: list.split)

lemma stop_before_stays_off:
  assumes p: "fst (stop_before u t sp other w) \<le> p" "p < snd (stop_before u t sp other w)"
  shows "stays_off u t sp other p"
proof (cases "sentence_bounds t (fst other) = sentence_bounds t (fst sp)")
  case False
  then show ?thesis using p by (auto simp: stop_before_def stays_off_def Let_def split: if_splits)
next
  case same: True
  show ?thesis
  proof (cases "snd sp \<le> fst other")
    case True
    have "p < fst other" if "clause_between u t (snd sp) (fst other)"
    proof -
      have "finditer_in (clause_boundary u) t (snd sp) (fst other) \<noteq> []"
        using that by (simp add: clause_between_def)
      then obtain b bs where b: "finditer_in (clause_boundary u) t (snd sp) (fst other) = b # bs"
        by (meson neq_Nil_conv)
      have "p < fst b" using p same True b by (simp add: stop_before_def Let_def)
      moreover have "fst b < snd b \<and> snd b \<le> fst other"
        using clauses.finditer_in_bounds [of "fst b" "snd b" u t "snd sp" "fst other"] b by simp
      ultimately show ?thesis by linarith
    qed
    then show ?thesis using same True by (simp add: stays_off_def)
  next
    case False
    have "snd other \<le> p" if "snd other \<le> fst sp" "clause_between u t (snd other) (fst sp)"
    proof -
      let ?bs = "finditer_in (clause_boundary u) t (snd other) (fst sp)"
      have bs: "?bs \<noteq> []" using that(2) by (simp add: clause_between_def)
      then have "snd (last ?bs) \<le> p"
        using p same False that(1) by (cases ?bs) (simp_all add: stop_before_def Let_def)
      moreover have "snd other \<le> snd (last ?bs)"
        using clauses.finditer_in_bounds [of "fst (last ?bs)" "snd (last ?bs)" u t "snd other" "fst sp"]
          last_in_set [OF bs] by simp
      ultimately show ?thesis by linarith
    qed
    then show ?thesis using same False by (simp add: stays_off_def)
  qed
qed

lemma fold_shrinks:
  "fst w \<le> fst (fold (stop_before u t sp) others w) \<and> snd (fold (stop_before u t sp) others w) \<le> snd w"
proof (induction others arbitrary: w)
  case (Cons other others)
  show ?case using Cons.IH [of "stop_before u t sp other w"] stop_before_shrinks [of w u t sp other] by force
qed simp

lemma window_stays_off:
  assumes "fst (fold (stop_before u t sp) others w) \<le> p" and "p < snd (fold (stop_before u t sp) others w)"
    and "other \<in> set others"
  shows "stays_off u t sp other p"
  using assms
proof (induction others arbitrary: w)
  case (Cons x others)
  show ?case
  proof (cases "other \<in> set others")
    case True
    show ?thesis by (rule Cons.IH) (use Cons.prems True in simp_all)
  next
    case False
    let ?w = "stop_before u t sp x w"
    have "fst ?w \<le> p" "p < snd ?w"
      using fold_shrinks [of ?w u t sp others] Cons.prems(1,2) by simp_all
    then have "stays_off u t sp x p" by (rule stop_before_stays_off)
    then show ?thesis using Cons.prems(3) False by simp
  qed
qed simp

lemma covered_merge_windows:
  "covered (merge_windows u t width spans others) =
     (\<Union>sp \<in> set spans. {fst (window_around u t width others sp)..<snd (window_around u t width others sp)})"
proof -
  let ?found = "filter (\<lambda>x. fst x < snd x) (map (window_around u t width others) spans)"
  have "covered (merge_windows u t width spans others) = covered (sort ?found)"
    unfolding merge_windows_def by (rule covered_merge_spans) (simp_all add: list_all_iff)
  also have "\<dots> = (\<Union>sp \<in> set spans. {fst (window_around u t width others sp)..<snd (window_around u t width others sp)})"
    by (auto simp: covered_def)
  finally show ?thesis .
qed


text \<open>What is the person's own is kept: no cut reaches the beginning of a span.\<close>

lemma stop_before_keeps:
  assumes "fst w \<le> fst sp" "fst sp < snd w" and "fst sp < snd sp" "snd sp \<le> length t" and "fst other < length t"
  shows "fst (stop_before u t sp other w) \<le> fst sp \<and> fst sp < snd (stop_before u t sp other w)"
proof (cases "sentence_bounds t (fst other) = sentence_bounds t (fst sp)")
  case same: True
  show ?thesis
  proof (cases "snd sp \<le> fst other")
    case True
    have "snd sp \<le> fst (hd bs)" if "finditer_in (clause_boundary u) t (snd sp) (fst other) = bs" "bs \<noteq> []" for bs
      using clauses.finditer_in_bounds [of "fst (hd bs)" "snd (hd bs)" u t "snd sp" "fst other"] that by simp
    then show ?thesis using assms same True by (fastforce simp: stop_before_def Let_def split: list.split)
  next
    case False
    have "snd (last bs) \<le> fst sp" if "finditer_in (clause_boundary u) t (snd other) (fst sp) = bs" "bs \<noteq> []" for bs
      using clauses.finditer_in_bounds [of "fst (last bs)" "snd (last bs)" u t "snd other" "fst sp"] that by simp
    then show ?thesis using assms same False by (auto simp: stop_before_def Let_def split: list.split)
  qed
next
  case False
  have sp: "fst sp < length t" using assms by simp
  note own = sentence_bounds_around [OF sp]
  have "fst other \<noteq> fst sp" using False by auto
  then show ?thesis
    using False assms own sentences_apart [OF assms(5) sp False] sentences_apart [OF sp assms(5) False [symmetric]]
    by (auto simp: stop_before_def Let_def)
qed

lemma fold_keeps:
  assumes "fst w \<le> fst sp" "fst sp < snd w" and "fst sp < snd sp" "snd sp \<le> length t"
    and "\<forall>other \<in> set others. fst other < length t"
  shows "fst (fold (stop_before u t sp) others w) \<le> fst sp \<and> fst sp < snd (fold (stop_before u t sp) others w)"
  using assms
proof (induction others arbitrary: w)
  case (Cons other others)
  have "fst (stop_before u t sp other w) \<le> fst sp \<and> fst sp < snd (stop_before u t sp other w)"
    by (rule stop_before_keeps) (use Cons.prems in simp_all)
  then show ?case using Cons.IH [of "stop_before u t sp other w"] Cons.prems(3-5) by simp
qed simp

text \<open>
  A person's own evidence is never lost: each of their mentions and events begins inside a
  window, however many other people the text names.
\<close>

theorem windows_keep_own_spans:
  assumes "sp \<in> set spans" and "fst sp < snd sp" and "snd sp \<le> length t"
    and "\<forall>other \<in> set others. fst other < length t"
  shows "fst sp \<in> covered (merge_windows u t width spans others)"
proof -
  have "fst (window_around u t width others sp) \<le> fst sp \<and> fst sp < snd (window_around u t width others sp)"
    unfolding window_around_def by (rule fold_keeps) (use assms in simp_all)
  then show ?thesis using assms(1) unfolding covered_merge_windows by auto
qed

section \<open>A text of two people\<close>

text \<open>Two sentences of one person each, and one sentence of two clauses.\<close>

definition two_people :: ustr where
  "two_people = ru ''ivan ukral. petr vySel na piket. oleg ukral, a gleb vySel''"

lemma two_people_windows:
  "merge_windows russian two_people 400 [(0, 4)] [(12, 16)] = [(0, 12)]"
  "merge_windows russian two_people 400 [(33, 37)] [(47, 51)] = [(0, 43)]"
  by code_simp+


theorem windows_keep_own_spans_witness:
  "33 \<in> covered (merge_windows russian two_people 400 [(33, 37)] [(47, 51), (12, 16)])"
  using windows_keep_own_spans [of "(33, 37)" "[(33, 37)]" two_people "[(47, 51), (12, 16)]" russian 400]
  by (simp add: two_people_def ru_def)

end
