(* ===== verification/Persecution.thy ===== *)
theory Persecution
  imports Evidence_Windows Name_Frequency
begin

text \<open>
  Is a person politically persecuted: the rules of
  \<open>court-analysis: analysis/persecution/classifier.py\<close> over the evidence that
  \<open>classification_service.py\<close> scopes to the person. Keywords are the source's, lowered, in the
  letters of \<^const>\<open>ru\<close>; a confidence is an exact fraction.
\<close>

section \<open>Searching with a look behind\<close>

text \<open>
  \<open>re.search("(?<![class])...", text) is not None\<close>: the match may begin anywhere but right
  after a character of the class. \<open>m\<close> is the rest of the pattern, \<open>blocked\<close> whether the
  character before the text is of the class.
\<close>

fun search_after :: "(int \<Rightarrow> bool) \<Rightarrow> (ustr \<Rightarrow> bool) \<Rightarrow> bool \<Rightarrow> ustr \<Rightarrow> bool" where
  "search_after forbidden m blocked [] \<longleftrightarrow> \<not> blocked \<and> m []"
| "search_after forbidden m blocked (c # cs) \<longleftrightarrow>
     \<not> blocked \<and> m (c # cs) \<or> search_after forbidden m (forbidden c) cs"

lemma search_after_iff:
  "search_after forbidden m blocked t \<longleftrightarrow>
     (\<exists>before here. t = before @ here \<and> m here \<and>
        (if before = [] then \<not> blocked else \<not> forbidden (last before)))"
proof (induction forbidden m blocked t rule: search_after.induct)
  case (2 forbidden m blocked c cs)
  show ?case
  proof
    assume "search_after forbidden m blocked (c # cs)"
    then consider "\<not> blocked" "m (c # cs)" | "search_after forbidden m (forbidden c) cs" by auto
    then show "\<exists>before here. c # cs = before @ here \<and> m here \<and>
        (if before = [] then \<not> blocked else \<not> forbidden (last before))"
    proof cases
      case 1
      then show ?thesis by (intro exI [of _ "[]"] exI [of _ "c # cs"]) simp
    next
      case 2
      then obtain before here where "cs = before @ here" "m here"
          "if before = [] then \<not> forbidden c else \<not> forbidden (last before)"
        using "2.IH" by blast
      then show ?thesis by (intro exI [of _ "c # before"] exI [of _ here]) (auto split: if_splits)
    qed
  next
    assume "\<exists>before here. c # cs = before @ here \<and> m here \<and>
        (if before = [] then \<not> blocked else \<not> forbidden (last before))"
    then obtain before here where found: "c # cs = before @ here" "m here"
        "if before = [] then \<not> blocked else \<not> forbidden (last before)" by blast
    show "search_after forbidden m blocked (c # cs)"
    proof (cases before)
      case Nil
      then show ?thesis using found by (cases here) simp_all
    next
      case (Cons b before')
      then have "cs = before' @ here" "if before' = [] then \<not> forbidden c else \<not> forbidden (last before')"
        using found(1,3) by (auto split: if_splits)
      then have "search_after forbidden m (forbidden c) cs" using "2.IH" found(2) by blast
      then show ?thesis by simp
    qed
  qed
qed auto

section \<open>Charges\<close>

definition POLITICAL_ARTICLES :: "ustr list" where
  "POLITICAL_ARTICLES = map ascii [
    ''205.2'', ''207.3'', ''208'', ''212'', ''212.1'', ''274.1'', ''275'', ''280'', ''280.1'',
    ''280.3'', ''280.4'', ''281'', ''282'', ''282.1'', ''282.2'', ''282.3'', ''282.4'',
    ''283.1'', ''284.1'', ''284.2'', ''330.1'', ''354'', ''354.1'']"

definition POLITICAL_ADMINISTRATIVE_ARTICLES :: "ustr list" where
  "POLITICAL_ADMINISTRATIVE_ARTICLES = map ascii [
    ''19.34'', ''20.2'', ''20.3'', ''20.3.1'', ''20.3.3'', ''20.33'']"

text \<open>\<open>part in text\<close>.\<close>

fun contains_text :: "ustr \<Rightarrow> ustr \<Rightarrow> bool" where
  "contains_text part [] \<longleftrightarrow> part = []"
| "contains_text part (c # cs) \<longleftrightarrow> starts_with (c # cs) part \<or> contains_text part cs"

text \<open>\<open>(?<![\d.])article(?![\d.])\<close>: the article's whole number.\<close>

definition number_char :: "unicode \<Rightarrow> int \<Rightarrow> bool" where
  "number_char u c \<longleftrightarrow> is_decimal u c \<or> c = 46"

definition whole_number_here :: "unicode \<Rightarrow> ustr \<Rightarrow> ustr \<Rightarrow> bool" where
  "whole_number_here u article t \<longleftrightarrow> starts_with t article \<and>
     (case drop (length article) t of [] \<Rightarrow> True | c # _ \<Rightarrow> \<not> number_char u c)"

definition cites_article :: "unicode \<Rightarrow> ustr \<Rightarrow> ustr \<Rightarrow> bool" where
  "cites_article u article reference =
     search_after (number_char u) (whole_number_here u article) False reference"

definition articles_of_code :: "unicode \<Rightarrow> ustr \<Rightarrow> ustr list" where
  "articles_of_code u reference =
     (if contains_text (ru ''koap'') (lower_text u reference)
      then POLITICAL_ADMINISTRATIVE_ARTICLES else POLITICAL_ARTICLES)"

definition is_political_charge :: "unicode \<Rightarrow> ustr \<Rightarrow> bool" where
  "is_political_charge u charge \<longleftrightarrow> charge \<noteq> [] \<and>
     list_ex (\<lambda>reference. list_ex (\<lambda>article. cites_article u article reference) (articles_of_code u reference))
       (split_at 59 charge)"

section \<open>Keywords\<close>

definition POLITICAL_KEYWORDS :: "ustr list" where
  "POLITICAL_KEYWORDS = map ru [
    ''antivoennaA'', ''antivoennyj'', ''veroispovedanie'', ''gej'', ''gosizmen'',
    ''gosudarstvennaA izmena'', ''gosudarstvennoj izmene'', ''gosudarstvennuU izmenu'',
    ''gur'', ''demokratiCeskij'', ''demokratiA'', ''dissident'', ''inakomyslAWij'',
    ''inostrannyj agent'', ''kritik vlasti'', ''kritika vlasti'', ''lgbt'', ''lesbiAnka'',
    ''miting'', ''neZelatelqnaA organizaciA'', ''oppozicionnyj'', ''oppoziciA'', ''piket'',
    ''politzaklUCennyj'', ''politiCeski motivirovannoe'', ''politiCeskij'',
    ''politiCeskij zaklUCennyj'', ''politiCeskoe presledovanie'', ''pravozaWitnik'',
    ''pravozaWitnica'', ''pravozaWitnyj'', ''protest'', ''protestnyj'', ''protiv vojny'',
    ''religioznoe presledovanie'', ''sbu'', ''svideteli iegovy'', ''svoboda slova'',
    ''svoboda sobranij'', ''transgender'']"

definition WHOLE_WORD_KEYWORDS :: "ustr list" where
  "WHOLE_WORD_KEYWORDS = ascii ''sota'' # map ru [
    ''gej'', ''gei'', ''smi'', ''media'', ''gur'', ''sbu'']"

definition HUMAN_RIGHTS_KEYWORDS :: "ustr list" where
  "HUMAN_RIGHTS_KEYWORDS = map ru [
    ''pravozaWit'']"

definition JOURNALISM_KEYWORDS :: "ustr list" where
  "JOURNALISM_KEYWORDS = map ru [
    ''Zurnalist'', ''media'', ''smi'', ''pressa'', ''redaktor'', ''korrespondent'']"

definition ANTI_WAR_KEYWORDS :: "ustr list" where
  "ANTI_WAR_KEYWORDS = map ru [
    ''antivoen'', ''protiv vojny'', ''net vojne'', ''mir bez vojny'']"

definition RELIGIOUS_KEYWORDS :: "ustr list" where
  "RELIGIOUS_KEYWORDS = map ru [
    ''svideteli iegovy'', ''svidetelej iegovy'', ''religiozn'', ''veroispovedan'', ''cerkov'',
    ''meCet'']"

definition LGBT_KEYWORDS :: "ustr list" where
  "LGBT_KEYWORDS = map ru [
    ''lgbt'', ''gej'', ''gei'', ''lesbiAn'', ''transgender'']"

text \<open>\<open>\w\<close>, and a keyword at the beginning of a word; a short abbreviation is the whole word.\<close>

definition word_char :: "unicode \<Rightarrow> int \<Rightarrow> bool" where
  "word_char u c \<longleftrightarrow> is_alnum u c \<or> c = 95"

definition keyword_here :: "unicode \<Rightarrow> ustr \<Rightarrow> ustr \<Rightarrow> bool" where
  "keyword_here u keyword t \<longleftrightarrow> starts_with t keyword \<and>
     (keyword \<in> set WHOLE_WORD_KEYWORDS \<longrightarrow>
        (case drop (length keyword) t of [] \<Rightarrow> True | c # _ \<Rightarrow> \<not> word_char u c))"

definition has_keyword :: "unicode \<Rightarrow> ustr list \<Rightarrow> ustr \<Rightarrow> bool" where
  "has_keyword u keywords t =
     search_after (word_char u) (\<lambda>here. list_ex (\<lambda>k. keyword_here u k here) keywords) False t"

section \<open>The classifier\<close>

datatype evidence_type =
    POLITICAL_ARTICLE
  | POLITICAL_EVENT
  | POLITICAL_CHARGE
  | HUMAN_RIGHTS_DEFENDER
  | JOURNALIST
  | ACTIVIST
  | DISSENTING_OPINION
  | RELIGIOUS_PERSECUTION
  | ANTI_WAR_ACTIVITY
  | LGBT_PERSECUTION

datatype classification_status = POLITICAL | NON_POLITICAL | UNCERTAIN | NEEDS_CLASSIFICATION_REVIEW

record classification =
  cl_person :: nat
  cl_status :: classification_status
  cl_confidence :: rat
  cl_reasons :: "ustr list"
  cl_evidence :: "evidence_type list"

text \<open>An event as the classifier reads it: its type and the charge among its attributes.\<close>

type_synonym charged_event = "string \<times> ustr option"

definition CHARGED_EVENTS :: "string list" where
  "CHARGED_EVENTS = [''arrest'', ''detention'', ''charge'', ''sentence'']"

definition charge_reason :: "ustr \<Rightarrow> ustr" where
  "charge_reason charge = [1055] @ ru ''olitiCeskaA statqA: '' @ charge"

definition evidence_of_event :: "unicode \<Rightarrow> charged_event \<Rightarrow> (evidence_type \<times> ustr) list" where
  "evidence_of_event u event =
     (let charge = (case snd event of Some c \<Rightarrow> c | None \<Rightarrow> []) in
      if fst event \<in> set CHARGED_EVENTS \<and> is_political_charge u charge
      then [(POLITICAL_CHARGE, charge_reason charge)] else [])"

definition themes :: "unicode \<Rightarrow> ustr \<Rightarrow> (bool \<times> evidence_type \<times> ustr) list" where
  "themes u full_text =
    [(has_keyword u POLITICAL_KEYWORDS (lower_text u full_text), POLITICAL_ARTICLE,
        [1057] @ ru ''tatqA soderZit priznaki politiCeskogo presledovaniA''),
     (has_keyword u HUMAN_RIGHTS_KEYWORDS full_text, HUMAN_RIGHTS_DEFENDER,
        [1059] @ ru ''pominanie pravozaWitnoj deAtelqnosti''),
     (has_keyword u JOURNALISM_KEYWORDS full_text, JOURNALIST,
        [1059] @ ru ''pominanie Zurnalistskoj deAtelqnosti''),
     (has_keyword u ANTI_WAR_KEYWORDS full_text, ANTI_WAR_ACTIVITY,
        [1040] @ ru ''ntivoennaA deAtelqnostq''),
     (has_keyword u RELIGIOUS_KEYWORDS full_text, RELIGIOUS_PERSECUTION,
        [1056] @ ru ''eligioznoe presledovanie''),
     (has_keyword u LGBT_KEYWORDS full_text, LGBT_PERSECUTION,
        [1055] @ ru ''resledovanie po priznaku '' @ [1051, 1043, 1041, 1058])]"

definition evidence_of_article :: "unicode \<Rightarrow> ustr \<times> ustr \<Rightarrow> (evidence_type \<times> ustr) list" where
  "evidence_of_article u article =
     map snd (filter fst (themes u (lower_text u (fst article @ space @ snd article))))"

definition classify ::
  "unicode \<Rightarrow> nat \<Rightarrow> charged_event list \<Rightarrow> (ustr \<times> ustr) list \<Rightarrow> classification" where
  "classify u person events articles =
     (let found = concat (map (evidence_of_event u) events) @ concat (map (evidence_of_article u) articles);
          evidence = unique (map fst found);
          (status, confidence) =
            (if evidence = [] then (NON_POLITICAL, 0)
             else if events = [] then (UNCERTAIN, 1 / 2)
             else if POLITICAL_CHARGE \<in> set evidence \<or> 2 \<le> length evidence
             then (POLITICAL, min (9 / 10) (7 / 10 + (of_nat (length evidence) - 1) * (1 / 10)))
             else (UNCERTAIN, 6 / 10))
      in \<lparr>cl_person = person, cl_status = status, cl_confidence = confidence,
          cl_reasons = map snd found, cl_evidence = evidence\<rparr>)"

section \<open>What is scoped to the person\<close>

text \<open>Whether the title names the person: a stem of a name token of theirs begins a word there.\<close>

definition NON_SUBJECT_ROLES :: "ustr list" where
  "NON_SUBJECT_ROLES = map ru [
    ''sudqA'', ''sudqi'', ''sledovatelq'', ''sledovatelqnica'', ''prokuror'', ''prokurora'',
    ''doznavatelq'', ''doznavatelqnica'', ''advokat'', ''advokata'', ''advokatka'',
    ''zaWitnik'', ''zaWitnika'', ''zaWitnica'', ''zaWitnicy'', ''vraC'', ''naCalqnik'',
    ''naCalqnica'', ''predstavitelq'', ''predstavitelqnica'', ''predsedatelq'', ''Ekspert'',
    ''Ekspertka'', ''Urist'', ''Uristka'']"

definition ru_lower :: "int \<Rightarrow> bool" where
  "ru_lower c \<longleftrightarrow> (1072 \<le> c \<and> c \<le> 1103) \<or> c = 1105"

definition ru_upper :: "int \<Rightarrow> bool" where
  "ru_upper c \<longleftrightarrow> (1040 \<le> c \<and> c \<le> 1071) \<or> c = 1025"

fun name_token :: pattern where
  "name_token [] = None"
| "name_token (c # cs) =
     (let run = length (takeWhile ru_lower cs) in if ru_upper c \<and> 3 \<le> run then Some (Suc run) else None)"

definition name_tokens :: "ustr \<Rightarrow> ustr list" where
  "name_tokens surface = map (\<lambda>(a, b). drop a (take b surface)) (finditer name_token 0 surface)"

definition title_stem :: "unicode \<Rightarrow> ustr \<Rightarrow> ustr" where
  "title_stem u token = take (max 4 (length token - 2)) (fold_yo (lower_text u token))"

definition title_names_person :: "unicode \<Rightarrow> ustr \<Rightarrow> ustr list \<Rightarrow> bool" where
  "title_names_person u title surfaces \<longleftrightarrow>
     (let lowered = fold_yo (lower_text u title) in
      list_ex (list_ex (\<lambda>token. lower_text u token \<notin> set NON_SUBJECT_ROLES \<and>
          search_after ru_lower (\<lambda>here. starts_with here (title_stem u token)) False lowered) \<circ> name_tokens)
        surfaces)"

text \<open>
  The rows the person's evidence is read from: mentions and events of extraction runs with
  their offsets, the links of events to persons, the run's article, the stored articles. Rows
  come in the table's order where a query names none.
\<close>

record mention_line =
  ml_id :: nat
  ml_run :: nat
  ml_start :: nat
  ml_end :: nat
  ml_surface :: ustr
  ml_text :: ustr
  ml_type :: string
  ml_person :: "nat option"

record event_line =
  el_id :: nat
  el_run :: nat
  el_type :: string
  el_charge :: "ustr option"
  el_start :: nat
  el_end :: nat

record stored_article =
  art_id :: nat
  art_title :: ustr
  art_text :: ustr

record evidence_db =
  mention_lines :: "mention_line list"
  event_lines :: "event_line list"
  event_links :: "(nat \<times> nat) list"
  run_rows :: "(nat \<times> nat) list"
  stored_rows :: "stored_article list"

definition own_mentions :: "evidence_db \<Rightarrow> nat \<Rightarrow> mention_line list" where
  "own_mentions db i = filter (\<lambda>m. ml_person m = Some i) (mention_lines db)"

definition linked_events :: "evidence_db \<Rightarrow> nat \<Rightarrow> event_line list" where
  "linked_events db i = filter (\<lambda>e. (i, el_id e) \<in> set (event_links db)) (event_lines db)"

definition linked_person_ids :: "evidence_db \<Rightarrow> nat list" where
  "linked_person_ids db = unique (map fst (event_links db))"

definition legal_references :: "evidence_db \<Rightarrow> nat list \<Rightarrow> mention_line list" where
  "legal_references db runs =
     filter (\<lambda>m. ml_run m \<in> set runs \<and> ml_type m = ''legal_reference'') (mention_lines db)"

definition run_articles :: "evidence_db \<Rightarrow> nat list \<Rightarrow> (nat, nat) dict" where
  "run_articles db runs = filter (\<lambda>(r, _). r \<in> set runs) (run_rows db)"

definition other_person_spans :: "evidence_db \<Rightarrow> nat list \<Rightarrow> nat \<Rightarrow> (nat \<times> span) list" where
  "other_person_spans db runs i =
     map (\<lambda>m. (ml_run m, ml_start m, ml_end m))
       (filter (\<lambda>m. ml_run m \<in> set runs \<and> ml_type m = ''person'' \<and> ml_person m \<noteq> Some i) (mention_lines db))"

definition stored_articles :: "evidence_db \<Rightarrow> nat list \<Rightarrow> stored_article list" where
  "stored_articles db ids = filter (\<lambda>a. art_id a \<in> set ids) (stored_rows db)"

text \<open>The legal references nearest to an event, all of the smallest distance.\<close>

definition LEGAL_REFERENCE_LINK_WINDOW_CHARS :: nat where
  "LEGAL_REFERENCE_LINK_WINDOW_CHARS = 200"

definition reference_distance :: "nat \<Rightarrow> nat \<Rightarrow> mention_line \<Rightarrow> nat" where
  "reference_distance start stop m =
     (if ml_end m \<le> start then start - ml_end m
      else if stop \<le> ml_start m then ml_start m - stop
      else 0)"

definition nearest_legal_references :: "mention_line list \<Rightarrow> nat \<Rightarrow> nat \<Rightarrow> mention_line list" where
  "nearest_legal_references candidates start stop =
     (let near = filter (\<lambda>m. reference_distance start stop m \<le> LEGAL_REFERENCE_LINK_WINDOW_CHARS) candidates;
          distances = map (reference_distance start stop) near
      in if near = [] then [] else filter (\<lambda>m. reference_distance start stop m = Min (set distances)) near)"

definition charge_of_event :: "evidence_db \<Rightarrow> nat list \<Rightarrow> event_line \<Rightarrow> ustr option" where
  "charge_of_event db runs e =
     (case el_charge e of
        Some (c # cs) \<Rightarrow> Some (c # cs)
      | _ \<Rightarrow>
          let nearest = nearest_legal_references
                (filter (\<lambda>m. ml_run m = el_run e) (legal_references db runs)) (el_start e) (el_end e)
          in if nearest = [] then el_charge e
             else Some (join_text (ascii ''; '') (sort (unique (map ml_text nearest)))))"

definition events_with_charge_evidence :: "evidence_db \<Rightarrow> event_line list \<Rightarrow> charged_event list" where
  "events_with_charge_evidence db events =
     map (\<lambda>e. (el_type e, charge_of_event db (unique (map el_run events)) e)) events"

text \<open>\<open>d.setdefault(k, []).append(v)\<close> over pairs.\<close>

definition collect_pairs :: "('k \<times> 'v) list \<Rightarrow> ('k, 'v list) dict" where
  "collect_pairs pairs =
     fold (\<lambda>(k, v) d. dict_set k (case dict_get d k of Some vs \<Rightarrow> vs @ [v] | None \<Rightarrow> [v]) d) pairs []"

definition values_of :: "('k, 'v list) dict \<Rightarrow> 'k \<Rightarrow> 'v list" where
  "values_of d k = (case dict_get d k of Some vs \<Rightarrow> vs | None \<Rightarrow> [])"

text \<open>Pairs keyed by run, rekeyed by the run's article; a run of no article is left out.\<close>

definition by_article :: "(nat, nat) dict \<Rightarrow> (nat \<times> 'v) list \<Rightarrow> (nat, 'v list) dict" where
  "by_article article_of pairs =
     collect_pairs (List.map_filter (\<lambda>(r, v). map_option (\<lambda>a. (a, v)) (dict_get article_of r)) pairs)"

definition EVIDENCE_WINDOW_CHARS :: nat where
  "EVIDENCE_WINDOW_CHARS = 400"

definition excerpt_joint :: ustr where
  "excerpt_joint = [10] @ ascii ''[...]'' @ [10]"

definition slice :: "'a list \<Rightarrow> span \<Rightarrow> 'a list" where
  "slice t sp = drop (fst sp) (take (snd sp) t)"

definition article_windows ::
  "unicode \<Rightarrow> ustr \<Rightarrow> span list \<Rightarrow> span list \<Rightarrow> span list \<Rightarrow> span list" where
  "article_windows u t spans own others =
     merge_windows u t EVIDENCE_WINDOW_CHARS (narrow_shared_spans spans own others) others"

definition windowed_articles ::
  "unicode \<Rightarrow> evidence_db \<Rightarrow> mention_line list \<Rightarrow> event_line list \<Rightarrow> nat \<Rightarrow> (ustr \<times> ustr) list" where
  "windowed_articles u db mentions events person =
     (let mention_spans = map (\<lambda>m. (ml_run m, ml_start m, ml_end m)) mentions;
          event_spans = map (\<lambda>e. (el_run e, el_start e, el_end e)) events;
          spans_by_run = collect_pairs (mention_spans @ event_spans);
          runs = dict_keys spans_by_run;
          article_of = run_articles db runs;
          spans_by_article = by_article article_of (concat (map (\<lambda>(r, sps). map (Pair r) sps) spans_by_run));
          articles = sort_key art_id (stored_articles db (dict_keys spans_by_article));
          others_by_article = by_article article_of (other_person_spans db runs person);
          own_by_article = by_article article_of mention_spans;
          event_articles = List.map_filter (\<lambda>e. dict_get article_of (el_run e)) events;
          surfaces = by_article article_of (map (\<lambda>m. (ml_run m, ml_surface m)) mentions)
      in map (\<lambda>a.
           let windows = article_windows u (art_text a) (values_of spans_by_article (art_id a))
                 (values_of own_by_article (art_id a)) (values_of others_by_article (art_id a))
           in (if art_id a \<in> set event_articles \<or>
                  title_names_person u (art_title a) (values_of surfaces (art_id a))
               then art_title a else [],
               join_text excerpt_joint (map (slice (art_text a)) windows))) articles)"

text \<open>\<open>classify_person\<close>, up to the saving of its result.\<close>

definition classification_of :: "unicode \<Rightarrow> evidence_db \<Rightarrow> nat \<Rightarrow> classification" where
  "classification_of u db person =
     (let mentions = own_mentions db person; events = linked_events db person in
      classify u person (events_with_charge_evidence db events)
        (windowed_articles u db mentions events person))"

section \<open>What a verdict rests on\<close>

text \<open>The references: a keyword written as a word, an article cited by its whole number.\<close>

definition written :: "unicode \<Rightarrow> ustr list \<Rightarrow> ustr \<Rightarrow> bool" where
  "written u keywords t \<longleftrightarrow>
     (\<exists>before keyword after. t = before @ keyword @ after \<and> keyword \<in> set keywords \<and>
        (before = [] \<or> \<not> word_char u (last before)) \<and>
        (keyword \<in> set WHOLE_WORD_KEYWORDS \<longrightarrow> after = [] \<or> \<not> word_char u (hd after)))"

definition cited :: "unicode \<Rightarrow> ustr \<Rightarrow> ustr \<Rightarrow> bool" where
  "cited u article reference \<longleftrightarrow>
     (\<exists>before after. reference = before @ article @ after \<and>
        (before = [] \<or> \<not> number_char u (last before)) \<and> (after = [] \<or> \<not> number_char u (hd after)))"

lemma starts_with_iff: "starts_with t w \<longleftrightarrow> (\<exists>rest. t = w @ rest)"
  by (metis append_eq_conv_conj append_take_drop_id starts_with_def)

lemma starts_with_append [simp]: "starts_with (w @ rest) w"
  by (simp add: starts_with_def)

lemma starts_with_self [simp]: "starts_with w w"
  by (simp add: starts_with_def)

lemma starts_with_drop: "starts_with t w \<Longrightarrow> t = w @ drop (length w) t"
  by (metis append_take_drop_id starts_with_def)

lemma has_keyword_iff: "has_keyword u keywords t \<longleftrightarrow> written u keywords t"
proof
  assume "has_keyword u keywords t"
  then obtain before here k where found: "t = before @ here" "k \<in> set keywords" "keyword_here u k here"
      "if before = [] then True else \<not> word_char u (last before)"
    unfolding has_keyword_def search_after_iff list_ex_iff by auto
  then have "here = k @ drop (length k) here" using starts_with_drop keyword_here_def by blast
  then have "t = before @ k @ drop (length k) here" using found(1) by simp
  moreover have "k \<in> set WHOLE_WORD_KEYWORDS \<longrightarrow> drop (length k) here = [] \<or> \<not> word_char u (hd (drop (length k) here))"
    using found(3) by (auto simp: keyword_here_def split: list.splits)
  ultimately show "written u keywords t" using found(2,4) unfolding written_def by (metis (full_types))
next
  assume "written u keywords t"
  then obtain before k after where found: "t = before @ k @ after" "k \<in> set keywords"
      "before = [] \<or> \<not> word_char u (last before)"
      "k \<in> set WHOLE_WORD_KEYWORDS \<longrightarrow> after = [] \<or> \<not> word_char u (hd after)"
    unfolding written_def by blast
  have "keyword_here u k (k @ after)" using found(4) by (cases after) (simp_all add: keyword_here_def)
  then show "has_keyword u keywords t"
    unfolding has_keyword_def search_after_iff list_ex_iff
    using found(1-3) by (intro exI [of _ before] exI [of _ "k @ after"]) auto
qed

lemma cites_article_iff: "cites_article u article reference \<longleftrightarrow> cited u article reference"
proof
  assume "cites_article u article reference"
  then obtain before here where found: "reference = before @ here" "whole_number_here u article here"
      "if before = [] then True else \<not> number_char u (last before)"
    unfolding cites_article_def search_after_iff by auto
  then have "here = article @ drop (length article) here" using starts_with_drop whole_number_here_def by blast
  then have "reference = before @ article @ drop (length article) here" using found(1) by simp
  moreover have "drop (length article) here = [] \<or> \<not> number_char u (hd (drop (length article) here))"
    using found(2) by (auto simp: whole_number_here_def split: list.splits)
  ultimately show "cited u article reference" using found(3) unfolding cited_def by (metis (full_types))
next
  assume "cited u article reference"
  then obtain before after where found: "reference = before @ article @ after"
      "before = [] \<or> \<not> number_char u (last before)" "after = [] \<or> \<not> number_char u (hd after)"
    unfolding cited_def by blast
  have "whole_number_here u article (article @ after)" using found(3) by (cases after) (simp_all add: whole_number_here_def)
  then show "cites_article u article reference"
    unfolding cites_article_def search_after_iff
    using found(1,2) by (intro exI [of _ before] exI [of _ "article @ after"]) auto
qed

definition political_charge :: "unicode \<Rightarrow> ustr \<Rightarrow> bool" where
  "political_charge u charge \<longleftrightarrow>
     (\<exists>reference \<in> set (split_at 59 charge). \<exists>article \<in> set (articles_of_code u reference). cited u article reference)"

fun theme_keywords :: "evidence_type \<Rightarrow> ustr list" where
  "theme_keywords POLITICAL_ARTICLE = POLITICAL_KEYWORDS"
| "theme_keywords HUMAN_RIGHTS_DEFENDER = HUMAN_RIGHTS_KEYWORDS"
| "theme_keywords JOURNALIST = JOURNALISM_KEYWORDS"
| "theme_keywords ANTI_WAR_ACTIVITY = ANTI_WAR_KEYWORDS"
| "theme_keywords RELIGIOUS_PERSECUTION = RELIGIOUS_KEYWORDS"
| "theme_keywords LGBT_PERSECUTION = LGBT_KEYWORDS"
| "theme_keywords _ = []"

definition shows_theme :: "unicode \<Rightarrow> evidence_type \<Rightarrow> ustr \<times> ustr \<Rightarrow> bool" where
  "shows_theme u x article \<longleftrightarrow>
     (let lowered = lower_text u (fst article @ space @ snd article) in
      written u (theme_keywords x) (if x = POLITICAL_ARTICLE then lower_text u lowered else lowered))"

lemma not_written_none [simp]: "\<not> written u [] t"
  by (simp add: written_def)

lemma evidence_of_article_iff: "x \<in> fst ` set (evidence_of_article u article) \<longleftrightarrow> shows_theme u x article"
  by (cases x) (auto simp: evidence_of_article_def themes_def shows_theme_def Let_def has_keyword_iff image_iff)

lemma is_political_charge_iff: "is_political_charge u charge \<longleftrightarrow> political_charge u charge"
proof -
  have "\<not> political_charge u []"
  proof -
    have "[] \<notin> set POLITICAL_ARTICLES" "[] \<notin> set POLITICAL_ADMINISTRATIVE_ARTICLES"
      by (simp_all add: POLITICAL_ARTICLES_def POLITICAL_ADMINISTRATIVE_ARTICLES_def ascii_def)
    then show ?thesis
      by (auto simp: political_charge_def cited_def articles_of_code_def split: if_splits)
  qed
  then show ?thesis
    by (auto simp: is_political_charge_def political_charge_def list_ex_iff cites_article_iff)
qed

definition charged_politically :: "unicode \<Rightarrow> charged_event \<Rightarrow> bool" where
  "charged_politically u event \<longleftrightarrow>
     fst event \<in> set CHARGED_EVENTS \<and> (\<exists>charge. snd event = Some charge \<and> political_charge u charge)"

lemma evidence_of_event_iff: "x \<in> fst ` set (evidence_of_event u e) \<longleftrightarrow> x = POLITICAL_CHARGE \<and> charged_politically u e"
proof -
  have "\<not> is_political_charge u []" by (simp add: is_political_charge_def)
  then show ?thesis
    by (auto simp: evidence_of_event_def charged_politically_def Let_def is_political_charge_iff split: option.splits)
qed

lemma two_of: "distinct xs \<Longrightarrow> 2 \<le> length xs \<longleftrightarrow> (\<exists>x \<in> set xs. \<exists>y \<in> set xs. x \<noteq> y)"
proof
  assume "distinct xs" and "2 \<le> length xs"
  then have "xs ! 0 \<noteq> xs ! 1" "0 < length xs" "1 < length xs"
    using nth_eq_iff_index_eq [of xs 0 1] by linarith+
  then have "xs ! 0 \<noteq> xs ! 1" "xs ! 0 \<in> set xs" "xs ! 1 \<in> set xs" by simp_all
  then show "\<exists>x \<in> set xs. \<exists>y \<in> set xs. x \<noteq> y" by blast
next
  assume "\<exists>x \<in> set xs. \<exists>y \<in> set xs. x \<noteq> y"
  then show "2 \<le> length xs" by (cases xs rule: remdups_adj.cases) auto
qed

lemma classified_evidence:
  "x \<in> set (cl_evidence (classify u person events articles)) \<longleftrightarrow>
     x = POLITICAL_CHARGE \<and> (\<exists>e \<in> set events. charged_politically u e) \<or>
     (\<exists>a \<in> set articles. shows_theme u x a)"
proof -
  have "cl_evidence (classify u person events articles) =
      unique (map fst (concat (map (evidence_of_event u) events) @ concat (map (evidence_of_article u) articles)))"
    by (simp add: classify_def Let_def split: prod.split)
  then show ?thesis
    using evidence_of_event_iff [of x u] evidence_of_article_iff [of x u] by (auto simp: image_iff)
qed

lemma classified_status:
  "cl_status (classify u person events articles) = POLITICAL \<longleftrightarrow> events \<noteq> [] \<and>
     (POLITICAL_CHARGE \<in> set (cl_evidence (classify u person events articles)) \<or>
      (\<exists>x \<in> set (cl_evidence (classify u person events articles)).
        \<exists>y \<in> set (cl_evidence (classify u person events articles)). x \<noteq> y))"
proof -
  let ?evidence = "cl_evidence (classify u person events articles)"
  have "cl_status (classify u person events articles) = POLITICAL \<longleftrightarrow>
      ?evidence \<noteq> [] \<and> events \<noteq> [] \<and> (POLITICAL_CHARGE \<in> set ?evidence \<or> 2 \<le> length ?evidence)"
    by (simp add: classify_def Let_def del: unique_Nil_iff split: prod.split)
  then have "cl_status (classify u person events articles) = POLITICAL \<longleftrightarrow>
      events \<noteq> [] \<and> (POLITICAL_CHARGE \<in> set ?evidence \<or> 2 \<le> length ?evidence)"
    by auto
  moreover have "distinct ?evidence" by (auto simp: classify_def Let_def split: prod.splits)
  then have "2 \<le> length ?evidence \<longleftrightarrow> (\<exists>x \<in> set ?evidence. \<exists>y \<in> set ?evidence. x \<noteq> y)" by (rule two_of)
  ultimately show ?thesis by simp
qed

text \<open>
  C24. What makes a person politically persecuted, for any text: the classifier says POLITICAL
  exactly when the person takes part in an event of their own and either an arrest, detention,
  charge or sentence cites, by its whole number and within its own code, a political article,
  or two different themes are written as words in the text scoped to the person.
\<close>

theorem political_verdict_is_grounded:
  "cl_status (classify u person events articles) = POLITICAL \<longleftrightarrow>
     events \<noteq> [] \<and>
     ((\<exists>e \<in> set events. charged_politically u e) \<or>
      (\<exists>x y. x \<noteq> y \<and> (\<exists>a \<in> set articles. shows_theme u x a) \<and> (\<exists>a \<in> set articles. shows_theme u y a)))"
proof -
  let ?evidence = "cl_evidence (classify u person events articles)"
  have "\<not> shows_theme u POLITICAL_CHARGE a" for a by (simp add: shows_theme_def Let_def)
  then have charge: "POLITICAL_CHARGE \<in> set ?evidence \<longleftrightarrow> (\<exists>e \<in> set events. charged_politically u e)"
    unfolding classified_evidence by blast
  have "x \<in> set ?evidence \<longleftrightarrow> (\<exists>a \<in> set articles. shows_theme u x a)"
    if "\<not> (\<exists>e \<in> set events. charged_politically u e)" for x
    using that unfolding classified_evidence by blast
  then show ?thesis
    unfolding classified_status charge by (cases "\<exists>e \<in> set events. charged_politically u e") (simp_all, blast)
qed

section \<open>Two surprises\<close>

text \<open>
  One word is two themes: \<open>pravozashchitnik\<close> is both a political keyword and the human rights
  one, so a person detained next to that single word is POLITICAL, where the source's comment
  wants a second, corroborating signal.
\<close>

lemma one_word_is_two_signals:
  "cl_status (classify russian 1 [(''detention'', None)] [([], ru ''pravozaWitnik'')]) = POLITICAL"
  by code_simp

text \<open>
  A window begins in the middle of a word: 400 characters before the mention stands \<open>Sergej\<close>,
  whose last three letters are then a word of the excerpt.
\<close>

definition cut_word :: evidence_db where
  "cut_word =
    \<lparr>mention_lines = [\<lparr>ml_id = 1, ml_run = 1, ml_start = 403, ml_end = 409, ml_surface = ru ''ivanov'',
       ml_text = ru ''ivanov'', ml_type = ''person'', ml_person = Some 1\<rparr>],
     event_lines = [\<lparr>el_id = 1, el_run = 1, el_type = ''detention'', el_charge = None, el_start = 403, el_end = 409\<rparr>],
     event_links = [(1, 1)], run_rows = [(1, 1)],
     stored_rows = [\<lparr>art_id = 1, art_title = [], art_text = ru ''sergej'' @ replicate 397 32 @ ru ''ivanov''\<rparr>]\<rparr>"

lemma cut_word_excerpt:
  "classification_of russian cut_word 1 =
     classify russian 1 [(''detention'', None)] [([], ru ''gej'' @ replicate 397 32 @ ru ''ivanov'')]"
proof -
  have windows: "article_windows russian (art_text (hd (stored_rows cut_word))) [(403, 409), (403, 409)] [(403, 409)] [] = [(3, 409)]"
    by (simp add: article_windows_def merge_windows_def window_around_def narrow_shared_spans_def inside_span_def
        EVIDENCE_WINDOW_CHARS_def cut_word_def ru_def)
  have "drop 3 (take 409 (ru ''sergej'' @ replicate 397 32 @ ru ''ivanov'')) = ru ''gej'' @ replicate 397 32 @ ru ''ivanov''"
    by (simp add: ru_def)
  moreover have "\<not> title_names_person russian [] [ru ''ivanov'']" by code_simp
  ultimately show ?thesis
    using windows
    by (simp add: classification_of_def cut_word_def own_mentions_def linked_events_def events_with_charge_evidence_def
        charge_of_event_def nearest_legal_references_def legal_references_def windowed_articles_def collect_pairs_def
        by_article_def run_articles_def stored_articles_def other_person_spans_def values_of_def dict_get_def
        dict_keys_def map_filter_simps slice_def Let_def)
qed

lemma window_edge_makes_a_word:
  "cl_status (classification_of russian cut_word 1) = POLITICAL"
  "\<not> has_keyword russian LGBT_KEYWORDS (ru ''sergej ivanov'')"
proof -
  let ?article = "([], ru ''gej'' @ replicate 397 32 @ ru ''ivanov'')"
  have lower: "lower_text russian (fst ?article @ space @ snd ?article) = [32] @ ru ''gej'' @ (replicate 397 32 @ ru ''ivanov'')"
    by (simp add: russian_def lower_ru_char_def ru_def ru_char_def ru_letters_def map_replicate)
  have "lower_text russian ([32] @ ru ''gej'' @ (replicate 397 32 @ ru ''ivanov'')) = [32] @ ru ''gej'' @ (replicate 397 32 @ ru ''ivanov'')"
    by (simp add: russian_def lower_ru_char_def ru_def ru_char_def ru_letters_def map_replicate)
  moreover have "written russian kws ([32] @ ru ''gej'' @ (replicate 397 32 @ ru ''ivanov''))"
    if "ru ''gej'' \<in> set kws" for kws
    unfolding written_def using that
    by (intro exI [of _ "[32]"] exI [of _ "ru ''gej''"] exI [of _ "replicate 397 32 @ ru ''ivanov''"])
      (simp add: word_char_def russian_def alpha_ru_char_def)
  ultimately have "shows_theme russian POLITICAL_ARTICLE ?article" "shows_theme russian LGBT_PERSECUTION ?article"
    unfolding shows_theme_def Let_def lower by (simp_all add: POLITICAL_KEYWORDS_def LGBT_KEYWORDS_def)
  then have "POLITICAL_ARTICLE \<in> set (cl_evidence (classification_of russian cut_word 1))"
      "LGBT_PERSECUTION \<in> set (cl_evidence (classification_of russian cut_word 1))"
    unfolding cut_word_excerpt classified_evidence by simp_all
  then show "cl_status (classification_of russian cut_word 1) = POLITICAL"
    unfolding cut_word_excerpt classified_status using evidence_type.distinct by (metis list.distinct(1))
  show "\<not> has_keyword russian LGBT_KEYWORDS (ru ''sergej ivanov'')" by code_simp
qed

end
