(* ===== verification/Rosfin_Match.thy ===== *)
theory Rosfin_Match
  imports Persons_Store Name_Frequency
begin

text \<open>
  Is a canonical person on a snapshot of the Rosfinmonitoring list
  (\<open>court-analysis: analysis/rosfinmonitoring/matcher.py\<close>). Scores are exact fractions.
  \<open>rapidfuzz\<close>'s Levenshtein distance and PostgreSQL's \<open>ILIKE\<close> are parameters.
\<close>

record text_tools =
  levenshtein :: "ustr \<Rightarrow> ustr \<Rightarrow> nat"
  ilike :: "ustr \<Rightarrow> ustr \<Rightarrow> bool"

text \<open>What is documented of them: no edit parts a text from itself, \<open>%\<close> stands for any text.\<close>

definition documented_tools :: "text_tools \<Rightarrow> bool" where
  "documented_tools t \<longleftrightarrow> (\<forall>w. levenshtein t w w = 0)"

section \<open>Names\<close>

definition escape_like :: "ustr \<Rightarrow> ustr" where
  "escape_like t = concat (map (\<lambda>c. if c = 92 \<or> c = 37 \<or> c = 95 then [92, c] else [c]) t)"

definition without_signs :: "ustr \<Rightarrow> ustr" where
  "without_signs t = filter (\<lambda>c. c \<noteq> 1100 \<and> c \<noteq> 1098) t"

fun common_prefix :: "ustr \<Rightarrow> ustr \<Rightarrow> nat" where
  "common_prefix (x # xs) (y # ys) = (if x = y then Suc (common_prefix xs ys) else 0)"
| "common_prefix _ _ = 0"

definition same_word_stem :: "text_tools \<Rightarrow> ustr \<Rightarrow> ustr \<Rightarrow> bool" where
  "same_word_stem tools a b \<longleftrightarrow>
     (let first = without_signs a; second = without_signs b; common = common_prefix first second in
      max 3 (min (length first) (length second) - 2) \<le> common \<or>
      (1 \<le> common \<and> levenshtein tools first second \<le> 2))"

definition name_words :: "unicode \<Rightarrow> ustr \<Rightarrow> ustr list" where
  "name_words u name = words (map (\<lambda>c. if c = 45 then 32 else c) (fold_yo (lower_text u name)))"

definition strip_dots :: "ustr \<Rightarrow> ustr" where
  "strip_dots t = rev (dropWhile (\<lambda>c. c = 46) (rev (dropWhile (\<lambda>c. c = 46) t)))"

definition full_word_count :: "ustr \<Rightarrow> nat" where
  "full_word_count name = length (filter (\<lambda>w. 1 < length (strip_dots w)) (words name))"

definition MIN_NAME_WORDS_FOR_RELIABLE_CHECK :: nat where
  "MIN_NAME_WORDS_FOR_RELIABLE_CHECK = 2"

definition is_name_variant :: "unicode \<Rightarrow> text_tools \<Rightarrow> ustr \<Rightarrow> ustr \<Rightarrow> bool" where
  "is_name_variant u tools person_name entry_name \<longleftrightarrow>
     (let ps = name_words u person_name; es = name_words u entry_name;
          (shorter, longer) = (if length es < length ps then (es, ps) else (ps, es)) in
      MIN_NAME_WORDS_FOR_RELIABLE_CHECK \<le> length ps \<and> 2 \<le> length es \<and>
      list_all (\<lambda>word. list_ex (same_word_stem tools word) longer) shorter)"

text \<open>Jaccard's index of the words.\<close>

definition word_similarity :: "unicode \<Rightarrow> ustr \<Rightarrow> ustr \<Rightarrow> rat" where
  "word_similarity u a b =
     (let xs = unique (words (lower_text u a)); ys = unique (words (lower_text u b)) in
      if xs = [] \<or> ys = [] then 0
      else of_nat (length (filter (\<lambda>w. w \<in> set ys) xs)) / of_nat (length (unique (xs @ ys))))"

section \<open>Scores\<close>

definition NOT_MATCHED_CONFIDENCE :: rat where "NOT_MATCHED_CONFIDENCE = 8 / 10"
definition EXACT_KEY_MATCH_SCORE :: rat where "EXACT_KEY_MATCH_SCORE = 8 / 10"
definition NAME_SIMILARITY_THRESHOLD :: rat where "NAME_SIMILARITY_THRESHOLD = 8 / 10"
definition NAME_SIMILARITY_WEIGHT :: rat where "NAME_SIMILARITY_WEIGHT = 2 / 10"
definition CANDIDATE_SCORE_THRESHOLD :: rat where "CANDIDATE_SCORE_THRESHOLD = 5 / 10"
definition MATCHED_SCORE_THRESHOLD :: rat where "MATCHED_SCORE_THRESHOLD = 95 / 100"
definition AMBIGUITY_SCORE_MARGIN :: rat where "AMBIGUITY_SCORE_MARGIN = 1 / 10"
definition BIRTH_DATE_MATCH_BONUS :: rat where "BIRTH_DATE_MATCH_BONUS = 5 / 100"
definition BIRTH_DATE_MISMATCH_SCORE_CAP :: rat where "BIRTH_DATE_MISMATCH_SCORE_CAP = 5 / 10"

lemmas score_constants = NOT_MATCHED_CONFIDENCE_def EXACT_KEY_MATCH_SCORE_def NAME_SIMILARITY_THRESHOLD_def
  NAME_SIMILARITY_WEIGHT_def CANDIDATE_SCORE_THRESHOLD_def MATCHED_SCORE_THRESHOLD_def
  AMBIGUITY_SCORE_MARGIN_def BIRTH_DATE_MATCH_BONUS_def BIRTH_DATE_MISMATCH_SCORE_CAP_def

text \<open>The reasons the source words; a birth date is its day.\<close>

datatype match_reason =
    Exact_Key
  | High_Name_Similarity rat
  | Birth_Date_Matches
  | Birth_Date_Differs
  | Name_Variant
  | Too_Few_Words
  | Entry_Is_A_Variant
  | No_Entries_Found
  | Several_Similar_Candidates
  | Below_Threshold

record match_identity =
  mi_text :: ustr
  mi_key :: ustr

record rf_entry =
  rf_id :: nat
  rf_snapshot :: nat
  rf_full_name :: ustr
  rf_text :: ustr
  rf_key :: ustr
  rf_birth :: "nat option"

definition compute_similarity ::
  "unicode \<Rightarrow> match_identity \<Rightarrow> rf_entry \<Rightarrow> nat option \<Rightarrow> rat \<times> match_reason list" where
  "compute_similarity u person e birth =
     (let (key_score, key_reasons) =
            (if mi_key person = rf_key e then (EXACT_KEY_MATCH_SCORE, [Exact_Key]) else (0, []));
          similarity = word_similarity u (mi_text person) (rf_text e);
          (name_score, name_reasons) =
            (if NAME_SIMILARITY_THRESHOLD < similarity
             then (key_score + NAME_SIMILARITY_WEIGHT * similarity, key_reasons @ [High_Name_Similarity similarity])
             else (key_score, key_reasons));
          score = (if 0 < name_score then min name_score 1 else name_score)
      in case (birth, rf_birth e) of
           (Some day, Some entry_day) \<Rightarrow>
             if 0 < score then
               if day = entry_day then (min 1 (score + BIRTH_DATE_MATCH_BONUS), name_reasons @ [Birth_Date_Matches])
               else (min score BIRTH_DATE_MISMATCH_SCORE_CAP, name_reasons @ [Birth_Date_Differs])
             else (score, name_reasons)
         | _ \<Rightarrow> (score, name_reasons))"

section \<open>Matching one person\<close>

datatype match_status = MATCHED | NOT_MATCHED | AMBIGUOUS | NEEDS_MATCH_REVIEW | INSUFFICIENT_DATA | MATCHED_PROBABLE

record candidate_entry =
  ce_entry :: rf_entry
  ce_score :: rat
  ce_reasons :: "match_reason list"

record match_result =
  mr_person :: nat
  mr_snapshot :: nat
  mr_status :: match_status
  mr_confidence :: rat
  mr_entry :: "(nat \<times> ustr) option"
  mr_candidates :: "candidate_entry list"
  mr_reasons :: "match_reason list"

record rf_db =
  snapshot_ids :: "nat list"
  rf_entries :: "rf_entry list"

definition identities_of :: "persons_db \<Rightarrow> person_row \<Rightarrow> match_identity list" where
  "identities_of db p =
     \<lparr>mi_text = person_normalized p, mi_key = person_key p\<rparr>
     # map (\<lambda>a. \<lparr>mi_text = alias_text a, mi_key = alias_key a\<rparr>)
         (filter (\<lambda>a. alias_person a = person_id p) (alias_rows db))"

definition identity_words :: "unicode \<Rightarrow> match_identity list \<Rightarrow> ustr list" where
  "identity_words u ids = filter (\<lambda>w. 3 \<le> length w) (concat (map (name_words u \<circ> mi_text) ids))"

definition word_condition :: "text_tools \<Rightarrow> ustr \<Rightarrow> rf_entry \<Rightarrow> bool" where
  "word_condition tools word e =
     ilike tools (rf_text e) ([37] @ escape_like (take (max 3 (length word - 2)) word) @ [37])"

definition fetched_entries :: "unicode \<Rightarrow> text_tools \<Rightarrow> rf_db \<Rightarrow> nat \<Rightarrow> match_identity list \<Rightarrow> rf_entry list" where
  "fetched_entries u tools rf snapshot ids =
     sort_key rf_id (filter (\<lambda>e. rf_snapshot e = snapshot \<and>
        (rf_key e \<in> mi_key ` set ids \<or> rf_text e \<in> mi_text ` set ids \<or>
         list_ex (\<lambda>word. word_condition tools word e) (identity_words u ids))) (rf_entries rf))"

definition scored_candidates ::
  "unicode \<Rightarrow> match_identity list \<Rightarrow> rf_entry list \<Rightarrow> nat option \<Rightarrow> candidate_entry list" where
  "scored_candidates u ids entries birth =
     List.map_filter (\<lambda>(person, e).
       let (score, reasons) = compute_similarity u person e birth in
       if CANDIDATE_SCORE_THRESHOLD < score then Some \<lparr>ce_entry = e, ce_score = score, ce_reasons = reasons\<rparr>
       else None) (List.product ids entries)"

definition keep_best :: "candidate_entry \<Rightarrow> (nat, candidate_entry) dict \<Rightarrow> (nat, candidate_entry) dict" where
  "keep_best c best =
     (case dict_get best (rf_id (ce_entry c)) of
        None \<Rightarrow> dict_set (rf_id (ce_entry c)) c best
      | Some old \<Rightarrow> if ce_score old < ce_score c then dict_set (rf_id (ce_entry c)) c best else best)"

definition ranked_matches :: "candidate_entry list \<Rightarrow> candidate_entry list" where
  "ranked_matches cs = sort_key (\<lambda>c. - ce_score c) (map snd (fold keep_best cs []))"

definition name_variants :: "unicode \<Rightarrow> text_tools \<Rightarrow> match_identity list \<Rightarrow> rf_entry list \<Rightarrow> rf_entry list" where
  "name_variants u tools ids entries =
     filter (\<lambda>e. list_ex (\<lambda>x. is_name_variant u tools (mi_text x) (rf_text e)) ids) entries"

definition no_candidates ::
  "unicode \<Rightarrow> text_tools \<Rightarrow> person_row \<Rightarrow> nat \<Rightarrow> match_identity list \<Rightarrow> rf_entry list \<Rightarrow> match_result" where
  "no_candidates u tools p snapshot ids entries =
     (let result = \<lparr>mr_person = person_id p, mr_snapshot = snapshot, mr_status = NOT_MATCHED,
            mr_confidence = NOT_MATCHED_CONFIDENCE, mr_entry = None, mr_candidates = [],
            mr_reasons = [No_Entries_Found]\<rparr>;
          variants = name_variants u tools ids entries
      in if full_word_count (person_normalized p) < MIN_NAME_WORDS_FOR_RELIABLE_CHECK
         then result\<lparr>mr_status := INSUFFICIENT_DATA, mr_confidence := 0, mr_reasons := [Too_Few_Words]\<rparr>
         else if variants \<noteq> []
         then result\<lparr>mr_status := NEEDS_MATCH_REVIEW, mr_confidence := 0,
                mr_candidates := map (\<lambda>e. \<lparr>ce_entry = e,
                    ce_score = word_similarity u (person_normalized p) (rf_text e), ce_reasons = [Name_Variant]\<rparr>)
                  (take 5 variants),
                mr_reasons := [Entry_Is_A_Variant]\<rparr>
         else result)"

definition rate_candidates :: "nat \<Rightarrow> nat \<Rightarrow> candidate_entry \<Rightarrow> candidate_entry list \<Rightarrow> match_result" where
  "rate_candidates person snapshot best others =
     (let result = \<lparr>mr_person = person, mr_snapshot = snapshot, mr_status = NEEDS_MATCH_REVIEW,
            mr_confidence = ce_score best, mr_entry = None, mr_candidates = take 5 (best # others),
            mr_reasons = [Below_Threshold]\<rparr>
      in if (case others of [] \<Rightarrow> False | second # _ \<Rightarrow> ce_score best - ce_score second < AMBIGUITY_SCORE_MARGIN)
         then result\<lparr>mr_status := AMBIGUOUS, mr_reasons := [Several_Similar_Candidates]\<rparr>
         else if MATCHED_SCORE_THRESHOLD \<le> ce_score best
         then result\<lparr>mr_status := MATCHED, mr_entry := Some (rf_id (ce_entry best), rf_full_name (ce_entry best)),
                mr_reasons := ce_reasons best\<rparr>
         else result)"

definition match_person ::
  "unicode \<Rightarrow> text_tools \<Rightarrow> persons_db \<Rightarrow> rf_db \<Rightarrow> nat \<Rightarrow> nat \<Rightarrow> nat option \<Rightarrow> er_error + match_result" where
  "match_person u tools db rf person snapshot birth =
     (case row_of_person person db of
        None \<Rightarrow> Inl (StoreValueError (''Person '' @ digits_of person @ '' not found''))
      | Some p \<Rightarrow>
          if snapshot \<notin> set (snapshot_ids rf)
          then Inl (StoreValueError (''Rosfinmonitoring snapshot '' @ digits_of snapshot @ '' not found''))
          else
            let ids = identities_of db p;
                entries = fetched_entries u tools rf snapshot ids
            in Inr (case ranked_matches (scored_candidates u ids entries birth) of
                 [] \<Rightarrow> no_candidates u tools p snapshot ids entries
               | best # others \<Rightarrow> rate_candidates person snapshot best others))"

definition person_ids_to_match :: "persons_db \<Rightarrow> nat option \<Rightarrow> nat list" where
  "person_ids_to_match db limit =
     (let ids = sort (map person_id (filter (\<lambda>p. merged_into p = None) (person_rows db))) in
      case limit of None \<Rightarrow> ids | Some n \<Rightarrow> take n ids)"

section \<open>What a score says\<close>

lemma word_similarity_bounds: "0 \<le> word_similarity u a b \<and> word_similarity u a b \<le> 1"
proof -
  let ?xs = "unique (words (lower_text u a))" and ?ys = "unique (words (lower_text u b))"
  have "length (filter (\<lambda>w. w \<in> set ?ys) ?xs) = card (set (filter (\<lambda>w. w \<in> set ?ys) ?xs))"
    by (metis distinct_card distinct_filter distinct_unique)
  also have "\<dots> \<le> card (set (unique (?xs @ ?ys)))" by (rule card_mono) auto
  also have "\<dots> = length (unique (?xs @ ?ys))" by (metis distinct_card distinct_unique)
  finally show ?thesis unfolding word_similarity_def Let_def by (auto intro: divide_le_eq_1 [THEN iffD2] simp: divide_le_eq_1)
qed

lemma score_needs_key:
  assumes "1 / 2 < fst (compute_similarity u x e birth)"
  shows "mi_key x = rf_key e"
proof (rule ccontr)
  assume "mi_key x \<noteq> rf_key e"
  then have "fst (compute_similarity u x e birth) \<le> 1 / 2"
    using word_similarity_bounds [of u "mi_text x" "rf_text e"]
    by (auto simp: compute_similarity_def score_constants Let_def min_def split: option.splits)
  then show False using assms by simp
qed

lemma high_score_is_certain:
  assumes "95 / 100 \<le> fst (compute_similarity u x e birth)"
  shows "mi_key x = rf_key e" and "8 / 10 < word_similarity u (mi_text x) (rf_text e)"
    and "birth = Some day \<Longrightarrow> rf_birth e = Some entry_day \<Longrightarrow> day = entry_day"
proof -
  show "mi_key x = rf_key e" by (rule score_needs_key [of u x e birth]) (use assms in simp)
  show "8 / 10 < word_similarity u (mi_text x) (rf_text e)"
  proof (rule ccontr)
    assume "\<not> ?thesis"
    then have "fst (compute_similarity u x e birth) \<le> 85 / 100"
      by (auto simp: compute_similarity_def score_constants Let_def min_def split: option.splits)
    then show False using assms by simp
  qed
  show "birth = Some day \<Longrightarrow> rf_birth e = Some entry_day \<Longrightarrow> day = entry_day"
    using assms by (auto simp: compute_similarity_def score_constants Let_def min_def split: if_splits)
qed

lemma same_key_scores:
  assumes "mi_key x = rf_key e"
  shows "1 / 2 < fst (compute_similarity u x e None)"
  using assms word_similarity_bounds [of u "mi_text x" "rf_text e"]
  by (auto simp: compute_similarity_def score_constants Let_def min_def)

section \<open>The candidates\<close>

lemma in_scored_candidates:
  "c \<in> set (scored_candidates u ids entries birth) \<longleftrightarrow>
     (\<exists>x \<in> set ids. \<exists>e \<in> set entries. 1 / 2 < fst (compute_similarity u x e birth) \<and>
        c = \<lparr>ce_entry = e, ce_score = fst (compute_similarity u x e birth), ce_reasons = snd (compute_similarity u x e birth)\<rparr>)"
  by (auto simp: scored_candidates_def map_filter_def CANDIDATE_SCORE_THRESHOLD_def Let_def split_beta
      split: if_splits) force

definition best_of :: "candidate_entry list \<Rightarrow> (nat, candidate_entry) dict \<Rightarrow> bool" where
  "best_of cs best \<longleftrightarrow> distinct (dict_keys best) \<and>
     (\<forall>(i, c) \<in> set best. c \<in> set cs \<and> i = rf_id (ce_entry c)) \<and>
     (\<forall>c \<in> set cs. \<exists>c'. dict_get best (rf_id (ce_entry c)) = Some c' \<and> ce_score c \<le> ce_score c')"

lemma keep_best_of:
  assumes "best_of cs best"
  shows "best_of (cs @ [c]) (keep_best c best)"
proof -
  let ?i = "rf_id (ce_entry c)"
  have "distinct (dict_keys (keep_best c best))"
    using assms by (auto simp: best_of_def keep_best_def distinct_dict_set split: option.split)
  moreover have "\<forall>(i, x) \<in> set (keep_best c best). x \<in> set (cs @ [c]) \<and> i = rf_id (ce_entry x)"
    using assms set_dict_set [of ?i c best] by (auto simp: best_of_def keep_best_def split: option.splits if_splits)
  moreover have "\<exists>c'. dict_get (keep_best c best) (rf_id (ce_entry x)) = Some c' \<and> ce_score x \<le> ce_score c'"
    if "x \<in> set (cs @ [c])" for x
  proof (cases "x \<in> set cs")
    case True
    then obtain c' where "dict_get best (rf_id (ce_entry x)) = Some c'" "ce_score x \<le> ce_score c'"
      using assms unfolding best_of_def by blast
    then show ?thesis by (fastforce simp: keep_best_def dict_get_set split: option.split)
  next
    case False
    then show ?thesis using that by (auto simp: keep_best_def dict_get_set split: option.split)
  qed
  ultimately show ?thesis unfolding best_of_def by blast
qed

lemma fold_keep_best: "best_of cs best \<Longrightarrow> best_of (cs @ ds) (fold keep_best ds best)"
proof (induction ds arbitrary: cs best)
  case (Cons d ds)
  show ?case using Cons.IH [OF keep_best_of [OF Cons.prems]] by simp
qed simp

lemma ranked_matches_best:
  obtains best where "best_of cs best" and "set (ranked_matches cs) = snd ` set best"
    and "sorted (map (\<lambda>c. - ce_score c) (ranked_matches cs))"
    and "distinct (map (rf_id \<circ> ce_entry) (ranked_matches cs))"
proof -
  let ?best = "fold keep_best cs []"
  have best: "best_of cs ?best"
    using fold_keep_best [of "[]" "[]" cs] by (simp add: best_of_def dict_keys_def)
  then have keys: "map (rf_id \<circ> ce_entry) (map snd ?best) = dict_keys ?best"
    by (auto simp: best_of_def dict_keys_def)
  have "mset (map (rf_id \<circ> ce_entry) (ranked_matches cs)) = mset (map (rf_id \<circ> ce_entry) (map snd ?best))"
    unfolding ranked_matches_def mset_map mset_sort by simp
  then have "distinct (map (rf_id \<circ> ce_entry) (ranked_matches cs))"
    using best keys unfolding best_of_def by (metis mset_eq_imp_distinct_iff)
  then show thesis using that [OF best] by (simp add: ranked_matches_def)
qed

text \<open>What the ranking owes the pairs it was given.\<close>

lemma ranked_matches_facts:
  shows "c \<in> set (ranked_matches cs) \<Longrightarrow> c \<in> set cs"
    and "c \<in> set cs \<Longrightarrow> \<exists>c' \<in> set (ranked_matches cs). rf_id (ce_entry c') = rf_id (ce_entry c) \<and> ce_score c \<le> ce_score c'"
proof -
  obtain best where best: "best_of cs best" "set (ranked_matches cs) = snd ` set best"
    by (rule ranked_matches_best) blast
  show "c \<in> set (ranked_matches cs) \<Longrightarrow> c \<in> set cs" using best unfolding best_of_def by auto
  show "\<exists>c' \<in> set (ranked_matches cs). rf_id (ce_entry c') = rf_id (ce_entry c) \<and> ce_score c \<le> ce_score c'"
    if "c \<in> set cs"
  proof -
    obtain c' where c': "dict_get best (rf_id (ce_entry c)) = Some c'" "ce_score c \<le> ce_score c'"
      using best(1) \<open>c \<in> set cs\<close> unfolding best_of_def by blast
    then have "(rf_id (ce_entry c), c') \<in> set best" by (simp add: dict_get_def map_of_SomeD)
    then show ?thesis using best c'(2) unfolding best_of_def by force
  qed
qed

lemma ranked_matches_none: "ranked_matches cs = [] \<longleftrightarrow> cs = []"
  using ranked_matches_facts by (metis list.set_intros(1) neq_Nil_conv empty_iff list.set(1))

lemma fetched_by_key:
  assumes "e \<in> set (rf_entries rf)" "rf_snapshot e = snapshot" "x \<in> set ids" "mi_key x = rf_key e"
  shows "e \<in> set (fetched_entries u tools rf snapshot ids)"
  using assms by (force simp: fetched_entries_def)

lemma rate_candidates_status:
  "mr_status (rate_candidates person snapshot best others) \<in> {AMBIGUOUS, MATCHED, NEEDS_MATCH_REVIEW}"
  by (simp add: rate_candidates_def Let_def)

lemma same_word: "documented_tools tools \<Longrightarrow> without_signs w \<noteq> [] \<Longrightarrow> same_word_stem tools w w"
proof -
  have "common_prefix t t = length t" for t by (induction t) simp_all
  moreover assume "documented_tools tools" "without_signs w \<noteq> []"
  ultimately show ?thesis by (cases "without_signs w") (simp_all add: same_word_stem_def documented_tools_def Let_def)
qed

text \<open>A name whose words say something; it is a variant of itself.\<close>

definition telling_name :: "unicode \<Rightarrow> ustr \<Rightarrow> bool" where
  "telling_name u name \<longleftrightarrow> 2 \<le> length (name_words u name) \<and> (\<forall>w \<in> set (name_words u name). without_signs w \<noteq> [])"

lemma variant_of_itself:
  assumes "documented_tools tools" and "telling_name u name"
  shows "is_name_variant u tools name name"
proof -
  have "list_ex (same_word_stem tools w) (name_words u name)" if "w \<in> set (name_words u name)" for w
    using same_word [OF assms(1), of w] assms(2) that by (auto simp: telling_name_def list_ex_iff)
  then show ?thesis
    using assms(2) by (simp add: is_name_variant_def telling_name_def MIN_NAME_WORDS_FOR_RELIABLE_CHECK_def list_all_iff Let_def)
qed

text \<open>A result without candidates, and what it says of the keys.\<close>

lemma unlisted_result:
  assumes "match_person u tools db rf person snapshot None = Inr r" and "row_of_person person db = Some p"
    and "mr_status r \<in> {NOT_MATCHED, INSUFFICIENT_DATA}"
  shows "r = no_candidates u tools p snapshot (identities_of db p) (fetched_entries u tools rf snapshot (identities_of db p))"
    and "scored_candidates u (identities_of db p) (fetched_entries u tools rf snapshot (identities_of db p)) None = []"
proof -
  let ?ids = "identities_of db p"
  let ?entries = "fetched_entries u tools rf snapshot ?ids"
  let ?cs = "scored_candidates u ?ids ?entries None"
  have r: "r = (case ranked_matches ?cs of [] \<Rightarrow> no_candidates u tools p snapshot ?ids ?entries
      | best # others \<Rightarrow> rate_candidates person snapshot best others)"
    using assms(1,2) by (simp add: match_person_def Let_def split: if_splits)
  have empty: "ranked_matches ?cs = []"
  proof (cases "ranked_matches ?cs")
    case (Cons best others)
    then show ?thesis using assms(3) rate_candidates_status [of person snapshot best others] r by auto
  qed
  then show "?cs = []" by (simp add: ranked_matches_none)
  show "r = no_candidates u tools p snapshot ?ids ?entries" using r unfolding empty by simp
qed

lemma unlisted_key:
  assumes "match_person u tools db rf person snapshot None = Inr r" and "row_of_person person db = Some p"
    and "mr_status r \<in> {NOT_MATCHED, INSUFFICIENT_DATA}"
    and "x \<in> set (identities_of db p)" and "e \<in> set (rf_entries rf)" and "rf_snapshot e = snapshot"
  shows "rf_key e \<noteq> mi_key x"
proof
  let ?ids = "identities_of db p"
  assume key: "rf_key e = mi_key x"
  then have "e \<in> set (fetched_entries u tools rf snapshot ?ids)" using fetched_by_key [OF assms(5,6,4)] by simp
  moreover have "1 / 2 < fst (compute_similarity u x e None)" using same_key_scores [of x e u] key by simp
  ultimately have "\<exists>c. c \<in> set (scored_candidates u ?ids (fetched_entries u tools rf snapshot ?ids) None)"
    using in_scored_candidates assms(4) by blast
  then show False using unlisted_result(2) [OF assms(1-3)] by simp
qed


text \<open>
  C25. A match is one entry and no other: MATCHED names an entry of the snapshot that has the
  matching key of the person or of an alias of theirs and more than four fifths of the words in
  common, whose birth date, where both are known, is the person's; and no other entry comes
  within a tenth of its score.
\<close>

theorem a_match_is_the_one_entry:
  assumes "match_person u tools db rf person snapshot birth = Inr r" and "mr_status r = MATCHED"
  shows "\<exists>p x e. row_of_person person db = Some p \<and> x \<in> set (identities_of db p) \<and>
    e \<in> set (rf_entries rf) \<and> rf_snapshot e = snapshot \<and> mr_entry r = Some (rf_id e, rf_full_name e) \<and>
    rf_key e = mi_key x \<and> 8 / 10 < word_similarity u (mi_text x) (rf_text e) \<and>
    (\<forall>day entry_day. birth = Some day \<and> rf_birth e = Some entry_day \<longrightarrow> day = entry_day) \<and>
    (\<forall>x' \<in> set (identities_of db p). \<forall>e' \<in> set (rf_entries rf).
       rf_snapshot e' = snapshot \<and> rf_id e' \<noteq> rf_id e \<longrightarrow>
       fst (compute_similarity u x' e' birth) \<le> max (1 / 2) (mr_confidence r - 1 / 10))"
proof -
  obtain p where p: "row_of_person person db = Some p"
    using assms(1) by (cases "row_of_person person db") (simp_all add: match_person_def)
  let ?ids = "identities_of db p"
  let ?entries = "fetched_entries u tools rf snapshot ?ids"
  let ?cs = "scored_candidates u ?ids ?entries birth"
  have r: "r = (case ranked_matches ?cs of [] \<Rightarrow> no_candidates u tools p snapshot ?ids ?entries
      | best # others \<Rightarrow> rate_candidates person snapshot best others)"
    using assms(1) p by (simp add: match_person_def Let_def split: if_splits)
  obtain best others where ranked: "ranked_matches ?cs = best # others"
    using r assms(2) by (cases "ranked_matches ?cs") (auto simp: no_candidates_def Let_def split: if_splits)
  then have r: "r = rate_candidates person snapshot best others" using r by simp
  then have sure: "95 / 100 \<le> ce_score best" "mr_entry r = Some (rf_id (ce_entry best), rf_full_name (ce_entry best))"
      "mr_confidence r = ce_score best"
    and clear: "\<And>second rest. others = second # rest \<Longrightarrow> 1 / 10 \<le> ce_score best - ce_score second"
    using assms(2) by (auto simp: rate_candidates_def score_constants Let_def split: if_splits list.splits)
  have "best \<in> set ?cs" using ranked_matches_facts(1) [of best ?cs] ranked by simp
  then obtain x e where x: "x \<in> set ?ids" "e \<in> set ?entries" "ce_entry best = e"
      "ce_score best = fst (compute_similarity u x e birth)"
    unfolding in_scored_candidates by auto
  have e: "e \<in> set (rf_entries rf)" "rf_snapshot e = snapshot" using x(2) by (auto simp: fetched_entries_def)
  have others_below: "ce_score c \<le> ce_score best - 1 / 10" if "c \<in> set others" for c
  proof -
    have "others \<noteq> []" using that by auto
    then obtain second rest where others: "others = second # rest" by (meson neq_Nil_conv)
    have "sorted (map (\<lambda>c. - ce_score c) (ranked_matches ?cs))" by (rule ranked_matches_best) blast
    then have "ce_score c \<le> ce_score second" using that others ranked by auto
    then show ?thesis using clear [OF others] by simp
  qed
  have "fst (compute_similarity u x' e' birth) \<le> max (1 / 2) (mr_confidence r - 1 / 10)"
    if x': "x' \<in> set ?ids" "e' \<in> set (rf_entries rf)" "rf_snapshot e' = snapshot" "rf_id e' \<noteq> rf_id e" for x' e'
  proof (cases "1 / 2 < fst (compute_similarity u x' e' birth)")
    case True
    then have "e' \<in> set ?entries" using fetched_by_key [OF x'(2,3,1)] score_needs_key by blast
    then obtain c where c: "c \<in> set ?cs" "ce_entry c = e'" "ce_score c = fst (compute_similarity u x' e' birth)"
      using True x'(1) in_scored_candidates [of "\<lparr>ce_entry = e', ce_score = fst (compute_similarity u x' e' birth),
        ce_reasons = snd (compute_similarity u x' e' birth)\<rparr>"] by fastforce
    obtain c' where c': "c' \<in> set (ranked_matches ?cs)" "rf_id (ce_entry c') = rf_id e'" "ce_score c \<le> ce_score c'"
      using ranked_matches_facts(2) [OF c(1)] c(2) by blast
    have "c' \<in> set others" using c'(1,2) x'(4) x(3) ranked by auto
    then show ?thesis using others_below c'(3) c(3) sure(3) by fastforce
  qed simp
  then show ?thesis
    using p x(1) e sure(2) x(3) high_score_is_certain [of u x e birth] sure(1) x(4)
    by (intro exI [of _ p] exI [of _ x] exI [of _ e]) auto
qed

section \<open>A list of two\<close>

definition plain_tools :: text_tools where
  "plain_tools = \<lparr>levenshtein = (\<lambda>a b. if a = b then 0 else max (length a) (length b)), ilike = (\<lambda>_ _. True)\<rparr>"

definition listed :: "nat \<Rightarrow> string \<Rightarrow> string \<Rightarrow> rf_entry" where
  "listed i name key = \<lparr>rf_id = i, rf_snapshot = 1, rf_full_name = ru name, rf_text = ru name, rf_key = ru key, rf_birth = None\<rparr>"

definition list_of_two :: rf_db where
  "list_of_two = \<lparr>snapshot_ids = [1], rf_entries =
     [listed 5 ''petrov petr ilqiC'' ''petrovpetrilqiC'', listed 6 ''orlova anna'' ''orlovaanna'']\<rparr>"

definition one_person :: "string \<Rightarrow> string \<Rightarrow> persons_db" where
  "one_person name key = empty_db\<lparr>person_rows := [\<lparr>person_id = 1, person_canonical = ru name,
     person_normalized = ru name, person_key = ru key, person_status = ACTIVE, merged_into = None\<rparr>]\<rparr>"

lemma two_results:
  "(case match_person russian plain_tools (one_person ''sidorov oleg'' ''sidorovoleg'') list_of_two 1 1 None of
      Inl _ \<Rightarrow> False | Inr r \<Rightarrow> mr_status r = NOT_MATCHED)"
  "(case match_person russian plain_tools (one_person ''orlova anna'' ''orlovaanna'') list_of_two 1 1 None of
      Inl _ \<Rightarrow> False | Inr r \<Rightarrow> mr_status r = MATCHED)"
  by code_simp+


theorem a_match_is_the_one_entry_witness:
  "\<exists>r. match_person russian plain_tools (one_person ''orlova anna'' ''orlovaanna'') list_of_two 1 1 None = Inr r \<and>
     (\<exists>e \<in> set (rf_entries list_of_two). mr_entry r = Some (rf_id e, rf_full_name e) \<and> rf_key e = ru ''orlovaanna'')"
proof -
  let ?db = "one_person ''orlova anna'' ''orlovaanna''"
  obtain r where r: "match_person russian plain_tools ?db list_of_two 1 1 None = Inr r" "mr_status r = MATCHED"
    using two_results(2) by (auto split: sum.splits)
  have keys: "mi_key x = ru ''orlovaanna''" if "row_of_person 1 ?db = Some p" "x \<in> set (identities_of ?db p)" for p x
    using that by (auto simp: row_of_person_def row_by_def one_person_def empty_db_def identities_of_def)
  from a_match_is_the_one_entry [OF r] show ?thesis using r(1) keys by metis
qed

end
