(* ===== verification/Verdict_Tables.thy ===== *)
theory Verdict_Tables
  imports Persecution Rosfin_Match
begin

text \<open>
  The verdicts on canonical persons and what is found from them: the classifications and the
  matches (\<open>court-analysis: classification_service.py\<close>, \<open>matcher_persistence.py\<close>,
  \<open>persecution/queries.py\<close>, \<open>read.py\<close>, \<open>pending.py\<close>), the main query
  (\<open>court-results: candidates/service.py\<close>) and the findings of the monitoring run
  (\<open>findings.py\<close>). A time is a number.
\<close>

section \<open>Classifications\<close>

record verdict_row =
  vr_id :: nat
  vr_person :: nat
  vr_status :: classification_status
  vr_confidence :: rat
  vr_reasons :: "ustr list"
  vr_evidence :: "evidence_type list"
  vr_classifier :: string
  vr_version :: string
  vr_at :: nat

record match_row =
  mrow_id :: nat
  mrow_person :: nat
  mrow_snapshot :: nat
  mrow_status :: string
  mrow_confidence :: rat
  mrow_entry :: "(nat \<times> ustr) option"
  mrow_candidates :: "candidate_entry list"
  mrow_reasons :: "match_reason list"
  mrow_matcher :: "string option"
  mrow_version :: "string option"
  mrow_at :: nat

record finding_row =
  fr_id :: nat
  fr_type :: string
  fr_person :: nat
  fr_criteria :: string
  fr_status :: string
  fr_active :: bool
  fr_first_run :: nat
  fr_first_at :: nat
  fr_last_run :: nat
  fr_last_at :: nat
  fr_inactive_since :: "nat option"
  fr_snapshot :: nat
  fr_verdict :: "nat option"
  fr_match :: "nat option"

record verdict_db =
  verdicts :: "verdict_row list"
  matches :: "match_row list"
  found :: "finding_row list"
  next_verdict :: nat
  next_match :: nat
  next_finding :: nat

definition empty_verdicts :: verdict_db where
  "empty_verdicts = \<lparr>verdicts = [], matches = [], found = [], next_verdict = 0, next_match = 0, next_finding = 0\<rparr>"

definition CLASSIFIER_NAME :: string where "CLASSIFIER_NAME = ''rule-based-persecution-classifier''"
definition CLASSIFIER_VERSION :: string where "CLASSIFIER_VERSION = ''1.5.0''"

text \<open>\<open>_save_classification\<close>: the row of this person, classifier and version is renewed or added.\<close>

definition is_verdict_of :: "nat \<Rightarrow> string \<Rightarrow> string \<Rightarrow> verdict_row \<Rightarrow> bool" where
  "is_verdict_of person name version v \<longleftrightarrow> vr_person v = person \<and> vr_classifier v = name \<and> vr_version v = version"

definition save_classification :: "nat \<Rightarrow> classification \<Rightarrow> verdict_db \<Rightarrow> verdict_db" where
  "save_classification now c db =
     (let mine = is_verdict_of (cl_person c) CLASSIFIER_NAME CLASSIFIER_VERSION in
      if list_ex mine (verdicts db)
      then db\<lparr>verdicts := update_rows mine (\<lambda>v. v\<lparr>vr_status := cl_status c, vr_confidence := cl_confidence c,
             vr_reasons := cl_reasons c, vr_evidence := cl_evidence c, vr_at := now\<rparr>) (verdicts db)\<rparr>
      else db\<lparr>verdicts := verdicts db @ [\<lparr>vr_id = next_verdict db, vr_person = cl_person c, vr_status = cl_status c,
             vr_confidence = cl_confidence c, vr_reasons = cl_reasons c, vr_evidence = cl_evidence c,
             vr_classifier = CLASSIFIER_NAME, vr_version = CLASSIFIER_VERSION, vr_at = now\<rparr>],
           next_verdict := Suc (next_verdict db)\<rparr>)"

definition classify_person :: "unicode \<Rightarrow> evidence_db \<Rightarrow> nat \<Rightarrow> nat \<Rightarrow> verdict_db \<Rightarrow> classification_status \<times> verdict_db" where
  "classify_person u evidence now person db =
     (let c = classification_of u evidence person in (cl_status c, save_classification now c db))"

definition classify_all_persons :: "unicode \<Rightarrow> evidence_db \<Rightarrow> nat \<Rightarrow> verdict_db \<Rightarrow> verdict_db" where
  "classify_all_persons u evidence now db =
     fold (\<lambda>person d. snd (classify_person u evidence now person d)) (linked_person_ids evidence) db"

text \<open>Each person's latest: by time, then by id.\<close>

definition newer :: "verdict_row \<Rightarrow> verdict_row \<Rightarrow> bool" where
  "newer a b \<longleftrightarrow> vr_at b < vr_at a \<or> vr_at a = vr_at b \<and> vr_id b < vr_id a"

definition is_latest :: "verdict_db \<Rightarrow> verdict_row \<Rightarrow> bool" where
  "is_latest db v \<longleftrightarrow> list_all (\<lambda>w. vr_person w = vr_person v \<longrightarrow> \<not> newer w v) (verdicts db)"

definition latest_verdict :: "verdict_db \<Rightarrow> nat \<Rightarrow> verdict_row option" where
  "latest_verdict db person = find (\<lambda>v. vr_person v = person \<and> is_latest db v) (verdicts db)"

definition political_classifications :: "verdict_db \<Rightarrow> rat \<Rightarrow> verdict_row list" where
  "political_classifications db min_confidence =
     filter (\<lambda>v. is_latest db v \<and> vr_status v = POLITICAL \<and> min_confidence \<le> vr_confidence v) (verdicts db)"

definition latest_classification_ids :: "verdict_db \<Rightarrow> nat list \<Rightarrow> (nat, nat) dict" where
  "latest_classification_ids db persons =
     map (\<lambda>v. (vr_person v, vr_id v)) (filter (\<lambda>v. is_latest db v \<and> vr_person v \<in> set persons) (verdicts db))"

section \<open>Matches\<close>

definition MATCHER_NAME :: string where "MATCHER_NAME = ''rule-based-rosfinmonitoring-matcher''"
definition MATCHER_VERSION :: string where "MATCHER_VERSION = ''1.3.0''"

fun match_value :: "match_status \<Rightarrow> string" where
  "match_value MATCHED = ''matched''"
| "match_value NOT_MATCHED = ''not_matched''"
| "match_value AMBIGUOUS = ''ambiguous''"
| "match_value NEEDS_MATCH_REVIEW = ''needs_review''"
| "match_value INSUFFICIENT_DATA = ''insufficient_data''"
| "match_value MATCHED_PROBABLE = ''matched_probable''"

definition is_match_of :: "nat \<Rightarrow> nat \<Rightarrow> match_row \<Rightarrow> bool" where
  "is_match_of person snapshot m \<longleftrightarrow> mrow_person m = person \<and> mrow_snapshot m = snapshot"

text \<open>\<open>INSERT ... ON CONFLICT (person_id, snapshot_id) DO UPDATE\<close>.\<close>

definition save_match_result :: "nat \<Rightarrow> match_result \<Rightarrow> verdict_db \<Rightarrow> verdict_db" where
  "save_match_result now r db =
     (let mine = is_match_of (mr_person r) (mr_snapshot r);
          row = \<lparr>mrow_id = next_match db, mrow_person = mr_person r, mrow_snapshot = mr_snapshot r,
            mrow_status = match_value (mr_status r), mrow_confidence = mr_confidence r, mrow_entry = mr_entry r,
            mrow_candidates = mr_candidates r, mrow_reasons = mr_reasons r,
            mrow_matcher = Some MATCHER_NAME, mrow_version = Some MATCHER_VERSION, mrow_at = now\<rparr>
      in if list_ex mine (matches db)
         then db\<lparr>matches := update_rows mine (\<lambda>m. row\<lparr>mrow_id := mrow_id m\<rparr>) (matches db)\<rparr>
         else db\<lparr>matches := matches db @ [row], next_match := Suc (next_match db)\<rparr>)"

definition get_match_result :: "nat \<Rightarrow> nat \<Rightarrow> verdict_db \<Rightarrow> match_row option" where
  "get_match_result person snapshot db = find (is_match_of person snapshot) (matches db)"

definition list_matches_for_snapshot :: "nat \<Rightarrow> match_status option \<Rightarrow> verdict_db \<Rightarrow> match_row list" where
  "list_matches_for_snapshot snapshot status db =
     filter (\<lambda>m. mrow_snapshot m = snapshot \<and>
       (case status of None \<Rightarrow> True | Some s \<Rightarrow> mrow_status m = match_value s)) (matches db)"

definition delete_match_result :: "nat \<Rightarrow> nat \<Rightarrow> verdict_db \<Rightarrow> bool \<times> verdict_db" where
  "delete_match_result person snapshot db =
     (case get_match_result person snapshot db of
        None \<Rightarrow> (False, db)
      | Some m \<Rightarrow> (True, db\<lparr>matches := filter (\<lambda>x. mrow_id x \<noteq> mrow_id m) (matches db)\<rparr>))"

definition match_and_save ::
  "unicode \<Rightarrow> text_tools \<Rightarrow> persons_db \<Rightarrow> rf_db \<Rightarrow> nat \<Rightarrow> nat \<Rightarrow> nat \<Rightarrow> verdict_db
     \<Rightarrow> (er_error + string) \<times> verdict_db" where
  "match_and_save u tools persons rf now person snapshot db =
     (case match_person u tools persons rf person snapshot None of
        Inl e \<Rightarrow> (Inl e, db)
      | Inr r \<Rightarrow> (Inr (match_value (mr_status r)), save_match_result now r db))"

definition person_matches :: "verdict_db \<Rightarrow> nat \<Rightarrow> nat list \<Rightarrow> (nat, match_row) dict" where
  "person_matches db snapshot persons =
     map (\<lambda>m. (mrow_person m, m))
       (filter (\<lambda>m. mrow_snapshot m = snapshot \<and> mrow_person m \<in> set persons) (matches db))"

section \<open>Who is due for a verdict\<close>

text \<open>
  \<open>pending.py\<close>; \<open>changed\<close> is \<open>active_evidence_changes\<close>: per active person the newest change
  of its evidence plus the settling interval, \<open>None\<close> where no time is known.
\<close>

definition older :: "nat option \<Rightarrow> nat option \<Rightarrow> bool" where
  "older was changed \<longleftrightarrow> (case (was, changed) of (Some a, Some b) \<Rightarrow> a < b | _ \<Rightarrow> False)"

definition persons_pending_classification ::
  "(nat, nat option) dict \<Rightarrow> string \<Rightarrow> string \<Rightarrow> verdict_db \<Rightarrow> nat list" where
  "persons_pending_classification changed name version db =
     map fst (filter (\<lambda>(person, changed_at).
       case find (is_verdict_of person name version) (verdicts db) of
         None \<Rightarrow> True | Some v \<Rightarrow> older (Some (vr_at v)) changed_at) changed)"

definition persons_pending_rf_match ::
  "(nat, nat option) dict \<Rightarrow> nat \<Rightarrow> string \<Rightarrow> string \<Rightarrow> verdict_db \<Rightarrow> nat list" where
  "persons_pending_rf_match changed snapshot name version db =
     map fst (filter (\<lambda>(person, changed_at).
       case get_match_result person snapshot db of
         None \<Rightarrow> True
       | Some m \<Rightarrow> older (Some (mrow_at m)) changed_at \<or> mrow_matcher m \<noteq> Some name \<or> mrow_version m \<noteq> Some version)
       changed)"

section \<open>The main query\<close>

datatype rf_status =
    RF_NOT_MATCHED
  | RF_MATCHED
  | RF_AMBIGUOUS
  | RF_NEEDS_REVIEW
  | RF_INSUFFICIENT_DATA
  | RF_MATCHED_PROBABLE
  | RF_NO_MATCH_RECORD

definition stored_statuses :: "(string, rf_status) dict" where
  "stored_statuses = [(''matched'', RF_MATCHED), (''not_matched'', RF_NOT_MATCHED), (''ambiguous'', RF_AMBIGUOUS),
     (''needs_review'', RF_NEEDS_REVIEW), (''insufficient_data'', RF_INSUFFICIENT_DATA),
     (''matched_probable'', RF_MATCHED_PROBABLE)]"

definition resolve_rosfinmonitoring_status :: "string option \<Rightarrow> rf_status" where
  "resolve_rosfinmonitoring_status status =
     (case status of
        None \<Rightarrow> RF_NO_MATCH_RECORD
      | Some s \<Rightarrow> (case dict_get stored_statuses s of Some x \<Rightarrow> x | None \<Rightarrow> RF_NEEDS_REVIEW))"

definition DEFAULT_MIN_PERSECUTION_CONFIDENCE :: rat where
  "DEFAULT_MIN_PERSECUTION_CONFIDENCE = 7 / 10"

definition DEFAULT_INCLUDED_RF_STATUSES :: "rf_status list" where
  "DEFAULT_INCLUDED_RF_STATUSES = [RF_NOT_MATCHED]"

record persecuted =
  pc_person :: person_row
  pc_verdict :: verdict_row
  pc_rf_status :: rf_status
  pc_rf_confidence :: "rat option"
  pc_event_count :: nat
  pc_alias_count :: nat

text \<open>
  \<open>person_stats\<close>: of the runs of an article that have a link of the person, only the newest
  one's events count.
\<close>

definition run_of_link :: "persons_db \<Rightarrow> link_row \<Rightarrow> extraction_run_row option" where
  "run_of_link d l =
     (case row_by event_id (link_event l) (event_rows d) of
        None \<Rightarrow> None | Some e \<Rightarrow> row_by run_id (event_run e) (extraction_run_rows d))"

definition newest_linked_run :: "persons_db \<Rightarrow> link_row \<Rightarrow> bool" where
  "newest_linked_run d l =
     (case run_of_link d l of
        None \<Rightarrow> False
      | Some r \<Rightarrow> list_all (\<lambda>l'. link_person l' = link_person l \<longrightarrow>
          (case run_of_link d l' of
             None \<Rightarrow> True
           | Some r' \<Rightarrow> run_article (run_version r') = run_article (run_version r) \<longrightarrow> run_id r' \<le> run_id r))
          (link_rows d))"

definition event_count_of :: "persons_db \<Rightarrow> nat \<Rightarrow> nat" where
  "event_count_of d i = length (filter (\<lambda>l. link_person l = i \<and> newest_linked_run d l) (link_rows d))"

definition alias_count_of :: "persons_db \<Rightarrow> nat \<Rightarrow> nat" where
  "alias_count_of d i = length (filter (\<lambda>a. alias_person a = i) (alias_rows d))"

definition persecuted_persons :: "persons_db \<Rightarrow> verdict_db \<Rightarrow> rat \<Rightarrow> (person_row \<times> verdict_row) list" where
  "persecuted_persons d db min_confidence =
     sort_key (\<lambda>(p, v). person_id p)
       (List.map_filter (\<lambda>v. case row_of_person (vr_person v) d of
            Some p \<Rightarrow> if person_status p = ACTIVE then Some (p, v) else None
          | None \<Rightarrow> None) (political_classifications db min_confidence))"

definition rf_status_of :: "(nat, match_row) dict \<Rightarrow> nat \<Rightarrow> rf_status \<times> rat option" where
  "rf_status_of by_person i =
     (let m = dict_get by_person i in
      (resolve_rosfinmonitoring_status (map_option mrow_status m), map_option mrow_confidence m))"

definition get_candidates ::
  "persons_db \<Rightarrow> rf_db \<Rightarrow> verdict_db \<Rightarrow> nat \<Rightarrow> rat \<Rightarrow> nat option \<Rightarrow> rf_status list
     \<Rightarrow> er_error + persecuted list" where
  "get_candidates d rf db snapshot min_confidence limit include =
     (if snapshot \<notin> set (snapshot_ids rf)
      then Inl (StoreValueError (''Rosfinmonitoring snapshot '' @ digits_of snapshot @ '' not found''))
      else
        let rows = persecuted_persons d db min_confidence;
            by_person = person_matches db snapshot (map (person_id \<circ> fst) rows);
            included = filter (\<lambda>(p, v). fst (rf_status_of by_person (person_id p)) \<in> set include) rows;
            shown = (case limit of None \<Rightarrow> included | Some n \<Rightarrow> take (max 1 n) included)
        in Inr (map (\<lambda>(p, v). \<lparr>pc_person = p, pc_verdict = v,
             pc_rf_status = fst (rf_status_of by_person (person_id p)),
             pc_rf_confidence = snd (rf_status_of by_person (person_id p)),
             pc_event_count = event_count_of d (person_id p),
             pc_alias_count = alias_count_of d (person_id p)\<rparr>) shown))"

section \<open>Findings\<close>

record criterion =
  cr_type :: string
  cr_version :: string
  cr_min_confidence :: rat
  cr_statuses :: "rf_status list"

definition POLITICAL_NOT_IN_RF :: string where "POLITICAL_NOT_IN_RF = ''political_persecution_not_in_rf''"
definition ENBV_CRITERIA_VERSION :: string where "ENBV_CRITERIA_VERSION = ''enbv-v1''"
definition NO_RF_SNAPSHOT :: string where "NO_RF_SNAPSHOT = ''no_rf_snapshot''"

definition default_criteria :: "criterion list" where
  "default_criteria = [\<lparr>cr_type = POLITICAL_NOT_IN_RF, cr_version = ENBV_CRITERIA_VERSION,
     cr_min_confidence = DEFAULT_MIN_PERSECUTION_CONFIDENCE, cr_statuses = DEFAULT_INCLUDED_RF_STATUSES\<rparr>]"

record evaluation =
  ev_matched :: nat
  ev_created :: nat
  ev_reactivated :: nat
  ev_deactivated :: nat

definition of_criterion :: "criterion \<Rightarrow> finding_row \<Rightarrow> bool" where
  "of_criterion c f \<longleftrightarrow> fr_type f = cr_type c \<and> fr_criteria f = cr_version c"

definition upsert_finding ::
  "criterion \<Rightarrow> nat \<Rightarrow> nat \<Rightarrow> nat \<Rightarrow> (nat, nat) dict \<Rightarrow> (nat, nat) dict \<Rightarrow> nat \<Rightarrow> verdict_db \<Rightarrow> verdict_db" where
  "upsert_finding c now run snapshot verdict_ids match_ids person db =
     (let mine = (\<lambda>f. of_criterion c f \<and> fr_person f = person) in
      if list_ex mine (found db)
      then db\<lparr>found := update_rows mine (\<lambda>f. f\<lparr>fr_active := True, fr_inactive_since := None, fr_last_run := run,
             fr_last_at := now, fr_snapshot := snapshot, fr_verdict := dict_get verdict_ids person,
             fr_match := dict_get match_ids person\<rparr>) (found db)\<rparr>
      else db\<lparr>found := found db @ [\<lparr>fr_id = next_finding db, fr_type = cr_type c, fr_person = person,
             fr_criteria = cr_version c, fr_status = ''open'', fr_active = True, fr_first_run = run, fr_first_at = now,
             fr_last_run = run, fr_last_at = now, fr_inactive_since = None, fr_snapshot = snapshot,
             fr_verdict = dict_get verdict_ids person, fr_match = dict_get match_ids person\<rparr>],
           next_finding := Suc (next_finding db)\<rparr>)"

text \<open>What stops satisfying the criterion is kept, inactive.\<close>

definition gone :: "criterion \<Rightarrow> nat list \<Rightarrow> finding_row \<Rightarrow> bool" where
  "gone c persons f \<longleftrightarrow> of_criterion c f \<and> fr_active f \<and> fr_person f \<notin> set persons"

definition deactivate_missing :: "criterion \<Rightarrow> nat \<Rightarrow> nat list \<Rightarrow> verdict_db \<Rightarrow> nat \<times> verdict_db" where
  "deactivate_missing c now persons db =
     (length (filter (gone c persons) (found db)),
      db\<lparr>found := update_rows (gone c persons) (\<lambda>f. f\<lparr>fr_active := False, fr_inactive_since := Some now\<rparr>) (found db)\<rparr>)"

definition evaluate_criterion ::
  "persons_db \<Rightarrow> rf_db \<Rightarrow> criterion \<Rightarrow> nat \<Rightarrow> nat \<Rightarrow> nat \<Rightarrow> verdict_db \<Rightarrow> (er_error + evaluation) \<times> verdict_db" where
  "evaluate_criterion d rf c now run snapshot db =
     (case get_candidates d rf db snapshot (cr_min_confidence c) None (cr_statuses c) of
        Inl e \<Rightarrow> (Inl e, db)
      | Inr candidates \<Rightarrow>
          let persons = sort (unique (map (person_id \<circ> pc_person) candidates));
              verdict_ids = latest_classification_ids db persons;
              match_ids = map (\<lambda>(i, m). (i, mrow_id m)) (person_matches db snapshot persons);
              existing = map (\<lambda>f. (fr_person f, fr_active f)) (filter (of_criterion c) (found db));
              db1 = fold (upsert_finding c now run snapshot verdict_ids match_ids) persons db;
              (deactivated, db2) = deactivate_missing c now persons db1
          in (Inr \<lparr>ev_matched = length persons,
                ev_created = length (filter (\<lambda>i. dict_get existing i = None) persons),
                ev_reactivated = length (filter (\<lambda>i. dict_get existing i = Some False) persons),
                ev_deactivated = deactivated\<rparr>, db2))"

text \<open>
  \<open>evaluate\<close>: a transaction per criterion, committed before the next; without a snapshot
  nothing is touched. An error ends the evaluation with what the earlier criteria wrote.
\<close>

fun evaluate_criteria ::
  "persons_db \<Rightarrow> rf_db \<Rightarrow> criterion list \<Rightarrow> nat \<Rightarrow> nat \<Rightarrow> nat \<Rightarrow> verdict_db
     \<Rightarrow> (er_error + evaluation list) \<times> verdict_db" where
  "evaluate_criteria d rf [] now run snapshot db = (Inr [], db)"
| "evaluate_criteria d rf (c # cs) now run snapshot db =
     (case evaluate_criterion d rf c now run snapshot db of
        (Inl e, db') \<Rightarrow> (Inl e, db')
      | (Inr x, db') \<Rightarrow>
          (case evaluate_criteria d rf cs now run snapshot db' of
             (Inl e, db'') \<Rightarrow> (Inl e, db'')
           | (Inr xs, db'') \<Rightarrow> (Inr (x # xs), db'')))"

definition evaluate ::
  "persons_db \<Rightarrow> rf_db \<Rightarrow> nat \<Rightarrow> nat \<Rightarrow> nat option \<Rightarrow> verdict_db
     \<Rightarrow> (er_error + (string option \<times> evaluation list)) \<times> verdict_db" where
  "evaluate d rf now run snapshot db =
     (case snapshot of
        None \<Rightarrow> (Inr (Some NO_RF_SNAPSHOT, []), db)
      | Some s \<Rightarrow>
          (case evaluate_criteria d rf default_criteria now run s db of
             (Inl e, db') \<Rightarrow> (Inl e, db')
           | (Inr xs, db') \<Rightarrow> (Inr (None, xs), db')))"

definition list_findings :: "bool \<Rightarrow> nat \<Rightarrow> nat \<Rightarrow> verdict_db \<Rightarrow> finding_row list" where
  "list_findings active_only limit offset db =
     take limit (drop offset
       (sort_key (\<lambda>f. (- int (fr_first_at f), - int (fr_id f)))
         (filter (\<lambda>f. active_only \<longrightarrow> fr_active f) (found db))))"

end
