(* ===== verification/Findings.thy ===== *)
theory Findings
  imports Verdict_Tables
begin

text \<open>
  What the verdict tables keep, whatever is classified, matched and evaluated, and what an
  active finding then means.
\<close>

section \<open>Tables with unique rows\<close>

definition keys_ok :: "('r \<Rightarrow> nat) \<Rightarrow> ('r \<Rightarrow> 'k) \<Rightarrow> nat \<Rightarrow> 'r list \<Rightarrow> bool" where
  "keys_ok row_id key next_id rows \<longleftrightarrow>
     distinct (map row_id rows) \<and> distinct (map key rows) \<and> (\<forall>r \<in> set rows. row_id r < next_id)"

lemma keys_ok_update:
  assumes "keys_ok row_id key n rows" and "\<And>r. row_id (f r) = row_id r" and "\<And>r. r \<in> set rows \<Longrightarrow> p r \<Longrightarrow> key (f r) = key r"
  shows "keys_ok row_id key n (update_rows p f rows)"
proof -
  have "map key (update_rows p f rows) = map key rows" using assms(3) by (induction rows) auto
  moreover have "map row_id (update_rows p f rows) = map row_id rows" using assms(2) by (induction rows) auto
  moreover have "row_id r < n" if "r \<in> set (update_rows p f rows)" for r
  proof -
    have "row_id r \<in> set (map row_id (update_rows p f rows))" using that by simp
    then show ?thesis using assms(1) calculation(2) by (auto simp: keys_ok_def)
  qed
  ultimately show ?thesis using assms(1) by (simp add: keys_ok_def)
qed

lemma keys_ok_append:
  assumes "keys_ok row_id key n rows" and "row_id r = n" and "key r \<notin> key ` set rows"
  shows "keys_ok row_id key (Suc n) (rows @ [r])"
  using assms by (fastforce simp: keys_ok_def)

lemma keys_ok_filter: "keys_ok row_id key n rows \<Longrightarrow> keys_ok row_id key n (filter P rows)"
  by (auto simp: keys_ok_def distinct_map_filter)

lemma keys_ok_same: "keys_ok row_id key n rows \<Longrightarrow> r \<in> set rows \<Longrightarrow> s \<in> set rows \<Longrightarrow> key r = key s \<Longrightarrow> r = s"
  unfolding keys_ok_def by (metis distinct_map inj_onD)

lemma keys_ok_same_id: "keys_ok row_id key n rows \<Longrightarrow> r \<in> set rows \<Longrightarrow> s \<in> set rows \<Longrightarrow> row_id r = row_id s \<Longrightarrow> r = s"
  unfolding keys_ok_def by (metis distinct_map inj_onD)

definition verdict_key :: "verdict_row \<Rightarrow> nat \<times> string \<times> string" where
  "verdict_key v = (vr_person v, vr_classifier v, vr_version v)"

definition match_key :: "match_row \<Rightarrow> nat \<times> nat" where
  "match_key m = (mrow_person m, mrow_snapshot m)"

definition finding_key :: "finding_row \<Rightarrow> string \<times> nat \<times> string" where
  "finding_key f = (fr_type f, fr_person f, fr_criteria f)"

definition verdicts_ok :: "verdict_db \<Rightarrow> bool" where
  "verdicts_ok db \<longleftrightarrow>
     keys_ok vr_id verdict_key (next_verdict db) (verdicts db) \<and>
     keys_ok mrow_id match_key (next_match db) (matches db) \<and>
     keys_ok fr_id finding_key (next_finding db) (found db) \<and>
     (\<forall>f \<in> set (found db). fr_active f \<longleftrightarrow> fr_inactive_since f = None)"

lemma save_classification_ok:
  assumes "verdicts_ok db"
  shows "verdicts_ok (save_classification now c db)"
proof (cases "list_ex (is_verdict_of (cl_person c) CLASSIFIER_NAME CLASSIFIER_VERSION) (verdicts db)")
  case True
  then show ?thesis
    using assms by (auto simp: save_classification_def verdicts_ok_def verdict_key_def intro!: keys_ok_update)
next
  case False
  then have "(cl_person c, CLASSIFIER_NAME, CLASSIFIER_VERSION) \<notin> verdict_key ` set (verdicts db)"
    by (auto simp: list_ex_iff is_verdict_of_def verdict_key_def)
  then show ?thesis
    using assms False by (auto simp: save_classification_def verdicts_ok_def verdict_key_def intro!: keys_ok_append)
qed

lemma save_match_result_ok:
  assumes "verdicts_ok db"
  shows "verdicts_ok (save_match_result now r db)"
proof (cases "list_ex (is_match_of (mr_person r) (mr_snapshot r)) (matches db)")
  case True
  then show ?thesis
    using assms by (auto simp: save_match_result_def verdicts_ok_def match_key_def is_match_of_def intro!: keys_ok_update)
next
  case False
  then have "(mr_person r, mr_snapshot r) \<notin> match_key ` set (matches db)"
    by (auto simp: list_ex_iff is_match_of_def match_key_def)
  then show ?thesis
    using assms False by (auto simp: save_match_result_def verdicts_ok_def match_key_def intro!: keys_ok_append)
qed

lemma upsert_finding_ok:
  assumes "verdicts_ok db"
  shows "verdicts_ok (upsert_finding c now run s vs ms i db)"
proof (cases "list_ex (\<lambda>f. of_criterion c f \<and> fr_person f = i) (found db)")
  case True
  have "fr_active f \<longleftrightarrow> fr_inactive_since f = None"
    if "f \<in> set (update_rows p (\<lambda>f. f\<lparr>fr_active := True, fr_inactive_since := None, fr_last_run := run,
      fr_last_at := now, fr_snapshot := s, fr_verdict := v, fr_match := m\<rparr>) (found db))" for f p v m
    using that assms by (auto simp: verdicts_ok_def set_update_rows split: if_splits)
  then show ?thesis
    using assms True by (auto simp: upsert_finding_def verdicts_ok_def finding_key_def intro!: keys_ok_update)
next
  case False
  then have "(cr_type c, i, cr_version c) \<notin> finding_key ` set (found db)"
    by (auto simp: list_ex_iff of_criterion_def finding_key_def)
  then show ?thesis
    using assms False by (auto simp: upsert_finding_def verdicts_ok_def finding_key_def intro!: keys_ok_append)
qed

lemma deactivate_missing_ok:
  assumes "verdicts_ok db"
  shows "verdicts_ok (snd (deactivate_missing c now is db))"
  using assms
  by (auto simp: deactivate_missing_def verdicts_ok_def finding_key_def set_update_rows
      intro!: keys_ok_update split: if_splits)

section \<open>The main query\<close>

lemma latest_verdict_iff:
  assumes "verdicts_ok db"
  shows "latest_verdict db i = Some v \<longleftrightarrow> v \<in> set (verdicts db) \<and> vr_person v = i \<and> is_latest db v"
proof
  assume "latest_verdict db i = Some v"
  then show "v \<in> set (verdicts db) \<and> vr_person v = i \<and> is_latest db v"
    unfolding latest_verdict_def find_Some_iff by auto
next
  assume v: "v \<in> set (verdicts db) \<and> vr_person v = i \<and> is_latest db v"
  then obtain w where w: "latest_verdict db i = Some w"
    unfolding latest_verdict_def by (cases "find (\<lambda>v. vr_person v = i \<and> is_latest db v) (verdicts db)") (auto simp: find_None_iff)
  then have in_w: "w \<in> set (verdicts db)" "vr_person w = i" "is_latest db w"
    unfolding latest_verdict_def find_Some_iff by auto
  then have "\<not> newer v w \<and> \<not> newer w v" using v unfolding is_latest_def list_all_iff by auto
  then have "vr_id v = vr_id w" unfolding newer_def by (metis nat_neq_iff)
  then have "v = w" using keys_ok_same_id v in_w(1) assms unfolding verdicts_ok_def by metis
  then show "latest_verdict db i = Some v" using w by simp
qed

lemma person_matches_get:
  "dict_get (person_matches db s persons) i = (if i \<in> set persons then get_match_result i s db else None)"
proof -
  have "map_of (map (\<lambda>m. (mrow_person m, m)) (filter (\<lambda>m. mrow_snapshot m = s \<and> mrow_person m \<in> set persons) ms)) i
      = (if i \<in> set persons then find (is_match_of i s) ms else None)" for ms
    by (induction ms) (auto simp: is_match_of_def [abs_def])
  then show ?thesis by (simp add: person_matches_def dict_get_def get_match_result_def)
qed

definition rf_status_in :: "verdict_db \<Rightarrow> nat \<Rightarrow> nat \<Rightarrow> rf_status" where
  "rf_status_in db s i = resolve_rosfinmonitoring_status (map_option mrow_status (get_match_result i s db))"

lemma in_persecuted_persons:
  "(p, v) \<in> set (persecuted_persons d db c) \<longleftrightarrow>
     v \<in> set (verdicts db) \<and> is_latest db v \<and> vr_status v = POLITICAL \<and> c \<le> vr_confidence v \<and>
     row_of_person (vr_person v) d = Some p \<and> person_status p = ACTIVE"
proof -
  have "(case row_of_person (vr_person w) d of Some q \<Rightarrow> if person_status q = ACTIVE then Some (q, w) else None | None \<Rightarrow> None)
      = Some (p, v) \<longleftrightarrow> w = v \<and> row_of_person (vr_person v) d = Some p \<and> person_status p = ACTIVE" for w
    by (auto split: option.splits if_splits)
  then show ?thesis
    by (auto simp: persecuted_persons_def political_classifications_def in_map_filter)
qed

lemma row_of_person_id: "row_of_person i d = Some p \<Longrightarrow> person_id p = i"
  by (auto simp: row_of_person_def row_by_def find_Some_iff)

lemma candidate_persons:
  assumes "get_candidates d rf db s c None include = Inr cs"
  shows "i \<in> person_id ` pc_person ` set cs \<longleftrightarrow>
    (\<exists>p. row_of_person i d = Some p \<and> person_status p = ACTIVE) \<and>
    (\<exists>v \<in> set (verdicts db). vr_person v = i \<and> is_latest db v \<and> vr_status v = POLITICAL \<and> c \<le> vr_confidence v) \<and>
    rf_status_in db s i \<in> set include"
proof -
  let ?rows = "persecuted_persons d db c"
  let ?by = "person_matches db s (map (person_id \<circ> fst) ?rows)"
  have cs: "pc_person ` set cs = fst ` set (filter (\<lambda>(p, v). fst (rf_status_of ?by (person_id p)) \<in> set include) ?rows)"
    using assms by (auto simp: get_candidates_def Let_def image_iff split: if_splits) force+
  have "fst (rf_status_of ?by (person_id p)) = rf_status_in db s (person_id p)" if "(p, v) \<in> set ?rows" for p v
  proof -
    have "person_id p \<in> set (map (person_id \<circ> fst) ?rows)" using that by force
    then show ?thesis by (simp add: rf_status_of_def rf_status_in_def person_matches_get Let_def)
  qed
  then have "i \<in> person_id ` pc_person ` set cs \<longleftrightarrow>
      (\<exists>p v. (p, v) \<in> set ?rows \<and> person_id p = i \<and> rf_status_in db s i \<in> set include)"
    unfolding cs by force
  then show ?thesis unfolding in_persecuted_persons using row_of_person_id by metis
qed

lemma absent_status: "rf_status_in db s i = RF_NOT_MATCHED \<longleftrightarrow>
    (\<exists>m. get_match_result i s db = Some m \<and> mrow_status m = ''not_matched'')"
  by (auto simp: rf_status_in_def resolve_rosfinmonitoring_status_def stored_statuses_def dict_get_def
      split: option.splits if_splits)

text \<open>
  The main query answers exactly its question. With the default criteria and no limit the
  persons it lists are those who are active, whose latest classification, by time and then by
  id, is POLITICAL and sure enough, and whose match with this very snapshot was run and came
  back NOT_MATCHED: a person never checked, or checked without a clear answer, is not listed.
\<close>

theorem candidates_are_the_confirmed_absent:
  assumes "verdicts_ok db" and "get_candidates d rf db s c None DEFAULT_INCLUDED_RF_STATUSES = Inr cs"
  shows "i \<in> person_id ` pc_person ` set cs \<longleftrightarrow>
    (\<exists>p. row_of_person i d = Some p \<and> person_status p = ACTIVE) \<and>
    (\<exists>v. latest_verdict db i = Some v \<and> vr_status v = POLITICAL \<and> c \<le> vr_confidence v) \<and>
    (\<exists>m. get_match_result i s db = Some m \<and> mrow_status m = ''not_matched'')"
  using candidate_persons [OF assms(2), of i] absent_status [of db s i]
  unfolding latest_verdict_iff [OF assms(1)] by (auto simp: DEFAULT_INCLUDED_RF_STATUSES_def)

section \<open>An evaluation\<close>

lemma found_deactivate: "found (snd (deactivate_missing c now is db)) =
    update_rows (gone c is) (\<lambda>f. f\<lparr>fr_active := False, fr_inactive_since := Some now\<rparr>) (found db)"
  by (simp add: deactivate_missing_def)

text \<open>What one row becomes, and what row is added.\<close>

definition seen_again :: "nat \<Rightarrow> nat \<Rightarrow> nat \<Rightarrow> (nat, nat) dict \<Rightarrow> (nat, nat) dict \<Rightarrow> finding_row \<Rightarrow> finding_row" where
  "seen_again now run s vs ms f = f\<lparr>fr_active := True, fr_inactive_since := None, fr_last_run := run, fr_last_at := now,
     fr_snapshot := s, fr_verdict := dict_get vs (fr_person f), fr_match := dict_get ms (fr_person f)\<rparr>"

lemma seen_again_fields [simp]:
  "fr_id (seen_again now run s vs ms f) = fr_id f" "fr_type (seen_again now run s vs ms f) = fr_type f"
  "fr_person (seen_again now run s vs ms f) = fr_person f" "fr_criteria (seen_again now run s vs ms f) = fr_criteria f"
  "fr_first_run (seen_again now run s vs ms f) = fr_first_run f" "fr_first_at (seen_again now run s vs ms f) = fr_first_at f"
  "fr_active (seen_again now run s vs ms f)"
  "of_criterion c (seen_again now run s vs ms f) = of_criterion c f"
  "fr_snapshot (seen_again now run s vs ms f) = s"
  "fr_match (seen_again now run s vs ms f) = dict_get ms (fr_person f)"
  "fr_verdict (seen_again now run s vs ms f) = dict_get vs (fr_person f)"
  by (simp_all add: seen_again_def of_criterion_def)

definition first_seen :: "criterion \<Rightarrow> nat \<Rightarrow> nat \<Rightarrow> nat \<Rightarrow> (nat, nat) dict \<Rightarrow> (nat, nat) dict \<Rightarrow> nat \<Rightarrow> nat \<Rightarrow> finding_row" where
  "first_seen c now run s vs ms i n = \<lparr>fr_id = n, fr_type = cr_type c, fr_person = i, fr_criteria = cr_version c,
     fr_status = ''open'', fr_active = True, fr_first_run = run, fr_first_at = now, fr_last_run = run, fr_last_at = now,
     fr_inactive_since = None, fr_snapshot = s, fr_verdict = dict_get vs i, fr_match = dict_get ms i\<rparr>"

lemma upsert_finding_found:
  "found (upsert_finding c now run s vs ms i db) =
     (if list_ex (\<lambda>f. of_criterion c f \<and> fr_person f = i) (found db)
      then update_rows (\<lambda>f. of_criterion c f \<and> fr_person f = i) (seen_again now run s vs ms) (found db)
      else found db @ [first_seen c now run s vs ms i (next_finding db)])"
proof -
  have "update_rows (\<lambda>f. of_criterion c f \<and> fr_person f = i) (\<lambda>f. f\<lparr>fr_active := True, fr_inactive_since := None,
      fr_last_run := run, fr_last_at := now, fr_snapshot := s, fr_verdict := dict_get vs i, fr_match := dict_get ms i\<rparr>) fs
      = update_rows (\<lambda>f. of_criterion c f \<and> fr_person f = i) (seen_again now run s vs ms) fs" for fs
    by (induction fs) (simp_all add: seen_again_def)
  then show ?thesis by (simp add: upsert_finding_def Let_def first_seen_def)
qed

lemma upsert_finding_rows:
  "set (found (upsert_finding c now run s vs ms i db)) =
     (if \<exists>f \<in> set (found db). of_criterion c f \<and> fr_person f = i
      then (\<lambda>f. if of_criterion c f \<and> fr_person f = i then seen_again now run s vs ms f else f) ` set (found db)
      else insert (first_seen c now run s vs ms i (next_finding db)) (set (found db)))"
  by (simp only: upsert_finding_found list_ex_iff set_update_rows if_distrib [of set] set_append list.set) auto

text \<open>A row as an evaluation that saw it leaves it.\<close>

definition seen_now :: "nat \<Rightarrow> (nat, nat) dict \<Rightarrow> (nat, nat) dict \<Rightarrow> finding_row \<Rightarrow> bool" where
  "seen_now s vs ms f \<longleftrightarrow> fr_active f \<and> fr_snapshot f = s \<and> fr_verdict f = dict_get vs (fr_person f) \<and>
     fr_match f = dict_get ms (fr_person f)"

text \<open>What an evaluation may never rewrite: whose finding it is, and when it was first seen.\<close>

definition same_finding :: "finding_row \<Rightarrow> finding_row \<Rightarrow> bool" where
  "same_finding f f' \<longleftrightarrow> fr_id f' = fr_id f \<and> fr_type f' = fr_type f \<and> fr_person f' = fr_person f \<and>
     fr_criteria f' = fr_criteria f \<and> fr_first_run f' = fr_first_run f \<and> fr_first_at f' = fr_first_at f"

lemma same_finding_refl [simp]: "same_finding f f"
  by (simp add: same_finding_def)

lemma same_finding_trans: "same_finding f g \<Longrightarrow> same_finding g h \<Longrightarrow> same_finding f h"
  by (simp add: same_finding_def)

lemma upsert_finding_again:
  assumes "\<exists>f \<in> set (found db). of_criterion c f \<and> fr_person f = i"
  shows "set (found (upsert_finding c now run s vs ms i db)) =
    (\<lambda>f. if of_criterion c f \<and> fr_person f = i then seen_again now run s vs ms f else f) ` set (found db)"
  unfolding upsert_finding_rows using assms by (rule if_P)

lemma upsert_finding_first:
  assumes "\<not> (\<exists>f \<in> set (found db). of_criterion c f \<and> fr_person f = i)"
  shows "set (found (upsert_finding c now run s vs ms i db)) =
    insert (first_seen c now run s vs ms i (next_finding db)) (set (found db))"
  unfolding upsert_finding_rows using assms by (rule if_not_P)

lemma upsert_seen:
  assumes "\<forall>f \<in> set (found db). of_criterion c f \<and> fr_person f \<in> S \<longrightarrow> seen_now s vs ms f"
    and "S \<subseteq> fr_person ` {f \<in> set (found db). of_criterion c f}"
  shows "(\<forall>f \<in> set (found (upsert_finding c now run s vs ms i db)).
        of_criterion c f \<and> fr_person f \<in> insert i S \<longrightarrow> seen_now s vs ms f) \<and>
     insert i S \<subseteq> fr_person ` {f \<in> set (found (upsert_finding c now run s vs ms i db)). of_criterion c f}"
proof (cases "\<exists>f \<in> set (found db). of_criterion c f \<and> fr_person f = i")
  case True
  let ?again = "\<lambda>f. if of_criterion c f \<and> fr_person f = i then seen_again now run s vs ms f else f"
  have rows: "set (found (upsert_finding c now run s vs ms i db)) = ?again ` set (found db)"
    using True by (rule upsert_finding_again)
  have keep: "j \<in> fr_person ` {f \<in> ?again ` set (found db). of_criterion c f}"
    if "j \<in> fr_person ` {f \<in> set (found db). of_criterion c f}" for j
  proof -
    obtain f where f: "f \<in> set (found db)" "of_criterion c f" "fr_person f = j" using \<open>j \<in> _\<close> by blast
    have "?again f \<in> ?again ` set (found db)" "of_criterion c (?again f)" "fr_person (?again f) = j"
      using f by (simp_all only: imageI) (simp_all split: if_split)
    then show ?thesis by blast
  qed
  have "i \<in> fr_person ` {f \<in> set (found db). of_criterion c f}" using True by blast
  then have "insert i S \<subseteq> fr_person ` {f \<in> ?again ` set (found db). of_criterion c f}" using keep assms(2) by blast
  moreover have "seen_now s vs ms f" if f: "f \<in> ?again ` set (found db)" "of_criterion c f" "fr_person f \<in> insert i S" for f
  proof -
    obtain g where g: "g \<in> set (found db)" "f = ?again g" using f(1) by blast
    show ?thesis using assms(1) f(2,3) g by (cases "of_criterion c g \<and> fr_person g = i") (auto simp: seen_now_def)
  qed
  ultimately show ?thesis unfolding rows by blast
next
  case False
  have rows: "set (found (upsert_finding c now run s vs ms i db)) =
      insert (first_seen c now run s vs ms i (next_finding db)) (set (found db))"
    using False by (rule upsert_finding_first)
  have first: "seen_now s vs ms (first_seen c now run s vs ms i n)" "of_criterion c (first_seen c now run s vs ms i n)"
    "fr_person (first_seen c now run s vs ms i n) = i" for n
    by (simp_all add: seen_now_def first_seen_def of_criterion_def)
  have "\<forall>f \<in> insert (first_seen c now run s vs ms i n) (set (found db)).
      of_criterion c f \<and> fr_person f \<in> insert i S \<longrightarrow> seen_now s vs ms f" for n
  proof (intro ballI impI)
    fix f assume f: "f \<in> insert (first_seen c now run s vs ms i n) (set (found db))"
      and mine: "of_criterion c f \<and> fr_person f \<in> insert i S"
    show "seen_now s vs ms f"
    proof (cases "f \<in> set (found db)")
      case True
      then have "fr_person f \<noteq> i" using False mine by metis
      then show ?thesis using True mine assms(1) by simp
    next
      case False
      then show ?thesis using f first(1) by simp
    qed
  qed
  moreover have "insert i S \<subseteq> fr_person ` {f \<in> insert (first_seen c now run s vs ms i n) (set (found db)). of_criterion c f}" for n
  proof (rule insert_subsetI)
    show "i \<in> fr_person ` {f \<in> insert (first_seen c now run s vs ms i n) (set (found db)). of_criterion c f}"
      by (rule image_eqI [where x = "first_seen c now run s vs ms i n"]) (simp_all add: first)
    show "S \<subseteq> fr_person ` {f \<in> insert (first_seen c now run s vs ms i n) (set (found db)). of_criterion c f}"
      using assms(2) by blast
  qed
  ultimately show ?thesis unfolding rows by (rule conjI)
qed

lemma fold_upsert_seen:
  assumes "\<forall>f \<in> set (found db). of_criterion c f \<and> fr_person f \<in> S \<longrightarrow> seen_now s vs ms f"
    and "S \<subseteq> fr_person ` {f \<in> set (found db). of_criterion c f}"
  shows "(\<forall>f \<in> set (found (fold (upsert_finding c now run s vs ms) is db)).
        of_criterion c f \<and> fr_person f \<in> S \<union> set is \<longrightarrow> seen_now s vs ms f) \<and>
     S \<union> set is \<subseteq> fr_person ` {f \<in> set (found (fold (upsert_finding c now run s vs ms) is db)). of_criterion c f}"
  using assms
proof (induction "is" arbitrary: db S)
  case (Cons i "is")
  from upsert_seen [OF Cons.prems, of now run i] Cons.IH [of "upsert_finding c now run s vs ms i db" "insert i S"]
  show ?case by simp
qed simp

text \<open>A row of another criterion or person stays as it is, and none is lost.\<close>

lemma upsert_kept:
  assumes "f \<in> set (found db)"
  shows "\<exists>f' \<in> set (found (upsert_finding c now run s vs ms i db)).
    same_finding f f' \<and> (\<not> (of_criterion c f \<and> fr_person f = i) \<longrightarrow> f' = f)"
proof (cases "\<exists>f \<in> set (found db). of_criterion c f \<and> fr_person f = i")
  case True
  let ?again = "\<lambda>f. if of_criterion c f \<and> fr_person f = i then seen_again now run s vs ms f else f"
  have "?again f \<in> set (found (upsert_finding c now run s vs ms i db))"
    unfolding upsert_finding_again [OF True] using assms by (rule imageI)
  then show ?thesis by (rule bexI [rotated]) (simp add: same_finding_def)
next
  case False
  have "f \<in> set (found (upsert_finding c now run s vs ms i db))"
    unfolding upsert_finding_first [OF False] using assms by (rule insertI2)
  then show ?thesis by (rule bexI [rotated]) simp
qed

lemma fold_upsert_kept:
  "f \<in> set (found db) \<Longrightarrow> \<exists>f' \<in> set (found (fold (upsert_finding c now run s vs ms) is db)).
     same_finding f f' \<and> (\<not> (of_criterion c f \<and> fr_person f \<in> set is) \<longrightarrow> f' = f)"
proof (induction "is" arbitrary: db f)
  case (Cons i "is")
  obtain g where g: "g \<in> set (found (upsert_finding c now run s vs ms i db))" "same_finding f g"
      "\<not> (of_criterion c f \<and> fr_person f = i) \<longrightarrow> g = f"
    using upsert_kept [OF Cons.prems] by blast
  obtain h where h: "h \<in> set (found (fold (upsert_finding c now run s vs ms) (i # is) db))" "same_finding g h"
      "\<not> (of_criterion c g \<and> fr_person g \<in> set is) \<longrightarrow> h = g"
    using Cons.IH [OF g(1)] by auto
  then show ?case using g same_finding_trans by (metis list.set_intros(1,2))
qed auto

lemma fold_upsert_tables:
  "verdicts (fold (upsert_finding c now run s vs ms) is db) = verdicts db \<and>
   matches (fold (upsert_finding c now run s vs ms) is db) = matches db"
proof (induction "is" arbitrary: db)
  case (Cons i "is")
  then show ?case by (simp add: upsert_finding_def Let_def)
qed simp

lemma fold_upsert_ok: "verdicts_ok db \<Longrightarrow> verdicts_ok (fold (upsert_finding c now run s vs ms) is db)"
  by (induction "is" arbitrary: db) (simp_all add: upsert_finding_ok)

text \<open>The parts of an evaluation that came through.\<close>

definition wanted_persons :: "persecuted list \<Rightarrow> nat list" where
  "wanted_persons cs = sort (unique (map (person_id \<circ> pc_person) cs))"

lemma wanted_persons_facts [simp]:
  "set (wanted_persons cs) = person_id ` pc_person ` set cs" "distinct (wanted_persons cs)"
  by (auto simp: wanted_persons_def image_comp)

definition after_upserts :: "criterion \<Rightarrow> nat \<Rightarrow> nat \<Rightarrow> nat \<Rightarrow> nat list \<Rightarrow> verdict_db \<Rightarrow> verdict_db" where
  "after_upserts c now run s persons db =
     fold (upsert_finding c now run s (latest_classification_ids db persons)
       (map (\<lambda>(i, m). (i, mrow_id m)) (person_matches db s persons))) persons db"

lemma evaluate_criterion_split:
  "evaluate_criterion d rf c now run s db =
     (case get_candidates d rf db s (cr_min_confidence c) None (cr_statuses c) of
        Inl e \<Rightarrow> (Inl e, db)
      | Inr cs \<Rightarrow>
          (Inr \<lparr>ev_matched = length (wanted_persons cs),
             ev_created = length (filter (\<lambda>i. dict_get (map (\<lambda>f. (fr_person f, fr_active f))
               (filter (of_criterion c) (found db))) i = None) (wanted_persons cs)),
             ev_reactivated = length (filter (\<lambda>i. dict_get (map (\<lambda>f. (fr_person f, fr_active f))
               (filter (of_criterion c) (found db))) i = Some False) (wanted_persons cs)),
             ev_deactivated = length (filter (gone c (wanted_persons cs)) (found (after_upserts c now run s (wanted_persons cs) db)))\<rparr>,
           snd (deactivate_missing c now (wanted_persons cs) (after_upserts c now run s (wanted_persons cs) db))))"
  by (simp add: evaluate_criterion_def wanted_persons_def after_upserts_def deactivate_missing_def Let_def
      split: sum.split)

lemma active_after:
  assumes "is = wanted_persons cs"
  shows "(\<exists>f \<in> set (found (snd (deactivate_missing c now is (after_upserts c now run s is db)))).
       of_criterion c f \<and> fr_active f \<and> fr_person f = i) \<longleftrightarrow> i \<in> set is"
proof -
  let ?db1 = "after_upserts c now run s is db"
  let ?off = "\<lambda>f. f\<lparr>fr_active := False, fr_inactive_since := Some now\<rparr>"
  have rows: "set (found (snd (deactivate_missing c now is ?db1))) =
      (\<lambda>f. if gone c is f then ?off f else f) ` set (found ?db1)"
    unfolding found_deactivate by (rule set_update_rows)
  have seen: "\<exists>g \<in> set (found ?db1). of_criterion c g \<and> fr_active g \<and> fr_person g = i" if "i \<in> set is"
    using that fold_upsert_seen [of db c "{}" s _ _ now run "is"] unfolding after_upserts_def seen_now_def by fastforce
  show ?thesis
  proof
    assume "\<exists>f \<in> set (found (snd (deactivate_missing c now is ?db1))). of_criterion c f \<and> fr_active f \<and> fr_person f = i"
    then obtain g where "of_criterion c (if gone c is g then ?off g else g)" "fr_active (if gone c is g then ?off g else g)"
        "fr_person (if gone c is g then ?off g else g) = i"
      unfolding rows by blast
    then show "i \<in> set is" by (auto simp: gone_def split: if_splits)
  next
    assume i: "i \<in> set is"
    then obtain g where g: "g \<in> set (found ?db1)" "of_criterion c g" "fr_active g" "fr_person g = i" using seen by blast
    then have "(if gone c is g then ?off g else g) = g" using i by (simp add: gone_def)
    moreover have "(if gone c is g then ?off g else g) \<in> set (found (snd (deactivate_missing c now is ?db1)))"
      unfolding rows using g(1) by (rule imageI)
    ultimately have "g \<in> set (found (snd (deactivate_missing c now is ?db1)))" by simp
    then show "\<exists>f \<in> set (found (snd (deactivate_missing c now is ?db1))). of_criterion c f \<and> fr_active f \<and> fr_person f = i"
      using g(2-4) by (intro bexI [of _ g] conjI)
  qed
qed

lemma after_upserts_tables [simp]:
  "verdicts (after_upserts c now run s is db) = verdicts db" "matches (after_upserts c now run s is db) = matches db"
  by (simp_all add: after_upserts_def fold_upsert_tables)

lemma deactivate_tables [simp]:
  "verdicts (snd (deactivate_missing c now is db)) = verdicts db" "matches (snd (deactivate_missing c now is db)) = matches db"
  by (simp_all add: deactivate_missing_def)

lemma get_candidates_cong:
  "verdicts db' = verdicts db \<Longrightarrow> matches db' = matches db \<Longrightarrow>
     get_candidates d rf db' s m l include = get_candidates d rf db s m l include"
  by (simp add: get_candidates_def persecuted_persons_def political_classifications_def is_latest_def [abs_def] person_matches_def)

lemma evaluated:
  assumes "evaluate_criterion d rf c now run s db = (Inr x, db')"
  shows "\<exists>cs. get_candidates d rf db s (cr_min_confidence c) None (cr_statuses c) = Inr cs \<and>
    db' = snd (deactivate_missing c now (wanted_persons cs) (after_upserts c now run s (wanted_persons cs) db))"
  using assms unfolding evaluate_criterion_split by (auto split: sum.splits)

lemma evaluate_criterion_ok:
  "verdicts_ok db \<Longrightarrow> verdicts_ok (snd (evaluate_criterion d rf c now run s db))"
  unfolding evaluate_criterion_split after_upserts_def
  by (auto simp: fold_upsert_ok deactivate_missing_ok split: sum.split)

text \<open>
  C8. An evaluation leaves exactly the answer of the main query active. Whatever the table held,
  once the evaluation of a criterion came through, a person has an active finding of that
  criterion exactly if they are active, their latest classification is POLITICAL and sure
  enough, and their Rosfinmonitoring status in this snapshot is one the criterion asks for:
  nobody the query lists is without a finding, and no finding outlives its reason.
\<close>

theorem active_findings_are_the_query:
  assumes "verdicts_ok db" and "evaluate_criterion d rf c now run s db = (Inr x, db')"
  shows "(\<exists>f \<in> set (found db'). of_criterion c f \<and> fr_active f \<and> fr_person f = i) \<longleftrightarrow>
    (\<exists>p. row_of_person i d = Some p \<and> person_status p = ACTIVE) \<and>
    (\<exists>v. latest_verdict db i = Some v \<and> vr_status v = POLITICAL \<and> cr_min_confidence c \<le> vr_confidence v) \<and>
    resolve_rosfinmonitoring_status (map_option mrow_status (get_match_result i s db)) \<in> set (cr_statuses c)"
proof -
  obtain cs where cs: "get_candidates d rf db s (cr_min_confidence c) None (cr_statuses c) = Inr cs"
    and db': "db' = snd (deactivate_missing c now (wanted_persons cs) (after_upserts c now run s (wanted_persons cs) db))"
    using evaluated [OF assms(2)] by blast
  show ?thesis
    unfolding db' active_after [OF refl] wanted_persons_facts candidate_persons [OF cs] latest_verdict_iff [OF assms(1)]
      rf_status_in_def [symmetric] by blast
qed


text \<open>What an evaluation adds or touches is of the persons it wants.\<close>

lemma upsert_brings:
  assumes "f \<in> set (found (upsert_finding c now run s vs ms i db))" and "fr_person f \<noteq> i"
  shows "f \<in> set (found db)"
proof (cases "\<exists>f \<in> set (found db). of_criterion c f \<and> fr_person f = i")
  case True
  obtain g where "g \<in> set (found db)" "f = (if of_criterion c g \<and> fr_person g = i then seen_again now run s vs ms g else g)"
    using assms(1) unfolding upsert_finding_again [OF True] by (rule imageE)
  then show ?thesis using assms(2) by (simp split: if_splits)
next
  case False
  have "fr_person (first_seen c now run s vs ms i n) = i" for n by (simp add: first_seen_def)
  then show ?thesis using assms unfolding upsert_finding_first [OF False] by (elim insertE) simp_all
qed

lemma fold_upsert_brings:
  "f \<in> set (found (fold (upsert_finding c now run s vs ms) is db)) \<Longrightarrow> fr_person f \<notin> set is \<Longrightarrow> f \<in> set (found db)"
proof (induction "is" arbitrary: db)
  case (Cons i "is")
  then have "f \<in> set (found (upsert_finding c now run s vs ms i db))" "fr_person f \<noteq> i" by simp_all
  then show ?case by (rule upsert_brings)
qed simp

lemma existing_active:
  assumes "keys_ok fr_id finding_key n rows" and "f \<in> set rows" and "of_criterion c f"
  shows "dict_get (map (\<lambda>f. (fr_person f, fr_active f)) (filter (of_criterion c) rows)) (fr_person f) = Some (fr_active f)"
proof -
  let ?mine = "filter (of_criterion c) rows"
  have "inj_on fr_person (set ?mine)"
  proof (rule inj_onI)
    fix a b assume "a \<in> set ?mine" "b \<in> set ?mine" "fr_person a = fr_person b"
    then show "a = b" using keys_ok_same [OF assms(1), of a b] by (simp add: finding_key_def of_criterion_def)
  qed
  moreover have "distinct rows" using assms(1) by (auto simp: keys_ok_def distinct_map)
  ultimately have "distinct (map fst (map (\<lambda>f. (fr_person f, fr_active f)) ?mine))" by (simp add: distinct_map comp_def)
  then show ?thesis using assms(2,3) by (auto simp: dict_get_def intro!: map_of_is_SomeI)
qed

text \<open>
  Evaluating again finds nothing new. When the same criterion is evaluated a second time
  over the same persons, verdicts and matches, at any later time and by any run, it counts the
  same persons and nothing as created, reactivated or deactivated.
\<close>

theorem evaluating_again_changes_nothing:
  assumes "verdicts_ok db" and "evaluate_criterion d rf c now run s db = (Inr x, db')"
  shows "fst (evaluate_criterion d rf c later another s db') =
    Inr \<lparr>ev_matched = ev_matched x, ev_created = 0, ev_reactivated = 0, ev_deactivated = 0\<rparr>"
proof -
  obtain cs where cs: "get_candidates d rf db s (cr_min_confidence c) None (cr_statuses c) = Inr cs"
    and db': "db' = snd (deactivate_missing c now (wanted_persons cs) (after_upserts c now run s (wanted_persons cs) db))"
    using evaluated [OF assms(2)] by blast
  have again: "get_candidates d rf db' s (cr_min_confidence c) None (cr_statuses c) = Inr cs"
    unfolding cs [symmetric] by (rule get_candidates_cong) (simp_all add: db')
  have ok: "keys_ok fr_id finding_key (next_finding db') (found db')"
    using evaluate_criterion_ok [OF assms(1), of d rf c now run s] assms(2) by (simp add: verdicts_ok_def)
  have active: "(\<exists>f \<in> set (found db'). of_criterion c f \<and> fr_active f \<and> fr_person f = i) \<longleftrightarrow> i \<in> set (wanted_persons cs)" for i
    unfolding db' by (rule active_after [OF refl])
  have known: "dict_get (map (\<lambda>f. (fr_person f, fr_active f)) (filter (of_criterion c) (found db'))) i = Some True"
    if want: "i \<in> set (wanted_persons cs)" for i
  proof -
    obtain f where f: "f \<in> set (found db')" "of_criterion c f" "fr_active f" "fr_person f = i"
      using want active [of i] by blast
    show ?thesis using existing_active [OF ok f(1,2)] f(3,4) by simp
  qed
  have "\<not> gone c (wanted_persons cs) f" if f: "f \<in> set (found (after_upserts c later another s (wanted_persons cs) db'))" for f
  proof
    assume gone: "gone c (wanted_persons cs) f"
    then have "f \<in> set (found db')" using fold_upsert_brings f unfolding after_upserts_def gone_def by blast
    then show False using gone active [of "fr_person f"] unfolding gone_def by blast
  qed
  then have none: "filter (gone c (wanted_persons cs)) (found (after_upserts c later another s (wanted_persons cs) db')) = []"
    by (simp add: filter_empty_conv)
  have "ev_matched x = length (wanted_persons cs)" using assms(2) cs by (auto simp: evaluate_criterion_split)
  then show ?thesis unfolding evaluate_criterion_split again sum.case fst_conv none using known
    by (simp add: filter_empty_conv)
qed

section \<open>One person, classified and not on the list\<close>

definition sidorov :: persons_db where
  "sidorov = one_person ''sidorov oleg'' ''sidorovoleg''"

definition one_verdict :: verdict_db where
  "one_verdict = \<lparr>verdicts = [\<lparr>vr_id = 0, vr_person = 1, vr_status = POLITICAL, vr_confidence = 4 / 5, vr_reasons = [],
       vr_evidence = [POLITICAL_CHARGE], vr_classifier = CLASSIFIER_NAME, vr_version = CLASSIFIER_VERSION, vr_at = 3\<rparr>],
     matches = [\<lparr>mrow_id = 0, mrow_person = 1, mrow_snapshot = 1, mrow_status = ''not_matched'', mrow_confidence = 4 / 5,
       mrow_entry = None, mrow_candidates = [], mrow_reasons = [No_Entries_Found], mrow_matcher = Some MATCHER_NAME,
       mrow_version = Some MATCHER_VERSION, mrow_at = 4\<rparr>],
     found = [first_seen (hd default_criteria) 2 7 1 [] [] 5 0],
     next_verdict = 1, next_match = 1, next_finding = 1\<rparr>"

lemma one_verdict_ok: "verdicts_ok one_verdict"
  by (simp add: one_verdict_def verdicts_ok_def keys_ok_def first_seen_def)

lemma one_verdict_evaluated:
  "(case get_candidates sidorov list_of_two one_verdict 1 (7 / 10) None DEFAULT_INCLUDED_RF_STATUSES of
      Inl _ \<Rightarrow> False | Inr cs \<Rightarrow> map (person_id \<circ> pc_person) cs = [1])"
  "(case evaluate_criterion sidorov list_of_two (hd default_criteria) 6 8 1 one_verdict of
      (Inl _, _) \<Rightarrow> False
    | (Inr x, db) \<Rightarrow> x = \<lparr>ev_matched = 1, ev_created = 1, ev_reactivated = 0, ev_deactivated = 1\<rparr> \<and>
        map (\<lambda>f. (of_criterion (hd default_criteria) f, fr_person f, fr_active f)) (found db) = [(True, 5, False), (True, 1, True)])"
  by code_simp+

theorem candidates_are_the_confirmed_absent_witness:
  "(\<exists>cs. get_candidates sidorov list_of_two one_verdict 1 (7 / 10) None DEFAULT_INCLUDED_RF_STATUSES = Inr cs \<and>
      person_id ` pc_person ` set cs = {1}) \<and>
   (\<exists>v. latest_verdict one_verdict 1 = Some v \<and> vr_status v = POLITICAL)"
proof -
  obtain cs where cs: "get_candidates sidorov list_of_two one_verdict 1 (7 / 10) None DEFAULT_INCLUDED_RF_STATUSES = Inr cs"
      "map (person_id \<circ> pc_person) cs = [1]"
    using one_verdict_evaluated(1) by (auto split: sum.splits)
  have "set (map (person_id \<circ> pc_person) cs) = {1}" unfolding cs(2) by simp
  then have persons: "person_id ` pc_person ` set cs = {1}" by (simp add: image_comp)
  then show ?thesis using cs(1) candidates_are_the_confirmed_absent [OF one_verdict_ok cs(1), of 1] by blast
qed

theorem active_findings_are_the_query_witness:
  "\<exists>x db. evaluate_criterion sidorov list_of_two (hd default_criteria) 6 8 1 one_verdict = (Inr x, db) \<and>
     (\<exists>v. latest_verdict one_verdict 1 = Some v \<and> vr_status v = POLITICAL)"
proof -
  obtain x db where run: "evaluate_criterion sidorov list_of_two (hd default_criteria) 6 8 1 one_verdict = (Inr x, db)"
      "map (\<lambda>f. (of_criterion (hd default_criteria) f, fr_person f, fr_active f)) (found db) = [(True, 5, False), (True, 1, True)]"
    using one_verdict_evaluated(2) by (auto split: prod.splits sum.splits)
  have "(True, 1, True) \<in> set (map (\<lambda>f. (of_criterion (hd default_criteria) f, fr_person f, fr_active f)) (found db))"
    unfolding run(2) by simp
  then have "\<exists>f \<in> set (found db). of_criterion (hd default_criteria) f \<and> fr_active f \<and> fr_person f = 1" by auto
  then show ?thesis using run(1) active_findings_are_the_query [OF one_verdict_ok run(1), of 1] by blast
qed


theorem evaluating_again_changes_nothing_witness:
  "\<exists>x db. evaluate_criterion sidorov list_of_two (hd default_criteria) 6 8 1 one_verdict = (Inr x, db) \<and>
     fst (evaluate_criterion sidorov list_of_two (hd default_criteria) 9 10 1 db) =
       Inr \<lparr>ev_matched = 1, ev_created = 0, ev_reactivated = 0, ev_deactivated = 0\<rparr>"
proof -
  obtain x db where run: "evaluate_criterion sidorov list_of_two (hd default_criteria) 6 8 1 one_verdict = (Inr x, db)"
      "ev_matched x = 1"
    using one_verdict_evaluated(2) by (auto split: prod.splits sum.splits)
  then show ?thesis using evaluating_again_changes_nothing [OF one_verdict_ok run(1), of 9 10] by simp
qed

end
