(* ===== verification/Verdict_Stages.thy ===== *)
theory Verdict_Stages
  imports Findings
begin

text \<open>
  The stages that write the verdict tables, in any order and any number of times, over evidence
  and persons that change between them, and what a finding then rests on.
\<close>

section \<open>What a stored verdict records\<close>

definition verdict_from :: "unicode \<Rightarrow> evidence_db \<Rightarrow> verdict_row \<Rightarrow> bool" where
  "verdict_from u evidence v \<longleftrightarrow>
     vr_status v = cl_status (classification_of u evidence (vr_person v)) \<and>
     vr_confidence v = cl_confidence (classification_of u evidence (vr_person v)) \<and>
     vr_evidence v = cl_evidence (classification_of u evidence (vr_person v))"

definition match_from :: "unicode \<Rightarrow> text_tools \<Rightarrow> rf_db \<Rightarrow> persons_db \<Rightarrow> match_row \<Rightarrow> bool" where
  "match_from u tools rf d m \<longleftrightarrow>
     (\<exists>r. match_person u tools d rf (mrow_person m) (mrow_snapshot m) None = Inr r \<and>
        mrow_status m = match_value (mr_status r) \<and> mrow_entry m = mr_entry r)"

definition recorded :: "unicode \<Rightarrow> text_tools \<Rightarrow> rf_db \<Rightarrow> verdict_db \<Rightarrow> bool" where
  "recorded u tools rf db \<longleftrightarrow> verdicts_ok db \<and>
     (\<forall>v \<in> set (verdicts db). \<exists>evidence. verdict_from u evidence v) \<and>
     (\<forall>m \<in> set (matches db). \<exists>d. match_from u tools rf d m)"

lemma recordedD:
  assumes "recorded u tools rf db"
  shows "verdicts_ok db" and "v \<in> set (verdicts db) \<Longrightarrow> \<exists>evidence. verdict_from u evidence v"
    and "m \<in> set (matches db) \<Longrightarrow> \<exists>d. match_from u tools rf d m"
  using assms by (simp_all add: recorded_def)

lemma cl_person_of [simp]: "cl_person (classification_of u evidence person) = person"
  by (simp add: classification_of_def classify_def Let_def split: prod.splits)

lemma match_person_about:
  "match_person u tools d rf person s birth = Inr r \<Longrightarrow> mr_person r = person \<and> mr_snapshot r = s"
  by (auto simp: match_person_def no_candidates_def rate_candidates_def Let_def row_of_person_id
      split: option.splits if_splits list.splits)

lemma save_classification_verdicts:
  assumes "v \<in> set (verdicts (save_classification now (classification_of u evidence person) db))"
  shows "v \<in> set (verdicts db) \<or> verdict_from u evidence v"
  using assms
  by (auto simp: save_classification_def verdict_from_def set_update_rows is_verdict_of_def Let_def split: if_splits)

lemma save_classification_matches [simp]: "matches (save_classification now c db) = matches db"
  by (simp add: save_classification_def Let_def)

lemma save_match_result_matches:
  assumes "m \<in> set (matches (save_match_result now r db))"
    and "match_person u tools d rf (mr_person r) (mr_snapshot r) None = Inr r"
  shows "m \<in> set (matches db) \<or> match_from u tools rf d m"
  using assms
  by (auto simp: save_match_result_def match_from_def set_update_rows Let_def split: if_splits)

lemma save_match_result_verdicts [simp]: "verdicts (save_match_result now r db) = verdicts db"
  by (simp add: save_match_result_def Let_def)

section \<open>The stages\<close>

inductive verdict_stage :: "unicode \<Rightarrow> text_tools \<Rightarrow> rf_db \<Rightarrow> verdict_db \<Rightarrow> verdict_db \<Rightarrow> bool" for u tools rf where
  classified: "verdict_stage u tools rf db (snd (classify_person u evidence now person db))"
| all_classified: "verdict_stage u tools rf db (classify_all_persons u evidence now db)"
| matched: "verdict_stage u tools rf db (snd (match_and_save u tools d rf now person s db))"
| match_deleted: "verdict_stage u tools rf db (snd (delete_match_result person s db))"
| findings_evaluated: "verdict_stage u tools rf db (snd (evaluate d rf now run snapshot db))"

lemma classify_person_recorded:
  assumes "recorded u tools rf db"
  shows "recorded u tools rf (snd (classify_person u evidence now person db))"
proof -
  have "\<exists>evidence. verdict_from u evidence v"
    if "v \<in> set (verdicts (save_classification now (classification_of u evidence person) db))" for v
    using save_classification_verdicts [OF that] recordedD(2) [OF assms] by blast
  then show ?thesis
    using recordedD [OF assms] by (simp add: recorded_def classify_person_def Let_def save_classification_ok)
qed

lemma match_and_save_recorded:
  assumes "recorded u tools rf db"
  shows "recorded u tools rf (snd (match_and_save u tools d rf now person s db))"
proof (cases "match_person u tools d rf person s None")
  case (Inl e)
  then show ?thesis using assms by (simp add: match_and_save_def)
next
  case (Inr r)
  have r: "match_person u tools d rf (mr_person r) (mr_snapshot r) None = Inr r"
    using Inr match_person_about [OF Inr] by simp
  have "\<exists>d. match_from u tools rf d m" if "m \<in> set (matches (save_match_result now r db))" for m
    using save_match_result_matches [OF that r] recordedD(3) [OF assms] by blast
  then show ?thesis
    using recordedD [OF assms] Inr by (simp add: recorded_def match_and_save_def save_match_result_ok)
qed

lemma delete_match_recorded:
  assumes "recorded u tools rf db"
  shows "recorded u tools rf (snd (delete_match_result person s db))"
  using assms
  by (auto simp: recorded_def delete_match_result_def verdicts_ok_def keys_ok_filter split: option.split)

lemma evaluate_criterion_tables:
  "verdicts (snd (evaluate_criterion d rf c now run s db)) = verdicts db"
  "matches (snd (evaluate_criterion d rf c now run s db)) = matches db"
  by (auto simp: evaluate_criterion_split split: sum.split)

lemma evaluate_criterion_recorded:
  "recorded u tools rf db \<Longrightarrow> recorded u tools rf (snd (evaluate_criterion d rf' c now run s db))"
  by (simp add: recorded_def evaluate_criterion_ok evaluate_criterion_tables)

lemma evaluate_criteria_recorded:
  "recorded u tools rf db \<Longrightarrow> recorded u tools rf (snd (evaluate_criteria d rf' cs now run s db))"
proof (induction cs arbitrary: db)
  case (Cons c cs)
  obtain x db1 where one: "evaluate_criterion d rf' c now run s db = (x, db1)" by fastforce
  then have "recorded u tools rf db1" using evaluate_criterion_recorded [OF Cons.prems, of d rf' c now run s] by simp
  then have "recorded u tools rf (snd (evaluate_criteria d rf' cs now run s db1))" by (rule Cons.IH)
  then show ?case using one \<open>recorded u tools rf db1\<close> by (auto split: sum.split prod.split)
qed simp

lemma evaluate_tables:
  "snd (evaluate d rf now run (Some s) db) = snd (evaluate_criteria d rf default_criteria now run s db)"
  by (auto simp: evaluate_def split: prod.split sum.split)

lemma verdict_stage_recorded:
  assumes "verdict_stage u tools rf db db'" and "recorded u tools rf db"
  shows "recorded u tools rf db'"
  using assms
proof cases
  case (all_classified evidence now)
  have "recorded u tools rf (fold (\<lambda>person d. snd (classify_person u evidence now person d)) ps db)" for ps
    using assms(2) by (induction ps arbitrary: db) (simp_all add: classify_person_recorded)
  then show ?thesis using all_classified by (simp add: classify_all_persons_def)
next
  case (findings_evaluated d now run snapshot)
  show ?thesis
  proof (cases snapshot)
    case None
    then show ?thesis using findings_evaluated assms(2) by (simp add: evaluate_def)
  next
    case (Some s)
    then show ?thesis
      using findings_evaluated evaluate_criteria_recorded [OF assms(2), of d rf default_criteria now run s] by (simp add: evaluate_tables)
  qed
qed (simp_all add: classify_person_recorded match_and_save_recorded delete_match_recorded)

lemma reached_recorded:
  "(verdict_stage u tools rf)\<^sup>*\<^sup>* empty_verdicts db \<Longrightarrow> recorded u tools rf db"
proof (induction rule: rtranclp_induct)
  case base
  show ?case by (simp add: recorded_def empty_verdicts_def verdicts_ok_def keys_ok_def)
qed (rule verdict_stage_recorded)

section \<open>What a finding rests on\<close>

definition enbv :: criterion where "enbv = hd default_criteria"

lemma enbv_fields [simp]:
  "cr_type enbv = POLITICAL_NOT_IN_RF" "cr_version enbv = ENBV_CRITERIA_VERSION"
  "cr_min_confidence enbv = DEFAULT_MIN_PERSECUTION_CONFIDENCE" "cr_statuses enbv = DEFAULT_INCLUDED_RF_STATUSES"
  by (simp_all add: enbv_def default_criteria_def)

lemma evaluate_enbv:
  assumes "evaluate d rf now run (Some s) db = (Inr out, db')"
  shows "\<exists>x. evaluate_criterion d rf enbv now run s db = (Inr x, db')"
proof -
  have only: "default_criteria = [enbv]" by (simp add: enbv_def default_criteria_def)
  show ?thesis using assms by (auto simp: evaluate_def only split: prod.splits sum.splits)
qed

lemma unmatched_row:
  assumes "match_from u tools rf d m" and "mrow_status m = ''not_matched''"
  shows "\<exists>p. row_of_person (mrow_person m) d = Some p \<and>
    (\<forall>x \<in> set (identities_of d p). \<forall>e \<in> set (rf_entries rf). rf_snapshot e = mrow_snapshot m \<longrightarrow> rf_key e \<noteq> mi_key x)"
proof -
  obtain r where r: "match_person u tools d rf (mrow_person m) (mrow_snapshot m) None = Inr r"
      "match_value (mr_status r) = ''not_matched''"
    using assms unfolding match_from_def by auto
  then have status: "mr_status r \<in> {NOT_MATCHED, INSUFFICIENT_DATA}" by (cases "mr_status r") simp_all
  obtain p where p: "row_of_person (mrow_person m) d = Some p"
    using r(1) by (cases "row_of_person (mrow_person m) d") (simp_all add: match_person_def)
  show ?thesis using p unlisted_key [OF r(1) p status] by blast
qed


section \<open>Two stages and an evaluation\<close>

definition one_article :: evidence_db where
  "one_article =
    \<lparr>mention_lines = [\<lparr>ml_id = 1, ml_run = 1, ml_start = 0, ml_end = 7, ml_surface = ru ''sidorov'',
       ml_text = ru ''sidorov'', ml_type = ''person'', ml_person = Some 1\<rparr>],
     event_lines = [\<lparr>el_id = 1, el_run = 1, el_type = ''detention'', el_charge = None, el_start = 0, el_end = 7\<rparr>],
     event_links = [(1, 1)], run_rows = [(1, 1)],
     stored_rows = [\<lparr>art_id = 1, art_title = [], art_text = ru ''sidorov pravozaWitnik''\<rparr>]\<rparr>"

definition staged :: verdict_db where
  "staged = snd (match_and_save russian plain_tools sidorov list_of_two 4 1 1
     (snd (classify_person russian one_article 3 1 empty_verdicts)))"

lemma staged_reached: "(verdict_stage russian plain_tools list_of_two)\<^sup>*\<^sup>* empty_verdicts staged"
  unfolding staged_def
  by (rule rtranclp.rtrancl_into_rtrancl [OF r_into_rtranclp]) (rule verdict_stage.intros)+

lemma staged_evaluated:
  "(case evaluate sidorov list_of_two 5 1 (Some 1) staged of
      (Inl _, _) \<Rightarrow> False
    | (Inr _, db) \<Rightarrow> list_ex (\<lambda>f. fr_active f \<and> of_criterion enbv f \<and> fr_person f = 1) (found db))"
  by code_simp


end
