(* ===== verification/Model_Answers.thy ===== *)
theory Model_Answers
  imports Identity_Tables
begin

text \<open>
  The cache of a model's answers about entities and the asking of what it lacks
  (\<open>processing/answers.py\<close>), the batches in flight and their budget (\<open>llm/chat.py\<close>), and which
  answers of a reply count (\<open>matched_answers\<close>, the same in every step). What the model
  replies is a parameter; so is \<open>script\<close>, which says round by round which of the calls in
  flight are found done and what was billed by then.
\<close>

section \<open>Batches and their budget\<close>

datatype call_error =
    Budget_Spent
  | Model_Failed string
  | Classifier_Failed string
  | Other_Failure string

record spend =
  budget_usd :: rat
  cost_usd :: rat

datatype billing = Bill rat | Stop_Spending

fun billed :: "billing \<Rightarrow> spend \<Rightarrow> spend" where
  "billed (Bill c) s = s\<lparr>cost_usd := cost_usd s + c\<rparr>"
| "billed Stop_Spending s = s\<lparr>budget_usd := 0\<rparr>"

definition exhausted :: "spend option \<Rightarrow> bool" where
  "exhausted s \<longleftrightarrow> (case s of None \<Rightarrow> False | Some x \<Rightarrow> budget_usd x \<le> cost_usd x)"

text \<open>\<open>fill\<close>: calls are sent while fewer than \<open>concurrency\<close> are in flight and there is budget.\<close>

fun fill :: "nat \<Rightarrow> spend option \<Rightarrow> 'b list \<Rightarrow> 'b list \<Rightarrow> 'b list \<times> 'b list" where
  "fill concurrency s pending [] = (pending, [])"
| "fill concurrency s pending (b # waiting) =
     (if length pending < concurrency \<and> \<not> exhausted s
      then fill concurrency s (pending @ [b]) waiting else (pending, b # waiting))"

lemma fill_same: "fst (fill c s pending q) @ snd (fill c s pending q) = pending @ q"
  by (induction c s pending q rule: fill.induct) simp_all

lemma fill_length: "length (fst (fill c s pending q)) + length (snd (fill c s pending q)) = length pending + length q"
  by (metis fill_same length_append)

lemma fill_bound: "length pending \<le> c \<Longrightarrow> length (fst (fill c s pending q)) \<le> c"
  by (induction c s pending q rule: fill.induct) simp_all

type_synonym script = "(nat list \<times> billing list) list"

text \<open>At least one call is done when \<open>wait\<close> returns.\<close>

definition done_calls :: "nat list \<Rightarrow> nat \<Rightarrow> nat list" where
  "done_calls picks n = (case filter (\<lambda>i. i < n) (unique picks) of [] \<Rightarrow> [0] | is \<Rightarrow> is)"

definition still_in_flight :: "nat list \<Rightarrow> 'b list \<Rightarrow> 'b list" where
  "still_in_flight is pending = map ((!) pending) (filter (\<lambda>i. i \<notin> set is) [0..<length pending])"

lemma done_calls_facts:
  assumes "0 < n"
  shows "done_calls picks n \<noteq> []" and "distinct (done_calls picks n)" and "set (done_calls picks n) \<subseteq> {0..<n}"
  using assms by (auto simp: done_calls_def split: list.splits) (metis (no_types, lifting) distinct.simps(2)
    distinct_filter distinct_unique list.set_intros filter_eq_Cons_iff in_set_conv_decomp mem_Collect_eq set_filter)+

lemma mset_filter_split: "mset (filter P xs) + mset (filter (\<lambda>x. \<not> P x) xs) = mset xs"
  by (induction xs) auto

lemma rounds_split:
  assumes "pending \<noteq> []"
  shows "mset (map ((!) pending) (done_calls picks (length pending))) +
    mset (still_in_flight (done_calls picks (length pending)) pending) = mset pending"
proof -
  let ?is = "done_calls picks (length pending)" and ?all = "[0..<length pending]"
  have "set ?is = set (filter (\<lambda>i. i \<in> set ?is) ?all)" using done_calls_facts(3) [of "length pending" picks] assms by auto
  then have "mset ?is = mset (filter (\<lambda>i. i \<in> set ?is) ?all)"
    using done_calls_facts(2) [of "length pending" picks] assms by (intro set_eq_iff_mset_eq_distinct [THEN iffD1]) auto
  then have "mset ?is + mset (filter (\<lambda>i. i \<notin> set ?is) ?all) = mset ?all"
    using mset_filter_split [of "\<lambda>i. i \<in> set ?is" ?all] by simp
  then have "image_mset ((!) pending) (mset ?is + mset (filter (\<lambda>i. i \<notin> set ?is) ?all)) = image_mset ((!) pending) (mset ?all)"
    by simp
  also have "\<dots> = mset (map ((!) pending) ?all)" by simp
  also have "\<dots> = mset pending" by (simp only: map_nth)
  finally show ?thesis by (simp add: still_in_flight_def)
qed

lemma still_in_flight_shorter:
  assumes "pending \<noteq> []"
  shows "length (still_in_flight (done_calls picks (length pending)) pending) < length pending"
proof -
  have "length pending = length (done_calls picks (length pending)) +
      length (still_in_flight (done_calls picks (length pending)) pending)"
    using arg_cong [OF rounds_split [OF assms, of picks], of size] unfolding size_union size_mset length_map by simp
  moreover have "0 < length (done_calls picks (length pending))"
    using done_calls_facts(1) [of "length pending" picks] assms by simp
  ultimately show ?thesis by linarith
qed

lemma next_round_smaller:
  assumes "pending \<noteq> []" and "filled = fill c s (still_in_flight (done_calls picks (length pending)) pending) waiting"
  shows "length (fst filled) + length (snd filled) < length pending + length waiting"
  using fill_length [of c s _ waiting] still_in_flight_shorter [OF assms(1), of picks] unfolding assms(2) by simp

function ask_rounds ::
  "nat \<Rightarrow> ('b \<Rightarrow> call_error + 'a) \<Rightarrow> script \<Rightarrow> 'b list \<Rightarrow> 'b list \<Rightarrow> spend option
     \<Rightarrow> ('b \<times> (call_error + 'a)) list \<times> 'b list \<times> spend option" where
  "ask_rounds concurrency ask script pending waiting s =
     (if pending = [] then ([], waiting, s)
      else
        let now = (case script of [] \<Rightarrow> ([], []) | r # _ \<Rightarrow> r);
            is = done_calls (fst now) (length pending);
            s' = map_option (fold billed (snd now)) s;
            filled = fill concurrency s' (still_in_flight is pending) waiting;
            (rest, left, s'') = ask_rounds concurrency ask (drop 1 script) (fst filled) (snd filled) s'
        in (map (\<lambda>i. (pending ! i, ask (pending ! i))) is @ rest, left, s''))"
  by pat_completeness auto
termination
  by (relation "measure (\<lambda>(_, _, _, pending, waiting, _). length pending + length waiting)")
    (auto intro: next_round_smaller)

declare ask_rounds.simps [simp del]

definition ask_in_batches ::
  "nat \<Rightarrow> ('b \<Rightarrow> call_error + 'a) \<Rightarrow> script \<Rightarrow> spend option \<Rightarrow> 'b list
     \<Rightarrow> ('b \<times> (call_error + 'a)) list \<times> spend option" where
  "ask_in_batches concurrency ask script s batches =
     (let (pending, waiting) = fill concurrency s [] batches;
          (replies, left, s') = ask_rounds concurrency ask script pending waiting s
      in (replies @ map (\<lambda>b. (b, Inl Budget_Spent)) left, s'))"

text \<open>Every batch comes back once, with its answer or with the budget's end.\<close>

definition full_or_spent :: "nat \<Rightarrow> 'b list \<times> 'b list \<Rightarrow> spend option \<Rightarrow> bool" where
  "full_or_spent c calls s \<longleftrightarrow> snd calls = [] \<or> c \<le> length (fst calls) \<or> exhausted s"

lemma fill_full: "full_or_spent c (fill c s pending q) s"
  by (induction c s pending q rule: fill.induct) (auto simp: full_or_spent_def)

lemma ask_rounds_all:
  assumes "ask_rounds c ask script pending waiting s = (replies, left, s')"
  shows "mset (map fst replies) + mset left = mset pending + mset waiting"
    and "\<forall>(b, r) \<in> set replies. r = ask b"
    and "full_or_spent c (pending, waiting) s \<Longrightarrow> full_or_spent c ([], left) s'"
proof -
  have "mset (map fst replies) + mset left = mset pending + mset waiting \<and> (\<forall>(b, r) \<in> set replies. r = ask b) \<and>
      (full_or_spent c (pending, waiting) s \<longrightarrow> full_or_spent c ([], left) s')"
    using assms
  proof (induction c ask script pending waiting s arbitrary: replies left s' rule: ask_rounds.induct)
    case (1 c ask script pending waiting s)
    show ?case
    proof (cases "pending = []")
      case True
      then show ?thesis using "1.prems" by (auto simp: ask_rounds.simps)
    next
      case False
      let ?now = "case script of [] \<Rightarrow> ([], []) | r # _ \<Rightarrow> r"
      let ?is = "done_calls (fst ?now) (length pending)" and ?s = "map_option (fold billed (snd ?now)) s"
      let ?filled = "fill c ?s (still_in_flight ?is pending) waiting"
      obtain rest left1 s1 where next_one: "ask_rounds c ask (drop 1 script) (fst ?filled) (snd ?filled) ?s = (rest, left1, s1)"
        by (metis prod_cases3)
      have now: "replies = map (\<lambda>i. (pending ! i, ask (pending ! i))) ?is @ rest" "left = left1" "s' = s1"
        using "1.prems" False next_one by (auto simp: ask_rounds.simps [of c ask script pending] Let_def)
      have IH: "mset (map fst rest) + mset left1 = mset (fst ?filled) + mset (snd ?filled)"
          "\<forall>(b, r) \<in> set rest. r = ask b" "full_or_spent c (fst ?filled, snd ?filled) ?s \<longrightarrow> full_or_spent c ([], left1) s1"
        using "1.IH" [OF False refl refl refl refl next_one] by blast+
      have "mset (fst ?filled) + mset (snd ?filled) = mset (still_in_flight ?is pending) + mset waiting"
        by (metis fill_same mset_append)
      then have "mset (map fst replies) + mset left = mset pending + mset waiting"
        using IH(1) rounds_split [OF False, of "fst ?now"] unfolding now
        by (simp add: comp_def) (metis (no_types, lifting) add.assoc)
      then show ?thesis using IH(2,3) fill_full [of c ?s] unfolding now by (auto simp: case_prod_beta)
    qed
  qed
  then show "mset (map fst replies) + mset left = mset pending + mset waiting" "\<forall>(b, r) \<in> set replies. r = ask b"
    "full_or_spent c (pending, waiting) s \<Longrightarrow> full_or_spent c ([], left) s'"
    by blast+
qed

lemma asked_batches:
  assumes "ask_in_batches c ask script s batches = (replies, s')"
  shows "mset (map fst replies) = mset batches"
    and "\<forall>(b, r) \<in> set replies. r = ask b \<or> r = Inl Budget_Spent \<and> (c = 0 \<or> exhausted s')"
proof -
  let ?filled = "fill c s [] batches"
  obtain rounds left where rounds: "ask_rounds c ask script (fst ?filled) (snd ?filled) s = (rounds, left, s')"
    and replies: "replies = rounds @ map (\<lambda>b. (b, Inl Budget_Spent)) left"
    using assms by (auto simp: ask_in_batches_def split: prod.splits)
  have "mset (fst ?filled) + mset (snd ?filled) = mset batches" by (metis append_Nil fill_same mset_append)
  then show "mset (map fst replies) = mset batches"
    using ask_rounds_all(1) [OF rounds] unfolding replies by (simp add: comp_def)
  have "left = [] \<or> c = 0 \<or> exhausted s'"
    using ask_rounds_all(3) [OF rounds] fill_full [of c s "[]" batches] by (auto simp: full_or_spent_def)
  then show "\<forall>(b, r) \<in> set replies. r = ask b \<or> r = Inl Budget_Spent \<and> (c = 0 \<or> exhausted s')"
    using ask_rounds_all(2) [OF rounds] unfolding replies by auto
qed

text \<open>
  C22. No batch is lost and none is asked twice, whatever the order in which the calls end and
  whenever the money runs out: the batches that come back are exactly the batches given, each
  once, with the answer of its one call or, when it was never sent, with the budget's end; and
  some are left unsent only if the budget is spent by then.
\<close>

theorem every_batch_comes_back_once:
  assumes "ask_in_batches c ask script s batches = (replies, s')" and "0 < c"
  shows "mset (map fst replies) = mset batches \<and>
    (\<forall>(b, r) \<in> set replies. r = ask b \<or> r = Inl Budget_Spent \<and> exhausted s')"
  using asked_batches [OF assms(1)] assms(2) by auto

theorem every_batch_comes_back_once_witness:
  "\<exists>replies s. ask_in_batches 2 (\<lambda>b. Inr (b + 1)) [([1], [Bill 1]), ([0], [Bill 2])] (Some \<lparr>budget_usd = 3, cost_usd = 0\<rparr>)
       [10, 20, 30, 40 :: nat] = (replies, s) \<and> mset (map fst replies) = {#10, 20, 30, 40#} \<and> (20, Inr 21) \<in> set replies \<and>
     (40, Inl Budget_Spent) \<in> set replies"
proof -
  let ?run = "ask_in_batches 2 (\<lambda>b. Inr (b + 1)) [([1], [Bill 1]), ([0], [Bill 2])] (Some \<lparr>budget_usd = 3, cost_usd = 0\<rparr>)
       [10, 20, 30, 40 :: nat]"
  have "fst ?run = [(20, Inr 21), (10, Inr 11), (30, Inr 31), (40, Inl Budget_Spent)]" by code_simp
  moreover obtain replies s where "?run = (replies, s)" by fastforce
  ultimately show ?thesis using every_batch_comes_back_once [of 2 "\<lambda>b. Inr (b + 1)" _ _ _ replies s] by auto
qed

section \<open>The cache\<close>

record answer_row =
  ans_key :: ustr
  ans_hash :: string
  ans_version :: string
  ans_model :: string
  ans_value :: string
  ans_explanation :: ustr
  ans_at :: nat

record model_answer =
  ma_id :: nat
  ma_source :: ustr
  ma_value :: string
  ma_explanation :: ustr

record answer_cache =
  ca_version :: string
  ca_accepted :: "string \<Rightarrow> string \<Rightarrow> ustr \<Rightarrow> bool"
  ca_sticky :: "string \<Rightarrow> bool"

text \<open>\<open>cached\<close>. A dict of keys and one of hashes are over the same ids, as every caller gives them.\<close>

definition in_force :: "answer_cache \<Rightarrow> answer_row \<Rightarrow> bool" where
  "in_force cache r \<longleftrightarrow> ans_version r = ca_version cache \<or>
     ca_accepted cache (ans_version r) (ans_value r) (ans_explanation r)"

definition asked_rows :: "string list \<Rightarrow> ustr list \<Rightarrow> string option \<Rightarrow> answer_row list \<Rightarrow> answer_row list" where
  "asked_rows hashes keys model rows =
     (let found = filter (\<lambda>r. ans_hash r \<in> set hashes \<or> ans_key r \<in> set keys) rows in
      case model of
        Some m \<Rightarrow> filter (\<lambda>r. ans_model r = m) found
      | None \<Rightarrow> sort_key (\<lambda>r. (ans_at r, ans_model r)) found)"

definition by_question :: "answer_cache \<Rightarrow> answer_row list \<Rightarrow> (string, answer_row) dict" where
  "by_question cache rows =
     fold (\<lambda>r d. if in_force cache r \<and> (dict_get d (ans_hash r) = None \<or> ans_version r = ca_version cache)
       then dict_set (ans_hash r) r d else d) rows []"

definition positive_rows :: "answer_cache \<Rightarrow> answer_row list \<Rightarrow> (ustr, answer_row) dict" where
  "positive_rows cache rows =
     fold (\<lambda>r d. if in_force cache r \<and> ca_sticky cache (ans_value r) then dict_set (ans_key r) r d else d) rows []"

definition positive_of_today :: "ustr list \<Rightarrow> (ustr, answer_row) dict \<Rightarrow> (ustr, answer_row) dict" where
  "positive_of_today keys positive =
     fold (\<lambda>(key, r) d. case today (unique keys) key of None \<Rightarrow> d | Some k \<Rightarrow> dict_set k r d) positive []"

definition answer_of_row :: "nat \<Rightarrow> answer_row \<Rightarrow> model_answer" where
  "answer_of_row i r = \<lparr>ma_id = i, ma_source = [], ma_value = ans_value r, ma_explanation = ans_explanation r\<rparr>"

definition cached ::
  "answer_cache \<Rightarrow> (nat, ustr) dict \<Rightarrow> (nat, string) dict \<Rightarrow> string option \<Rightarrow> answer_row list
     \<Rightarrow> (nat, model_answer) dict" where
  "cached cache keys hashes model rows =
     (let found = asked_rows (map snd hashes) (map snd keys) model rows;
          by_hash = by_question cache found;
          positive = positive_of_today (map snd keys) (positive_rows cache found)
      in List.map_filter (\<lambda>(i, digest).
           case dict_get by_hash digest of
             Some r \<Rightarrow> Some (i, answer_of_row i r)
           | None \<Rightarrow> (case dict_get positive (or_empty (dict_get keys i)) of
               Some r \<Rightarrow> Some (i, answer_of_row i r) | None \<Rightarrow> None)) hashes)"

text \<open>\<open>_store\<close>: \<open>ON CONFLICT DO NOTHING\<close> over the key of the table.\<close>

definition same_question :: "answer_row \<Rightarrow> answer_row \<Rightarrow> bool" where
  "same_question r r' \<longleftrightarrow> ans_key r' = ans_key r \<and> ans_hash r' = ans_hash r \<and> ans_version r' = ans_version r \<and>
     ans_model r' = ans_model r"

definition store_row :: "answer_row \<Rightarrow> answer_row list \<Rightarrow> answer_row list" where
  "store_row r rows = (if list_ex (same_question r) rows then rows else rows @ [r])"

definition row_of_answer ::
  "answer_cache \<Rightarrow> nat \<Rightarrow> string \<Rightarrow> (nat, ustr) dict \<Rightarrow> (nat, string) dict \<Rightarrow> nat \<times> model_answer \<Rightarrow> answer_row" where
  "row_of_answer cache now model keys hashes = (\<lambda>(i, a).
     \<lparr>ans_key = or_empty (dict_get keys i), ans_hash = (case dict_get hashes i of Some h \<Rightarrow> h | None \<Rightarrow> []),
      ans_version = ca_version cache, ans_model = model, ans_value = ma_value a,
      ans_explanation = ma_explanation a, ans_at = now\<rparr>)"

definition store_answers ::
  "answer_cache \<Rightarrow> nat \<Rightarrow> string \<Rightarrow> (nat, ustr) dict \<Rightarrow> (nat, string) dict \<Rightarrow> (nat, model_answer) dict
     \<Rightarrow> answer_row list \<Rightarrow> answer_row list" where
  "store_answers cache now model keys hashes answers rows =
     fold (store_row \<circ> row_of_answer cache now model keys hashes) answers rows"

section \<open>Asking\<close>

text \<open>The answers of a reply that name their own item, the first of each id.\<close>

definition matched_answers :: "(nat \<times> ustr) list \<Rightarrow> model_answer list \<Rightarrow> (nat, model_answer) dict" where
  "matched_answers items answers =
     (let by_id = fold (\<lambda>(i, name). dict_set i name) items [] in
      fold (\<lambda>a kept. case dict_get by_id (ma_id a) of
          None \<Rightarrow> kept
        | Some name \<Rightarrow> if dict_get kept (ma_id a) = None \<and> strip (ma_source a) = name
                       then dict_set (ma_id a) a kept else kept) answers [])"

record classifier =
  cf_model :: string
  cf_spend :: "spend option"
  cf_reply :: "nat list \<Rightarrow> call_error + model_answer list"

definition classify_batch :: "(nat, ustr) dict \<Rightarrow> classifier \<Rightarrow> nat list \<Rightarrow> call_error + (nat, model_answer) dict" where
  "classify_batch names cf ids =
     (case cf_reply cf ids of
        Inl e \<Rightarrow> Inl e
      | Inr answers \<Rightarrow> Inr (matched_answers (map (\<lambda>i. (i, or_empty (dict_get names i))) ids) answers))"

record ask_result =
  ar_answers :: "(nat, model_answer) dict"
  ar_asked :: nat
  ar_cached :: nat
  ar_failures :: nat
  ar_unasked :: nat

definition dict_update :: "('k, 'v) dict \<Rightarrow> ('k, 'v) dict \<Rightarrow> ('k, 'v) dict" where
  "dict_update d new = fold (\<lambda>(k, v). dict_set k v) new d"

text \<open>One batch that came back; any error that is not a model's ends the run.\<close>

definition take_reply ::
  "answer_cache \<Rightarrow> nat \<Rightarrow> string \<Rightarrow> (nat, ustr) dict \<Rightarrow> (nat, string) dict
     \<Rightarrow> nat list \<times> (call_error + (nat, model_answer) dict)
     \<Rightarrow> (call_error + ask_result) \<times> answer_row list \<Rightarrow> (call_error + ask_result) \<times> answer_row list" where
  "take_reply cache now model keys hashes = (\<lambda>(batch, reply) (result, rows).
     (case result of
        Inl e \<Rightarrow> (Inl e, rows)
      | Inr r \<Rightarrow>
          (case reply of
             Inl Budget_Spent \<Rightarrow> (Inr (r\<lparr>ar_unasked := ar_unasked r + length batch\<rparr>), rows)
           | Inl (Other_Failure e) \<Rightarrow> (Inl (Other_Failure e), rows)
           | Inl _ \<Rightarrow> (Inr (r\<lparr>ar_failures := ar_failures r + length batch\<rparr>), rows)
           | Inr answers \<Rightarrow>
               (Inr (r\<lparr>ar_failures := ar_failures r + (length batch - length answers),
                       ar_answers := dict_update (ar_answers r) answers,
                       ar_asked := ar_asked r + length answers\<rparr>),
                store_answers cache now model keys hashes answers rows))))"

function batches_of :: "nat \<Rightarrow> 'x list \<Rightarrow> 'x list list" where
  "batches_of n xs = (if xs = [] \<or> n = 0 then [] else take n xs # batches_of n (drop n xs))"
  by pat_completeness auto
termination by (relation "measure (length \<circ> snd)") auto

declare batches_of.simps [simp del]

text \<open>\<open>ask_missing\<close>; \<open>names\<close> are the items, in order, with the name each must be answered under.\<close>

definition ask_missing ::
  "answer_cache \<Rightarrow> classifier option \<Rightarrow> nat \<Rightarrow> nat \<Rightarrow> nat \<Rightarrow> script \<Rightarrow> (nat, ustr) dict \<Rightarrow> (nat, ustr) dict \<Rightarrow> (nat, string) dict
     \<Rightarrow> answer_row list \<Rightarrow> (call_error + ask_result) \<times> answer_row list" where
  "ask_missing cache classifier batch_size concurrency now script names keys hashes rows =
     (let held = cached cache keys hashes (map_option cf_model classifier) rows;
          missing = filter (\<lambda>i. dict_get held i = None) (dict_keys names);
          start = \<lparr>ar_answers = held, ar_asked = 0, ar_cached = length held, ar_failures = 0, ar_unasked = 0\<rparr>
      in case classifier of
           None \<Rightarrow> (Inr start, rows)
         | Some cf \<Rightarrow>
             if missing = [] then (Inr start, rows)
             else
               let (replies, _) = ask_in_batches concurrency (classify_batch names cf) script (cf_spend cf)
                     (batches_of batch_size missing)
               in fold (take_reply cache now (cf_model cf) keys hashes) replies (Inr start, rows))"

lemma concat_batches_of: "0 < n \<Longrightarrow> concat (batches_of n xs) = xs"
proof (induction n xs rule: batches_of.induct)
  case (1 n xs)
  then show ?case by (cases "xs = []") (simp_all add: batches_of.simps [of n xs] batches_of.simps [of n "[]"])
qed

section \<open>What a cached answer rests on\<close>

lemma by_question_rows:
  "dict_get (by_question cache rows) h = Some r \<Longrightarrow> r \<in> set rows \<and> in_force cache r \<and> ans_hash r = h"
proof -
  have "dict_get (fold (\<lambda>r d. if in_force cache r \<and> (dict_get d (ans_hash r) = None \<or> ans_version r = ca_version cache)
      then dict_set (ans_hash r) r d else d) rs d) h = Some r \<Longrightarrow>
      dict_get d h = Some r \<or> r \<in> set rs \<and> in_force cache r \<and> ans_hash r = h" for rs d
    by (induction rs arbitrary: d) (fastforce simp: dict_get_set split: if_splits)+
  then show "dict_get (by_question cache rows) h = Some r \<Longrightarrow> ?thesis"
    unfolding by_question_def by (fastforce simp: dict_get_def)
qed

lemma by_question_found:
  assumes "r \<in> set rows" and "in_force cache r"
  shows "dict_get (by_question cache rows) (ans_hash r) \<noteq> None"
proof -
  let ?step = "\<lambda>r d. if in_force cache r \<and> (dict_get d (ans_hash r) = None \<or> ans_version r = ca_version cache)
      then dict_set (ans_hash r) r d else d"
  have "dict_get d h \<noteq> None \<or> (\<exists>r \<in> set rs. in_force cache r \<and> ans_hash r = h) \<Longrightarrow> dict_get (fold ?step rs d) h \<noteq> None" for rs d h
  proof (induction rs arbitrary: d)
    case (Cons x xs)
    have "dict_get (?step x d) h \<noteq> None \<or> (\<exists>r \<in> set xs. in_force cache r \<and> ans_hash r = h)"
      using Cons.prems by (auto simp: dict_get_set)
    then show ?case using Cons.IH [of "?step x d"] by simp
  qed simp
  then show ?thesis using assms unfolding by_question_def by blast
qed

lemma positive_rows_in:
  "(k, r) \<in> set (positive_rows cache rows) \<Longrightarrow> r \<in> set rows \<and> in_force cache r \<and> ca_sticky cache (ans_value r) \<and> ans_key r = k"
proof -
  have "(k, r) \<in> set (fold (\<lambda>r d. if in_force cache r \<and> ca_sticky cache (ans_value r) then dict_set (ans_key r) r d else d) rs d) \<Longrightarrow>
      (k, r) \<in> set d \<or> r \<in> set rs \<and> in_force cache r \<and> ca_sticky cache (ans_value r) \<and> ans_key r = k" for rs d
  proof (induction rs arbitrary: d)
    case (Cons x xs)
    then show ?case using set_dict_set [of "ans_key x" x d] by (fastforce split: if_splits)
  qed simp
  then show "(k, r) \<in> set (positive_rows cache rows) \<Longrightarrow> ?thesis"
    unfolding positive_rows_def by fastforce
qed

lemma positive_of_today_in:
  "dict_get (positive_of_today keys positive) k = Some r \<Longrightarrow>
     \<exists>key. (key, r) \<in> set positive \<and> today (unique keys) key = Some k"
proof -
  have "dict_get (fold (\<lambda>(key, r) d. case today (unique keys) key of None \<Rightarrow> d | Some k \<Rightarrow> dict_set k r d) ps d) k = Some r \<Longrightarrow>
      dict_get d k = Some r \<or> (\<exists>key. (key, r) \<in> set ps \<and> today (unique keys) key = Some k)" for ps d
    by (induction ps arbitrary: d) (fastforce simp: dict_get_set split: option.splits if_splits)+
  then show "dict_get (positive_of_today keys positive) k = Some r \<Longrightarrow> ?thesis"
    unfolding positive_of_today_def by (fastforce simp: dict_get_def)
qed

lemma in_asked_rows:
  "r \<in> set (asked_rows hashes keys model rows) \<longleftrightarrow>
     r \<in> set rows \<and> (ans_hash r \<in> set hashes \<or> ans_key r \<in> set keys) \<and> (\<forall>m. model = Some m \<longrightarrow> ans_model r = m)"
  by (cases model) (auto simp: asked_rows_def Let_def)

text \<open>
  What the answer held for an entity is: of its very question, or a positive one of its own, from
  the rows the query reads.
\<close>

definition answers_for ::
  "answer_cache \<Rightarrow> (nat, ustr) dict \<Rightarrow> (nat, string) dict \<Rightarrow> string option \<Rightarrow> answer_row list \<Rightarrow> nat \<Rightarrow> answer_row \<Rightarrow> bool" where
  "answers_for cache keys hashes model rows i r \<longleftrightarrow>
     r \<in> set rows \<and> in_force cache r \<and> (\<forall>m. model = Some m \<longrightarrow> ans_model r = m) \<and>
     (ans_hash r \<in> set (map snd hashes) \<or> ans_key r \<in> set (map snd keys)) \<and>
     ((i, ans_hash r) \<in> set hashes \<or>
      ca_sticky cache (ans_value r) \<and> today (unique (map snd keys)) (ans_key r) = Some (or_empty (dict_get keys i)))"

lemma in_cached:
  assumes "(i, a) \<in> set (cached cache keys hashes model rows)"
  shows "\<exists>r. answers_for cache keys hashes model rows i r \<and> a = answer_of_row i r"
proof -
  let ?found = "asked_rows (map snd hashes) (map snd keys) model rows"
  let ?positive = "positive_of_today (map snd keys) (positive_rows cache ?found)"
  obtain digest where digest: "(i, digest) \<in> set hashes"
    and r: "(case dict_get (by_question cache ?found) digest of Some r \<Rightarrow> Some (i, answer_of_row i r)
      | None \<Rightarrow> (case dict_get ?positive (or_empty (dict_get keys i)) of
          Some r \<Rightarrow> Some (i, answer_of_row i r) | None \<Rightarrow> None)) = Some (i, a)"
    using assms unfolding cached_def Let_def in_map_filter by (auto split: option.splits)
  consider r where "dict_get (by_question cache ?found) digest = Some r" "a = answer_of_row i r"
    | r where "dict_get ?positive (or_empty (dict_get keys i)) = Some r" "a = answer_of_row i r"
    using r by (auto split: option.splits)
  then show ?thesis
  proof cases
    case 1
    then have "r \<in> set ?found" "in_force cache r" "(i, ans_hash r) \<in> set hashes"
      using by_question_rows [OF 1(1)] digest by blast+
    then show ?thesis using 1(2) unfolding answers_for_def in_asked_rows by blast
  next
    case 2
    obtain key where "(key, r) \<in> set (positive_rows cache ?found)" "today (unique (map snd keys)) key = Some (or_empty (dict_get keys i))"
      using positive_of_today_in [OF 2(1)] by blast
    then have "r \<in> set ?found" "in_force cache r" "ca_sticky cache (ans_value r)"
        "today (unique (map snd keys)) (ans_key r) = Some (or_empty (dict_get keys i))"
      using positive_rows_in by blast+
    then show ?thesis using 2(2) unfolding answers_for_def in_asked_rows by blast
  qed
qed

lemma cached_question:
  assumes "r \<in> set rows" and "in_force cache r" and "model = None \<or> model = Some (ans_model r)" and "(i, ans_hash r) \<in> set hashes"
  shows "i \<in> set (dict_keys (cached cache keys hashes model rows))"
proof -
  let ?found = "asked_rows (map snd hashes) (map snd keys) model rows"
  have "ans_hash r \<in> set (map snd hashes)" using assms(4) by force
  then have "r \<in> set ?found" using assms(1,3) unfolding in_asked_rows by auto
  then obtain r' where "dict_get (by_question cache ?found) (ans_hash r) = Some r'"
    using by_question_found assms(2) by blast
  then have "(i, answer_of_row i r') \<in> set (cached cache keys hashes model rows)"
    unfolding cached_def Let_def in_map_filter using assms(4) by (intro bexI [of _ "(i, ans_hash r)"]) auto
  then show ?thesis unfolding dict_keys_def by force
qed

lemma cached_keys:
  "set (dict_keys (cached cache keys hashes model rows)) \<subseteq> set (dict_keys hashes)"
  "distinct (dict_keys hashes) \<Longrightarrow> distinct (dict_keys (cached cache keys hashes model rows))"
proof -
  have keys: "set (dict_keys (List.map_filter (\<lambda>(i, d). map_option (Pair i) (f i d)) hs)) \<subseteq> set (dict_keys hs) \<and>
      (distinct (dict_keys hs) \<longrightarrow> distinct (dict_keys (List.map_filter (\<lambda>(i, d). map_option (Pair i) (f i d)) hs)))"
    for f :: "nat \<Rightarrow> string \<Rightarrow> model_answer option" and hs
  proof (induction hs)
    case (Cons h hs)
    then show ?case by (cases h; cases "f (fst h) (snd h)") (auto simp: List.map_filter_simps dict_keys_def)
  qed (simp add: List.map_filter_simps dict_keys_def)
  let ?found = "asked_rows (map snd hashes) (map snd keys) model rows"
  let ?f = "\<lambda>i digest. case dict_get (by_question cache ?found) digest of Some r \<Rightarrow> Some (answer_of_row i r)
      | None \<Rightarrow> map_option (answer_of_row i) (dict_get (positive_of_today (map snd keys) (positive_rows cache ?found)) (or_empty (dict_get keys i)))"
  have "cached cache keys hashes model rows = List.map_filter (\<lambda>(i, d). map_option (Pair i) (?f i d)) hashes"
    unfolding cached_def Let_def by (rule arg_cong [where f = "\<lambda>g. List.map_filter g hashes"]) (auto simp: fun_eq_iff split: option.split)
  then show "set (dict_keys (cached cache keys hashes model rows)) \<subseteq> set (dict_keys hashes)"
    "distinct (dict_keys hashes) \<Longrightarrow> distinct (dict_keys (cached cache keys hashes model rows))"
    using keys [of ?f hashes] by simp_all
qed

section \<open>What a reply may add\<close>

lemma matched_answers_of:
  "(i, a) \<in> set (matched_answers items answers) \<Longrightarrow>
     a \<in> set answers \<and> ma_id a = i \<and> (i, strip (ma_source a)) \<in> set items"
proof -
  let ?by = "fold (\<lambda>(i, name). dict_set i name) items []"
  have names: "set (fold (\<lambda>(i, name). dict_set i name) xs d) \<subseteq> set xs \<union> set d" for xs and d :: "(nat, ustr) dict"
  proof (induction xs arbitrary: d)
    case (Cons x xs)
    show ?case using Cons.IH [of "dict_set (fst x) (snd x) d"] set_dict_set [of "fst x" "snd x" d]
      by (cases x) auto
  qed simp
  let ?step = "\<lambda>a kept. case dict_get ?by (ma_id a) of None \<Rightarrow> kept
      | Some name \<Rightarrow> if dict_get kept (ma_id a) = None \<and> strip (ma_source a) = name then dict_set (ma_id a) a kept else kept"
  have "(i, a) \<in> set (fold ?step as kept) \<Longrightarrow>
      (i, a) \<in> set kept \<or> a \<in> set as \<and> ma_id a = i \<and> dict_get ?by i = Some (strip (ma_source a))" for as kept
  proof (induction as arbitrary: kept)
    case (Cons x xs)
    from Cons.IH [of "?step x kept"] Cons.prems
    have "(i, a) \<in> set (?step x kept) \<or> a \<in> set xs \<and> ma_id a = i \<and> dict_get ?by i = Some (strip (ma_source a))"
      by simp
    then show ?case using set_dict_set [of "ma_id x" x kept] by (auto split: option.splits if_splits)
  qed simp
  then show "(i, a) \<in> set (matched_answers items answers) \<Longrightarrow> ?thesis"
    using names [of items "[]"] unfolding matched_answers_def Let_def by (fastforce simp: dict_get_def dest: map_of_SomeD)
qed

lemma matched_answers_keys: "distinct (dict_keys (matched_answers items answers))"
proof -
  have "distinct (dict_keys (fold (\<lambda>a kept. case dict_get by_id (ma_id a) of None \<Rightarrow> kept
      | Some name \<Rightarrow> if dict_get kept (ma_id a) = None \<and> strip (ma_source a) = name then dict_set (ma_id a) a kept else kept) as kept))"
    if "distinct (dict_keys kept)" for by_id as and kept :: "(nat, model_answer) dict"
    using that by (induction as arbitrary: kept) (auto simp: distinct_dict_set split: option.split)
  then show ?thesis unfolding matched_answers_def Let_def by (simp add: dict_keys_def)
qed

lemma classify_batch_keys:
  assumes "classify_batch names cf ids = Inr answers"
  shows "set (dict_keys answers) \<subseteq> set ids" and "distinct (dict_keys answers)"
proof -
  obtain raw where "answers = matched_answers (map (\<lambda>i. (i, or_empty (dict_get names i))) ids) raw"
    using assms by (auto simp: classify_batch_def split: sum.splits)
  then show "set (dict_keys answers) \<subseteq> set ids" "distinct (dict_keys answers)"
    using matched_answers_of matched_answers_keys by (force simp: dict_keys_def)+
qed

lemma dict_update_keys:
  fixes d new :: "('a, 'b) dict"
  shows "set (dict_keys (dict_update d new)) = set (dict_keys d) \<union> set (dict_keys new)"
    and "distinct (dict_keys d) \<Longrightarrow> distinct (dict_keys (dict_update d new))"
proof -
  have one: "set (dict_keys (dict_set k v d)) = insert k (set (dict_keys d))" for k v and d :: "('a, 'b) dict"
    by (auto simp: dict_keys_set)
  show "set (dict_keys (dict_update d new)) = set (dict_keys d) \<union> set (dict_keys new)"
    unfolding dict_update_def
  proof (induction new arbitrary: d)
    case (Cons x new)
    then show ?case by (cases x) (simp add: one, simp add: dict_keys_def)
  qed (simp add: dict_keys_def)
  show "distinct (dict_keys d) \<Longrightarrow> distinct (dict_keys (dict_update d new))"
    unfolding dict_update_def by (induction new arbitrary: d) (auto simp: distinct_dict_set)
qed

section \<open>Everything asked is accounted for\<close>

definition tally :: "ask_result \<Rightarrow> nat" where
  "tally r = ar_asked r + ar_failures r + ar_unasked r"

text \<open>What a reply may be: an error, or answers about its own batch.\<close>

definition proper_reply :: "nat list \<times> (call_error + (nat, model_answer) dict) \<Rightarrow> bool" where
  "proper_reply reply \<longleftrightarrow> (\<forall>answers. snd reply = Inr answers \<longrightarrow>
     set (dict_keys answers) \<subseteq> set (fst reply) \<and> distinct (dict_keys answers))"

lemma take_reply_tally:
  assumes "take_reply cache now model keys hashes reply (Inr r0, rows) = (Inr r, rows')" and "proper_reply reply"
    and "set (dict_keys (ar_answers r0)) \<inter> set (fst reply) = {}" and "distinct (fst reply)" and "distinct (dict_keys (ar_answers r0))"
  shows "tally r = tally r0 + length (fst reply)" and "ar_cached r = ar_cached r0"
    and "set (dict_keys (ar_answers r)) \<subseteq> set (dict_keys (ar_answers r0)) \<union> set (fst reply)"
    and "distinct (dict_keys (ar_answers r))"
    and "length (ar_answers r) + ar_asked r0 = length (ar_answers r0) + ar_asked r"
proof -
  obtain batch result where reply: "reply = (batch, result)" by fastforce
  have "tally r = tally r0 + length batch \<and> ar_cached r = ar_cached r0 \<and>
      set (dict_keys (ar_answers r)) \<subseteq> set (dict_keys (ar_answers r0)) \<union> set batch \<and>
      distinct (dict_keys (ar_answers r)) \<and> length (ar_answers r) + ar_asked r0 = length (ar_answers r0) + ar_asked r"
  proof (cases result)
    case (Inl e)
    then show ?thesis using assms(1,5) by (cases e) (auto simp: take_reply_def reply tally_def)
  next
    case (Inr answers)
    then have keys: "set (dict_keys answers) \<subseteq> set batch" "distinct (dict_keys answers)"
      using assms(2) by (simp_all add: proper_reply_def reply)
    have size: "length d = card (set (dict_keys d))" if "distinct (dict_keys d)" for d :: "(nat, model_answer) dict"
      using distinct_card [OF that] by (simp add: dict_keys_def)
    have "card (set (dict_keys answers)) \<le> card (set batch)" using keys(1) by (intro card_mono) auto
    then have few: "length answers \<le> length batch"
      using size [OF keys(2)] distinct_card [of batch] assms(4) by (simp add: reply)
    have r: "r = r0\<lparr>ar_failures := ar_failures r0 + (length batch - length answers),
        ar_answers := dict_update (ar_answers r0) answers, ar_asked := ar_asked r0 + length answers\<rparr>"
      using assms(1) by (simp add: take_reply_def reply Inr)
    have "set (dict_keys (ar_answers r0)) \<inter> set (dict_keys answers) = {}" using assms(3) keys(1) by (auto simp: reply)
    then have "length (dict_update (ar_answers r0) answers) = length (ar_answers r0) + length answers"
      using size [OF dict_update_keys(2) [OF assms(5)], of answers] size [OF assms(5)] size [OF keys(2)]
      by (simp add: dict_update_keys(1) card_Un_disjoint)
    then show ?thesis
      using few keys dict_update_keys(1) [of "ar_answers r0" answers] dict_update_keys(2) [OF assms(5), of answers]
      unfolding r tally_def by auto
  qed
  then show "tally r = tally r0 + length (fst reply)" "ar_cached r = ar_cached r0"
    "set (dict_keys (ar_answers r)) \<subseteq> set (dict_keys (ar_answers r0)) \<union> set (fst reply)"
    "distinct (dict_keys (ar_answers r))" "length (ar_answers r) + ar_asked r0 = length (ar_answers r0) + ar_asked r"
    unfolding reply by simp_all
qed

lemma take_replies_error: "fold (take_reply cache now model keys hashes) replies (Inl e, rows) = (Inl e, rows)"
  by (induction replies) (auto simp: take_reply_def)

lemma take_replies_tally:
  assumes "fold (take_reply cache now model keys hashes) replies (Inr r0, rows) = (Inr r, rows')"
    and "\<forall>reply \<in> set replies. proper_reply reply" and "distinct (concat (map fst replies))"
    and "set (dict_keys (ar_answers r0)) \<inter> set (concat (map fst replies)) = {}" and "distinct (dict_keys (ar_answers r0))"
  shows "tally r = tally r0 + length (concat (map fst replies)) \<and> ar_cached r = ar_cached r0 \<and>
    length (ar_answers r) + ar_asked r0 = length (ar_answers r0) + ar_asked r"
  using assms
proof (induction replies arbitrary: r0 rows)
  case (Cons reply replies)
  obtain x rows1 where one: "take_reply cache now model keys hashes reply (Inr r0, rows) = (x, rows1)" by fastforce
  then obtain r1 where r1: "x = Inr r1" using Cons.prems(1) take_replies_error by (cases x) auto
  have step: "proper_reply reply" "set (dict_keys (ar_answers r0)) \<inter> set (fst reply) = {}" "distinct (fst reply)"
    using Cons.prems by auto
  note now = take_reply_tally [OF one [unfolded r1] step Cons.prems(5)]
  have "set (dict_keys (ar_answers r1)) \<inter> set (concat (map fst replies)) = {}"
    using now(3) Cons.prems(3,4) by auto
  then have "tally r = tally r1 + length (concat (map fst replies)) \<and> ar_cached r = ar_cached r1 \<and>
      length (ar_answers r) + ar_asked r1 = length (ar_answers r1) + ar_asked r"
    using Cons.IH [of r1 rows1] Cons.prems(1-3) now(4) one r1 by simp
  then show ?case using now(1,2,5) by simp
qed simp

lemma replies_are_proper:
  assumes "ask_in_batches c (classify_batch names cf) script s batches = (replies, s')"
  shows "\<forall>reply \<in> set replies. proper_reply reply"
proof
  fix reply assume "reply \<in> set replies"
  then have "snd reply = classify_batch names cf (fst reply) \<or> snd reply = Inl Budget_Spent"
    using asked_batches(2) [OF assms] by auto
  then show "proper_reply reply"
    unfolding proper_reply_def using classify_batch_keys by (metis Inl_Inr_False)
qed

lemma mset_concat_cong: "mset xss = mset yss \<Longrightarrow> mset (concat xss) = mset (concat yss)"
  by (metis mset_concat mset_map sum_mset_sum_list)

text \<open>The run of \<open>ask_missing\<close> where there is a model.\<close>

lemma ask_missing_run:
  assumes "ask_missing cache (Some cf) n c now script names keys hashes rows = (Inr r, rows')" and "0 < n"
  defines "held \<equiv> cached cache keys hashes (Some (cf_model cf)) rows"
  defines "missing \<equiv> filter (\<lambda>i. dict_get held i = None) (dict_keys names)"
  shows "\<exists>replies. fold (take_reply cache now (cf_model cf) keys hashes) replies
       (Inr \<lparr>ar_answers = held, ar_asked = 0, ar_cached = length held, ar_failures = 0, ar_unasked = 0\<rparr>, rows) = (Inr r, rows') \<and>
     mset (concat (map fst replies)) = mset missing \<and> (\<forall>reply \<in> set replies. proper_reply reply)"
proof (cases "missing = []")
  case True
  then show ?thesis
    using assms(1) unfolding ask_missing_def held_def missing_def Let_def by (intro exI [of _ "[]"]) auto
next
  case False
  obtain replies s' where asked: "ask_in_batches c (classify_batch names cf) script (cf_spend cf) (batches_of n missing) = (replies, s')"
    by fastforce
  then have "mset (concat (map fst replies)) = mset missing"
    using mset_concat_cong [OF asked_batches(1) [OF asked]] concat_batches_of [OF assms(2), of missing] by simp
  then show ?thesis
    using assms(1) False asked replies_are_proper [OF asked]
    unfolding ask_missing_def held_def missing_def Let_def by auto
qed

text \<open>
  C16. Everyone is accounted for. After the asking of what the cache lacks came through, an entity
  was answered from the cache, answered by the model now, failed, or was left unasked for want of
  budget, and the four numbers add up to the entities of the run; the answers held are the cached
  and the new ones together, nobody's twice.
\<close>

theorem asking_accounts_for_everyone:
  assumes "ask_missing cache (Some cf) n c now script names keys hashes rows = (Inr r, rows')"
    and "distinct (dict_keys names)" and "dict_keys hashes = dict_keys names" and "0 < n"
  shows "length (ar_answers r) = ar_cached r + ar_asked r \<and>
    ar_cached r + ar_asked r + ar_failures r + ar_unasked r = length names"
proof -
  let ?held = "cached cache keys hashes (Some (cf_model cf)) rows"
  let ?missing = "filter (\<lambda>i. dict_get ?held i = None) (dict_keys names)"
  obtain replies where fold: "fold (take_reply cache now (cf_model cf) keys hashes) replies
       (Inr \<lparr>ar_answers = ?held, ar_asked = 0, ar_cached = length ?held, ar_failures = 0, ar_unasked = 0\<rparr>, rows) = (Inr r, rows')"
    and mset: "mset (concat (map fst replies)) = mset ?missing" and proper: "\<forall>reply \<in> set replies. proper_reply reply"
    using ask_missing_run [OF assms(1,4)] by blast
  have held: "set (dict_keys ?held) \<subseteq> set (dict_keys names)" "distinct (dict_keys ?held)"
    using cached_keys [where hashes = hashes] assms(2,3) by auto
  have "distinct (concat (map fst replies))" using mset assms(2) by (metis distinct_filter mset_eq_imp_distinct_iff)
  moreover have "set (concat (map fst replies)) = set ?missing" using mset by (metis set_mset_mset)
  then have "set (dict_keys ?held) \<inter> set (concat (map fst replies)) = {}" by (auto simp: dict_get_None)
  moreover have "length (concat (map fst replies)) = length ?missing" using mset by (metis size_mset)
  ultimately have counts: "tally r = length ?missing" "ar_cached r = length ?held" "length (ar_answers r) = length ?held + ar_asked r"
    using take_replies_tally [OF fold proper] held(2) by (simp_all add: tally_def)
  have "length ?held = length (filter (\<lambda>i. i \<in> set (dict_keys ?held)) (dict_keys names))"
  proof -
    have "set (filter (\<lambda>i. i \<in> set (dict_keys ?held)) (dict_keys names)) = set (dict_keys ?held)" using held(1) by auto
    then have "length (dict_keys ?held) = length (filter (\<lambda>i. i \<in> set (dict_keys ?held)) (dict_keys names))"
      using distinct_card [OF held(2)] distinct_card [OF distinct_filter [OF assms(2)]] by metis
    then show ?thesis by (simp only: dict_keys_def length_map)
  qed
  then have "length ?held + length ?missing = length names"
    using sum_length_filter_compl [of "\<lambda>i. i \<in> set (dict_keys ?held)" "dict_keys names"]
    by (simp add: dict_get_None dict_keys_def [of names])
  then show ?thesis using counts by (simp add: tally_def)
qed

section \<open>What was asked is not asked again\<close>

lemma positive_rows_found:
  assumes "r \<in> set rows" and "in_force cache r" and "ca_sticky cache (ans_value r)"
  shows "ans_key r \<in> set (dict_keys (positive_rows cache rows))"
proof -
  let ?step = "\<lambda>r d. if in_force cache r \<and> ca_sticky cache (ans_value r) then dict_set (ans_key r) r d else d"
  have "k \<in> set (dict_keys d) \<or> (\<exists>r \<in> set rs. in_force cache r \<and> ca_sticky cache (ans_value r) \<and> ans_key r = k) \<Longrightarrow>
      k \<in> set (dict_keys (fold ?step rs d))" for rs d k
  proof (induction rs arbitrary: d)
    case (Cons x xs)
    have "k \<in> set (dict_keys (?step x d)) \<or> (\<exists>r \<in> set xs. in_force cache r \<and> ca_sticky cache (ans_value r) \<and> ans_key r = k)"
      using Cons.prems by (auto simp: dict_keys_set)
    then show ?case using Cons.IH [of "?step x d"] by simp
  qed simp
  then show ?thesis using assms unfolding positive_rows_def by blast
qed

lemma positive_of_today_found:
  assumes "key \<in> set (dict_keys positive)" and "today (unique keys) key = Some k"
  shows "dict_get (positive_of_today keys positive) k \<noteq> None"
proof -
  let ?step = "\<lambda>(key, r) d. case today (unique keys) key of None \<Rightarrow> d | Some k \<Rightarrow> dict_set k r d"
  have "dict_get d k \<noteq> None \<or> (\<exists>(key, r) \<in> set ps. today (unique keys) key = Some k) \<Longrightarrow> dict_get (fold ?step ps d) k \<noteq> None"
    for ps and d :: "(ustr, answer_row) dict"
  proof (induction ps arbitrary: d)
    case (Cons x xs)
    have "dict_get (?step x d) k \<noteq> None \<or> (\<exists>(key, r) \<in> set xs. today (unique keys) key = Some k)"
      using Cons.prems by (cases x) (auto simp: dict_get_set split: option.split)
    then show ?case using Cons.IH [of "?step x d"] by simp
  qed simp
  then show ?thesis using assms unfolding positive_of_today_def dict_keys_def by fastforce
qed

lemma cached_found:
  assumes "answers_for cache keys hashes (Some m) rows i r" and "i \<in> set (dict_keys hashes)"
  shows "i \<in> set (dict_keys (cached cache keys hashes (Some m) rows))"
proof (cases "(i, ans_hash r) \<in> set hashes")
  case True
  then show ?thesis using assms(1) cached_question unfolding answers_for_def by blast
next
  case False
  let ?found = "asked_rows (map snd hashes) (map snd keys) (Some m) rows"
  have "r \<in> set ?found" "in_force cache r" "ca_sticky cache (ans_value r)"
    and own: "today (unique (map snd keys)) (ans_key r) = Some (or_empty (dict_get keys i))"
    using assms(1) False unfolding answers_for_def in_asked_rows by auto
  then obtain r' where r': "dict_get (positive_of_today (map snd keys) (positive_rows cache ?found)) (or_empty (dict_get keys i)) = Some r'"
    using positive_of_today_found [OF positive_rows_found own] by blast
  obtain digest where digest: "(i, digest) \<in> set hashes" using assms(2) by (auto simp: dict_keys_def)
  obtain a where "(i, a) \<in> set (cached cache keys hashes (Some m) rows)"
  proof (cases "dict_get (by_question cache ?found) digest")
    case None
    then have "(i, answer_of_row i r') \<in> set (cached cache keys hashes (Some m) rows)"
      unfolding cached_def Let_def in_map_filter using digest r' by (intro bexI [of _ "(i, digest)"]) auto
    then show ?thesis by (rule that)
  next
    case (Some q)
    then have "(i, answer_of_row i q) \<in> set (cached cache keys hashes (Some m) rows)"
      unfolding cached_def Let_def in_map_filter using digest by (intro bexI [of _ "(i, digest)"]) auto
    then show ?thesis by (rule that)
  qed
  then show ?thesis unfolding dict_keys_def by force
qed

lemma store_row_facts: "set rows \<subseteq> set (store_row r rows)" "\<exists>r' \<in> set (store_row r rows). same_question r r'"
  by (auto simp: store_row_def list_ex_iff same_question_def)

lemma store_answers_facts:
  "set rows \<subseteq> set (store_answers cache now m keys hashes answers rows)"
  "(i, a) \<in> set answers \<Longrightarrow> \<exists>r \<in> set (store_answers cache now m keys hashes answers rows).
     same_question (row_of_answer cache now m keys hashes (i, a)) r"
proof -
  have keep: "set rows \<subseteq> set (fold (store_row \<circ> row_of_answer cache now m keys hashes) as rows)" for as rows
    by (induction as arbitrary: rows) (use store_row_facts(1) in \<open>fastforce+\<close>)
  then show "set rows \<subseteq> set (store_answers cache now m keys hashes answers rows)" by (simp add: store_answers_def)
  have "(i, a) \<in> set as \<Longrightarrow> \<exists>r \<in> set (fold (store_row \<circ> row_of_answer cache now m keys hashes) as rows).
      same_question (row_of_answer cache now m keys hashes (i, a)) r" for as rows
  proof (induction as arbitrary: rows)
    case (Cons x xs)
    let ?row = "row_of_answer cache now m keys hashes"
    show ?case
    proof (cases "(i, a) \<in> set xs")
      case True
      then show ?thesis using Cons.IH [of "store_row (?row x) rows"] by simp
    next
      case False
      then have x: "x = (i, a)" using Cons.prems by auto
      obtain r where r: "r \<in> set (store_row (?row x) rows)" "same_question (?row x) r" using store_row_facts(2) by blast
      have "r \<in> set (fold (store_row \<circ> ?row) xs (store_row (?row x) rows))" using keep r(1) by blast
      moreover have "fold (store_row \<circ> ?row) (x # xs) rows = fold (store_row \<circ> ?row) xs (store_row (?row x) rows)" by simp
      ultimately show ?thesis using r(2) unfolding x by metis
    qed
  qed simp
  then show "(i, a) \<in> set answers \<Longrightarrow> \<exists>r \<in> set (store_answers cache now m keys hashes answers rows).
      same_question (row_of_answer cache now m keys hashes (i, a)) r"
    by (simp add: store_answers_def)
qed

text \<open>An answer held at the end was there before, or is stored under its question.\<close>

definition held_or_stored ::
  "answer_cache \<Rightarrow> string \<Rightarrow> (nat, string) dict \<Rightarrow> nat set \<Rightarrow> ask_result \<Rightarrow> answer_row list \<Rightarrow> bool" where
  "held_or_stored cache m hashes before r rows \<longleftrightarrow>
     (\<forall>i \<in> set (dict_keys (ar_answers r)). i \<in> before \<or>
        (\<exists>row \<in> set rows. ans_version row = ca_version cache \<and> ans_model row = m \<and> dict_get hashes i = Some (ans_hash row)))"

lemma take_reply_stores:
  assumes "take_reply cache now m keys hashes reply (Inr r0, rows) = (Inr r, rows')"
    and "held_or_stored cache m hashes before r0 rows" and "proper_reply reply" and "set (fst reply) \<subseteq> set (dict_keys hashes)"
  shows "held_or_stored cache m hashes before r rows'" and "set rows \<subseteq> set rows'"
proof -
  obtain batch result where reply: "reply = (batch, result)" by fastforce
  have "held_or_stored cache m hashes before r rows' \<and> set rows \<subseteq> set rows'"
  proof (cases result)
    case (Inl e)
    then show ?thesis using assms(1,2) by (cases e) (auto simp: take_reply_def reply held_or_stored_def)
  next
    case (Inr answers)
    then have r: "ar_answers r = dict_update (ar_answers r0) answers" "rows' = store_answers cache now m keys hashes answers rows"
      using assms(1) by (auto simp: take_reply_def reply)
    have "\<exists>row \<in> set rows'. ans_version row = ca_version cache \<and> ans_model row = m \<and> dict_get hashes i = Some (ans_hash row)"
      if new: "i \<in> set (dict_keys answers)" for i
    proof -
      obtain a where a: "(i, a) \<in> set answers" using new by (auto simp: dict_keys_def)
      have "i \<in> set (dict_keys hashes)" using new assms(3,4) Inr by (auto simp: proper_reply_def reply)
      then obtain h where "dict_get hashes i = Some h" using dict_get_None by fastforce
      then show ?thesis using store_answers_facts(2) [OF a, of cache now m keys hashes rows]
        unfolding r(2) same_question_def row_of_answer_def by auto
    qed
    then show ?thesis
      using assms(2) store_answers_facts(1) [of rows] unfolding held_or_stored_def r dict_update_keys(1) by blast
  qed
  then show "held_or_stored cache m hashes before r rows'" "set rows \<subseteq> set rows'" by simp_all
qed

lemma take_replies_store:
  assumes "fold (take_reply cache now m keys hashes) replies (Inr r0, rows) = (Inr r, rows')"
    and "held_or_stored cache m hashes before r0 rows" and "\<forall>reply \<in> set replies. proper_reply reply"
    and "set (concat (map fst replies)) \<subseteq> set (dict_keys hashes)"
  shows "held_or_stored cache m hashes before r rows' \<and> set rows \<subseteq> set rows'"
  using assms
proof (induction replies arbitrary: r0 rows)
  case (Cons reply replies)
  obtain x rows1 where one: "take_reply cache now m keys hashes reply (Inr r0, rows) = (x, rows1)" by fastforce
  then obtain r1 where r1: "x = Inr r1" using Cons.prems(1) take_replies_error by (cases x) auto
  note now = take_reply_stores [OF one [unfolded r1] Cons.prems(2)]
  have "held_or_stored cache m hashes before r1 rows1" "set rows \<subseteq> set rows1"
    using now Cons.prems(3,4) by auto
  then show ?case using Cons.IH [of r1 rows1] Cons.prems one r1 by auto
qed simp

lemma ask_missing_stores:
  assumes "ask_missing cache (Some cf) n c now script names keys hashes rows = (Inr r, rows')"
    and "set (dict_keys hashes) = set (dict_keys names)" and "0 < n"
  shows "held_or_stored cache (cf_model cf) hashes (set (dict_keys (cached cache keys hashes (Some (cf_model cf)) rows))) r rows'"
    and "set rows \<subseteq> set rows'"
proof -
  let ?held = "cached cache keys hashes (Some (cf_model cf)) rows"
  let ?missing = "filter (\<lambda>i. dict_get ?held i = None) (dict_keys names)"
  obtain replies where fold: "fold (take_reply cache now (cf_model cf) keys hashes) replies
       (Inr \<lparr>ar_answers = ?held, ar_asked = 0, ar_cached = length ?held, ar_failures = 0, ar_unasked = 0\<rparr>, rows) = (Inr r, rows')"
    and mset: "mset (concat (map fst replies)) = mset ?missing" and proper: "\<forall>reply \<in> set replies. proper_reply reply"
    using ask_missing_run [OF assms(1,3)] by blast
  have "set (concat (map fst replies)) = set ?missing" using mset by (metis set_mset_mset)
  then have "set (concat (map fst replies)) \<subseteq> set (dict_keys hashes)" using assms(2) by auto
  then show "held_or_stored cache (cf_model cf) hashes (set (dict_keys ?held)) r rows'" "set rows \<subseteq> set rows'"
    using take_replies_store [OF fold _ proper, of "set (dict_keys ?held)"] by (simp_all add: held_or_stored_def)
qed

lemma answers_for_more:
  "answers_for cache keys hashes model rows i r \<Longrightarrow> set rows \<subseteq> set rows' \<Longrightarrow> answers_for cache keys hashes model rows' i r"
  by (auto simp: answers_for_def)

text \<open>
  C18. What was answered is not asked again: after a run, every entity the run has an answer for,
  whether it was in the cache or came from the model, is found in the cache by the same question
  of the same model, so the next run over the same items spends nothing on it; and no stored
  answer is lost.
\<close>

theorem answered_are_in_the_cache:
  assumes "ask_missing cache (Some cf) n c now script names keys hashes rows = (Inr r, rows')"
    and "set (dict_keys hashes) = set (dict_keys names)" and "0 < n"
  shows "set rows \<subseteq> set rows' \<and>
    set (dict_keys (ar_answers r)) \<subseteq> set (dict_keys (cached cache keys hashes (Some (cf_model cf)) rows'))"
proof (intro conjI subsetI)
  note stored = ask_missing_stores [OF assms]
  show "x \<in> set rows'" if "x \<in> set rows" for x using stored(2) that by blast
  fix i assume "i \<in> set (dict_keys (ar_answers r))"
  then consider "i \<in> set (dict_keys (cached cache keys hashes (Some (cf_model cf)) rows))"
    | row where "row \<in> set rows'" "ans_version row = ca_version cache" "ans_model row = cf_model cf" "dict_get hashes i = Some (ans_hash row)"
    using stored(1) unfolding held_or_stored_def by blast
  then show "i \<in> set (dict_keys (cached cache keys hashes (Some (cf_model cf)) rows'))"
  proof cases
    case 1
    then obtain a where "(i, a) \<in> set (cached cache keys hashes (Some (cf_model cf)) rows)" by (auto simp: dict_keys_def)
    then obtain r' where "answers_for cache keys hashes (Some (cf_model cf)) rows i r'" using in_cached by blast
    then show ?thesis using cached_found answers_for_more [OF _ stored(2)] cached_keys(1) 1 by blast
  next
    case 2
    then show ?thesis by (intro cached_question [of row]) (auto simp: in_force_def dict_get_def dest: map_of_SomeD)
  qed
qed

section \<open>A concrete cache\<close>

text \<open>Two entities, of which one is answered by the model, and the budget ends before the other.\<close>

definition plain_cache :: answer_cache where
  "plain_cache = \<lparr>ca_version = ''v2'', ca_accepted = (\<lambda>_ _ _. False), ca_sticky = (\<lambda>v. v = ''accused'')\<rparr>"

definition one_answer :: classifier where
  "one_answer = \<lparr>cf_model = ''m'', cf_spend = Some \<lparr>budget_usd = 1, cost_usd = 0\<rparr>,
     cf_reply = (\<lambda>ids. Inr (map (\<lambda>i. \<lparr>ma_id = i, ma_source = [65], ma_value = ''accused'', ma_explanation = []\<rparr>) ids))\<rparr>"

definition one_run :: "(call_error + ask_result) \<times> answer_row list" where
  "one_run = ask_missing plain_cache (Some one_answer) 1 1 7 [([0], [Bill 1])] [(1, [65]), (2, [65])]
     [(1, [1]), (2, [2])] [(1, ''a''), (2, ''b'')] []"

lemma one_run_is:
  "\<exists>r rows. one_run = (Inr r, rows) \<and> length rows = 1 \<and> ar_asked r = 1 \<and> ar_unasked r = 1 \<and> ar_failures r = 0 \<and>
     ar_cached r = 0 \<and> dict_keys (ar_answers r) = [1]"
proof -
  have "(case one_run of (Inr r, rows) \<Rightarrow> length rows = 1 \<and> ar_asked r = 1 \<and> ar_unasked r = 1 \<and> ar_failures r = 0 \<and>
     ar_cached r = 0 \<and> dict_keys (ar_answers r) = [1] | _ \<Rightarrow> False)" by code_simp
  then show ?thesis by (auto split: prod.splits sum.splits)
qed

theorem asking_accounts_for_everyone_witness:
  "\<exists>r rows. one_run = (Inr r, rows) \<and> ar_cached r + ar_asked r + ar_failures r + ar_unasked r = 2 \<and> ar_unasked r = 1"
proof -
  obtain r rows where run: "one_run = (Inr r, rows)" "ar_unasked r = 1" using one_run_is by blast
  then show ?thesis using asking_accounts_for_everyone [OF run(1) [unfolded one_run_def]] by (auto simp: dict_keys_def)
qed

theorem answered_are_in_the_cache_witness:
  "\<exists>r rows. one_run = (Inr r, rows) \<and> dict_keys (ar_answers r) = [1] \<and>
     1 \<in> set (dict_keys (cached plain_cache [(1, [1]), (2, [2])] [(1, ''a''), (2, ''b'')] (Some ''m'') rows))"
proof -
  obtain r rows where run: "one_run = (Inr r, rows)" "dict_keys (ar_answers r) = [1]" using one_run_is by blast
  then have "set (dict_keys (ar_answers r)) \<subseteq>
      set (dict_keys (cached plain_cache [(1, [1]), (2, [2])] [(1, ''a''), (2, ''b'')] (Some (cf_model one_answer)) rows))"
    using answered_are_in_the_cache [OF run(1) [unfolded one_run_def]] by (simp add: dict_keys_def)
  then have "1 \<in> set (dict_keys (cached plain_cache [(1, [1]), (2, [2])] [(1, ''a''), (2, ''b'')] (Some (cf_model one_answer)) rows))"
    using run(2) by auto
  moreover have "cf_model one_answer = ''m''" by (simp add: one_answer_def)
  ultimately show ?thesis using run by (metis (no_types))
qed

end
