(* ===== verification/Roles.thy ===== *)
theory Roles
  imports Model_Answers
begin

text \<open>
  Step 4 (\<open>processing/roles\<close>): who is an official (\<open>officials.py\<close>), the exclusion list and its
  commands (\<open>exclusion_list.py\<close>, \<open>commands.py\<close>), a person's word on a role and the run that
  gives every entity its role (\<open>roles.py\<close>). The windows before the mentions, the quotes of an
  entity, the identified unnamed figurants and the hash of a question are parameters; so is
  \<open>str.casefold\<close>, a table of Unicode. Column widths and the cost shown in the result are
  left out.
\<close>

section \<open>The title before a name\<close>

text \<open>
  A regular expression, as the rests of the text it may leave, in the order they are tried.
\<close>

type_synonym regex = "ustr \<Rightarrow> ustr list"

definition lit :: "ustr \<Rightarrow> regex" where
  "lit w t = (if starts_with t w then [drop (length w) t] else [])"

fun many :: "(int \<Rightarrow> bool) \<Rightarrow> regex" where
  "many p [] = [[]]"
| "many p (c # t) = (if p c then many p t else []) @ [c # t]"

definition one :: "(int \<Rightarrow> bool) \<Rightarrow> regex" where
  "one p t = (case t of c # r \<Rightarrow> if p c then [r] else [] | [] \<Rightarrow> [])"

definition in_turn :: "regex \<Rightarrow> regex \<Rightarrow> regex" where
  "in_turn a b t = concat (map b (a t))"

definition either :: "regex list \<Rightarrow> regex" where
  "either rs t = concat (map (\<lambda>r. r t) rs)"

definition many1 :: "(int \<Rightarrow> bool) \<Rightarrow> regex" where
  "many1 p = in_turn (one p) (many p)"

fun up_to :: "nat \<Rightarrow> regex \<Rightarrow> regex" where
  "up_to 0 r t = [t]"
| "up_to (Suc n) r t = concat (map (up_to n r) (r t)) @ [t]"

definition small_letter :: "int \<Rightarrow> bool" where
  "small_letter c \<longleftrightarrow> 1072 \<le> c \<and> c \<le> 1103"

definition stem :: "string \<Rightarrow> regex" where
  "stem w = in_turn (lit (ru w)) (many small_letter)"

definition BODY_ENDINGS :: "ustr list" where
  "BODY_ENDINGS = map ru [''skogo'', ''skoj'', ''nogo'']"

definition BODY_WORDS :: "ustr list" where
  "BODY_WORDS = map ru [''suda'', ''sudov'', ''sk'', ''rf'', ''rossii'', ''mvd'', ''fsb'', ''gu'', ''upravleniA'',
     ''sledstvennogo'', ''komiteta'', ''moskvy'', ''peterburga'', ''oblasti'', ''kraA'', ''respubliki'',
     ''rajona'', ''regiona'', ''po'', ''oborony'', ''Usticii'', ''vnutrennih'', ''inostrannyh'', ''del'',
     ''finansov'', ''zdravoohraneniA'', ''obrazovaniA'', ''kulqtury'', ''Ekonomiki'', ''prosveWeniA'',
     ''transporta'']"

definition body_word :: regex where
  "body_word = either (map (\<lambda>e. in_turn (many1 small_letter) (lit e)) BODY_ENDINGS @ map lit BODY_WORDS)"

definition body :: regex where
  "body = up_to 5 (in_turn body_word (many1 is_space))"

definition of_what :: "regex \<Rightarrow> ustr list \<Rightarrow> regex" where
  "of_what r ws = in_turn r (in_turn (many1 is_space) (either (map lit ws)))"

definition office :: regex where
  "office = either
     [in_turn (lit (ru ''sudq'')) (one (\<lambda>c. c \<in> set (ru ''AiejU''))),
      stem ''genprokuror'', stem ''prokuror'', stem ''sledovatel'',
      of_what (stem ''predsedatel'') (map ru [''sk'', ''sledstvennogo'', ''suda'']),
      of_what (in_turn (lit (ru ''glav'')) (one (\<lambda>c. c \<in> set (ru ''ayeu'')))) (map ru [''sk'', ''sledstvennogo'', ''mvd'', ''fsb'', ''rosgvardii'', ''regiona'', ''respubliki'',
     ''oblasti'', ''kraA'', ''goroda'']),
      stem ''gubernator'', stem ''ministr'', stem ''mEr'',
      of_what (stem ''naCalqnik'') (map ru [''policii'', ''mvd'', ''upravleniA'', ''ufsb'', ''gu'', ''otdela'', ''sledstvennogo''])]"

definition former :: regex where
  "former = either [in_turn (stem ''byvS'') (many1 is_space), lit (ru ''Eks-'')]"

text \<open>The offices the text begins with, the rest of it being of the body it heads.\<close>

definition offices_at :: "ustr \<Rightarrow> ustr list" where
  "offices_at t = map (\<lambda>r. take (length t - length r) t)
     (filter (\<lambda>r. [] \<in> set (in_turn (many1 is_space) body r)) (office t))"

definition titles_at :: "ustr \<Rightarrow> nat \<Rightarrow> (bool \<times> ustr) list" where
  "titles_at t i =
     (if 0 < i \<and> (small_letter (t ! (i - 1)) \<or> t ! (i - 1) = 45) then []
      else map (Pair True) (concat (map offices_at (former (drop i t)))) @ map (Pair False) (offices_at (drop i t)))"

definition title_before :: "unicode \<Rightarrow> ustr \<Rightarrow> ustr option" where
  "title_before u context =
     (let t = join_text space (words (fold_yo (lower_text u context))) @ space in
      case concat (map (titles_at t) [0..<Suc (length t)]) of
        [] \<Rightarrow> None
      | (gone, title) # _ \<Rightarrow> if gone then None else Some title)"

definition POLICE_BODIES :: "ustr list" where
  "POLICE_BODIES = map ru [''sk'', ''sledstvennogo'', ''mvd'', ''fsb'', ''rosgvardii'']"

definition KIND_OF_TITLE :: "(ustr \<times> string) list" where
  "KIND_OF_TITLE = [(ru ''sudq'', ''judge''), (ru ''genprokuror'', ''prosecutor''), (ru ''prokuror'', ''prosecutor''),
     (ru ''sledovatel'', ''police''), (ru ''naCalqnik'', ''police''), (ru ''predsedatel'', ''police'')]"

definition kind_of_title :: "ustr \<Rightarrow> string" where
  "kind_of_title title =
     (case find (\<lambda>(s, _). starts_with title s) KIND_OF_TITLE of
        Some (s, kind) \<Rightarrow> if s = ru ''predsedatel'' \<and> ends_with title (ru ''suda'') then ''judge'' else kind
      | None \<Rightarrow>
          if starts_with title (ru ''glav'') \<and> List.last (words title) \<in> set POLICE_BODIES then ''police''
          else ''official'')"

definition titled :: "unicode \<Rightarrow> (nat \<times> ustr) list \<Rightarrow> (nat, string \<times> ustr) dict" where
  "titled u contexts =
     (let (mentions, titles) = fold (\<lambda>(i, context) (mentions, titles).
            (dict_set i (Suc (case dict_get mentions i of Some n \<Rightarrow> n | None \<Rightarrow> 0)) mentions,
             case title_before u context of
               None \<Rightarrow> titles
             | Some title \<Rightarrow>
                 dict_set i (count_up title 1 (case dict_get titles i of Some c \<Rightarrow> c | None \<Rightarrow> [])) titles))
          contexts ([] :: (nat, nat) dict, [] :: (nat, counter) dict)
      in List.map_filter (\<lambda>(i, counted).
           let total = sum_list (map snd counted); title = fst (hd (most_common counted)) in
           if 2 \<le> total \<or> (case dict_get mentions i of Some n \<Rightarrow> n | None \<Rightarrow> 0) \<le> total * 2
           then Some (i, (kind_of_title title, title)) else None) titles)"

definition TITLE_CONTEXT :: nat where
  "TITLE_CONTEXT = 80"

text \<open>\<open>titled_entities\<close>: the mentions are rows of a group, an article and where it starts.\<close>

definition titled_entities :: "unicode \<Rightarrow> (nat \<Rightarrow> ustr option) \<Rightarrow> (nat \<times> nat \<times> nat) list \<Rightarrow> (nat, string \<times> ustr) dict" where
  "titled_entities u text_of mentions =
     titled u (map (\<lambda>(i, article, start).
       (i, take (min start TITLE_CONTEXT) (drop (start - TITLE_CONTEXT) (or_empty (text_of article))))) mentions)"

section \<open>The exclusion list\<close>

definition OFFICIAL_KINDS :: "string list" where
  "OFFICIAL_KINDS = [''judge'', ''prosecutor'', ''police'', ''official'']"

record excluded_row =
  ex_external :: ustr
  ex_name :: ustr
  ex_normalized :: ustr
  ex_category :: string
  ex_reason :: "ustr option"
  ex_active :: bool

text \<open>\<open>itertools.permutations\<close>, in its order.\<close>

fun permutations :: "nat \<Rightarrow> 'a list \<Rightarrow> 'a list list" where
  "permutations 0 xs = [[]]"
| "permutations (Suc n) xs =
     concat (map (\<lambda>i. map ((#) (xs ! i)) (permutations n (take i xs @ drop (Suc i) xs))) [0..<length xs])"

definition key_candidates :: "unicode \<Rightarrow> ustr \<Rightarrow> ustr list" where
  "key_candidates u name =
     (let ws = take 3 (words (fold_word u name)) in
      unique (concat (map (\<lambda>n. map (join_text space) (permutations n ws)) (rev [2..<Suc (length ws)]))))"

definition ids_by_key :: "(nat, ustr) dict \<Rightarrow> (ustr, nat) dict" where
  "ids_by_key keys = fold (\<lambda>(i, key). dict_set key i) keys []"

definition entities_named :: "unicode \<Rightarrow> (nat, ustr) dict \<Rightarrow> ustr \<Rightarrow> nat list" where
  "entities_named u keys name =
     unique (List.map_filter (\<lambda>candidate.
       case today (unique (map snd keys)) candidate of None \<Rightarrow> None | Some key \<Rightarrow> dict_get (ids_by_key keys) key)
       (key_candidates u name))"

definition official_entity_ids ::
  "unicode \<Rightarrow> (nat, ustr) dict \<Rightarrow> bool \<Rightarrow> excluded_row list \<Rightarrow> (nat, excluded_row) dict" where
  "official_entity_ids u keys active_only rows =
     fold (\<lambda>r found. case entities_named u keys (ex_name r) of [i] \<Rightarrow> dict_set i r found | _ \<Rightarrow> found)
       (filter (\<lambda>r. active_only \<longrightarrow> ex_active r) rows) []"

definition normalized :: "(ustr \<Rightarrow> ustr) \<Rightarrow> ustr \<Rightarrow> ustr" where
  "normalized casefold name = join_text space (words (fold_yo (casefold name)))"

definition add_if_new :: "excluded_row \<Rightarrow> excluded_row list \<Rightarrow> excluded_row list" where
  "add_if_new r rows = (if list_ex (\<lambda>x. ex_external x = ex_external r) rows then rows else rows @ [r])"

definition remember_titled ::
  "unicode \<Rightarrow> (ustr \<Rightarrow> ustr) \<Rightarrow> (nat \<times> ustr \<times> ustr) list \<Rightarrow> (nat, string \<times> ustr) dict \<Rightarrow> (nat, bool) dict
     \<Rightarrow> excluded_row list \<Rightarrow> nat \<times> excluded_row list" where
  "remember_titled u casefold entities titles marks rows =
     (let wanted = filter (\<lambda>(i, _, _). dict_get titles i \<noteq> None \<and> dict_get marks i = None) entities;
          listed = official_entity_ids u (map (\<lambda>(i, key, _). (i, key)) entities) False rows;
          new = List.map_filter (\<lambda>(i, key, name).
            if dict_get listed i \<noteq> None then None
            else map_option (\<lambda>(kind, title).
              \<lparr>ex_external = ascii ''auto:'' @ key, ex_name = name, ex_normalized = normalized casefold name,
               ex_category = kind, ex_reason = Some ((ru ''avtomatiCeski: v tekstah '' @ [171]) @ title @ ([187] @ ru '' pered imenem'')),
               ex_active = True\<rparr>) (dict_get titles i)) wanted;
          rows' = fold add_if_new new rows
      in (length rows' - length rows, rows'))"

section \<open>What a person decided\<close>

record 'd role_db =
  tables :: "'d identity_db"
  mark_rows :: "(ustr, bool) dict"
  decision_rows :: "(ustr, string) dict"
  excluded_rows :: "excluded_row list"
  answer_rows :: "answer_row list"

definition official_marks :: "(nat, ustr) dict \<Rightarrow> (ustr, bool) dict \<Rightarrow> (nat, bool) dict" where
  "official_marks keys marks =
     fold (\<lambda>(key, official) found.
         case today (unique (map snd keys)) key of
           None \<Rightarrow> found
         | Some now \<Rightarrow> (case dict_get (ids_by_key keys) now of None \<Rightarrow> found | Some i \<Rightarrow> dict_set i official found))
       marks []"

definition FIGURANT :: string where "FIGURANT = ''figurant''"
definition POSSIBLE :: string where "POSSIBLE = ''possible''"
definition MENTIONED :: string where "MENTIONED = ''mentioned''"
definition UNCLEAR :: string where "UNCLEAR = ''unclear''"

definition ROLES :: "string list" where
  "ROLES = [FIGURANT, POSSIBLE, MENTIONED]"

definition role_of :: "string \<Rightarrow> string" where
  "role_of kind =
     (if kind = ''accused'' then FIGURANT
      else if kind \<in> {''detained'', ''administrative''} then POSSIBLE
      else if kind = ''unknown'' then UNCLEAR
      else MENTIONED)"

text \<open>A decision under today's own key wins over one that only matches by the stem.\<close>

definition decisions_found :: "bool \<Rightarrow> (nat, ustr) dict \<Rightarrow> (ustr, string) dict \<Rightarrow> (nat, string) dict" where
  "decisions_found exact keys decided =
     fold (\<lambda>(key, role) found.
         case today (unique (map snd keys)) key of
           None \<Rightarrow> found
         | Some now \<Rightarrow>
             if (now = key) = exact
             then (case dict_get (ids_by_key keys) now of None \<Rightarrow> found | Some i \<Rightarrow> dict_set i role found)
             else found)
       decided []"

definition role_decisions :: "(nat, ustr) dict \<Rightarrow> (ustr, string) dict \<Rightarrow> (nat, string) dict" where
  "role_decisions keys decided = dict_update (decisions_found False keys decided) (decisions_found True keys decided)"

text \<open>The row of a group, a blank one when it has none, and its writing.\<close>

definition role_of_group :: "nat \<Rightarrow> role_row list \<Rightarrow> role_row option" where
  "role_of_group i rs = find (\<lambda>r. role_group r = i) rs"

definition role_or_blank :: "nat \<Rightarrow> role_row list \<Rightarrow> role_row" where
  "role_or_blank i rs = (case role_of_group i rs of
     Some r \<Rightarrow> r
   | None \<Rightarrow> \<lparr>role_group = i, role_name = '''', role_kind = None, role_method = '''', role_reason = [], role_quote = []\<rparr>)"

definition put_role :: "role_row \<Rightarrow> role_row list \<Rightarrow> role_row list" where
  "put_role r rs =
     (if list_ex (\<lambda>x. role_group x = role_group r) rs
      then update_rows (\<lambda>x. role_group x = role_group r) (\<lambda>_. r) rs else rs @ [r])"

definition official_kind_of :: "string option \<Rightarrow> string" where
  "official_kind_of kind = (case kind of Some k \<Rightarrow> if k \<in> set OFFICIAL_KINDS then k else ''official'' | None \<Rightarrow> ''official'')"

definition withdraw :: "(nat \<Rightarrow> 'd \<Rightarrow> 'd) \<Rightarrow> nat \<Rightarrow> 'd identity_db \<Rightarrow> 'd identity_db" where
  "withdraw withdrawn i db = db\<lparr>downstream := withdrawn i (downstream db)\<rparr>"

definition marked_by_hand :: ustr where
  "marked_by_hand = (ru ''dolZnostnoe lico '' @ [8212] @ ru '' otmeCen vruCnuU'')"

definition decided_by_hand :: ustr where
  "decided_by_hand = (ru ''reSeno operatorom vruCnuU'')"

definition mark_official ::
  "(nat \<Rightarrow> 'd \<Rightarrow> 'd) \<Rightarrow> nat \<times> ustr \<Rightarrow> bool \<Rightarrow> 'd role_db \<Rightarrow> 'd role_db" where
  "mark_official withdrawn = (\<lambda>(i, key) official db.
     let role = role_or_blank i (roles (tables db));
         row = (if official
           then role\<lparr>role_name := MENTIONED, role_kind := Some (official_kind_of (role_kind role)),
                     role_method := ''official'', role_reason := marked_by_hand\<rparr>
           else role\<lparr>role_name := UNCLEAR, role_kind := None, role_method := MANUAL,
                     role_reason := (ru ''pometka dolZnostnogo lica snAta vruCnuU; rolq opredelit Sag 5'')\<rparr>);
         written = (tables db)\<lparr>roles := put_role row (roles (tables db))\<rparr>
     in db\<lparr>mark_rows := dict_set key official (mark_rows db),
           tables := (if official then withdraw withdrawn i written else written)\<rparr>)"

definition mark_official_of :: "(nat \<Rightarrow> 'd \<Rightarrow> 'd) \<Rightarrow> ustr \<Rightarrow> bool \<Rightarrow> 'd role_db \<Rightarrow> bool \<times> 'd role_db" where
  "mark_official_of withdrawn key official db =
     (case group_with_key key (tables db) of
        None \<Rightarrow> (False, db)
      | Some g \<Rightarrow> (True, mark_official withdrawn (group_id g, group_key g) official db))"

definition decide_role ::
  "(nat \<Rightarrow> 'd \<Rightarrow> 'd) \<Rightarrow> nat \<times> ustr \<Rightarrow> string \<Rightarrow> 'd role_db \<Rightarrow> (string + unit) \<times> 'd role_db" where
  "decide_role withdrawn = (\<lambda>(i, key) role db.
     if role \<notin> set ROLES then (Inl (''unknown role: '' @ role), db)
     else
       let current = role_or_blank i (roles (tables db));
           (role', method, reason, kind) =
             (if dict_get (mark_rows db) key = Some True
              then (MENTIONED, ''official'', marked_by_hand, Some (official_kind_of (role_kind current)))
              else (role, MANUAL, decided_by_hand, None));
           row = current\<lparr>role_name := role', role_kind := kind, role_method := method, role_reason := reason\<rparr>;
           written = (tables db)\<lparr>roles := put_role row (roles (tables db))\<rparr>
       in (Inr (), db\<lparr>decision_rows := dict_set key role (decision_rows db),
                       tables := (if role' \<noteq> FIGURANT then withdraw withdrawn i written else written)\<rparr>))"

section \<open>The list as the console edits it\<close>

datatype added_outcome = Added | Already

definition add_official ::
  "(ustr \<Rightarrow> ustr) \<Rightarrow> ustr \<Rightarrow> string \<Rightarrow> ustr \<Rightarrow> excluded_row list \<Rightarrow> (string + added_outcome) \<times> excluded_row list" where
  "add_official casefold full_name category reason rows =
     (let name = join_text space (words full_name);
          external = ascii ''console:'' @ casefold name in
      if name = [] then (Inl ''no name'', rows)
      else if list_ex (\<lambda>r. ex_external r = external) rows then (Inr Already, rows)
      else (Inr Added, rows @ [\<lparr>ex_external = external, ex_name = name, ex_normalized = normalized casefold name,
              ex_category = category, ex_reason = (if strip reason = [] then None else Some (strip reason)),
              ex_active = True\<rparr>]))"

definition keys_of_groups :: "'d identity_db \<Rightarrow> (nat, ustr) dict" where
  "keys_of_groups db = map (\<lambda>g. (group_id g, group_key g)) (groups db)"

definition model_official :: "role_row \<Rightarrow> bool" where
  "model_official r \<longleftrightarrow> role_method r = ''model'' \<and> role_kind r \<in> Some ` set OFFICIAL_KINDS"

text \<open>
  A suggestion accepted twice under one key is refused by the table's unique \<open>external_id\<close>
  (\<open>Inl\<close>); \<open>Inr None\<close> is no suggestion.
\<close>

definition add_suggested ::
  "unicode \<Rightarrow> (ustr \<Rightarrow> ustr) \<Rightarrow> ustr \<Rightarrow> 'd role_db \<Rightarrow> (string + added_outcome option) \<times> 'd role_db" where
  "add_suggested u casefold key db =
     (case group_with_key key (tables db) of
        None \<Rightarrow> (Inr None, db)
      | Some g \<Rightarrow>
          (case role_of_group (group_id g) (roles (tables db)) of
             None \<Rightarrow> (Inr None, db)
           | Some r \<Rightarrow>
               if \<not> model_official r then (Inr None, db)
               else if dict_get (official_entity_ids u (keys_of_groups (tables db)) False (excluded_rows db)) (group_id g) \<noteq> None
               then (Inr (Some Already), db)
               else
                 let name = join_text space (words (group_name g)); external = ascii ''model:'' @ key in
                 if list_ex (\<lambda>x. ex_external x = external) (excluded_rows db) then (Inl ''duplicate external_id'', db)
                 else (Inr (Some Added), db\<lparr>excluded_rows := excluded_rows db @
                   [\<lparr>ex_external = external, ex_name = name, ex_normalized = normalized casefold name,
                     ex_category = official_kind_of (role_kind r),
                     ex_reason = Some (strip ((ru ''predloZeno modelqU, prinAto vruCnuU: '') @ role_reason r)),
                     ex_active = True\<rparr>]\<rparr>)))"

definition deactivate :: "ustr \<Rightarrow> excluded_row list \<Rightarrow> bool \<times> excluded_row list" where
  "deactivate external rows =
     (if list_ex (\<lambda>r. ex_external r = external) rows
      then (True, update_rows (\<lambda>r. ex_external r = external) (\<lambda>r. r\<lparr>ex_active := False\<rparr>) rows)
      else (False, rows))"

definition active_count :: "excluded_row list \<Rightarrow> nat" where
  "active_count rows = length (filter ex_active rows)"

text \<open>
  The people the model calls officials and the list does not name (without the duplicates
  shown beside them), by kind and name.
\<close>

definition suggestions :: "unicode \<Rightarrow> nat \<Rightarrow> 'd role_db \<Rightarrow> (ustr \<times> ustr \<times> string \<times> ustr) list" where
  "suggestions u limit db =
     (let keys = keys_of_groups (tables db);
          named = official_entity_ids u keys False (excluded_rows db);
          marks = official_marks keys (mark_rows db);
          found = List.map_filter (\<lambda>r.
            if dict_get named (role_group r) \<noteq> None \<or> dict_get marks (role_group r) \<noteq> None then None
            else map_option (\<lambda>g. (group_key g, group_name g, (case role_kind r of Some k \<Rightarrow> k | None \<Rightarrow> ''''), role_reason r))
              (find (\<lambda>g. group_id g = role_group r) (groups (tables db)))) (filter model_official (roles (tables db)))
      in take limit (sort_key (\<lambda>(_, name, kind, _). (ascii kind, name)) found))"

text \<open>
  \<open>refresh_officials\<close>: the counts of created, updated and unchanged rows; a new id given twice
  is refused by the table.
\<close>

definition refresh_one :: "excluded_row list \<Rightarrow> excluded_row \<Rightarrow> (nat \<times> nat \<times> nat) \<times> excluded_row list
    \<Rightarrow> (nat \<times> nat \<times> nat) \<times> excluded_row list" where
  "refresh_one before update = (\<lambda>((created, updated, unchanged), rows).
     if \<not> list_ex (\<lambda>r. ex_external r = ex_external update) before then ((Suc created, updated, unchanged), rows @ [update])
     else if list_ex (\<lambda>r. r = update) rows then ((created, updated, Suc unchanged), rows)
     else ((created, Suc updated, unchanged), update_rows (\<lambda>r. ex_external r = ex_external update) (\<lambda>_. update) rows))"

definition refresh_officials ::
  "excluded_row list \<Rightarrow> excluded_row list \<Rightarrow> (string + nat \<times> nat \<times> nat) \<times> excluded_row list" where
  "refresh_officials updates rows =
     (if distinct (filter (\<lambda>x. x \<notin> ex_external ` set rows) (map ex_external updates))
      then let (counts, rows') = fold (refresh_one rows) updates ((0, 0, 0), rows) in (Inr counts, rows')
      else (Inl ''duplicate external_id'', rows))"

section \<open>The run\<close>

record role_entity =
  re_id :: nat
  re_key :: ustr
  re_name :: ustr
  re_charge :: "(ustr \<times> ustr) option"

definition entities_of :: "'d identity_db \<Rightarrow> role_entity list" where
  "entities_of db = map (\<lambda>g.
       \<lparr>re_id = group_id g, re_key = group_key g, re_name = group_name g,
        re_charge = map_option (\<lambda>c. (charge_article c, charge_quote c))
          (find (\<lambda>c. charge_group c = group_id g \<and> charge_other_targets c = 0) (charges db))\<rparr>)
     (sort_key group_id (groups db))"

text \<open>\<open>quotes_of\<close>; \<open>read ids context limit\<close> are the quotes of the latest publications.\<close>

definition QUOTES :: nat where "QUOTES = 2"
definition QUOTE_CONTEXT :: nat where "QUOTE_CONTEXT = 150"
definition WIDE_CONTEXT :: nat where "WIDE_CONTEXT = 600"
definition EVERY :: nat where "EVERY = 1000000"

definition quotes_of ::
  "(nat \<times> nat) list \<Rightarrow> (nat list \<Rightarrow> nat \<Rightarrow> nat \<Rightarrow> ((nat \<times> nat) \<times> ustr) list) \<Rightarrow> nat list \<Rightarrow> (nat, ustr list) dict" where
  "quotes_of model_read read ids =
     (let add = (\<lambda>((i, _), quote) d. dict_set i ((case dict_get d i of Some qs \<Rightarrow> qs | None \<Rightarrow> []) @ [quote]) d);
          wide = filter (\<lambda>(p, _). p \<in> set model_read) (read (sort (unique (map fst model_read))) WIDE_CONTEXT EVERY);
          short = filter (\<lambda>(p, _). p \<notin> set model_read) (read ids QUOTE_CONTEXT QUOTES)
      in map (\<lambda>(i, qs). (i, take QUOTES qs)) (fold add (wide @ short) []))"

record finder_view =
  fv_unicode :: unicode
  fv_casefold :: "ustr \<Rightarrow> ustr"
  fv_digest :: "ustr list \<Rightarrow> string"
  fv_contexts :: "(nat \<times> ustr) list"
  fv_quotes :: "(nat, ustr list) dict"
  fv_identified :: "ustr list"

definition charge_quote_of :: "role_entity \<Rightarrow> ustr" where
  "charge_quote_of e = or_empty (map_option snd (re_charge e))"

definition quotes_for :: "finder_view \<Rightarrow> nat \<Rightarrow> ustr list" where
  "quotes_for v i = (case dict_get (fv_quotes v) i of Some qs \<Rightarrow> qs | None \<Rightarrow> [])"

definition first_quote :: "finder_view \<Rightarrow> role_entity \<Rightarrow> ustr" where
  "first_quote v e = (if charge_quote_of e \<noteq> [] then charge_quote_of e
     else case quotes_for v (re_id e) of q # _ \<Rightarrow> q | [] \<Rightarrow> [])"

definition item_quotes :: "finder_view \<Rightarrow> role_entity \<Rightarrow> ustr list" where
  "item_quotes v e = (if charge_quote_of e = [] then [] else [join_text space (words (charge_quote_of e))])
     @ quotes_for v (re_id e)"

record finder_facts =
  ff_entities :: "role_entity list"
  ff_titles :: "(nat, string \<times> ustr) dict"
  ff_marks :: "(nat, bool) dict"
  ff_excluded :: "(nat, excluded_row) dict"
  ff_decided :: "(nat, string) dict"
  ff_operator :: "nat list"

text \<open>What the run reads first.\<close>

definition facts_of :: "finder_view \<Rightarrow> 'd role_db \<Rightarrow> finder_facts" where
  "facts_of v db =
     (let entities = entities_of (tables db); keys = map (\<lambda>e. (re_id e, re_key e)) entities in
      \<lparr>ff_entities = entities,
       ff_titles = titled (fv_unicode v) (fv_contexts v),
       ff_marks = official_marks keys (mark_rows db),
       ff_excluded = official_entity_ids (fv_unicode v) keys True (excluded_rows db),
       ff_decided = role_decisions keys (decision_rows db),
       ff_operator = map fst (filter (\<lambda>(_, key). key \<in> set (fv_identified v)) (group_figurants (tables db)))\<rparr>)"

definition titled_official :: "finder_facts \<Rightarrow> nat \<Rightarrow> bool" where
  "titled_official f i = (case dict_get (ff_marks f) i of Some b \<Rightarrow> b | None \<Rightarrow> dict_get (ff_titles f) i \<noteq> None)"

definition excluded_reason :: "excluded_row \<Rightarrow> ustr" where
  "excluded_reason x = (ru ''v spiske isklUCenij: '') @ ex_name x @
     (if or_empty (ex_reason x) = [] then [] else [32, 40] @ or_empty (ex_reason x) @ [41])"

definition official_row :: "finder_view \<Rightarrow> finder_facts \<Rightarrow> role_entity \<Rightarrow> role_row option" where
  "official_row v f e =
     (let i = re_id e; listed = dict_get (ff_excluded f) i;
          (kind, title) = (case dict_get (ff_titles f) i of Some t \<Rightarrow> t | None \<Rightarrow> (''official'', []));
          (kind', reason) = (case listed of
              Some x \<Rightarrow> (if ex_category x \<in> set OFFICIAL_KINDS then ex_category x else kind, excluded_reason x)
            | None \<Rightarrow> (kind, if dict_get (ff_marks f) i = Some True then (ru ''otmeCen vruCnuU'')
                             else (ru ''v tekstah: '' @ [171]) @ title @ ([187] @ ru '' pered imenem'')))
      in if dict_get (ff_marks f) i = Some False \<or> \<not> titled_official f i \<and> listed = None then None
         else Some \<lparr>role_group = i, role_name = MENTIONED, role_kind = Some kind', role_method = ''official'',
           role_reason = (ru ''dolZnostnoe lico '' @ [8212] @ ru '' '') @ reason, role_quote = first_quote v e\<rparr>)"

definition operator_row :: "finder_view \<Rightarrow> role_entity \<Rightarrow> role_row" where
  "operator_row v e = \<lparr>role_group = re_id e, role_name = FIGURANT, role_kind = None, role_method = ''operator'',
     role_reason = (ru ''bezymAnnyj figurant opoznan operatorom''), role_quote = first_quote v e\<rparr>"

definition unanswered_row :: "bool \<Rightarrow> finder_view \<Rightarrow> role_entity \<Rightarrow> role_row" where
  "unanswered_row no_model v e =
     (let failed = (if no_model then (ru ''modelq ne nastroena'') else (ru ''modelq ne otvetila''));
          quote = (case item_quotes v e of q # _ \<Rightarrow> q | [] \<Rightarrow> []) in
      case re_charge e of
        Some (article, _) \<Rightarrow> \<lparr>role_group = re_id e, role_name = FIGURANT, role_kind = None, role_method = ''article'',
          role_reason = (ru ''st. '') @ article @ (ru '' '' @ [1059, 1050] @ ru '' '' @ [8212] @ ru '' edinstvennyj obvinAemyj v sobytii ('') @ failed @ [41],
          role_quote = quote\<rparr>
      | None \<Rightarrow> \<lparr>role_group = re_id e, role_name = UNCLEAR, role_kind = None, role_method = ''model'',
          role_reason = failed, role_quote = quote\<rparr>)"

definition answered_row :: "finder_view \<Rightarrow> finder_facts \<Rightarrow> role_entity \<Rightarrow> model_answer \<Rightarrow> role_row" where
  "answered_row v f e a =
     (let unmarked = ma_value a \<in> set OFFICIAL_KINDS \<and> dict_get (ff_marks f) (re_id e) = Some False in
      \<lparr>role_group = re_id e, role_name = (if unmarked then UNCLEAR else role_of (ma_value a)),
       role_kind = Some (ma_value a), role_method = ''model'',
       role_reason = (if unmarked
         then (ru ''modelq: '') @ ma_explanation a @ (ru ''; pometka dolZnostnogo lica snAta vruCnuU'')
         else ma_explanation a),
       role_quote = (case item_quotes v e of q # _ \<Rightarrow> q | [] \<Rightarrow> [])\<rparr>)"

definition overridden :: "finder_facts \<Rightarrow> role_row \<Rightarrow> role_row" where
  "overridden f r =
     (case dict_get (ff_decided f) (role_group r) of
        None \<Rightarrow> r
      | Some role \<Rightarrow>
          if dict_get (ff_marks f) (role_group r) = Some True then r
          else r\<lparr>role_name := role, role_kind := None, role_method := MANUAL, role_reason := decided_by_hand\<rparr>)"

definition ROLE_KINDS :: "string list" where
  "ROLE_KINDS = [''accused'', ''detained'', ''administrative'', ''foreign'', ''historical'', ''support'', ''lawyer'', ''judge'',
     ''prosecutor'', ''police'', ''witness'', ''victim'', ''official'', ''journalist'', ''activist'', ''other'', ''unknown'']"

definition ROLE_CACHE :: answer_cache where
  "ROLE_CACHE = \<lparr>ca_version = ''roles-v5'',
     ca_accepted = (\<lambda>version kind explanation. version \<in> {''roles-v1'', ''roles-v2'', ''roles-v3'', ''roles-v4''} \<and>
       kind \<in> set ROLE_KINDS \<and> kind \<noteq> ''accused''),
     ca_sticky = (\<lambda>kind. kind = ''accused'')\<rparr>"

record figurant_result =
  fg_entities :: nat
  fg_rules :: nat
  fg_model :: nat
  fg_manual :: nat
  fg_officials :: nat
  fg_listed :: nat
  fg_possible :: nat
  fg_mentioned :: nat
  fg_unclear :: nat
  fg_asked :: nat
  fg_cached :: nat
  fg_failures :: nat
  fg_unasked :: nat

definition counted :: "role_entity list \<Rightarrow> nat \<Rightarrow> ask_result \<Rightarrow> role_row list \<Rightarrow> figurant_result" where
  "counted entities listed found rows =
     (let number = (\<lambda>p. length (filter p rows)) in
      \<lparr>fg_entities = length entities,
       fg_rules = number (\<lambda>r. role_method r \<in> {''article'', ''operator''}),
       fg_model = number (\<lambda>r. role_name r = FIGURANT \<and> role_method r = ''model''),
       fg_manual = number (\<lambda>r. role_name r = FIGURANT \<and> role_method r = MANUAL),
       fg_officials = number (\<lambda>r. role_method r = ''official''),
       fg_listed = listed,
       fg_possible = number (\<lambda>r. role_name r = POSSIBLE),
       fg_mentioned = number (\<lambda>r. role_name r = MENTIONED),
       fg_unclear = number (\<lambda>r. role_name r = UNCLEAR),
       fg_asked = ar_asked found, fg_cached = ar_cached found, fg_failures = ar_failures found,
       fg_unasked = ar_unasked found\<rparr>)"

definition BATCH_SIZE :: nat where "BATCH_SIZE = 50"
definition CONCURRENCY :: nat where "CONCURRENCY = 8"

definition official_rows :: "finder_view \<Rightarrow> finder_facts \<Rightarrow> role_row list" where
  "official_rows v f = List.map_filter (official_row v f) (ff_entities f)"

definition is_official :: "finder_view \<Rightarrow> finder_facts \<Rightarrow> nat \<Rightarrow> bool" where
  "is_official v f i \<longleftrightarrow> titled_official f i \<and> i \<in> set (map re_id (ff_entities f)) \<or> i \<in> set (map role_group (official_rows v f))"

definition operator_entities :: "finder_view \<Rightarrow> finder_facts \<Rightarrow> role_entity list" where
  "operator_entities v f = filter (\<lambda>e. \<not> is_official v f (re_id e) \<and> re_id e \<in> set (ff_operator f)) (ff_entities f)"

definition rest_entities :: "finder_view \<Rightarrow> finder_facts \<Rightarrow> role_entity list" where
  "rest_entities v f = filter (\<lambda>e. \<not> is_official v f (re_id e) \<and> re_id e \<notin> set (ff_operator f)) (ff_entities f)"

definition ask_roles ::
  "finder_view \<Rightarrow> classifier option \<Rightarrow> script \<Rightarrow> nat \<Rightarrow> role_entity list \<Rightarrow> answer_row list
     \<Rightarrow> (call_error + ask_result) \<times> answer_row list" where
  "ask_roles v classifier script now rest rows =
     ask_missing ROLE_CACHE classifier BATCH_SIZE CONCURRENCY now script
       (map (\<lambda>e. (re_id e, re_name e)) rest) (map (\<lambda>e. (re_id e, re_key e)) rest)
       (map (\<lambda>e. (re_id e, fv_digest v (re_name e # item_quotes v e))) rest) rows"

definition rest_row :: "bool \<Rightarrow> finder_view \<Rightarrow> finder_facts \<Rightarrow> (nat, model_answer) dict \<Rightarrow> role_entity \<Rightarrow> role_row" where
  "rest_row no_model v f answers e =
     (case dict_get answers (re_id e) of
        None \<Rightarrow> unanswered_row no_model v e | Some a \<Rightarrow> answered_row v f e a)"

definition role_rows_of ::
  "bool \<Rightarrow> finder_view \<Rightarrow> finder_facts \<Rightarrow> (nat, model_answer) dict \<Rightarrow> role_row list" where
  "role_rows_of no_model v f answers = map (overridden f)
     (official_rows v f @ map (operator_row v) (operator_entities v f)
      @ map (rest_row no_model v f answers) (rest_entities v f))"

text \<open>
  The exclusion list is written in a transaction of its own, before the asking, and so are the
  answers: an error that ends the asking leaves both, and the roles as they were.
\<close>

definition find_figurants ::
  "finder_view \<Rightarrow> classifier option \<Rightarrow> script \<Rightarrow> nat \<Rightarrow> 'd role_db \<Rightarrow> (call_error + figurant_result) \<times> 'd role_db" where
  "find_figurants v classifier script now db =
     (let f = facts_of v db;
          (listed, excluded) = remember_titled (fv_unicode v) (fv_casefold v)
            (map (\<lambda>e. (re_id e, re_key e, re_name e)) (ff_entities f)) (ff_titles f) (ff_marks f) (excluded_rows db);
          (found, answers) = ask_roles v classifier script now (rest_entities v f) (answer_rows db);
          db' = db\<lparr>excluded_rows := excluded, answer_rows := answers\<rparr>
      in case found of
           Inl e \<Rightarrow> (Inl e, db')
         | Inr r \<Rightarrow>
             let rows = role_rows_of (Option.is_none classifier) v f (ar_answers r)
             in (Inr (counted (ff_entities f) listed r rows), db'\<lparr>tables := (tables db')\<lparr>roles := rows\<rparr>\<rparr>))"

end
