(* ===== verification/Known_Base.thy ===== *)
theory Known_Base
  imports Roles Evidence_Windows
begin

text \<open>
  Whom the operator's own base holds, and whose case it tracks
  (\<open>analysis/operator_base/known_base.py\<close>). A set of words is a list without repetitions; the
  records are the active rows of the base, in the order read. \<open>str.isdigit\<close> is a parameter.
\<close>

section \<open>Names as sets of words\<close>

definition name_letter :: "unicode \<Rightarrow> int \<Rightarrow> bool" where
  "name_letter u c \<longleftrightarrow> is_alnum u c \<and> \<not> is_decimal u c \<and> c \<noteq> 95"

lemma dropWhile_shorter:
  assumes "x \<in> set t" and "p x"
  shows "length (dropWhile p (dropWhile (\<lambda>c. \<not> p c) t)) < length t"
proof -
  have some: "dropWhile (\<lambda>c. \<not> p c) t \<noteq> []" using assms by (auto simp: dropWhile_eq_Nil_conv)
  then obtain c r where start: "dropWhile (\<lambda>c. \<not> p c) t = c # r" by (cases "dropWhile (\<lambda>c. \<not> p c) t") auto
  then have "p c" using hd_dropWhile [OF some] by simp
  then have "length (dropWhile p (c # r)) \<le> length r" by (simp add: length_dropWhile_le)
  moreover have "length (c # r) \<le> length t" using length_dropWhile_le [of "\<lambda>c. \<not> p c" t] by (simp add: start)
  ultimately show ?thesis by (simp only: start) simp
qed

function letter_words :: "unicode \<Rightarrow> ustr \<Rightarrow> ustr list" where
  "letter_words u t =
     (let start = dropWhile (\<lambda>c. \<not> name_letter u c) t;
          w = takeWhile (name_letter u) start; after = dropWhile (name_letter u) start;
          second = takeWhile (name_letter u) (drop 1 after)
      in if start = [] then []
         else if take 1 after = [45] \<and> second \<noteq> []
         then (w @ [45] @ second) # letter_words u (drop (Suc (length second)) after)
         else w # letter_words u after)"
  by pat_completeness auto
termination
  by (relation "measure (\<lambda>(_, t). length t)")
    (auto dest: dropWhile_shorter intro: le_less_trans [OF diff_le_self])

declare letter_words.simps [simp del]

definition base_words :: "unicode \<Rightarrow> ustr \<Rightarrow> ustr list" where
  "base_words u name = unique (letter_words u (fold_yo (lower_text u name)))"

text \<open>\<open>re.split("[()]", s)\<close>.\<close>

definition bracket_parts :: "ustr \<Rightarrow> ustr list" where
  "bracket_parts t = split_at 40 (map (\<lambda>c. if c = 41 then 40 else c) t)"

definition spellings_of :: "unicode \<Rightarrow> (int \<Rightarrow> bool) \<Rightarrow> ustr \<Rightarrow> ustr list list" where
  "spellings_of u is_digit full_name =
     (if list_ex is_digit full_name then []
      else filter (\<lambda>ws. 2 \<le> length ws) (map (base_words u) (bracket_parts full_name)))"

section \<open>The base and its index\<close>

record base_record =
  base_name :: ustr
  base_spellings :: "ustr list list"

definition known_base :: "unicode \<Rightarrow> (int \<Rightarrow> bool) \<Rightarrow> ustr list \<Rightarrow> base_record list" where
  "known_base u is_digit names =
     List.map_filter (\<lambda>name.
       let spelled = spellings_of u is_digit name in
       if spelled = [] then None
       else Some \<lparr>base_name = join_text space (words name), base_spellings = spelled\<rparr>) names"

text \<open>\<open>_index\<close>: the records of a word, by their position.\<close>

definition records_of_word :: "base_record list \<Rightarrow> ustr \<Rightarrow> nat list" where
  "records_of_word base w = filter (\<lambda>i. list_ex (\<lambda>s. w \<in> set s) (base_spellings (base ! i))) [0..<length base]"

definition candidates_of :: "base_record list \<Rightarrow> ustr list \<Rightarrow> nat list" where
  "candidates_of base wanted = sort (unique (concat (map (records_of_word base) wanted)))"

definition fits :: "ustr list \<Rightarrow> ustr list \<Rightarrow> bool" where
  "fits wanted spelled \<longleftrightarrow> set wanted \<subseteq> set spelled \<or> set spelled \<subseteq> set wanted"

definition same_words :: "ustr list \<Rightarrow> ustr list \<Rightarrow> bool" where
  "same_words a b \<longleftrightarrow> set a = set b"

datatype known_level = IN_BASE | PROBABLY | NAMESAKES

record known_match =
  km_level :: known_level
  km_names :: "ustr list"
  km_count :: nat

definition SHOWN :: nat where
  "SHOWN = 3"

definition judged :: "base_record list \<Rightarrow> ustr list \<Rightarrow> nat list \<Rightarrow> known_match option" where
  "judged base wanted fitting =
     (let exact = filter (\<lambda>i. list_ex (same_words wanted) (base_spellings (base ! i))) fitting;
          close = filter (\<lambda>i. \<not> list_ex (same_words wanted) (base_spellings (base ! i))) fitting;
          found = exact @ close;
          names = map (\<lambda>i. base_name (base ! i)) (take SHOWN found)
      in if found = [] then None
         else if length exact = 1 \<and> (3 \<le> length wanted \<or> length found = 1)
         then Some \<lparr>km_level = IN_BASE, km_names = take 1 names, km_count = 1\<rparr>
         else if length found = 1 then Some \<lparr>km_level = PROBABLY, km_names = names, km_count = 1\<rparr>
         else Some \<lparr>km_level = NAMESAKES, km_names = names, km_count = length found\<rparr>)"

definition record_fits :: "base_record list \<Rightarrow> ustr list \<Rightarrow> nat \<Rightarrow> bool" where
  "record_fits base wanted i \<longleftrightarrow> list_ex (fits wanted) (base_spellings (base ! i))"

definition match_known :: "unicode \<Rightarrow> base_record list \<Rightarrow> ustr \<Rightarrow> known_match option" where
  "match_known u base name =
     (let wanted = base_words u name in
      if length wanted < 2 then None
      else judged base wanted (filter (record_fits base wanted) (candidates_of base wanted)))"

section \<open>The cases the base tracks\<close>

definition lit_folded :: "unicode \<Rightarrow> ustr \<Rightarrow> regex" where
  "lit_folded u w t = (if folded_prefix u w t then [drop (length w) t] else [])"

definition ARTICLE_HEAD :: "unicode \<Rightarrow> regex" where
  "ARTICLE_HEAD u = in_turn (lit_folded u (ru ''st'')) (in_turn (lit [46]) (many is_space))"

definition ARTICLE_NUMBER :: "unicode \<Rightarrow> regex" where
  "ARTICLE_NUMBER u = in_turn (many1 (is_decimal u)) (up_to 1 (in_turn (lit [46]) (many1 (is_decimal u))))"

definition ARTICLE_CODE :: "unicode \<Rightarrow> regex" where
  "ARTICLE_CODE u = in_turn (many1 is_space) (in_turn (lit_folded u (ru ''uk''))
     (in_turn (many1 is_space) (lit_folded u (ru ''rf''))))"

definition after_letter :: "unicode \<Rightarrow> int \<Rightarrow> bool" where
  "after_letter u c \<longleftrightarrow> is_alnum u c \<or> c = 95"

text \<open>The number and the rest of the text where an article stands.\<close>

definition article_at :: "unicode \<Rightarrow> ustr \<Rightarrow> (ustr \<times> ustr) option" where
  "article_at u t =
     (case concat (map (\<lambda>a. concat (map (\<lambda>b. map (Pair (take (length a - length b) a))
          (filter (\<lambda>r. \<not> (case r of c # _ \<Rightarrow> after_letter u c | [] \<Rightarrow> False)) (ARTICLE_CODE u b)))
        (ARTICLE_NUMBER u a))) (ARTICLE_HEAD u t)) of
        [] \<Rightarrow> None | m # _ \<Rightarrow> Some m)"

definition shortens :: "regex \<Rightarrow> bool" where
  "shortens r \<longleftrightarrow> (\<forall>t. \<forall>x \<in> set (r t). length x \<le> length t)"

lemma many_shortens: "x \<in> set (many p t) \<Longrightarrow> length x \<le> length t"
  by (induction t) (auto split: if_splits)

lemma shortens_simps [intro]:
  "shortens (lit w)" "shortens (lit_folded u w)" "shortens (many p)" "shortens (one p)"
  "shortens a \<Longrightarrow> shortens b \<Longrightarrow> shortens (in_turn a b)"
proof -
  show "shortens a \<Longrightarrow> shortens b \<Longrightarrow> shortens (in_turn a b)"
    unfolding shortens_def in_turn_def by (fastforce intro: le_trans)
qed (auto simp: shortens_def lit_def lit_folded_def one_def many_shortens split: list.splits)

lemma shortens_many1 [intro]: "shortens (many1 p)"
  unfolding many1_def by blast

lemma shortens_up_to [intro]:
  assumes "shortens r" shows "shortens (up_to n r)"
proof -
  have "x \<in> set (up_to n r t) \<Longrightarrow> length x \<le> length t" for x t
  proof (induction n arbitrary: t)
    case (Suc n)
    then show ?case using assms unfolding shortens_def by (auto intro: le_trans)
  qed simp
  then show ?thesis by (simp add: shortens_def)
qed

lemma article_at_in:
  assumes "article_at u t = Some (number, rest)"
  shows "\<exists>a \<in> set (ARTICLE_HEAD u t). \<exists>b \<in> set (ARTICLE_NUMBER u a). rest \<in> set (ARTICLE_CODE u b)"
proof -
  let ?all = "concat (map (\<lambda>a. concat (map (\<lambda>b. map (Pair (take (length a - length b) a))
          (filter (\<lambda>r. \<not> (case r of c # _ \<Rightarrow> after_letter u c | [] \<Rightarrow> False)) (ARTICLE_CODE u b)))
        (ARTICLE_NUMBER u a))) (ARTICLE_HEAD u t))"
  have "(number, rest) \<in> set ?all" using assms unfolding article_at_def by (cases ?all) auto
  then show ?thesis by auto
qed

lemma article_at_shorter:
  assumes "article_at u t = Some (number, rest)"
  shows "length rest < length t"
proof -
  obtain a b where a: "a \<in> set (ARTICLE_HEAD u t)" and b: "b \<in> set (ARTICLE_NUMBER u a)" and rest: "rest \<in> set (ARTICLE_CODE u b)"
    using article_at_in [OF assms] by blast
  obtain x where x: "x \<in> set (lit_folded u (ru ''st'') t)" "a \<in> set (in_turn (lit [46]) (many is_space) x)"
    using a by (auto simp: ARTICLE_HEAD_def in_turn_def [of "lit_folded u (ru ''st'')"])
  have "x = drop 2 t" "2 \<le> length t"
    using x(1) by (auto simp: lit_folded_def folded_prefix_def ru_def numeral_2_eq_2 split: if_splits)
  then have "length x < length t" by simp
  moreover have "length a \<le> length x"
    using x(2) shortens_simps(5) [OF shortens_simps(1,3)] unfolding shortens_def by blast
  moreover have "shortens (ARTICLE_NUMBER u)" "shortens (ARTICLE_CODE u)"
    unfolding ARTICLE_NUMBER_def ARTICLE_CODE_def by (intro shortens_simps shortens_many1 shortens_up_to)+
  then have "length b \<le> length a" "length rest \<le> length b" using b rest unfolding shortens_def by blast+
  ultimately show ?thesis by linarith
qed

function article_numbers :: "unicode \<Rightarrow> ustr \<Rightarrow> ustr list" where
  "article_numbers u t =
     (case article_at u t of
        Some m \<Rightarrow> fst m # article_numbers u (snd m)
      | None \<Rightarrow> (if t = [] then [] else article_numbers u (tl t)))"
  by pat_completeness auto
termination
  by (relation "measure (\<lambda>(_, t). length t)") (auto dest: article_at_shorter)

declare article_numbers.simps [simp del]

definition NEUTRAL_ARTICLES :: "ustr list" where
  "NEUTRAL_ARTICLES = map ascii [''30'', ''33'', ''35'']"

record tracked_case =
  tc_name :: ustr
  tc_articles :: "ustr list"
  tc_full_name :: bool

definition articles_of_name :: "unicode \<Rightarrow> (ustr \<times> ustr option) list \<Rightarrow> ustr \<Rightarrow> ustr list" where
  "articles_of_name u records name =
     unique (concat (map (\<lambda>(full_name, articles).
         if join_text space (words full_name) = name
         then filter (\<lambda>a. a \<notin> set NEUTRAL_ARTICLES) (article_numbers u (or_empty articles)) else []) records))"

definition match_tracked ::
  "unicode \<Rightarrow> (int \<Rightarrow> bool) \<Rightarrow> (ustr \<times> ustr option) list \<Rightarrow> ustr \<Rightarrow> ustr list \<Rightarrow> tracked_case option" where
  "match_tracked u is_digit records name articles =
     (case match_known u (known_base u is_digit (map fst records)) name of
        None \<Rightarrow> None
      | Some found \<Rightarrow>
          let known = hd (km_names found);
              shared = sort (filter (\<lambda>a. a \<in> set articles) (articles_of_name u records known))
          in if km_level found = NAMESAKES \<or> shared = [] then None
             else Some \<lparr>tc_name = known, tc_articles = shared, tc_full_name = (km_level found = IN_BASE)\<rparr>)"

end
