(* ===== verification/Politics.thy ===== *)
theory Politics
  imports Known_Base Persecution
begin

text \<open>
  Step 5 (\<open>analysis/politics/classification.py\<close>): which figurants' cases are political. The
  quotes, the wide ones, the categories of the Memorial registry's cards and the hash of a question are
  parameters; the cost shown in the result is left out.
\<close>

section \<open>Verdicts and what a person decided\<close>

definition POLITICAL :: string where "POLITICAL = ''political''"
definition CRIMINAL :: string where "CRIMINAL = ''criminal''"
definition BASE :: string where "BASE = ''base''"

definition verdict_of :: "string \<Rightarrow> string" where
  "verdict_of answer = (if answer = ''political'' then POLITICAL else if answer = ''criminal'' then CRIMINAL else UNCLEAR)"

definition NAMELESS :: ustr where
  "NAMELESS = (ru ''delo politiCeskoe, no Celovek nazvan odnim slovom: kto Eto, ne Asno'')"

definition nameless :: "ustr \<Rightarrow> bool" where
  "nameless name \<longleftrightarrow> length (words name) < 2"

record politics_row =
  pol_group :: nat
  pol_verdict :: string
  pol_method :: string
  pol_reason :: ustr
  pol_quote :: ustr

record 'd politics_db =
  group_tables :: "'d identity_db"
  politics_rows :: "politics_row list"
  verdict_rows :: "(ustr, string) dict"
  politics_answers :: "answer_row list"
  base_rows :: "(ustr \<times> ustr option) list"

text \<open>The decisions found by today's keys, an exact key first, as in step 4.\<close>

definition politics_decisions :: "(nat, ustr) dict \<Rightarrow> (ustr, string) dict \<Rightarrow> (nat, string) dict" where
  "politics_decisions keys decided = dict_update (decisions_found False keys decided) (decisions_found True keys decided)"

definition put_verdict :: "politics_row \<Rightarrow> politics_row list \<Rightarrow> politics_row list" where
  "put_verdict r rs =
     (if list_ex (\<lambda>x. pol_group x = pol_group r) rs
      then update_rows (\<lambda>x. pol_group x = pol_group r) (\<lambda>_. r) rs else rs @ [r])"

definition decide_politics :: "nat \<times> ustr \<Rightarrow> string \<Rightarrow> 'd politics_db \<Rightarrow> (string + unit) \<times> 'd politics_db" where
  "decide_politics = (\<lambda>(i, key) verdict db.
     if verdict \<noteq> POLITICAL \<and> verdict \<noteq> CRIMINAL then (Inl (''unknown verdict: '' @ verdict), db)
     else
       let current = (case find (\<lambda>r. pol_group r = i) (politics_rows db) of
              Some r \<Rightarrow> r
            | None \<Rightarrow> \<lparr>pol_group = i, pol_verdict = '''', pol_method = '''', pol_reason = [], pol_quote = []\<rparr>);
           row = current\<lparr>pol_verdict := verdict, pol_method := MANUAL, pol_reason := decided_by_hand\<rparr>
       in (Inr (), db\<lparr>verdict_rows := dict_set key verdict (verdict_rows db),
                       politics_rows := put_verdict row (politics_rows db)\<rparr>))"

section \<open>What the rules know\<close>

definition POLITICAL_CATEGORIES :: "ustr list" where
  "POLITICAL_CATEGORIES =
     [([1040] @ ru ''ntivoennoe delo''),
      ([1057] @ ru ''pisok politzaklUCQnnyh (bez presleduemyh za religiU)''),
      ([1057] @ ru ''pisok politzaklUCQnnyh, presleduemyh za religiU''),
      ([1057] @ ru ''videteli '' @ [1048] @ ru ''egovy''),
      ([1055] @ ru ''ogibSie Zertvy politiCeskogo presledovaniA'')]"

definition COMMON_CRIME_ARTICLES :: "ustr list" where
  "COMMON_CRIME_ARTICLES = map ascii
     [''105'', ''111'', ''112'', ''115'', ''116'', ''119'', ''131'', ''132'', ''134'', ''135'', ''158'', ''159'', ''160'', ''161'',
      ''162'', ''163'', ''228'', ''228.1'', ''229'', ''264'', ''290'', ''291'', ''291.1'']"

definition base_reason :: "tracked_case \<Rightarrow> ustr" where
  "base_reason c = (if tc_full_name c then [] else (ru ''imA sovpalo ne polnostqU; ''))
     @ (ru ''zapisq '' @ [171]) @ tc_name c @ ([187] @ ru '', ta Ze st. '') @ join_text (ascii '', '') (tc_articles c) @ (ru '' '' @ [1059, 1050])"

definition settled_by_rules :: "ustr list \<Rightarrow> ustr option \<Rightarrow> (string \<times> string \<times> ustr) option" where
  "settled_by_rules articles memorial =
     (if (case memorial of Some c \<Rightarrow> c \<in> set POLITICAL_CATEGORIES | None \<Rightarrow> False)
      then Some (POLITICAL, ''memorial'', ([171, 1052] @ ru ''emorial'' @ [187] @ ru '': '') @ or_empty memorial)
      else if memorial = None \<and> articles \<noteq> [] \<and> set articles \<subseteq> set COMMON_CRIME_ARTICLES
      then Some (CRIMINAL, ''article'', (ru ''st. '') @ join_text (ascii '', '') (sort (unique articles)) @
        (ru '' '' @ [1059, 1050] @ ru '' '' @ [8212] @ ru '' obyCnaA ugolovnaA statqA''))
      else None)"

section \<open>The figurants\<close>

record profile =
  pf_id :: nat
  pf_key :: ustr
  pf_name :: ustr
  pf_method :: string
  pf_articles :: "ustr list"
  pf_own :: "ustr list"

definition articles_charged :: "(charge_row \<Rightarrow> bool) \<Rightarrow> nat \<Rightarrow> charge_row list \<Rightarrow> ustr list" where
  "articles_charged p i cs = sort (unique (map charge_article (filter (\<lambda>c. charge_group c = i \<and> p c) cs)))"

definition figurant_profiles :: "'d identity_db \<Rightarrow> profile list" where
  "figurant_profiles db = List.map_filter (\<lambda>g.
       case find (\<lambda>r. role_group r = group_id g \<and> role_name r = FIGURANT) (roles db) of
         None \<Rightarrow> None
       | Some r \<Rightarrow> Some \<lparr>pf_id = group_id g, pf_key = group_key g, pf_name = group_name g, pf_method = role_method r,
           pf_articles = articles_charged (\<lambda>_. True) (group_id g) (charges db),
           pf_own = articles_charged (\<lambda>c. charge_other_targets c = 0) (group_id g) (charges db)\<rparr>)
     (sort_key group_id (groups db))"

definition first_charge_quotes :: "nat list \<Rightarrow> ustr list \<Rightarrow> charge_row list \<Rightarrow> (nat, ustr \<times> ustr) dict" where
  "first_charge_quotes ids articles cs = List.map_filter (\<lambda>i.
     case sort_key charge_other_targets (filter (\<lambda>c. charge_group c = i \<and> charge_article c \<in> set articles) cs) of
       [] \<Rightarrow> None | c # _ \<Rightarrow> Some (i, (charge_article c, charge_quote c))) (sort (unique ids))"

record politics_view =
  pv_unicode :: unicode
  pv_is_digit :: "int \<Rightarrow> bool"
  pv_digest :: "ustr option list \<Rightarrow> string"
  pv_quotes :: "(nat, ustr list) dict"
  pv_memorial :: "(nat, ustr option) dict"
  pv_wide :: "nat list \<Rightarrow> ((nat \<times> nat) \<times> ustr) list"

record politics_item =
  pi_id :: nat
  pi_name :: ustr
  pi_quotes :: "ustr list"
  pi_articles :: "ustr list"
  pi_memorial :: "ustr option"

section \<open>The run\<close>

record politics_facts =
  po_figurants :: "profile list"
  po_charged :: "(nat, ustr \<times> ustr) dict"
  po_decided :: "(nat, string) dict"

definition politics_facts_of :: "'d politics_db \<Rightarrow> politics_facts" where
  "politics_facts_of db =
     (let figurants = figurant_profiles (group_tables db) in
      \<lparr>po_figurants = figurants,
       po_charged = first_charge_quotes (map pf_id figurants) POLITICAL_ARTICLES (charges (group_tables db)),
       po_decided = politics_decisions (map (\<lambda>p. (pf_id p, pf_key p)) figurants) (verdict_rows db)\<rparr>)"

definition not_charged :: "politics_facts \<Rightarrow> profile list" where
  "not_charged f = filter (\<lambda>p. dict_get (po_charged f) (pf_id p) = None) (po_figurants f)"

definition memorial_of :: "politics_view \<Rightarrow> nat \<Rightarrow> ustr option" where
  "memorial_of v i = (case dict_get (pv_memorial v) i of Some c \<Rightarrow> c | None \<Rightarrow> None)"

definition settled :: "politics_view \<Rightarrow> (ustr \<times> ustr option) list \<Rightarrow> profile \<Rightarrow> (string \<times> string \<times> ustr) option" where
  "settled v base p =
     (case match_tracked (pv_unicode v) (pv_is_digit v) base (pf_name p) (pf_own p) of
        Some c \<Rightarrow> Some (POLITICAL, BASE, base_reason c)
      | None \<Rightarrow> if nameless (pf_name p) then None else settled_by_rules (pf_articles p) (memorial_of v (pf_id p)))"

definition politics_quotes :: "politics_view \<Rightarrow> nat \<Rightarrow> ustr list" where
  "politics_quotes v i = (case dict_get (pv_quotes v) i of Some qs \<Rightarrow> qs | None \<Rightarrow> [])"

definition asked_profiles :: "politics_view \<Rightarrow> (ustr \<times> ustr option) list \<Rightarrow> politics_facts \<Rightarrow> profile list" where
  "asked_profiles v base f = filter (\<lambda>p. settled v base p = None) (not_charged f)"

definition item_of :: "politics_view \<Rightarrow> profile \<Rightarrow> politics_item" where
  "item_of v p = \<lparr>pi_id = pf_id p, pi_name = pf_name p, pi_quotes = politics_quotes v (pf_id p),
     pi_articles = pf_articles p, pi_memorial = memorial_of v (pf_id p)\<rparr>"

definition wide_item :: "politics_view \<Rightarrow> nat list \<Rightarrow> politics_item \<Rightarrow> politics_item" where
  "wide_item v untold x = x\<lparr>pi_quotes := map snd (filter (\<lambda>((i, _), _). i = pi_id x) (pv_wide v untold))\<rparr>"

definition POLITICS_CACHE :: answer_cache where
  "POLITICS_CACHE = \<lparr>ca_version = ''politics-v1'', ca_accepted = (\<lambda>_ _ _. False), ca_sticky = (\<lambda>v. v = ''political'')\<rparr>"

definition ask_politics ::
  "politics_view \<Rightarrow> classifier option \<Rightarrow> script \<Rightarrow> nat \<Rightarrow> (nat, ustr) dict \<Rightarrow> politics_item list \<Rightarrow> answer_row list
     \<Rightarrow> (call_error + ask_result) \<times> answer_row list" where
  "ask_politics v classifier script now keys items rows =
     ask_missing POLITICS_CACHE classifier BATCH_SIZE CONCURRENCY now script
       (map (\<lambda>x. (pi_id x, pi_name x)) items) keys
       (map (\<lambda>x. (pi_id x, pv_digest v (map Some (pi_name x # pi_quotes x @ pi_articles x) @ [pi_memorial x]))) items) rows"

text \<open>
  Both askings: where the model could not tell, the same question with wide quotes. The second
  has the same classifier as it stands by then (\<open>again\<close>: what it replies to those items, what
  was spent).
\<close>

record politics_asked =
  pa_items :: "politics_item list"
  pa_answers :: "(nat, model_answer) dict"
  pa_first :: ask_result
  pa_again :: ask_result

definition untold_of :: "ask_result \<Rightarrow> nat list" where
  "untold_of found = map fst (filter (\<lambda>(_, a). verdict_of (ma_value a) = UNCLEAR) (ar_answers found))"

definition ask_twice ::
  "politics_view \<Rightarrow> classifier option \<Rightarrow> script \<Rightarrow> classifier option \<Rightarrow> script \<Rightarrow> nat \<Rightarrow> profile list \<Rightarrow> answer_row list
     \<Rightarrow> (call_error + politics_asked) \<times> answer_row list" where
  "ask_twice v classifier script again script' now asked rows =
     (let items = map (item_of v) asked; keys = map (\<lambda>p. (pf_id p, pf_key p)) asked;
          (first, rows1) = ask_politics v classifier script now keys items rows in
      case first of
        Inl e \<Rightarrow> (Inl e, rows1)
      | Inr found \<Rightarrow>
          let untold = untold_of found;
              wide = List.map_filter (\<lambda>i. map_option (wide_item v untold) (find (\<lambda>x. pi_id x = i) items)) untold;
              (second, rows2) = ask_politics v again script' now keys wide rows1
          in (case second of
                Inl e \<Rightarrow> (Inl e, rows2)
              | Inr wider \<Rightarrow>
                  (Inr \<lparr>pa_items = map (\<lambda>x. if dict_get (ar_answers wider) (pi_id x) = None then x else wide_item v untold x) items,
                        pa_answers = dict_update (ar_answers found) (ar_answers wider),
                        pa_first = found, pa_again = wider\<rparr>, rows2)))"

definition charged_row :: "nat \<times> ustr \<times> ustr \<Rightarrow> politics_row" where
  "charged_row = (\<lambda>(i, article, quote). \<lparr>pol_group = i, pol_verdict = POLITICAL, pol_method = ''article'',
     pol_reason = (ru ''st. '') @ article @ (ru '' '' @ [1059, 1050] @ ru '' '' @ [8212] @ ru '' politiCeskaA statqA''), pol_quote = quote\<rparr>)"

definition settled_row :: "politics_view \<Rightarrow> (ustr \<times> ustr option) list \<Rightarrow> profile \<Rightarrow> politics_row option" where
  "settled_row v base p = map_option (\<lambda>(verdict, method, reason).
     \<lparr>pol_group = pf_id p, pol_verdict = verdict, pol_method = method, pol_reason = reason,
      pol_quote = (case politics_quotes v (pf_id p) of q # _ \<Rightarrow> q | [] \<Rightarrow> [])\<rparr>) (settled v base p)"

definition answered_verdict :: "bool \<Rightarrow> (nat, model_answer) dict \<Rightarrow> politics_item \<Rightarrow> politics_row" where
  "answered_verdict no_model answers x =
     (let (verdict, reason) = (case dict_get answers (pi_id x) of
          None \<Rightarrow> (UNCLEAR, if no_model then (ru ''modelq ne nastroena'') else (ru ''modelq ne otvetila''))
        | Some a \<Rightarrow> (verdict_of (ma_value a), ma_explanation a))
      in \<lparr>pol_group = pi_id x, pol_verdict = verdict, pol_method = ''model'', pol_reason = reason,
          pol_quote = (case pi_quotes x of q # _ \<Rightarrow> q | [] \<Rightarrow> [])\<rparr>)"

text \<open>A political case of a person named by one word, unless a person made it a figurant.\<close>

definition unknown_person :: "politics_facts \<Rightarrow> nat \<Rightarrow> bool" where
  "unknown_person f i \<longleftrightarrow> list_ex (\<lambda>p. pf_id p = i \<and> nameless (pf_name p) \<and> pf_method p \<noteq> MANUAL) (po_figurants f)"

definition held_back :: "politics_facts \<Rightarrow> politics_row \<Rightarrow> politics_row" where
  "held_back f r =
     (if pol_verdict r = POLITICAL \<and> unknown_person f (pol_group r)
      then r\<lparr>pol_verdict := UNCLEAR, pol_reason := NAMELESS @ [32, 40] @ pol_reason r @ [41]\<rparr> else r)"

definition decided_row :: "politics_facts \<Rightarrow> politics_row \<Rightarrow> politics_row" where
  "decided_row f r = (case dict_get (po_decided f) (pol_group r) of
     None \<Rightarrow> r | Some verdict \<Rightarrow> r\<lparr>pol_verdict := verdict, pol_method := MANUAL, pol_reason := decided_by_hand\<rparr>)"

definition verdict_rows_of ::
  "bool \<Rightarrow> politics_view \<Rightarrow> (ustr \<times> ustr option) list \<Rightarrow> politics_facts \<Rightarrow> politics_asked \<Rightarrow> politics_row list" where
  "verdict_rows_of no_model v base f asked =
     map (decided_row f \<circ> held_back f)
       (map charged_row (po_charged f) @ List.map_filter (settled_row v base) (not_charged f)
        @ map (answered_verdict no_model (pa_answers asked)) (pa_items asked))"

record politics_result =
  pr_figurants :: nat
  pr_rules :: nat
  pr_memorial :: nat
  pr_base :: nat
  pr_model :: nat
  pr_criminal :: nat
  pr_criminal_rules :: nat
  pr_political_manual :: nat
  pr_criminal_manual :: nat
  pr_unclear :: nat
  pr_asked :: nat
  pr_cached :: nat
  pr_failures :: nat
  pr_unasked :: nat

definition politics_counted :: "politics_facts \<Rightarrow> politics_asked \<Rightarrow> politics_row list \<Rightarrow> politics_result" where
  "politics_counted f asked rows =
     (let number = (\<lambda>verdict method. length (filter (\<lambda>r. pol_verdict r = verdict \<and> pol_method r = method) rows));
          found = pa_first asked; wider = pa_again asked in
      \<lparr>pr_figurants = length (po_figurants f), pr_rules = number POLITICAL ''article'',
       pr_memorial = number POLITICAL ''memorial'', pr_base = number POLITICAL BASE, pr_model = number POLITICAL ''model'',
       pr_criminal = length (filter (\<lambda>r. pol_verdict r = CRIMINAL) rows), pr_criminal_rules = number CRIMINAL ''article'',
       pr_political_manual = number POLITICAL MANUAL, pr_criminal_manual = number CRIMINAL MANUAL,
       pr_unclear = length (filter (\<lambda>r. pol_verdict r = UNCLEAR) rows),
       pr_asked = ar_asked found + ar_asked wider, pr_cached = ar_cached found,
       pr_failures = ar_failures found + ar_failures wider, pr_unasked = ar_unasked found + ar_unasked wider\<rparr>)"

definition find_politics ::
  "politics_view \<Rightarrow> classifier option \<Rightarrow> script \<Rightarrow> classifier option \<Rightarrow> script \<Rightarrow> nat \<Rightarrow> 'd politics_db
     \<Rightarrow> (call_error + politics_result) \<times> 'd politics_db" where
  "find_politics v classifier script again script' now db =
     (let f = politics_facts_of db; base = base_rows db;
          (asked, answers) = ask_twice v classifier script again script' now (asked_profiles v base f) (politics_answers db);
          db' = db\<lparr>politics_answers := answers\<rparr>
      in case asked of
           Inl e \<Rightarrow> (Inl e, db')
         | Inr a \<Rightarrow>
             let rows = verdict_rows_of (Option.is_none classifier) v base f a
             in (Inr (politics_counted f a rows), db'\<lparr>politics_rows := rows\<rparr>))"

text \<open>
  \<open>GroupFollowers.role_withdrawn\<close>: what steps before this one call when a group stops being a
  figurant, its verdicts being what is kept downstream of them.
\<close>

definition role_withdrawn :: "nat \<Rightarrow> politics_row list \<Rightarrow> politics_row list" where
  "role_withdrawn i rows = filter (\<lambda>r. pol_group r \<noteq> i) rows"

end
