(* ===== verification/Role_Laws.thy ===== *)
theory Role_Laws
  imports Roles
begin

text \<open>
  What step 4 and the commands on it keep: one role for each entity, a ground for each
  figurant, a person's word over everything the run finds, and the exclusion list.
\<close>

section \<open>Keys and what is found under them\<close>

lemma ids_by_key_in:
  "dict_get (ids_by_key keys) k = Some i \<Longrightarrow> (i, k) \<in> set keys"
proof -
  have "dict_get (fold (\<lambda>(i, key). dict_set key i) ks d) k = Some i \<Longrightarrow> (i, k) \<in> set ks \<or> dict_get d k = Some i" for ks d
    by (induction ks arbitrary: d) (fastforce simp: dict_get_set split: if_splits)+
  then show "dict_get (ids_by_key keys) k = Some i \<Longrightarrow> ?thesis"
    unfolding ids_by_key_def by (fastforce simp: dict_get_def)
qed

lemma ids_by_key_found:
  assumes "(i, k) \<in> set keys" and "distinct (map snd keys)"
  shows "dict_get (ids_by_key keys) k = Some i"
proof -
  have other: "k \<notin> set (map snd ks) \<Longrightarrow> dict_get (fold (\<lambda>(i, key). dict_set key i) ks d) k = dict_get d k"
    for ks and d :: "(ustr, nat) dict"
    by (induction ks arbitrary: d) (auto simp: dict_get_set)
  have "(i, k) \<in> set ks \<Longrightarrow> distinct (map snd ks) \<Longrightarrow> dict_get (fold (\<lambda>(i, key). dict_set key i) ks d) k = Some i"
    for ks and d :: "(ustr, nat) dict"
  proof (induction ks arbitrary: d)
    case (Cons x xs)
    show ?case
    proof (cases "x = (i, k)")
      case True
      then show ?thesis using other [of xs "dict_set k i d"] Cons.prems(2) by (simp add: dict_get_set)
    next
      case False
      then show ?thesis using Cons by auto
    qed
  qed simp
  then show ?thesis using assms unfolding ids_by_key_def by blast
qed

lemma today_known: "key \<in> set known \<Longrightarrow> today known key = Some key"
  by (simp add: today_def)

lemma decisions_found_keys: "distinct (dict_keys (decisions_found exact keys decided))"
proof -
  have "distinct (dict_keys d) \<Longrightarrow> distinct (dict_keys (fold (\<lambda>(key, role) found.
         case today (unique (map snd keys)) key of
           None \<Rightarrow> found
         | Some now \<Rightarrow>
             if (now = key) = exact
             then (case dict_get (ids_by_key keys) now of None \<Rightarrow> found | Some i \<Rightarrow> dict_set i role found)
             else found) ds d))" for ds and d :: "(nat, string) dict"
    by (induction ds arbitrary: d) (auto simp: distinct_dict_set split: option.split)
  then show ?thesis unfolding decisions_found_def by (simp add: dict_keys_def)
qed

lemma dict_get_update:
  "distinct (dict_keys b) \<Longrightarrow> dict_get (dict_update a b) k = (case dict_get b k of Some x \<Rightarrow> Some x | None \<Rightarrow> dict_get a k)"
proof (induction b arbitrary: a)
  case (Cons x xs)
  obtain p q where x: "x = (p, q)" by fastforce
  have "dict_get (dict_update a (x # xs)) k =
      (case dict_get xs k of Some y \<Rightarrow> Some y | None \<Rightarrow> dict_get (dict_set p q a) k)"
    using Cons.IH [of "dict_set p q a"] Cons.prems by (simp add: dict_update_def dict_keys_def x)
  moreover have "k = p \<Longrightarrow> dict_get xs k = None"
    using Cons.prems by (auto simp: dict_keys_def dict_get_None x)
  ultimately show ?case by (auto simp: x dict_get_def dict_get_set [unfolded dict_get_def] split: option.split)
qed (simp add: dict_update_def dict_get_def)

text \<open>A decision under the very key of an entity is the one that counts.\<close>

lemma exact_decision:
  assumes "dict_get decided k = Some role" and "distinct (dict_keys decided)"
    and "(i, k) \<in> set keys" and "distinct (map fst keys)" and "distinct (map snd keys)"
  shows "dict_get (role_decisions keys decided) i = Some role"
proof -
  let ?step = "\<lambda>(key, role) found.
         case today (unique (map snd keys)) key of
           None \<Rightarrow> found
         | Some now \<Rightarrow>
             if (now = key) = True
             then (case dict_get (ids_by_key keys) now of None \<Rightarrow> found | Some i \<Rightarrow> dict_set i role found)
             else found"
  have known: "today (unique (map snd keys)) k = Some k" using assms(3) by (intro today_known) force
  have id: "dict_get (ids_by_key keys) k = Some i" by (rule ids_by_key_found [OF assms(3,5)])
  have only: "key = k" if "dict_get (ids_by_key keys) key = Some i" for key
    using ids_by_key_in [OF that] assms(3,4) by (metis eq_key_imp_eq_value)
  have skip: "k \<notin> set (dict_keys ds) \<Longrightarrow> dict_get (fold ?step ds d) i = dict_get d i" for ds d
  proof (induction ds arbitrary: d)
    case (Cons x xs)
    have "dict_get (?step x d) i = dict_get d i"
      using Cons.prems only by (cases x) (auto simp: dict_get_set dict_keys_def split: option.split)
    then show ?case using Cons by (simp add: dict_keys_def)
  qed simp
  have "(k, role) \<in> set ds \<Longrightarrow> distinct (dict_keys ds) \<Longrightarrow> dict_get (fold ?step ds d) i = Some role" for ds d
  proof (induction ds arbitrary: d)
    case (Cons x xs)
    show ?case
    proof (cases "x = (k, role)")
      case True
      then have "dict_get (fold ?step xs (?step x d)) i = dict_get (?step x d) i"
        using Cons.prems(2) by (intro skip) (simp add: dict_keys_def)
      then show ?thesis using True known id by (simp add: dict_get_set)
    next
      case False
      then show ?thesis using Cons by (auto simp: dict_keys_def)
    qed
  qed simp
  then have "dict_get (decisions_found True keys decided) i = Some role"
    using assms(1,2) unfolding decisions_found_def by (simp add: dict_get_def map_of_SomeD)
  then show ?thesis unfolding role_decisions_def dict_get_update [OF decisions_found_keys] by simp
qed

section \<open>One role each\<close>

lemma official_row_is:
  assumes "official_row v f e = Some r"
  shows "role_group r = re_id e" and "role_name r = MENTIONED" and "role_method r = ''official''"
    and "dict_get (ff_marks f) (re_id e) \<noteq> Some False"
    and "titled_official f (re_id e) \<or> dict_get (ff_excluded f) (re_id e) \<noteq> None"
  using assms by (auto simp: official_row_def Let_def split: prod.splits if_splits)

lemma official_row_None:
  "official_row v f e = None \<longleftrightarrow> dict_get (ff_marks f) (re_id e) = Some False \<or>
     \<not> titled_official f (re_id e) \<and> dict_get (ff_excluded f) (re_id e) = None"
  by (auto simp: official_row_def Let_def split: prod.splits)

lemma official_row_of_titled: "titled_official f (re_id e) \<Longrightarrow> official_row v f e \<noteq> None"
  by (auto simp: official_row_None titled_official_def)

lemma is_official_iff:
  assumes "e \<in> set (ff_entities f)" and "distinct (map re_id (ff_entities f))"
  shows "is_official v f (re_id e) \<longleftrightarrow> official_row v f e \<noteq> None"
proof
  assume "is_official v f (re_id e)"
  then consider "titled_official f (re_id e)" | r where "r \<in> set (official_rows v f)" "role_group r = re_id e"
    unfolding is_official_def by auto
  then show "official_row v f e \<noteq> None"
  proof cases
    case 2
    then obtain e' where e': "e' \<in> set (ff_entities f)" "official_row v f e' = Some r"
      unfolding official_rows_def in_map_filter by blast
    then have "re_id e' = re_id e" using official_row_is(1) 2(2) by simp
    then have "e' = e" using assms e'(1) by (metis distinct_map inj_on_def)
    then show ?thesis using e'(2) by simp
  qed (rule official_row_of_titled)
next
  assume "official_row v f e \<noteq> None"
  then obtain r where r: "official_row v f e = Some r" by blast
  then have "r \<in> set (official_rows v f)" using assms(1) unfolding official_rows_def in_map_filter by blast
  then show "is_official v f (re_id e)" using official_row_is(1) [OF r] unfolding is_official_def by force
qed

lemma groups_of_map_filter:
  "(\<And>e r. g e = Some r \<Longrightarrow> role_group r = re_id e) \<Longrightarrow>
     map role_group (List.map_filter g es) = map re_id (filter (\<lambda>e. g e \<noteq> None) es)"
  by (induction es) (auto simp: List.map_filter_simps split: option.split)

lemma overridden_group [simp]: "role_group (overridden f r) = role_group r"
  by (auto simp: overridden_def split: option.split)

lemma rest_row_group [simp]: "role_group (rest_row no_model v f answers e) = re_id e"
  by (auto simp: rest_row_def unanswered_row_def answered_row_def Let_def split: option.split)

lemma operator_row_group [simp]: "role_group (operator_row v e) = re_id e"
  by (simp add: operator_row_def)

lemma role_rows_groups:
  assumes "distinct (map re_id (ff_entities f))"
  shows "mset (map role_group (role_rows_of no_model v f answers)) = mset (map re_id (ff_entities f))"
proof -
  let ?es = "ff_entities f"
  have "filter (\<lambda>e. official_row v f e \<noteq> None) ?es = filter (\<lambda>e. is_official v f (re_id e)) ?es"
    using is_official_iff [OF _ assms] by (intro filter_cong) auto
  then have officials: "map role_group (official_rows v f) = map re_id (filter (\<lambda>e. is_official v f (re_id e)) ?es)"
    unfolding official_rows_def using groups_of_map_filter [of "official_row v f" ?es] official_row_is(1) by metis
  have split: "mset (map re_id (filter p es)) + mset (map re_id (filter (\<lambda>e. \<not> p e) es)) = mset (map re_id es)" for p es
    by (induction es) auto
  have others: "mset (map re_id (operator_entities v f)) + mset (map re_id (rest_entities v f)) =
      mset (map re_id (filter (\<lambda>e. \<not> is_official v f (re_id e)) ?es))"
    using split [of "\<lambda>e. re_id e \<in> set (ff_operator f)" "filter (\<lambda>e. \<not> is_official v f (re_id e)) ?es"]
    unfolding operator_entities_def rest_entities_def filter_filter by (simp add: conj_commute)
  have "map role_group (role_rows_of no_model v f answers) =
      map role_group (official_rows v f) @ map re_id (operator_entities v f) @ map re_id (rest_entities v f)"
    unfolding role_rows_of_def by (simp add: comp_def)
  then show ?thesis using officials others split [of "\<lambda>e. is_official v f (re_id e)" ?es] by simp
qed

text \<open>What a run that came through has written.\<close>

lemma find_figurants_roles:
  assumes "find_figurants v classifier script now db = (Inr res, db')"
  shows "\<exists>r rows. ask_roles v classifier script now (rest_entities v (facts_of v db)) (answer_rows db) = (Inr r, rows) \<and>
     roles (tables db') = role_rows_of (Option.is_none classifier) v (facts_of v db) (ar_answers r) \<and>
     groups (tables db') = groups (tables db) \<and> fg_entities res = length (groups (tables db))"
  using assms by (auto simp: find_figurants_def Let_def counted_def facts_of_def entities_of_def split: prod.splits sum.splits)

lemma entities_ids: "mset (map re_id (ff_entities (facts_of v db))) = mset (map group_id (groups (tables db)))"
  by (simp add: facts_of_def entities_of_def Let_def comp_def del: mset_map) (simp only: mset_map mset_sort)

lemma entities_distinct:
  "distinct (map group_id (groups (tables db))) \<Longrightarrow> distinct (map re_id (ff_entities (facts_of v db)))"
  using entities_ids mset_eq_imp_distinct_iff by metis

text \<open>
  C11. Every entity gets one role: after a run that came through, the role rows are of exactly the
  entities there are, one row each, whoever spoke about it - the texts, the list, the operator,
  the rules or the model - and the number reported is theirs.
\<close>

theorem every_entity_has_one_role:
  assumes "find_figurants v classifier script now db = (Inr res, db')"
    and "distinct (map group_id (groups (tables db)))"
  shows "mset (map role_group (roles (tables db'))) = mset (map group_id (groups (tables db'))) \<and>
    distinct (map role_group (roles (tables db'))) \<and> fg_entities res = length (roles (tables db'))"
proof -
  obtain r rows where run: "ask_roles v classifier script now (rest_entities v (facts_of v db)) (answer_rows db) = (Inr r, rows)"
      "roles (tables db') = role_rows_of (Option.is_none classifier) v (facts_of v db) (ar_answers r)"
      "groups (tables db') = groups (tables db)" "fg_entities res = length (groups (tables db))"
    using find_figurants_roles [OF assms(1)] by blast
  have same: "mset (map role_group (roles (tables db'))) = mset (map group_id (groups (tables db)))"
    unfolding run(2) role_rows_groups [OF entities_distinct [OF assms(2)]] by (rule entities_ids)
  moreover have "length (roles (tables db')) = length (groups (tables db))"
    using arg_cong [OF same, of size] unfolding size_mset length_map .
  ultimately show ?thesis using run(3,4) assms(2) mset_eq_imp_distinct_iff by metis
qed

section \<open>The ground of a figurant\<close>

lemma different_roles [simp]: "MENTIONED \<noteq> FIGURANT" "POSSIBLE \<noteq> FIGURANT" "UNCLEAR \<noteq> FIGURANT"
  by (simp_all add: MENTIONED_def FIGURANT_def POSSIBLE_def UNCLEAR_def)

lemma role_of_figurant: "role_of kind = FIGURANT \<longleftrightarrow> kind = ''accused''"
  by (auto simp: role_of_def)

lemma rest_row_figurant:
  "role_name (rest_row no_model v f answers e) = FIGURANT \<Longrightarrow>
     (case dict_get answers (re_id e) of Some a \<Rightarrow> ma_value a = ''accused'' | None \<Rightarrow> re_charge e \<noteq> None)"
  by (auto simp: rest_row_def unanswered_row_def answered_row_def Let_def role_of_figurant split: option.splits if_splits)

lemma overridden_figurant:
  assumes "role_name (overridden f r) = FIGURANT"
  shows "dict_get (ff_decided f) (role_group r) = Some FIGURANT \<and> dict_get (ff_marks f) (role_group r) \<noteq> Some True \<or>
    (dict_get (ff_decided f) (role_group r) = None \<or> dict_get (ff_marks f) (role_group r) = Some True) \<and> role_name r = FIGURANT"
  using assms by (auto simp: overridden_def split: option.splits if_splits)

lemma marked_is_official:
  "dict_get (ff_marks f) (re_id e) = Some True \<Longrightarrow> e \<in> set (ff_entities f) \<Longrightarrow> is_official v f (re_id e)"
  by (auto simp: is_official_def titled_official_def)


section \<open>A person's word\<close>

lemma find_put_role: "role_of_group (role_group r) (put_role r rs) = Some r"
proof (cases "list_ex (\<lambda>x. role_group x = role_group r) rs")
  case True
  then show ?thesis unfolding put_role_def role_of_group_def by (induction rs) auto
next
  case False
  then have "find (\<lambda>x. role_group x = role_group r) rs = None" by (simp add: find_None_iff list_ex_iff)
  then show ?thesis using False unfolding put_role_def role_of_group_def
    by (induction rs) auto
qed

lemma role_or_blank_group: "role_group (role_or_blank i rs) = i"
  by (auto simp: role_or_blank_def role_of_group_def find_Some_iff split: option.split)

lemma decide_role_facts:
  assumes "decide_role withdrawn (i, key) role db = (Inr (), db')"
  shows "role \<in> set ROLES" and "decision_rows db' = dict_set key role (decision_rows db)"
    and "groups (tables db') = groups (tables db)" and "mark_rows db' = mark_rows db"
    and "dict_get (mark_rows db) key \<noteq> Some True \<Longrightarrow>
      (\<exists>r. role_of_group i (roles (tables db')) = Some r \<and> role_name r = role \<and> role_kind r = None \<and>
         role_method r = MANUAL \<and> role_reason r = decided_by_hand)"
proof -
  show "role \<in> set ROLES" "decision_rows db' = dict_set key role (decision_rows db)"
    "groups (tables db') = groups (tables db)" "mark_rows db' = mark_rows db"
    using assms by (auto simp: decide_role_def withdraw_def Let_def split: if_splits prod.splits)
  assume plain: "dict_get (mark_rows db) key \<noteq> Some True"
  let ?row = "(role_or_blank i (roles (tables db)))\<lparr>role_name := role, role_kind := None, role_method := MANUAL, role_reason := decided_by_hand\<rparr>"
  have "roles (tables db') = put_role ?row (roles (tables db))"
    using assms plain by (auto simp: decide_role_def withdraw_def Let_def split: if_splits)
  moreover have "role_of_group i (put_role ?row (roles (tables db))) = Some ?row"
    using find_put_role [of ?row] role_or_blank_group by simp
  ultimately show "\<exists>r. role_of_group i (roles (tables db')) = Some r \<and> role_name r = role \<and> role_kind r = None \<and>
         role_method r = MANUAL \<and> role_reason r = decided_by_hand"
    by (intro exI [of _ ?row]) simp
qed

lemma keys_of_entities:
  assumes "g \<in> set (groups (tables db))"
  shows "(group_id g, group_key g) \<in> set (map (\<lambda>e. (re_id e, re_key e)) (entities_of (tables db)))"
  using assms by (force simp: entities_of_def)

lemma distinct_entity_keys:
  assumes "distinct (map group_id (groups d))" and "distinct (map group_key (groups d))"
  shows "distinct (map fst (map (\<lambda>e. (re_id e, re_key e)) (entities_of d)))"
    and "distinct (map snd (map (\<lambda>e. (re_id e, re_key e)) (entities_of d)))"
proof -
  have "distinct (map f (sort_key group_id (groups d))) = distinct (map f (groups d))" for f :: "group_row \<Rightarrow> 'b"
    by (rule mset_eq_imp_distinct_iff) (simp only: mset_map mset_sort)
  then show "distinct (map fst (map (\<lambda>e. (re_id e, re_key e)) (entities_of d)))"
      "distinct (map snd (map (\<lambda>e. (re_id e, re_key e)) (entities_of d)))"
    using assms by (auto simp: entities_of_def comp_def)
qed

text \<open>
  C9. A person's word on a role outlives every run. When it was taken for an entity that is not
  marked an official, it is written at once, and the next run, whatever it reads and whatever the
  model answers, leaves the entity with that role, by the same method and for the same reason.
\<close>

theorem a_word_outlives_the_run:
  assumes "decide_role withdrawn (group_id g, group_key g) role db = (Inr (), db1)"
    and "find_figurants v classifier script now db1 = (Inr res, db2)"
    and "g \<in> set (groups (tables db))" and "distinct (map group_id (groups (tables db)))"
    and "distinct (map group_key (groups (tables db)))" and "distinct (dict_keys (decision_rows db))"
    and "dict_get (mark_rows db) (group_key g) \<noteq> Some True"
    and "dict_get (ff_marks (facts_of v db1)) (group_id g) \<noteq> Some True"
  shows "\<exists>at_once later. role_of_group (group_id g) (roles (tables db1)) = Some at_once \<and>
    later \<in> set (roles (tables db2)) \<and> role_group later = group_id g \<and>
    role_name at_once = role \<and> role_name later = role \<and> role_method at_once = MANUAL \<and> role_method later = MANUAL \<and>
    role_kind at_once = role_kind later \<and> role_reason at_once = role_reason later"
proof -
  note taken = decide_role_facts [OF assms(1)]
  let ?f = "facts_of v db1" and ?keys = "map (\<lambda>e. (re_id e, re_key e)) (entities_of (tables db1))"
  have "dict_get (decision_rows db1) (group_key g) = Some role" unfolding taken(2) by (simp add: dict_get_set)
  moreover have "distinct (dict_keys (decision_rows db1))" unfolding taken(2) by (rule distinct_dict_set [OF assms(6)])
  moreover have "(group_id g, group_key g) \<in> set ?keys" using keys_of_entities assms(3) taken(3) by metis
  moreover have "distinct (map fst ?keys)" "distinct (map snd ?keys)"
    using distinct_entity_keys [of "tables db1"] assms(4,5) taken(3) by simp_all
  ultimately have decided: "dict_get (ff_decided ?f) (group_id g) = Some role"
    using exact_decision unfolding facts_of_def by (simp add: Let_def)
  obtain r rows where "ask_roles v classifier script now (rest_entities v ?f) (answer_rows db1) = (Inr r, rows)"
    and written: "roles (tables db2) = role_rows_of (Option.is_none classifier) v ?f (ar_answers r)"
    using find_figurants_roles [OF assms(2)] by blast
  have "distinct (map group_id (groups (tables db1)))" using assms(4) taken(3) by simp
  then have "mset (map role_group (roles (tables db2))) = mset (map group_id (groups (tables db1)))"
    unfolding written using role_rows_groups [OF entities_distinct] entities_ids by metis
  then have "group_id g \<in> set (map role_group (roles (tables db2)))"
    using assms(3) taken(3) by (metis in_set_conv_nth length_map list.set_map imageI set_mset_mset)
  then obtain y where y: "y \<in> set (roles (tables db2))" "role_group y = group_id g" by auto
  then obtain x where "y = overridden ?f x" unfolding written role_rows_of_def set_map by blast
  then have x: "overridden ?f x \<in> set (roles (tables db2))" "role_group x = group_id g" using y by simp_all
  then have later: "overridden ?f x = x\<lparr>role_name := role, role_kind := None, role_method := MANUAL, role_reason := decided_by_hand\<rparr>"
    using decided assms(8) by (simp add: overridden_def)
  obtain at_once where "role_of_group (group_id g) (roles (tables db1)) = Some at_once" "role_name at_once = role"
      "role_kind at_once = None" "role_method at_once = MANUAL" "role_reason at_once = decided_by_hand"
    using taken(5) [OF assms(7)] by blast
  then show ?thesis using x later by (intro exI [of _ at_once] exI [of _ "overridden ?f x"]) (simp add: later)
qed

section \<open>The list\<close>

lemma add_if_new_keeps: "set rows \<subseteq> set (add_if_new r rows)"
  by (auto simp: add_if_new_def)

lemma add_if_new_distinct: "distinct (map ex_external rows) \<Longrightarrow> distinct (map ex_external (add_if_new r rows))"
  by (auto simp: add_if_new_def list_ex_iff)

lemma remember_titled_keeps:
  assumes "remember_titled u casefold entities titles marks rows = (n, rows')"
  shows "set rows \<subseteq> set rows'" and "distinct (map ex_external rows) \<Longrightarrow> distinct (map ex_external rows')"
proof -
  obtain new where rows': "rows' = fold add_if_new new rows" using assms by (auto simp: remember_titled_def Let_def)
  have "set rs \<subseteq> set (fold add_if_new new rs)" for rs
    by (induction new arbitrary: rs) (use add_if_new_keeps in fastforce)+
  then show "set rows \<subseteq> set rows'" unfolding rows' .
  have "distinct (map ex_external rs) \<Longrightarrow> distinct (map ex_external (fold add_if_new new rs))" for rs
    by (induction new arbitrary: rs) (simp_all add: add_if_new_distinct)
  then show "distinct (map ex_external rows) \<Longrightarrow> distinct (map ex_external rows')" unfolding rows' .
qed

text \<open>Rows under an id that is in the list already, or new ones with ids of their own.\<close>

lemma refresh_one_eq:
  "refresh_one before u ((c, n, k), rs) =
     (if ex_external u \<notin> ex_external ` set before then ((Suc c, n, k), rs @ [u])
      else if u \<in> set rs then ((c, n, Suc k), rs)
      else ((c, Suc n, k), update_rows (\<lambda>r. ex_external r = ex_external u) (\<lambda>_. u) rs))"
proof -
  have "list_ex (\<lambda>r. ex_external r = ex_external u) before \<longleftrightarrow> ex_external u \<in> ex_external ` set before"
    and "list_ex (\<lambda>r. r = u) rs \<longleftrightarrow> u \<in> set rs" by (auto simp: list_ex_iff intro: rev_image_eqI)
  then show ?thesis by (simp add: refresh_one_def)
qed

lemma refresh_one_step:
  assumes "refresh_one before u ((c, n, k), rs) = ((c', n', k'), rs')" and "distinct (map ex_external rs)"
    and "ex_external ` set before \<subseteq> ex_external ` set rs"
    and "ex_external u \<in> ex_external ` set before \<or> ex_external u \<notin> ex_external ` set rs"
  shows "c' + n' + k' = Suc (c + n + k)" and "u \<in> set rs'" and "distinct (map ex_external rs')"
    and "ex_external ` set rs' = insert (ex_external u) (ex_external ` set rs)"
    and "\<forall>r \<in> set rs. ex_external r \<noteq> ex_external u \<longrightarrow> r \<in> set rs'"
proof -
  let ?new = "rs @ [u]" and ?changed = "update_rows (\<lambda>r. ex_external r = ex_external u) (\<lambda>_. u) rs"
  consider (created) "rs' = ?new" "ex_external u \<notin> ex_external ` set before" "c' + n' + k' = Suc (c + n + k)"
    | (unchanged) "rs' = rs" "u \<in> set rs" "c' + n' + k' = Suc (c + n + k)"
    | (updated) "rs' = ?changed" "ex_external u \<in> ex_external ` set before" "c' + n' + k' = Suc (c + n + k)"
    using assms(1) unfolding refresh_one_eq by (auto split: if_splits)
  then have "c' + n' + k' = Suc (c + n + k) \<and> u \<in> set rs' \<and> distinct (map ex_external rs') \<and>
      ex_external ` set rs' = insert (ex_external u) (ex_external ` set rs) \<and>
      (\<forall>r \<in> set rs. ex_external r \<noteq> ex_external u \<longrightarrow> r \<in> set rs')"
  proof cases
    case updated
    then obtain r where r: "r \<in> set rs" "ex_external r = ex_external u" using assms(3) by (metis imageE subsetD)
    have ids: "map ex_external ?changed = map ex_external rs" by (rule map_update_rows) simp
    then have "ex_external ` set ?changed = ex_external ` set rs" by (metis list.set_map)
    then show ?thesis using updated r ids assms(2) by (auto simp: set_update_rows image_iff intro: bexI [of _ r])
  qed (use assms(2,4) in auto)
  then show "c' + n' + k' = Suc (c + n + k)" "u \<in> set rs'" "distinct (map ex_external rs')"
    "ex_external ` set rs' = insert (ex_external u) (ex_external ` set rs)"
    "\<forall>r \<in> set rs. ex_external r \<noteq> ex_external u \<longrightarrow> r \<in> set rs'" by blast+
qed

lemma refresh_all:
  assumes "fold (refresh_one before) us ((c, n, k), rs) = ((c', n', k'), rs')" and "distinct (map ex_external rs)"
    and "ex_external ` set before \<subseteq> ex_external ` set rs" and "distinct (map ex_external us)"
    and "\<forall>u \<in> set us. ex_external u \<notin> ex_external ` set before \<longrightarrow> ex_external u \<notin> ex_external ` set rs"
  shows "c' + n' + k' = c + n + k + length us \<and> set us \<subseteq> set rs' \<and>
    (\<forall>r \<in> set rs. ex_external r \<notin> ex_external ` set us \<longrightarrow> r \<in> set rs')"
  using assms
proof (induction us arbitrary: c n k rs)
  case (Cons u us)
  obtain c1 n1 k1 rs1 where one: "refresh_one before u ((c, n, k), rs) = ((c1, n1, k1), rs1)" by (metis prod_cases3 surj_pair)
  have "ex_external u \<in> ex_external ` set before \<or> ex_external u \<notin> ex_external ` set rs" using Cons.prems(5) by auto
  note step = refresh_one_step [OF one Cons.prems(2,3) this]
  have more: "fold (refresh_one before) us ((c1, n1, k1), rs1) = ((c', n', k'), rs')" using Cons.prems(1) one by simp
  have known: "ex_external ` set before \<subseteq> ex_external ` set rs1" unfolding step(4)
    by (rule order_trans [OF Cons.prems(3) subset_insertI])
  have "ex_external x \<notin> ex_external ` set rs1" if new: "x \<in> set us" "ex_external x \<notin> ex_external ` set before" for x
  proof -
    have "ex_external x \<noteq> ex_external u" using Cons.prems(4) new(1) by (metis distinct.simps(2) imageI list.set_map list.simps(9))
    then show ?thesis unfolding step(4) using Cons.prems(5) new by simp
  qed
  then have rest: "c' + n' + k' = c1 + n1 + k1 + length us \<and> set us \<subseteq> set rs' \<and>
      (\<forall>r \<in> set rs1. ex_external r \<notin> ex_external ` set us \<longrightarrow> r \<in> set rs')"
    using Cons.IH [OF more step(3) known] Cons.prems(4) by simp
  moreover have "ex_external u \<notin> ex_external ` set us" using Cons.prems(4) by simp
  ultimately have "u \<in> set rs'" using step(2) by blast
  moreover have "r \<in> set rs'" if "r \<in> set rs" "ex_external r \<notin> ex_external ` set (u # us)" for r
    using that step(5) rest by simp
  ultimately show ?case using rest step(1) by simp
qed simp

lemma refresh_nothing:
  "set us \<subseteq> set rows \<Longrightarrow> fold (refresh_one rows) us ((c, n, k), rows) = ((c, n, k + length us), rows)"
proof (induction us arbitrary: k)
  case (Cons u us)
  then have "refresh_one rows u ((c, n, k), rows) = ((c, n, Suc k), rows)" by (auto simp: refresh_one_def list_ex_iff)
  then show ?case using Cons by simp
qed simp

text \<open>
  The list agrees with its source after a refresh, and a second one changes nothing: every
  entry given is in the list as given, no entry of anyone else was touched, each given entry was
  counted once as created, updated or unchanged, and refreshing again with the same entries
  counts all of them unchanged and leaves the list as it is.
\<close>

theorem refreshing_officials_again_changes_nothing:
  assumes "refresh_officials updates rows = (Inr (created, updated, unchanged), rows')"
    and "distinct (map ex_external rows)" and "distinct (map ex_external updates)"
  shows "created + updated + unchanged = length updates \<and> set updates \<subseteq> set rows' \<and>
    (\<forall>r \<in> set rows. ex_external r \<notin> ex_external ` set updates \<longrightarrow> r \<in> set rows') \<and>
    refresh_officials updates rows' = (Inr (0, 0, length updates), rows')"
proof -
  have "fold (refresh_one rows) updates ((0, 0, 0), rows) = ((created, updated, unchanged), rows')"
    using assms(1) by (auto simp: refresh_officials_def Let_def split: if_splits prod.splits)
  then have once: "created + updated + unchanged = length updates \<and> set updates \<subseteq> set rows' \<and>
    (\<forall>r \<in> set rows. ex_external r \<notin> ex_external ` set updates \<longrightarrow> r \<in> set rows')"
    using refresh_all [of rows updates 0 0 0 rows created updated unchanged rows'] assms(2,3) by simp
  then have "refresh_officials updates rows' = (Inr (0, 0, length updates), rows')"
    using refresh_nothing [of updates rows' 0 0 0] assms(3) by (simp add: refresh_officials_def)
  then show ?thesis using once by blast
qed

section \<open>Concrete runs\<close>

definition plain_group :: "nat \<Rightarrow> ustr \<Rightarrow> group_row" where
  "plain_group i key = \<lparr>group_id = i, group_key = key, group_name = key, group_variants = [], group_mention_count = 1,
     group_article_count = 1, group_event_types = [], group_last_published = None, group_gender = None,
     group_source = ''rules'', group_regions = []\<rparr>"

definition two_people :: "nat role_db" where
  "two_people = \<lparr>tables = \<lparr>groups = [plain_group 2 (ru ''petr petrov''), plain_group 1 (ru ''ivan ivanov'')],
       group_mentions_rows = [], group_figurants = [],
       charges = [\<lparr>charge_group = 1, charge_event = 5, charge_article = ascii ''207.3'', charge_other_targets = 0, charge_quote = ru ''delo''\<rparr>],
       roles = [], decisions = [], overrides = [], removals = [], next_group = 3, downstream = 0\<rparr>,
     mark_rows = [], decision_rows = [], excluded_rows = [], answer_rows = []\<rparr>"

definition plain_view :: finder_view where
  "plain_view = \<lparr>fv_unicode = russian, fv_casefold = (\<lambda>t. t), fv_digest = (\<lambda>_. ''h''), fv_contexts = [],
     fv_quotes = [], fv_identified = []\<rparr>"

lemma two_people_run:
  "\<exists>res db. find_figurants plain_view None [] 7 two_people = (Inr res, db) \<and>
     map (\<lambda>r. (role_group r, role_name r)) (roles (tables db)) = [(1, FIGURANT), (2, UNCLEAR)]"
proof -
  have "(case find_figurants plain_view None [] 7 two_people of
      (Inr res, db) \<Rightarrow> map (\<lambda>r. (role_group r, role_name r)) (roles (tables db)) = [(1, FIGURANT), (2, UNCLEAR)]
    | _ \<Rightarrow> False)" by code_simp
  then show ?thesis by (auto split: prod.splits sum.splits)
qed

theorem every_entity_has_one_role_witness:
  "\<exists>res db. find_figurants plain_view None [] 7 two_people = (Inr res, db) \<and> length (roles (tables db)) = 2 \<and>
     mset (map role_group (roles (tables db))) = {#1, 2#} \<and> fg_entities res = 2"
proof -
  obtain res db where run: "find_figurants plain_view None [] 7 two_people = (Inr res, db)"
    and rows: "map (\<lambda>r. (role_group r, role_name r)) (roles (tables db)) = [(1, FIGURANT), (2, UNCLEAR)]"
    using two_people_run by metis
  have "length (roles (tables db)) = 2" using arg_cong [OF rows, of length] by simp
  moreover have "map role_group (roles (tables db)) = [1, 2]" using arg_cong [OF rows, of "map fst"] by (simp add: comp_def)
  then have "mset (map role_group (roles (tables db))) = {#1, 2#}" by (simp del: mset_map)
  moreover have "distinct (map group_id (groups (tables two_people)))" by (simp add: two_people_def plain_group_def)
  then have "fg_entities res = length (roles (tables db))" using every_entity_has_one_role [OF run] by blast
  ultimately show ?thesis using run \<open>length (roles (tables db)) = 2\<close> by (metis (no_types))
qed


definition decided_two :: "nat role_db" where
  "decided_two = snd (decide_role (\<lambda>_ d. Suc d) (2, ru ''petr petrov'') POSSIBLE two_people)"

theorem a_word_outlives_the_run_witness:
  "\<exists>res db later. find_figurants plain_view None [] 7 decided_two = (Inr res, db) \<and> later \<in> set (roles (tables db)) \<and>
     role_group later = 2 \<and> role_name later = POSSIBLE \<and> role_method later = MANUAL \<and> downstream (tables decided_two) = 1"
proof -
  let ?g = "plain_group 2 (ru ''petr petrov'')"
  have taken: "decide_role (\<lambda>_ d. Suc d) (group_id ?g, group_key ?g) POSSIBLE two_people = (Inr (), decided_two)"
    by (simp add: decided_two_def plain_group_def decide_role_def ROLES_def Let_def two_people_def POSSIBLE_def FIGURANT_def)
  have "(case find_figurants plain_view None [] 7 decided_two of (Inr _, _) \<Rightarrow> True | _ \<Rightarrow> False)" by code_simp
  then obtain res db where run: "find_figurants plain_view None [] 7 decided_two = (Inr res, db)" by (auto split: prod.splits sum.splits)
  have "?g \<in> set (groups (tables two_people))" "distinct (map group_id (groups (tables two_people)))"
      "distinct (dict_keys (decision_rows two_people))" "dict_get (mark_rows two_people) (group_key ?g) \<noteq> Some True"
    by (simp_all add: two_people_def plain_group_def dict_keys_def dict_get_def)
  moreover have "distinct (map group_key (groups (tables two_people)))" by code_simp
  moreover have "ff_marks (facts_of plain_view decided_two) = []" by code_simp
  then have "dict_get (ff_marks (facts_of plain_view decided_two)) (group_id ?g) \<noteq> Some True" by (simp add: dict_get_def)
  ultimately have "\<exists>at_once later. role_of_group (group_id ?g) (roles (tables decided_two)) = Some at_once \<and>
    later \<in> set (roles (tables db)) \<and> role_group later = group_id ?g \<and>
    role_name at_once = POSSIBLE \<and> role_name later = POSSIBLE \<and> role_method at_once = MANUAL \<and> role_method later = MANUAL \<and>
    role_kind at_once = role_kind later \<and> role_reason at_once = role_reason later"
    using a_word_outlives_the_run [OF taken run] by blast
  moreover have "downstream (tables decided_two) = 1" by code_simp
  ultimately show ?thesis using run by (auto simp: plain_group_def)
qed

definition listed_judge :: "string \<Rightarrow> bool \<Rightarrow> excluded_row" where
  "listed_judge category active = \<lparr>ex_external = ascii ''rec1'', ex_name = ru ''ivan ivanov'', ex_normalized = ru ''ivan ivanov'',
     ex_category = category, ex_reason = None, ex_active = active\<rparr>"

theorem refreshing_officials_again_changes_nothing_witness:
  "\<exists>rows. refresh_officials [listed_judge ''judge'' False] [listed_judge ''judge'' True] = (Inr (0, 1, 0), rows) \<and>
     refresh_officials [listed_judge ''judge'' False] rows = (Inr (0, 0, 1), rows)"
proof -
  have run: "refresh_officials [listed_judge ''judge'' False] [listed_judge ''judge'' True] =
      (Inr (0, 1, 0), [listed_judge ''judge'' False])"
    by (simp add: refresh_officials_def refresh_one_def listed_judge_def)
  then show ?thesis using refreshing_officials_again_changes_nothing [OF run] by auto
qed

text \<open>The titles: a judge's is one, a former judge's is none.\<close>

lemma title_before_examples:
  "title_before russian (ru ''i sudqA'') = Some (ru ''sudqA'')"
  "title_before russian (ru ''byvSij sudqA'') = None"
  by code_simp+

lemma kind_of_title_examples:
  "kind_of_title (ru ''sudqA'') = ''judge''" "kind_of_title (ru ''predsedatelq suda'') = ''judge''"
  "kind_of_title (ru ''glave sk'') = ''police''" "kind_of_title (ru ''gubernator'') = ''official''"
  by code_simp+

text \<open>
  Marks have no such order as decisions: an older mark on a key of an earlier rebuild, read after
  the mark on today's own key, is the one that counts.
\<close>

lemma an_older_mark_can_win:
  "official_marks [(1, ru ''ivan ivanov'')] [(ru ''ivan ivanov'', True), (ru ''ivan ivanova'', False)] = [(1, False)]"
  "role_decisions [(1, ru ''ivan ivanov'')] [(ru ''ivan ivanov'', FIGURANT), (ru ''ivan ivanova'', MENTIONED)] = [(1, FIGURANT)]"
  by code_simp+

text \<open>
  A mark on a key of an earlier rebuild is not seen by \<open>decide_role\<close>: the word is taken and
  written, and the next run, which resolves the key, takes it back.
\<close>

definition marked_before :: "nat role_db" where
  "marked_before = two_people\<lparr>mark_rows := [(ru ''ivan ivanova'', True)]\<rparr>"

lemma a_word_taken_back:
  "(case decide_role (\<lambda>_ d. Suc d) (1, ru ''ivan ivanov'') FIGURANT marked_before of
      (Inr _, db) \<Rightarrow> map (\<lambda>r. (role_group r, role_name r)) (roles (tables db)) = [(1, FIGURANT)] \<and>
        (case find_figurants plain_view None [] 7 db of
           (Inr _, db') \<Rightarrow> map (\<lambda>r. (role_group r, role_name r)) (roles (tables db')) = [(1, MENTIONED), (2, UNCLEAR)]
         | _ \<Rightarrow> False)
    | _ \<Rightarrow> False)"
  by code_simp

text \<open>
  A positive answer under a key of an earlier rebuild: the query reads rows by today's keys and
  hashes alone, so when the quotes changed too the answer is not found, though the index of keys
  would resolve it.
\<close>

lemma an_older_key_is_asked_again:
  "cached ROLE_CACHE [(1, ru ''ivan ivanov'')] [(1, ''new'')] (Some ''m'')
     [\<lparr>ans_key = ru ''ivan ivanova'', ans_hash = ''old'', ans_version = ''roles-v5'', ans_model = ''m'', ans_value = ''accused'',
       ans_explanation = [], ans_at = 1\<rparr>] = []"
  "today [ru ''ivan ivanov''] (ru ''ivan ivanova'') = Some (ru ''ivan ivanov'')"
  by code_simp+

end
