(* ===== verification/Politics_Laws.thy ===== *)
theory Politics_Laws
  imports Politics Role_Laws
begin

text \<open>
  What step 5 and the operator's base keep: the index of the base finds what a search of all its
  records finds, a tracked case is the one record of its name, every figurant has one verdict,
  and no case is called political without a ground.
\<close>

section \<open>The base\<close>

lemma known_base_spelled: "r \<in> set (known_base u d names) \<Longrightarrow> s \<in> set (base_spellings r) \<Longrightarrow> s \<noteq> []"
  by (auto simp: known_base_def spellings_of_def Let_def in_map_filter split: if_splits)

text \<open>The index leaves no fitting record out.\<close>

lemma candidates_fitting:
  assumes "\<forall>r \<in> set base. [] \<notin> set (base_spellings r)" and "wanted \<noteq> []"
  shows "filter (record_fits base wanted) (candidates_of base wanted) = filter (record_fits base wanted) [0..<length base]"
proof (rule sorted_distinct_set_unique)
  have indexed: "i \<in> set (candidates_of base wanted)" if i: "i < length base" "record_fits base wanted i" for i
  proof -
    obtain s where s: "s \<in> set (base_spellings (base ! i))" "fits wanted s" using i(2) by (auto simp: record_fits_def list_ex_iff)
    then have "s \<noteq> []" using assms(1) i(1) by (metis nth_mem)
    then obtain w where w: "w \<in> set wanted" "w \<in> set s"
      using s(2) assms(2) unfolding fits_def by (metis list.set_intros(1) neq_Nil_conv subsetD)
    then have "i \<in> set (records_of_word base w)" using s(1) i(1) by (auto simp: records_of_word_def list_ex_iff)
    then show ?thesis using w(1) by (auto simp: candidates_of_def)
  qed
  have "set (candidates_of base wanted) \<subseteq> {0..<length base}" by (auto simp: candidates_of_def records_of_word_def)
  then show "set (filter (record_fits base wanted) (candidates_of base wanted)) = set (filter (record_fits base wanted) [0..<length base])"
    using indexed by auto
qed (simp_all add: candidates_of_def sorted_wrt_filter)

lemma judged_one:
  assumes "judged base wanted fitting = Some m" and "km_level m \<noteq> NAMESAKES" and "distinct fitting"
  shows "\<exists>i \<in> set fitting. km_names m = [base_name (base ! i)] \<and>
    (\<forall>j \<in> set fitting. j \<noteq> i \<longrightarrow> 3 \<le> length wanted \<and> \<not> list_ex (same_words wanted) (base_spellings (base ! j))) \<and>
    (km_level m = IN_BASE \<longleftrightarrow> list_ex (same_words wanted) (base_spellings (base ! i)))"
proof -
  let ?same = "\<lambda>i. list_ex (same_words wanted) (base_spellings (base ! i))"
  let ?exact = "filter ?same fitting" and ?close = "filter (\<lambda>i. \<not> ?same i) fitting"
  have all: "set fitting = set (?exact @ ?close)" by auto
  consider (exact) i where "?exact = [i]" "3 \<le> length wanted \<or> ?exact @ ?close = [i]" "km_level m = IN_BASE" "km_names m = [base_name (base ! i)]"
    | (close) i where "?exact @ ?close = [i]" "?exact = []" "km_level m = PROBABLY" "km_names m = [base_name (base ! i)]"
  proof -
    have "length ?exact = 1 \<and> (3 \<le> length wanted \<or> length (?exact @ ?close) = 1) \<or>
        length (?exact @ ?close) = 1"
      using assms(1,2) unfolding judged_def Let_def by (auto simp del: length_append append_is_Nil_conv filter_append map_append take_append split: if_splits)
    then have "length ?exact = 1 \<and> (3 \<le> length wanted \<or> length (?exact @ ?close) = 1) \<or>
        length (?exact @ ?close) = 1 \<and> length ?exact = 0" unfolding length_append by linarith
    then consider "length ?exact = 1" "3 \<le> length wanted \<or> length (?exact @ ?close) = 1"
      | "length (?exact @ ?close) = 1" "length ?exact = 0" by blast
    then show thesis
    proof cases
      case long: 1
      then obtain i where i: "?exact = [i]" by (metis One_nat_def length_0_conv length_Suc_conv)
      moreover have "3 \<le> length wanted \<or> ?exact @ ?close = [i]" using long(2) i by auto
      moreover have "km_level m = IN_BASE" "km_names m = [base_name (base ! i)]"
        using assms(1) i long(2) by (auto simp: judged_def Let_def SHOWN_def split: if_splits)
      ultimately show thesis using that(1) [of i] by blast
    next
      case 2
      then obtain i where i: "?exact = []" "?close = [i]" by (metis One_nat_def append_Nil length_0_conv length_Suc_conv)
      moreover have "km_level m = PROBABLY" "km_names m = [base_name (base ! i)]"
        using assms(1) i by (auto simp: judged_def Let_def SHOWN_def split: if_splits)
      ultimately show thesis using that(2) [of i] by simp
    qed
  qed
  then show ?thesis
  proof cases
    case (exact i)
    then have "i \<in> set ?exact" by simp
    moreover have "j = i" if "j \<in> set fitting" "?same j" for j using that arg_cong [OF exact(1), of set] by auto
    moreover have "3 \<le> length wanted \<or> set fitting = {i}"
      using exact(2) by (rule disj_forward) (simp, simp only: all list.set)
    then have "3 \<le> length wanted" if "j \<in> set fitting" "j \<noteq> i" for j using that by auto
    ultimately show ?thesis using exact(3,4) unfolding set_filter by (intro bexI [of _ i]) blast+
  next
    case (close i)
    have one: "set fitting = {i}" unfolding all close(1) by simp
    then have "\<not> ?same i" using close(2) unfolding filter_empty_conv by blast
    then show ?thesis using one close(3,4) by (intro bexI [of _ i]) simp_all
  qed
qed

lemma candidates_distinct: "distinct (filter P (candidates_of base wanted))"
  by (simp add: candidates_of_def)

text \<open>
  C17. A tracked case is the one record of its name. When the base is said to track a person's
  case, a record of that name fits it, every other record of the whole base that fits has fewer
  or more words while the person's name has three or more (so none of them is its very name),
  and the case stands on an article that is the person's own and says what the case is of.
\<close>

theorem a_tracked_case_is_the_one_record:
  assumes "match_tracked u is_digit records name articles = Some c"
  defines "base \<equiv> known_base u is_digit (map fst records)" and "wanted \<equiv> base_words u name"
  shows "2 \<le> length wanted \<and>
    (\<exists>i < length base. base_name (base ! i) = tc_name c \<and> record_fits base wanted i \<and>
       (\<forall>j < length base. record_fits base wanted j \<longrightarrow> j \<noteq> i \<longrightarrow>
          3 \<le> length wanted \<and> \<not> list_ex (same_words wanted) (base_spellings (base ! j)))) \<and>
    tc_articles c \<noteq> [] \<and> set (tc_articles c) \<subseteq> set articles - set NEUTRAL_ARTICLES"
proof -
  obtain m where found: "match_known u base name = Some m" and level: "km_level m \<noteq> NAMESAKES" and name: "tc_name c = hd (km_names m)"
    and shared: "tc_articles c = sort (filter (\<lambda>a. a \<in> set articles) (articles_of_name u records (hd (km_names m))))" "tc_articles c \<noteq> []"
    using assms(1) by (auto simp: match_tracked_def base_def Let_def split: option.splits if_splits)
  have long: "2 \<le> length wanted" and judged: "judged base wanted (filter (record_fits base wanted) (candidates_of base wanted)) = Some m"
    using found by (auto simp: match_known_def wanted_def Let_def split: if_splits)
  have "\<forall>r \<in> set base. [] \<notin> set (base_spellings r)" using known_base_spelled unfolding base_def by blast
  then have same: "filter (record_fits base wanted) (candidates_of base wanted) = filter (record_fits base wanted) [0..<length base]"
    using long by (intro candidates_fitting) auto
  obtain i where "i < length base" "record_fits base wanted i" "km_names m = [base_name (base ! i)]"
      "\<forall>j < length base. record_fits base wanted j \<longrightarrow> j \<noteq> i \<longrightarrow>
          3 \<le> length wanted \<and> \<not> list_ex (same_words wanted) (base_spellings (base ! j))"
    using judged_one [OF judged level candidates_distinct] unfolding same by auto
  moreover have "set (tc_articles c) \<subseteq> set articles - set NEUTRAL_ARTICLES"
    unfolding shared(1) by (auto simp: articles_of_name_def split: if_splits prod.splits)
  ultimately show ?thesis using long shared(2) name by auto
qed

section \<open>One verdict each\<close>

lemma ids_of_profiles:
  "(\<And>g x. h g = Some x \<Longrightarrow> pf_id x = group_id g) \<Longrightarrow>
     map pf_id (List.map_filter h gs) = map group_id (filter (\<lambda>g. h g \<noteq> None) gs)"
  by (induction gs) (auto simp: List.map_filter_simps split: option.split)

lemma profile_ids_distinct:
  assumes "distinct (map group_id (groups db))"
  shows "distinct (map pf_id (figurant_profiles db))"
proof -
  have "distinct (map group_id (sort_key group_id (groups db))) = distinct (map group_id (groups db))"
    by (rule mset_eq_imp_distinct_iff) (simp only: mset_map mset_sort)
  then have "distinct (map group_id (filter p (sort_key group_id (groups db))))" for p
    using assms by (simp add: distinct_map_filter)
  then show ?thesis
    unfolding figurant_profiles_def by (subst ids_of_profiles) (auto split: option.splits)
qed

lemma first_charges_in:
  "(i, article, quote) \<in> set (first_charge_quotes ids articles cs) \<Longrightarrow>
     i \<in> set ids \<and> article \<in> set articles \<and> (\<exists>c \<in> set cs. charge_group c = i \<and> charge_article c = article \<and> charge_quote c = quote)"
proof -
  assume "(i, article, quote) \<in> set (first_charge_quotes ids articles cs)"
  then obtain j where j: "j \<in> set ids"
      "(case sort_key charge_other_targets (filter (\<lambda>c. charge_group c = j \<and> charge_article c \<in> set articles) cs) of
         [] \<Rightarrow> None | c # _ \<Rightarrow> Some (j, (charge_article c, charge_quote c))) = Some (i, article, quote)"
    unfolding first_charge_quotes_def in_map_filter by auto
  then obtain c rest where c: "sort_key charge_other_targets (filter (\<lambda>c. charge_group c = j \<and> charge_article c \<in> set articles) cs) = c # rest"
    by (auto split: list.splits)
  then have i: "j = i" "article = charge_article c" "quote = charge_quote c" using j(2) by auto
  have "c \<in> set (filter (\<lambda>c. charge_group c = i \<and> charge_article c \<in> set articles) cs)"
    using arg_cong [OF c, of set] unfolding i(1) by (metis list.set_intros(1) set_sort)
  then show ?thesis using j(1) i by auto
qed

lemma first_charges_distinct: "distinct (map fst (first_charge_quotes ids articles cs))"
proof -
  have "map fst (List.map_filter (\<lambda>i. case h i of [] \<Rightarrow> None | c # _ \<Rightarrow> Some (i, k c)) is) = filter (\<lambda>i. h i \<noteq> []) is"
    for h :: "nat \<Rightarrow> charge_row list" and k :: "charge_row \<Rightarrow> ustr \<times> ustr" and "is"
    by (induction "is") (auto simp: List.map_filter_simps split: list.split)
  then show ?thesis unfolding first_charge_quotes_def by simp
qed

lemma charged_ids:
  assumes "distinct (map pf_id (po_figurants f))" and "distinct (map fst (po_charged f))"
    and "set (map fst (po_charged f)) \<subseteq> set (map pf_id (po_figurants f))"
  shows "mset (map fst (po_charged f)) + mset (map pf_id (not_charged f)) = mset (map pf_id (po_figurants f))"
proof -
  let ?charged = "\<lambda>p. dict_get (po_charged f) (pf_id p) = None"
  have "set (map fst (po_charged f)) = set (map pf_id (filter (\<lambda>p. \<not> ?charged p) (po_figurants f)))"
  proof
    show "set (map pf_id (filter (\<lambda>p. \<not> ?charged p) (po_figurants f))) \<subseteq> set (map fst (po_charged f))"
      by (auto simp: dict_get_None dict_keys_def)
    show "set (map fst (po_charged f)) \<subseteq> set (map pf_id (filter (\<lambda>p. \<not> ?charged p) (po_figurants f)))"
    proof
      fix i assume i: "i \<in> set (map fst (po_charged f))"
      then obtain p where "p \<in> set (po_figurants f)" "pf_id p = i" using assms(3) by auto
      moreover have "dict_get (po_charged f) i \<noteq> None" using i by (simp add: dict_get_None dict_keys_def)
      ultimately show "i \<in> set (map pf_id (filter (\<lambda>p. \<not> ?charged p) (po_figurants f)))" by auto
    qed
  qed
  then have "mset (map fst (po_charged f)) = mset (map pf_id (filter (\<lambda>p. \<not> ?charged p) (po_figurants f)))"
    using assms(1,2) distinct_map_filter set_eq_iff_mset_eq_distinct by blast
  moreover have "mset (map pf_id (filter p ps)) + mset (map pf_id (filter (\<lambda>x. \<not> p x) ps)) = mset (map pf_id ps)" for p ps
    by (induction ps) auto
  ultimately show ?thesis unfolding not_charged_def by (metis add.commute)
qed

lemma row_groups [simp]:
  "pol_group (decided_row f r) = pol_group r" "pol_group (held_back f r) = pol_group r"
  "pol_group (answered_verdict no_model answers x) = pi_id x" "pol_group (charged_row c) = fst c"
  "pi_id (wide_item v untold x) = pi_id x" "pi_id (item_of v p) = pf_id p"
  by (auto simp: decided_row_def held_back_def answered_verdict_def charged_row_def wide_item_def item_of_def Let_def
      split: option.split prod.split)

lemma settled_groups:
  "map pol_group (List.map_filter (settled_row v base) ps) = map pf_id (filter (\<lambda>p. settled v base p \<noteq> None) ps)"
  by (induction ps) (auto simp: List.map_filter_simps settled_row_def split: option.split)

lemma asked_items:
  assumes "ask_twice v classifier script again script' now asked rows = (Inr a, rows')"
  shows "map pi_id (pa_items a) = map pf_id asked"
  using assms by (auto simp: ask_twice_def Let_def comp_def if_distrib [of pi_id] split: prod.splits sum.splits)

lemma find_politics_rows:
  assumes "find_politics v classifier script again script' now db = (Inr res, db')"
  shows "\<exists>a rows. ask_twice v classifier script again script' now (asked_profiles v (base_rows db) (politics_facts_of db))
       (politics_answers db) = (Inr a, rows) \<and>
     politics_rows db' = verdict_rows_of (Option.is_none classifier) v (base_rows db) (politics_facts_of db) a \<and>
     group_tables db' = group_tables db \<and> pr_figurants res = length (figurant_profiles (group_tables db))"
  using assms by (auto simp: find_politics_def Let_def politics_counted_def politics_facts_of_def split: prod.splits sum.splits)

lemma facts_of_politics:
  assumes "distinct (map group_id (groups (group_tables db)))"
  shows "distinct (map pf_id (po_figurants (politics_facts_of db)))" and "distinct (map fst (po_charged (politics_facts_of db)))"
    and "set (map fst (po_charged (politics_facts_of db))) \<subseteq> set (map pf_id (po_figurants (politics_facts_of db)))"
  using profile_ids_distinct [OF assms] first_charges_distinct first_charges_in
  by (fastforce simp: politics_facts_of_def Let_def)+

lemma verdicts_of_figurants:
  assumes "find_politics v classifier script again script' now db = (Inr res, db')"
    and "distinct (map group_id (groups (group_tables db)))"
  shows "mset (map pol_group (politics_rows db')) = mset (map pf_id (figurant_profiles (group_tables db)))"
proof -
  let ?f = "politics_facts_of db"
  obtain a rows where asked: "ask_twice v classifier script again script' now (asked_profiles v (base_rows db) ?f) (politics_answers db) = (Inr a, rows)"
    and written: "politics_rows db' = verdict_rows_of (Option.is_none classifier) v (base_rows db) ?f a"
    using find_politics_rows [OF assms(1)] by blast
  have figurants: "po_figurants ?f = figurant_profiles (group_tables db)" by (simp add: politics_facts_of_def Let_def)
  have split: "mset (map pf_id (filter p ps)) + mset (map pf_id (filter (\<lambda>x. \<not> p x) ps)) = mset (map pf_id ps)" for p ps
    by (induction ps) auto
  have "map pol_group (politics_rows db') = map fst (po_charged ?f) @
      map pf_id (filter (\<lambda>p. settled v (base_rows db) p \<noteq> None) (not_charged ?f)) @ map pf_id (asked_profiles v (base_rows db) ?f)"
    using asked_items [OF asked] unfolding written verdict_rows_of_def settled_groups [symmetric] by (simp add: comp_def)
  then have "mset (map pol_group (politics_rows db')) = mset (map fst (po_charged ?f)) +
      (mset (map pf_id (filter (\<lambda>p. settled v (base_rows db) p \<noteq> None) (not_charged ?f))) +
       mset (map pf_id (filter (\<lambda>p. settled v (base_rows db) p = None) (not_charged ?f))))"
    unfolding asked_profiles_def by (simp only: mset_append)
  also have "\<dots> = mset (map fst (po_charged ?f)) + mset (map pf_id (not_charged ?f))"
    using split [of "\<lambda>p. settled v (base_rows db) p = None" "not_charged ?f"] by (simp only: add.commute)
  also have "\<dots> = mset (map pf_id (figurant_profiles (group_tables db)))"
    using charged_ids [OF facts_of_politics [OF assms(2)]] unfolding figurants .
  finally show ?thesis .
qed

text \<open>
  C12. Every figurant gets one verdict: after a run that came through, the verdicts are of exactly
  the figurants, one each, whether the article, the base, the registry, the model or a person
  gave it, and whatever of the two askings failed or was left for want of budget.
\<close>

theorem every_figurant_has_one_verdict:
  assumes "find_politics v classifier script again script' now db = (Inr res, db')"
    and "distinct (map group_id (groups (group_tables db)))"
  shows "mset (map pol_group (politics_rows db')) = mset (map pf_id (figurant_profiles (group_tables db'))) \<and>
    distinct (map pol_group (politics_rows db')) \<and> pr_figurants res = length (politics_rows db')"
proof -
  obtain a rows where "ask_twice v classifier script again script' now (asked_profiles v (base_rows db) (politics_facts_of db))
       (politics_answers db) = (Inr a, rows)"
    and kept: "group_tables db' = group_tables db" "pr_figurants res = length (figurant_profiles (group_tables db))"
    using find_politics_rows [OF assms(1)] by blast
  note same = verdicts_of_figurants [OF assms]
  have "length (politics_rows db') = length (figurant_profiles (group_tables db))"
    using arg_cong [OF same, of size] unfolding size_mset length_map .
  then show ?thesis
    using same kept profile_ids_distinct [OF assms(2)] mset_eq_imp_distinct_iff by metis
qed

section \<open>The ground of a political verdict\<close>

lemma different_verdicts [simp]: "UNCLEAR \<noteq> POLITICAL" "CRIMINAL \<noteq> POLITICAL"
  by (simp_all add: UNCLEAR_def POLITICAL_def CRIMINAL_def)

lemma verdict_of_political: "verdict_of answer = POLITICAL \<longleftrightarrow> answer = ''political''"
  by (auto simp: verdict_of_def)

lemma final_political:
  assumes "pol_verdict (decided_row f (held_back f r)) = POLITICAL"
  shows "dict_get (po_decided f) (pol_group r) = Some POLITICAL \<or>
    dict_get (po_decided f) (pol_group r) = None \<and> \<not> unknown_person f (pol_group r) \<and> pol_verdict r = POLITICAL"
  using assms by (auto simp: decided_row_def held_back_def split: option.splits if_splits)

lemma settled_political:
  assumes "settled v base p = Some (POLITICAL, how, reason)"
  shows "match_tracked (pv_unicode v) (pv_is_digit v) base (pf_name p) (pf_own p) \<noteq> None \<or>
    (\<exists>c \<in> set POLITICAL_CATEGORIES. memorial_of v (pf_id p) = Some c)"
  using assms by (auto simp: settled_def settled_by_rules_def split: option.splits if_splits)

lemma settled_row_political:
  assumes "settled_row v base p = Some r" and "pol_verdict r = POLITICAL"
  shows "pol_group r = pf_id p" and "match_tracked (pv_unicode v) (pv_is_digit v) base (pf_name p) (pf_own p) \<noteq> None \<or>
    (\<exists>c \<in> set POLITICAL_CATEGORIES. memorial_of v (pf_id p) = Some c)"
proof -
  obtain how reason where "settled v base p = Some (POLITICAL, how, reason)" "pol_group r = pf_id p"
    using assms by (auto simp: settled_row_def)
  then show "pol_group r = pf_id p" "match_tracked (pv_unicode v) (pv_is_digit v) base (pf_name p) (pf_own p) \<noteq> None \<or>
    (\<exists>c \<in> set POLITICAL_CATEGORIES. memorial_of v (pf_id p) = Some c)"
    using settled_political by blast+
qed

lemma answered_political:
  "pol_verdict (answered_verdict no_model answers x) = POLITICAL \<Longrightarrow>
     \<exists>a. dict_get answers (pi_id x) = Some a \<and> ma_value a = ''political''"
  by (auto simp: answered_verdict_def Let_def verdict_of_political split: option.splits)

text \<open>
  C5. No case is called political without a ground. A figurant's verdict is political only if a
  person decided so; or nobody decided on it, it is not a person known by one word whom no
  person made a figurant, and one of four holds: it is charged under an article of the
  political list, the operator's base tracks its case, the registry's card names a category that
  settles it, or a model answered ''political'' in one of the two askings. A failed or missing
  answer never makes a case political.
\<close>

theorem a_political_case_has_a_ground:
  assumes "find_politics v classifier script again script' now db = (Inr res, db')"
    and "row \<in> set (politics_rows db')" and "pol_verdict row = POLITICAL"
  shows "dict_get (po_decided (politics_facts_of db)) (pol_group row) = Some POLITICAL \<or>
    dict_get (po_decided (politics_facts_of db)) (pol_group row) = None \<and>
    \<not> unknown_person (politics_facts_of db) (pol_group row) \<and>
    ((\<exists>c \<in> set (charges (group_tables db)). charge_group c = pol_group row \<and> charge_article c \<in> set POLITICAL_ARTICLES) \<or>
     (\<exists>p \<in> set (po_figurants (politics_facts_of db)). pf_id p = pol_group row \<and>
        match_tracked (pv_unicode v) (pv_is_digit v) (base_rows db) (pf_name p) (pf_own p) \<noteq> None) \<or>
     (\<exists>c \<in> set POLITICAL_CATEGORIES. memorial_of v (pol_group row) = Some c) \<or>
     (\<exists>a rows answer. ask_twice v classifier script again script' now (asked_profiles v (base_rows db) (politics_facts_of db))
          (politics_answers db) = (Inr a, rows) \<and>
        dict_get (pa_answers a) (pol_group row) = Some answer \<and> ma_value answer = ''political''))"
proof -
  let ?f = "politics_facts_of db" and ?base = "base_rows db"
  obtain a rows where asked: "ask_twice v classifier script again script' now (asked_profiles v ?base ?f) (politics_answers db) = (Inr a, rows)"
    and written: "politics_rows db' = verdict_rows_of (Option.is_none classifier) v ?base ?f a"
    using find_politics_rows [OF assms(1)] by blast
  obtain x where x: "row = decided_row ?f (held_back ?f x)"
      "x \<in> charged_row ` set (po_charged ?f) \<union> set (List.map_filter (settled_row v ?base) (not_charged ?f))
        \<union> answered_verdict (Option.is_none classifier) (pa_answers a) ` set (pa_items a)"
    using assms(2) unfolding written verdict_rows_of_def by auto
  have group: "pol_group row = pol_group x" by (simp add: x(1))
  show ?thesis
  proof (cases "dict_get (po_decided ?f) (pol_group x) = Some POLITICAL")
    case True
    then show ?thesis by (simp add: group)
  next
    case False
    then have free: "dict_get (po_decided ?f) (pol_group x) = None" "\<not> unknown_person ?f (pol_group x)" "pol_verdict x = POLITICAL"
      using final_political [OF assms(3) [unfolded x(1)]] by blast+
    consider (charged) i article quote where "x = charged_row (i, article, quote)" "(i, article, quote) \<in> set (po_charged ?f)"
      | (settled) p where "settled_row v ?base p = Some x" "p \<in> set (not_charged ?f)"
      | (answered) item where "x = answered_verdict (Option.is_none classifier) (pa_answers a) item" "item \<in> set (pa_items a)"
      using x(2) unfolding Un_iff in_map_filter by auto
    then show ?thesis
    proof cases
      case charged
      then obtain c where "c \<in> set (charges (group_tables db))" "charge_group c = i" "charge_article c \<in> set POLITICAL_ARTICLES"
        using first_charges_in by (fastforce simp: politics_facts_of_def Let_def)
      then show ?thesis using free charged(1) unfolding group by auto
    next
      case settled
      then have "p \<in> set (po_figurants ?f)" by (simp add: not_charged_def)
      then show ?thesis using settled_row_political [OF settled(1) free(3)] free(1,2) unfolding group by metis
    next
      case answered
      then show ?thesis using answered_political free asked unfolding group by fastforce
    qed
  qed
qed

section \<open>A person's word on a verdict\<close>

lemma profile_of_group:
  assumes "g \<in> set (groups db)" and "r \<in> set (roles db)" and "role_group r = group_id g" and "role_name r = FIGURANT"
  shows "\<exists>p \<in> set (figurant_profiles db). pf_id p = group_id g \<and> pf_key p = group_key g"
proof -
  have "find (\<lambda>r. role_group r = group_id g \<and> role_name r = FIGURANT) (roles db) \<noteq> None"
    using assms(2-4) by (auto simp: find_None_iff)
  then obtain r' where "find (\<lambda>r. role_group r = group_id g \<and> role_name r = FIGURANT) (roles db) = Some r'" by blast
  then show ?thesis unfolding figurant_profiles_def in_map_filter Bex_def using assms(1) by fastforce
qed

lemma profiles_are_groups:
  "p \<in> set (figurant_profiles db) \<Longrightarrow> \<exists>g \<in> set (groups db). pf_id p = group_id g \<and> pf_key p = group_key g"
proof -
  assume "p \<in> set (figurant_profiles db)"
  then obtain g where "g \<in> set (groups db)" "pf_id p = group_id g" "pf_key p = group_key g"
    unfolding figurant_profiles_def in_map_filter by (auto split: option.splits)
  then show ?thesis by blast
qed

lemma profile_keys_distinct:
  assumes "distinct (map group_id (groups db))" and "distinct (map group_key (groups db))"
  shows "distinct (map pf_key (figurant_profiles db))"
proof -
  have "distinct (figurant_profiles db)" using profile_ids_distinct [OF assms(1)] by (simp add: distinct_map)
  moreover have "p = q" if p: "p \<in> set (figurant_profiles db)" and q: "q \<in> set (figurant_profiles db)" and same: "pf_key p = pf_key q" for p q
  proof -
    obtain g h where "g \<in> set (groups db)" "pf_id p = group_id g" "pf_key p = group_key g"
        "h \<in> set (groups db)" "pf_id q = group_id h" "pf_key q = group_key h"
      using profiles_are_groups p q by metis
    then have "pf_id p = pf_id q" using same assms(2) by (metis distinct_map inj_on_def)
    then show ?thesis using profile_ids_distinct [OF assms(1)] p q by (metis distinct_map inj_on_def)
  qed
  ultimately show ?thesis by (auto simp: distinct_map inj_on_def)
qed

text \<open>
  A person's verdict outlives every run: what was decided on a figurant is what every later
  run writes for it, over the article, the base, the registry and the model, though the case be
  one the run would hold back for a person named by one word.
\<close>

theorem a_verdict_outlives_the_run:
  assumes "decide_politics (group_id g, group_key g) verdict db = (Inr (), db1)"
    and "find_politics v classifier script again script' now db1 = (Inr res, db2)"
    and "g \<in> set (groups (group_tables db))" and "r \<in> set (roles (group_tables db))"
    and "role_group r = group_id g" and "role_name r = FIGURANT"
    and "distinct (map group_id (groups (group_tables db)))" and "distinct (map group_key (groups (group_tables db)))"
    and "distinct (dict_keys (verdict_rows db))"
  shows "\<exists>row \<in> set (politics_rows db2). pol_group row = group_id g \<and> pol_verdict row = verdict \<and> pol_method row = MANUAL"
proof -
  have taken: "verdict_rows db1 = dict_set (group_key g) verdict (verdict_rows db)" "group_tables db1 = group_tables db"
    using assms(1) by (auto simp: decide_politics_def Let_def split: if_splits)
  let ?f = "politics_facts_of db1" and ?ps = "figurant_profiles (group_tables db)"
  obtain p where p: "p \<in> set ?ps" "pf_id p = group_id g" "pf_key p = group_key g"
    using profile_of_group [OF assms(3-6)] by blast
  have "(group_id g, group_key g) \<in> set (map (\<lambda>p. (pf_id p, pf_key p)) ?ps)" using p by force
  moreover have "distinct (map fst (map (\<lambda>p. (pf_id p, pf_key p)) ?ps))" "distinct (map snd (map (\<lambda>p. (pf_id p, pf_key p)) ?ps))"
    using profile_ids_distinct [OF assms(7)] profile_keys_distinct [OF assms(7,8)] by (simp_all add: comp_def)
  moreover have "dict_get (verdict_rows db1) (group_key g) = Some verdict" "distinct (dict_keys (verdict_rows db1))"
    using distinct_dict_set [OF assms(9)] by (simp_all add: taken dict_get_set)
  ultimately have decided: "dict_get (po_decided ?f) (group_id g) = Some verdict"
    using exact_decision [of "verdict_rows db1"] unfolding role_decisions_def
    by (simp add: politics_facts_of_def politics_decisions_def Let_def taken(2))
  obtain a rows where asked: "ask_twice v classifier script again script' now (asked_profiles v (base_rows db1) ?f) (politics_answers db1) = (Inr a, rows)"
    and written: "politics_rows db2 = verdict_rows_of (Option.is_none classifier) v (base_rows db1) ?f a"
    using find_politics_rows [OF assms(2)] by blast
  have "mset (map pol_group (politics_rows db2)) = mset (map pf_id ?ps)"
    using verdicts_of_figurants [OF assms(2)] assms(7) taken(2) by simp
  then have "group_id g \<in> set (map pol_group (politics_rows db2))"
    using p by (metis image_eqI list.set_map set_mset_mset)
  then obtain row where row: "row \<in> set (politics_rows db2)" "pol_group row = group_id g" by auto
  then obtain x where x: "row = decided_row ?f (held_back ?f x)" unfolding written verdict_rows_of_def set_map comp_def by blast
  then have "dict_get (po_decided ?f) (pol_group (held_back ?f x)) = Some verdict" using row(2) decided by (simp only: row_groups)
  then have "pol_verdict row = verdict \<and> pol_method row = MANUAL" unfolding x decided_row_def by simp
  then show ?thesis using row by blast
qed

section \<open>Figurants no more\<close>

text \<open>
  A person marked an official, or decided to be no figurant, has no verdict left, and nobody
  else's verdict goes.
\<close>

lemma marked_official_leaves_the_result:
  "downstream (tables (mark_official role_withdrawn (i, key) True db)) = filter (\<lambda>r. pol_group r \<noteq> i) (downstream (tables db))"
  by (simp add: mark_official_def withdraw_def role_withdrawn_def Let_def)

lemma decided_mentioned_leaves_the_result:
  "decide_role role_withdrawn (i, key) MENTIONED db = (Inr (), db') \<Longrightarrow>
     downstream (tables db') = filter (\<lambda>r. pol_group r \<noteq> i) (downstream (tables db))"
  by (auto simp: decide_role_def withdraw_def role_withdrawn_def Let_def split: if_splits)

section \<open>Concrete runs\<close>

definition quiet_view :: politics_view where
  "quiet_view = \<lparr>pv_unicode = russian, pv_is_digit = (\<lambda>c. 48 \<le> c \<and> c \<le> 57), pv_digest = (\<lambda>_. ''h''), pv_quotes = [],
     pv_memorial = [], pv_wide = (\<lambda>_. [])\<rparr>"

definition one_figurant :: "nat politics_db" where
  "one_figurant = \<lparr>group_tables = (tables two_people)\<lparr>roles :=
       [\<lparr>role_group = 1, role_name = FIGURANT, role_kind = None, role_method = ''article'', role_reason = [], role_quote = []\<rparr>]\<rparr>,
     politics_rows = [], verdict_rows = [], politics_answers = [], base_rows = []\<rparr>"

lemma one_figurant_run:
  "\<exists>res db. find_politics quiet_view None [] None [] 7 one_figurant = (Inr res, db) \<and>
     map (\<lambda>r. (pol_group r, pol_verdict r)) (politics_rows db) = [(1, POLITICAL)]"
proof -
  have "(case find_politics quiet_view None [] None [] 7 one_figurant of
      (Inr res, db) \<Rightarrow> map (\<lambda>r. (pol_group r, pol_verdict r)) (politics_rows db) = [(1, POLITICAL)] | _ \<Rightarrow> False)" by code_simp
  then show ?thesis by (auto split: prod.splits sum.splits)
qed

lemma one_figurant_ids: "map group_id (groups (group_tables one_figurant)) = [2, 1]"
  by (simp add: one_figurant_def two_people_def plain_group_def)

theorem every_figurant_has_one_verdict_witness:
  "\<exists>res db. find_politics quiet_view None [] None [] 7 one_figurant = (Inr res, db) \<and>
     map pol_group (politics_rows db) = [1] \<and> pr_figurants res = 1"
proof -
  obtain res db where run: "find_politics quiet_view None [] None [] 7 one_figurant = (Inr res, db)"
    and rows: "map (\<lambda>r. (pol_group r, pol_verdict r)) (politics_rows db) = [(1, POLITICAL)]"
    using one_figurant_run by metis
  have "map pol_group (politics_rows db) = [1]" using arg_cong [OF rows, of "map fst"] by (simp add: comp_def)
  moreover have "length (politics_rows db) = 1" using arg_cong [OF rows, of length] by simp
  moreover have "pr_figurants res = length (politics_rows db)"
    using every_figurant_has_one_verdict [OF run] one_figurant_ids by simp
  ultimately show ?thesis using run by (metis (no_types))
qed

theorem a_political_case_has_a_ground_witness:
  "\<exists>res db row. find_politics quiet_view None [] None [] 7 one_figurant = (Inr res, db) \<and> row \<in> set (politics_rows db) \<and>
     pol_verdict row = POLITICAL \<and>
     (\<exists>c \<in> set (charges (group_tables one_figurant)). charge_group c = 1 \<and> charge_article c \<in> set POLITICAL_ARTICLES)"
proof -
  obtain res db where run: "find_politics quiet_view None [] None [] 7 one_figurant = (Inr res, db)"
    and rows: "map (\<lambda>r. (pol_group r, pol_verdict r)) (politics_rows db) = [(1, POLITICAL)]"
    using one_figurant_run by metis
  then obtain row where row: "row \<in> set (politics_rows db)" "pol_group row = 1" "pol_verdict row = POLITICAL" by fastforce
  have "po_decided (politics_facts_of one_figurant) = []" by code_simp
  moreover have "\<forall>p \<in> set (po_figurants (politics_facts_of one_figurant)).
      match_tracked (pv_unicode quiet_view) (pv_is_digit quiet_view) (base_rows one_figurant) (pf_name p) (pf_own p) = None" by code_simp
  moreover have "memorial_of quiet_view 1 = None" by code_simp
  moreover have "(case ask_twice quiet_view None [] None [] 7 (asked_profiles quiet_view (base_rows one_figurant) (politics_facts_of one_figurant))
      (politics_answers one_figurant) of (Inr a, _) \<Rightarrow> pa_answers a = [] | _ \<Rightarrow> False)" by code_simp
  ultimately have "\<exists>c \<in> set (charges (group_tables one_figurant)). charge_group c = 1 \<and> charge_article c \<in> set POLITICAL_ARTICLES"
    using a_political_case_has_a_ground [OF run row(1,3)] by (auto simp: row(2) dict_get_def)
  then show ?thesis using run row by blast
qed

definition called_criminal :: "nat politics_db" where
  "called_criminal = snd (decide_politics (1, ru ''ivan ivanov'') CRIMINAL one_figurant)"

theorem a_verdict_outlives_the_run_witness:
  "\<exists>res db. find_politics quiet_view None [] None [] 7 called_criminal = (Inr res, db) \<and>
     (\<exists>row \<in> set (politics_rows db). pol_group row = 1 \<and> pol_verdict row = CRIMINAL \<and> pol_method row = MANUAL)"
proof -
  let ?g = "plain_group 1 (ru ''ivan ivanov'')"
  let ?r = "\<lparr>role_group = 1, role_name = FIGURANT, role_kind = None, role_method = ''article'', role_reason = [], role_quote = []\<rparr>"
  have taken: "decide_politics (group_id ?g, group_key ?g) CRIMINAL one_figurant = (Inr (), called_criminal)"
    by (simp add: called_criminal_def plain_group_def decide_politics_def Let_def CRIMINAL_def POLITICAL_def)
  have "(case find_politics quiet_view None [] None [] 7 called_criminal of (Inr _, _) \<Rightarrow> True | _ \<Rightarrow> False)" by code_simp
  then obtain res db where run: "find_politics quiet_view None [] None [] 7 called_criminal = (Inr res, db)" by (auto split: prod.splits sum.splits)
  have "?g \<in> set (groups (group_tables one_figurant))" "?r \<in> set (roles (group_tables one_figurant))" "role_group ?r = group_id ?g"
      "role_name ?r = FIGURANT" "distinct (map group_id (groups (group_tables one_figurant)))" "distinct (dict_keys (verdict_rows one_figurant))"
    by (simp_all add: one_figurant_def two_people_def plain_group_def dict_keys_def)
  moreover have "distinct (map group_key (groups (group_tables one_figurant)))" by code_simp
  ultimately have "\<exists>row \<in> set (politics_rows db). pol_group row = group_id ?g \<and> pol_verdict row = CRIMINAL \<and> pol_method row = MANUAL"
    using a_verdict_outlives_the_run [OF taken run] by blast
  then show ?thesis using run by (auto simp: plain_group_def)
qed

definition tracked_base :: "(ustr \<times> ustr option) list" where
  "tracked_base = [(ru ''ivanov ivan petroviC'', Some (ru ''st. 228 uk rf, st. 30 uk rf'')), (ru ''petrov petr'', None)]"

lemma tracked_base_match:
  "match_tracked russian (\<lambda>c. 48 \<le> c \<and> c \<le> 57) tracked_base (ru ''ivan ivanov'') [ascii ''228''] =
     Some \<lparr>tc_name = ru ''ivanov ivan petroviC'', tc_articles = [ascii ''228''], tc_full_name = False\<rparr>"
  by code_simp

theorem a_tracked_case_is_the_one_record_witness:
  "\<exists>c. match_tracked russian (\<lambda>c. 48 \<le> c \<and> c \<le> 57) tracked_base (ru ''ivan ivanov'') [ascii ''228''] = Some c \<and>
     tc_articles c \<noteq> [] \<and> set (tc_articles c) \<subseteq> {ascii ''228''} - set NEUTRAL_ARTICLES"
  using a_tracked_case_is_the_one_record [OF tracked_base_match] tracked_base_match by auto

text \<open>
  A registry card whose category could not be read is off the registry for the rules: articles
  of common crime then settle the case unread.
\<close>

lemma an_unread_card_is_no_card:
  "memorial_of (quiet_view\<lparr>pv_memorial := [(1, None)]\<rparr>) 1 = memorial_of quiet_view 1"
  "map_option fst (settled_by_rules [ascii ''228''] None) = Some CRIMINAL"
  by code_simp+

end
