(* ===== verification/Spec2Isabelle.thy ===== *)
theory Spec2Isabelle
  imports Monitoring_Service Operation_Runs Resolution_Rerun Identity_Consistency Verdict_Stages Politics_Laws
begin

text \<open>
  court-monitor: a verification library of its core.

  The program finds politically persecuted people in the news. Sources are read document by
  document (package \<open>court-ingestion\<close>), mentions and events are extracted from each
  (\<open>court-processing: processing/extraction\<close>), mentions are resolved to persons
  (\<open>court-processing: persons\<close>) and, apart from that, gathered into the entities the
  operator's screens show (\<open>court-processing: processing/identity\<close>). The orchestrator
  (\<open>court-orchestrator\<close>) runs the stages, one run per scope, and the operator console
  starts the program's own commands as operations. \<open>court-core\<close> holds the vocabulary and the
  generic retry. Paths below are under \<open>src/packages\<close>.

  How the model is written. A function of the source is a function here, under its name where
  Isabelle allows it. What a function may raise is a value: an action \<open>('s, 'a) act\<close> of
  \<open>Prelude\<close> takes a state to a new state and either an exception of the datatype \<open>exn\<close>
  (\<open>Errors\<close>, with Python's class tree as the predicates that \<open>except\<close> clauses test) or a
  result. A table is a list of records; an insert appends with the next id, an update maps the
  rows a guard picks, a delete filters, and foreign keys with cascades are written out. A dict
  is an association list in insertion order. Text that the code takes apart by Unicode rules is
  a list of code points (\<open>ustr\<close>), with lower case, NFKC, blanks and letters from a record of
  parameters (\<open>unicode\<close>); other strings are HOL's. Python's integers, and the counters of the
  tables, are unbounded; ids are \<open>nat\<close>. Decimal scores are exact fractions.

  Theories and what they model.

  Shared. \<open>Prelude\<close>: actions, their laws under an order on states (locale \<open>state_order\<close>),
  guarded updates of tables, dictionaries, text. \<open>Errors\<close>: \<open>court-core: errors.py\<close>, the
  library exceptions the code names, \<open>orchestrator/models.py: FailureType\<close> and
  \<open>classify_failure\<close>. \<open>Transactions\<close>: one process on a database that others write to, any
  commit of which may also fail with nothing written. \<open>Fenced_Runs\<close>: locale \<open>fenced_runs\<close>,
  the discipline of the two run tables: at most one live run in a scope, and a row that has
  ended is never written again.

  Ingestion. \<open>Retry\<close>: \<open>monitor_core/retry.py\<close>, \<open>monitor_core/ingestion/retry.py\<close>; the loops
  recur on the attempts left, which bounds them. \<open>Discovery\<close>: \<open>discovery_pagination.py\<close>.
  \<open>Ingestion\<close>: \<open>website_adapter.py\<close>, \<open>monitor_core/ingestion/pipeline.py\<close> and
  \<open>source_ingestion.py\<close>, \<open>sqlalchemy_persistence.py\<close>, \<open>stored.py\<close>, \<open>service.py\<close>. Locale
  \<open>document_store\<close> states what a store of documents promises (a save replaces what was held
  under its key and nothing else, and saving twice changes nothing more); \<open>postgres\<close>
  interprets it on the three tables.

  Orchestration. \<open>Monitoring_Runs\<close>: \<open>orchestrator/repository.py\<close> over
  \<open>storage/models.py\<close>; \<open>monitoring\<close> interprets \<open>fenced_runs\<close>. \<open>Source_Health\<close>:
  \<open>source_health.py\<close>, its two signals against the reading of a source's whole history.
  \<open>Monitoring_Service\<close>: \<open>service.py\<close> and \<open>locks.py\<close>; locale \<open>run_law\<close> collects what every
  step of a run keeps, interpreted for the order other processes' commits induce and for the
  states the run owns. The modules a run calls are parameters over a state of their own.
  \<open>Operation_Commands\<close> and \<open>Operation_Runs\<close>: \<open>operations.py\<close>, the allowlisted command
  lines, the chain of steps, and the registry of operations with its worker; a process is
  given as its output at each missed wait and its two endings, so the wait loop ends.

  Entity resolution. \<open>Person_Names\<close>: \<open>persons/resolution/normalizer.py\<close>, \<open>models.py\<close>.
  \<open>Person_Features\<close>: \<open>features.py\<close>, \<open>scoring.py\<close>, \<open>aliases.py\<close>. \<open>Resolution_Decision\<close>:
  \<open>decision.py\<close>. \<open>AI_Review_Policy\<close>: \<open>ai_policy.py\<close>. \<open>Persons_Store\<close>: \<open>persistence.py\<close>
  over \<open>storage/models.py\<close>; locale \<open>owned_rows\<close> is what moving the rows of a merged person
  promises, interpreted for links and aliases. \<open>Extraction_Runs\<close>: \<open>processing/extraction\<close>
  (\<open>pipeline.py\<close>, \<open>validation.py\<close>, \<open>persistence.py\<close>). \<open>Person_Resolution\<close>:
  \<open>candidates.py\<close>, \<open>service.py\<close>, \<open>resolution_service.py\<close>, \<open>review.py\<close>, \<open>redecide.py\<close>.
  \<open>Person_Invariants\<close>, \<open>Extraction_Stored\<close> and \<open>Resolution_Rerun\<close> hold the invariant of
  all those tables, the round trip of a run's mentions and the idempotence of resolving.

  Identity. \<open>Union_Find\<close>: the parent forest with path halving that \<open>grouping.py\<close> and
  \<open>disputes.py\<close> share; \<open>find_root\<close> is a \<open>partial_function (option)\<close>, and every forest the
  code builds is shown to give \<open>Some\<close>. \<open>Name_Frequency\<close>: the dictionary of given names.
  \<open>Surname_Roots\<close>, \<open>Person_Grouping\<close>, \<open>Person_Merging\<close>: \<open>identity/grouping.py\<close>.
  \<open>Grouping_Laws\<close>, \<open>Grouping_Invariant\<close>, \<open>Namesakes\<close>: that keys spell out the person, the
  invariant of the two loops, and the properties that rest on it. \<open>Identity_Decisions\<close>:
  \<open>disputes.py\<close>, \<open>overrides.py\<close>, \<open>removals.py\<close> and the figurants an operator identified.
  \<open>Identity_Laws\<close>, \<open>Identity_Merges\<close>: locale \<open>regrouping\<close>, what each step of a rebuild owes
  (keys stay distinct, no mention appears or is doubled), interpreted for all seven steps, and
  the refinement of the decided merges by the closure of the decided pairs.
  \<open>Identity_Rebuild\<close>: \<open>collector.py\<close> from the mention rows to the entities.
  \<open>Identity_Tables\<close>, \<open>Identity_Consistency\<close>: the tables, the operator's changes between
  rebuilds as a step relation, and the invariant of everything reachable.

  Verdicts and findings. \<open>Evidence_Windows\<close>: the sentences, clauses and windows of
  \<open>analysis/persecution/classification_service.py\<close>; locale \<open>matching\<close> is what a regular
  expression's leftmost matches promise, interpreted for sentence ends and clause boundaries.
  \<open>Persecution\<close>: \<open>classifier.py\<close> and the rest of \<open>classification_service.py\<close>, over the evidence
  \<open>persons/read.py\<close> reads. \<open>Rosfin_Match\<close>: \<open>rosfinmonitoring/matcher.py\<close>. \<open>Verdict_Tables\<close>:
  \<open>matcher_persistence.py\<close>, \<open>persecution/queries.py\<close>, \<open>analysis/read.py\<close>, \<open>pending.py\<close>,
  \<open>court-results: candidates\<close> and \<open>findings.py\<close>. \<open>Findings\<close>: the unique keys of the three tables,
  what the main query lists, and an evaluation as the refinement of that query.
  \<open>Verdict_Stages\<close>: the stages as a step relation, each over whatever evidence and persons
  there are at its time, and what an active finding then rests on.

  Roles. \<open>Model_Answers\<close>: \<open>processing/answers.py\<close>, the cache of what a model said of the
  entities and the asking of what it lacks, over the batches in flight and their budget of
  \<open>court-platform: llm/chat.py\<close>; each round of \<open>ask_rounds\<close> takes at least one call out, which
  bounds it. \<open>Roles\<close>: \<open>processing/roles\<close>, the title before a name, the exclusion list and the
  commands that write it, a person's marks and decisions, and the run of step 4. \<open>Role_Laws\<close>:
  one role for each entity, the ground of a figurant, a person's word over what later runs
  find, and the refresh of the list. \<open>Known_Base\<close>: \<open>analysis/operator_base/known_base.py\<close>.
  \<open>Politics\<close>, \<open>Politics_Laws\<close>: \<open>analysis/politics/classification.py\<close>, the run of step 5 with its
  two askings: one verdict for each figurant, the ground of a political one, and the index of
  the base against a search of all its records.

  How the parts meet. \<open>Monitoring_Service\<close> runs \<open>Ingestion\<close>'s results through the run table;
  its transactions are those of \<open>Monitoring_Runs\<close>, with other processes' commits between
  them. \<open>Operation_Runs\<close> shares that database and \<open>Operation_Commands\<close>' command lines.
  \<open>Extraction_Runs\<close> and \<open>Person_Resolution\<close> write one set of tables, and
  \<open>Person_Invariants\<close> is about every operation of both. \<open>Identity_Rebuild\<close> composes
  \<open>Person_Grouping\<close>, \<open>Person_Merging\<close> and \<open>Identity_Decisions\<close> in the order of
  \<open>EntityCollector.run\<close>. \<open>Verdict_Stages\<close> composes the classifier, the matcher and the
  evaluation of findings over the persons of \<open>Persons_Store\<close>; the classifier's reading of the
  mention, event and article tables is a record of its own (\<open>evidence_db\<close>), since it reads
  offsets and texts that resolution does not. \<open>Roles\<close> works on the tables of
  \<open>Identity_Tables\<close>, with the keys of earlier rebuilds resolved as \<open>Identity_Decisions\<close> does,
  and asks through \<open>Model_Answers\<close>; \<open>Politics\<close> reads the roles it wrote and asks the same way, and
  its verdicts are what \<open>mark_official\<close> and \<open>decide_role\<close> withdraw downstream.

  Readings worth knowing. Sets are iterated in an order Python does not promise: where that
  can matter the order is a parameter (\<open>set_order\<close>), and the theorems hold for each. A batch
  of model answers is taken in whatever order the answers come. In \<open>merge_swap\<close> and
  \<open>move_mention\<close> a look-up that cannot miss leaves the state as it is, where Python would
  raise. \<open>attach_aliases\<close> keeps one shared counter of regions between an entity and its copy
  in the source; entities are values here, and the copy is not read again. A role name
  outside the four of \<open>_ROLE_RANK\<close>, a \<open>KeyError\<close> there, ranks lowest here; the table's
  writers use those four only. \<open>mention_count\<close>, \<open>article_count\<close> and the dates of a group
  are read back from the tables as the source reads them. A list of the published entries is
  never rewritten under its snapshot's id, so the stages share one. An evaluation's float
  arithmetic on scores is exact here. What SQL returns without an order comes in table order.

  Not modelled, and why. Sources' HTML and RSS parsers, the extractors' regular expressions,
  the morphology library, \<open>rapidfuzz\<close>, \<open>pg_trgm\<close> and language models are code outside the
  repository or text tables over it: parameters (\<open>text_tools\<close> holds Levenshtein's distance and
  \<open>ILIKE\<close> for the matcher). SQL that only reads for a screen, the web
  interface, the command line, tracing, logging, migrations and evaluation tools present or
  move data and decide nothing. The request gates of \<open>ingestion/concurrency.py\<close>, the
  matching of a model's reply to its items (\<open>normalizer.py\<close>), the service that runs AI
  reviews, the download of the Rosfinmonitoring list, the rest of the analysis of entity
  groups (case news, the list check) and the investigation graph stand apart from the above
  and have no model here. Of step 4 the model's prompt, the quotes' SQL, the widths of columns
  and the cost shown in a result are left out.
\<close>

end
